(* ===== verification/Anvil_Prelude.thy ===== *)
theory Anvil_Prelude
  imports Main "HOL-Library.Word" "HOL-Library.Char_ord" "HOL-Library.List_Lexorder"
begin

text \<open>
  Shared vocabulary of the Anvil development: Go's \<^verbatim>\<open>(value, error)\<close> results as sums with an
  early-return combinator, byte strings, machine-integer bounds, and the generic list and
  arithmetic lemmas the component theories rest on.

  Go strings and byte slices are both \<^typ>\<open>string\<close>: an Isabelle \<^typ>\<open>char\<close> is exactly one
  octet, so \<open>length\<close> is Go's \<^verbatim>\<open>len\<close>. Go's \<^verbatim>\<open>int\<close> and \<^verbatim>\<open>int64\<close> are \<^typ>\<open>int\<close>; where the source
  relies on 64-bit unsigned arithmetic the model uses \<^typ>\<open>64 word\<close>.
\<close>

named_theorems result_simps \<open>rewriting rules for Go results and early returns\<close>
named_theorems byte_simps \<open>byte-class predicates unfolded to comparisons of octets\<close>
named_theorems codec_simps \<open>round-trip equations of encoders and decoders\<close>

type_synonym byte = char
type_synonym bytes = string
type_synonym u64 = "64 word"

text \<open>Signed 64-bit arithmetic wraps; \<open>wrap64\<close> is the identity in range.\<close>

definition wrap64 :: "int \<Rightarrow> int" where
  "wrap64 x = sint (word_of_int x :: u64)"

lemma wrap64_id: "- (2 ^ 63) \<le> x \<Longrightarrow> x < 2 ^ 63 \<Longrightarrow> wrap64 x = x"
  by (simp add: wrap64_def sint_sbintrunc' signed_take_bit_int_eq_self)

subsection \<open>Results and early returns\<close>

text \<open>
  A Go function with result \<^verbatim>\<open>(T, error)\<close> is a function into \<open>'e + 'a\<close>; the idiom
  \<^verbatim>\<open>x, err := f(); if err != nil { return err }\<close> is \<open>andThen\<close>.
\<close>

definition andThen :: "'e + 'a \<Rightarrow> ('a \<Rightarrow> 'e + 'b) \<Rightarrow> 'e + 'b" where
  "andThen m f = (case m of Inl e \<Rightarrow> Inl e | Inr x \<Rightarrow> f x)"

lemma andThen_simps [simp, result_simps]:
  "andThen (Inl e) f = Inl e"
  "andThen (Inr x) f = f x"
  by (simp_all add: andThen_def)

lemma andThen_Inr_iff [result_simps]:
  "andThen m f = Inr y \<longleftrightarrow> (\<exists>x. m = Inr x \<and> f x = Inr y)"
  by (cases m) simp_all

lemma andThen_Inl_iff [result_simps]:
  "andThen m f = Inl e \<longleftrightarrow> m = Inl e \<or> (\<exists>x. m = Inr x \<and> f x = Inl e)"
  by (cases m) auto

lemma andThen_cong [fundef_cong]:
  "m = m' \<Longrightarrow> (\<And>x. m' = Inr x \<Longrightarrow> f x = f' x) \<Longrightarrow> andThen m f = andThen m' f'"
  by (cases m') simp_all

text \<open>A guard that returns an error when its condition holds.\<close>

definition failIf :: "bool \<Rightarrow> 'e \<Rightarrow> 'e + unit" where
  "failIf b e = (if b then Inl e else Inr ())"

lemma failIf_simps [simp, result_simps]:
  "failIf True e = Inl e"
  "failIf False e = Inr ()"
  "failIf b e = Inr u \<longleftrightarrow> \<not> b"
  "failIf b e = Inl e' \<longleftrightarrow> b \<and> e' = e"
  by (auto simp: failIf_def)

subsection \<open>Machine integers\<close>

definition maxInt64 :: int where
  "maxInt64 = 2 ^ 63 - 1"

definition minInt64 :: int where
  "minInt64 = - (2 ^ 63)"

subsection \<open>Lists\<close>

lemma takeWhile_dropWhile_neq:
  "c \<in> set s \<Longrightarrow> \<exists>r. dropWhile (\<lambda>x. x \<noteq> c) s = c # r"
  by (induction s) auto

lemma takeWhile_neq_append_hit [simp]:
  "c \<notin> set xs \<Longrightarrow> takeWhile (\<lambda>x. x \<noteq> c) (xs @ c # ys) = xs"
  by (induction xs) auto

lemma dropWhile_neq_append_hit [simp]:
  "c \<notin> set xs \<Longrightarrow> dropWhile (\<lambda>x. x \<noteq> c) (xs @ c # ys) = c # ys"
  by (induction xs) auto

lemma split_at_first:
  assumes "c \<in> set s"
  obtains p r where "s = p @ c # r" and "c \<notin> set p"
  using assms by (metis split_list_first)

lemma drop_Suc_length_append [simp]: "drop (Suc (length xs)) (xs @ y # ys) = ys"
  by (induction xs) auto

lemma length_filter_le_filter:
  "(\<And>x. x \<in> set xs \<Longrightarrow> P x \<Longrightarrow> Q x) \<Longrightarrow> length (filter P xs) \<le> length (filter Q xs)"
  by (induction xs) (auto simp: le_SucI)

lemma last_two:
  assumes "2 \<le> length xs"
  obtains ys a b where "xs = ys @ [a, b]"
proof -
  from assms obtain zs b where zs: "xs = zs @ [b]" by (cases xs rule: rev_cases) auto
  with assms obtain ys a where "zs = ys @ [a]" by (cases zs rule: rev_cases) auto
  with zs that show ?thesis by simp
qed

end
