(* ===== verification/Go_Strings.thy ===== *)
theory Go_Strings
  imports Anvil_Prelude
begin

text \<open>
  The functions of Go's \<^verbatim>\<open>strings\<close>, \<^verbatim>\<open>bytes\<close>, \<^verbatim>\<open>strconv\<close> and \<^verbatim>\<open>unicode\<close> packages that Anvil
  calls, over byte strings. Those that inspect runes are written on the UTF-8 encoding: white
  space includes the multi-byte Unicode spaces, and \<^verbatim>\<open>strings.EqualFold\<close> knows the two
  non-ASCII runes that fold to ASCII letters. Its second argument is an ASCII literal or an
  HTTP token at every call in Anvil; \<open>ToLower\<close> is only applied to HTTP tokens.
\<close>

subsection \<open>Searching, slicing and splitting\<close>

text \<open>\<^verbatim>\<open>strings.IndexByte\<close> and \<^verbatim>\<open>bytes.IndexByte\<close>: -1 when the byte is absent.\<close>

fun IndexByte :: "string \<Rightarrow> byte \<Rightarrow> int" where
  "IndexByte [] c = -1"
| "IndexByte (x # xs) c =
     (if x = c then 0 else let i = IndexByte xs c in if i < 0 then -1 else i + 1)"

lemma IndexByte_eq:
  "IndexByte s c = (if c \<in> set s then int (length (takeWhile (\<lambda>x. x \<noteq> c) s)) else -1)"
  by (induction s) (auto simp: Let_def)

lemma IndexByte_neg_iff: "IndexByte s c < 0 \<longleftrightarrow> c \<notin> set s"
  by (simp add: IndexByte_eq)

lemma IndexByte_append_hit [simp]:
  "c \<notin> set p \<Longrightarrow> IndexByte (p @ c # r) c = int (length p)"
  by (simp add: IndexByte_eq)

lemma IndexByte_nonneg_split:
  assumes "0 \<le> IndexByte s c"
  obtains p r where "s = p @ c # r" and "c \<notin> set p" and "IndexByte s c = int (length p)"
proof -
  from assms have "c \<in> set s" by (metis IndexByte_neg_iff not_less)
  then obtain p r where "s = p @ c # r" "c \<notin> set p" by (rule split_at_first)
  with that show ?thesis by simp
qed

text \<open>\<^verbatim>\<open>strings.LastIndexByte\<close>.\<close>

definition LastIndexByte :: "string \<Rightarrow> byte \<Rightarrow> int" where
  "LastIndexByte s c =
     (let i = IndexByte (rev s) c in if i < 0 then -1 else int (length s) - 1 - i)"

text \<open>\<^verbatim>\<open>strings.Contains\<close>.\<close>

fun Contains :: "string \<Rightarrow> string \<Rightarrow> bool" where
  "Contains [] substr \<longleftrightarrow> substr = []"
| "Contains (c # s) substr \<longleftrightarrow> take (length substr) (c # s) = substr \<or> Contains s substr"

text \<open>\<^verbatim>\<open>strings.Split\<close> and \<^verbatim>\<open>bytes.Split\<close> with a one-byte separator.\<close>

fun Split :: "byte \<Rightarrow> string \<Rightarrow> string list" where
  "Split c [] = [[]]"
| "Split c (x # xs) =
     (if x = c then [] # Split c xs
      else case Split c xs of [] \<Rightarrow> [[x]] | p # ps \<Rightarrow> (x # p) # ps)"

lemma Split_nonempty [simp]: "Split c s \<noteq> []"
  by (induction s) (auto split: list.splits)

lemma Split_notin: "c \<notin> set s \<Longrightarrow> Split c s = [s]"
  by (induction s) auto

lemma Split_append_hit: "c \<notin> set p \<Longrightarrow> Split c (p @ c # r) = p # Split c r"
  by (induction p) auto

lemma Split_parts_notin: "p \<in> set (Split c s) \<Longrightarrow> c \<notin> set p"
  by (induction s arbitrary: p) (auto split: list.splits if_splits)

lemma Split_parts_subset: "p \<in> set (Split c s) \<Longrightarrow> set p \<subseteq> set s"
  by (induction s arbitrary: p) (fastforce split: list.splits if_splits)+

text \<open>\<^verbatim>\<open>strings.Join\<close>.\<close>

fun Join :: "string list \<Rightarrow> string \<Rightarrow> string" where
  "Join [] sep = []"
| "Join [x] sep = x"
| "Join (x # y # xs) sep = x @ sep @ Join (y # xs) sep"

lemma Split_Join: "Join (Split c s) [c] = s"
proof (induction s)
  case Nil
  then show ?case by simp
next
  case (Cons x xs)
  obtain p ps where sp: "Split c xs = p # ps" by (cases "Split c xs") auto
  show ?case
  proof (cases "x = c")
    case True
    with Cons sp show ?thesis by simp
  next
    case False
    with Cons sp show ?thesis by (cases ps) auto
  qed
qed

lemma Join_Split:
  "ps \<noteq> [] \<Longrightarrow> (\<And>p. p \<in> set ps \<Longrightarrow> c \<notin> set p) \<Longrightarrow> Split c (Join ps [c]) = ps"
proof (induction ps "[c]" rule: Join.induct)
  case (2 x)
  then show ?case by (simp add: Split_notin)
next
  case (3 x y xs)
  then show ?case by (simp add: Split_append_hit)
qed simp

subsection \<open>ASCII case\<close>

definition toLowerByte :: "byte \<Rightarrow> byte" where
  "toLowerByte c =
     (if CHR ''A'' \<le> c \<and> c \<le> CHR ''Z'' then char_of (of_char c + 32 :: nat) else c)"

lemma toLowerByte_idem [simp]: "toLowerByte (toLowerByte c) = toLowerByte c"
  by (auto simp: toLowerByte_def less_eq_char_def)

definition ToLower :: "string \<Rightarrow> string" where
  "ToLower s = map toLowerByte s"

lemma ToLower_idem [simp]: "ToLower (ToLower s) = ToLower s"
  by (simp add: ToLower_def)

definition isASCII :: "byte \<Rightarrow> bool" where
  [byte_simps]: "isASCII c \<longleftrightarrow> c \<le> CHR 0x7F"

text \<open>
  \<^verbatim>\<open>strings.EqualFold(s, t)\<close> for an ASCII \<open>t\<close>. Besides the two ASCII cases of a letter, Unicode
  simple folding relates \<^verbatim>\<open>U+212A KELVIN SIGN\<close> (bytes E2 84 AA) to \<^verbatim>\<open>k\<close> and
  \<^verbatim>\<open>U+017F LATIN SMALL LETTER LONG S\<close> (bytes C5 BF) to \<^verbatim>\<open>s\<close>.
\<close>

fun EqualFold :: "string \<Rightarrow> string \<Rightarrow> bool" where
  "EqualFold [] t \<longleftrightarrow> t = []"
| "EqualFold (c # s) [] \<longleftrightarrow> False"
| "EqualFold (c # s) (d # t) \<longleftrightarrow>
     (if toLowerByte c = toLowerByte d then EqualFold s t
      else if c = CHR 0xE2 \<and> take 2 s = [CHR 0x84, CHR 0xAA] \<and> toLowerByte d = CHR ''k''
        then EqualFold (drop 2 s) t
      else if c = CHR 0xC5 \<and> take 1 s = [CHR 0xBF] \<and> toLowerByte d = CHR ''s''
        then EqualFold (drop 1 s) t
      else False)"

lemma EqualFold_ascii:
  "list_all isASCII s \<Longrightarrow> EqualFold s t \<longleftrightarrow> ToLower s = ToLower t"
  by (induction s t rule: EqualFold.induct)
     (auto simp: ToLower_def isASCII_def less_eq_char_def)

lemma EqualFold_refl [simp]: "EqualFold s s"
  by (induction s) auto

subsection \<open>White space\<close>

text \<open>The UTF-8 encodings of the runes for which \<^verbatim>\<open>unicode.IsSpace\<close> holds.\<close>

definition spaceRunes :: "string list" where
  "spaceRunes =
     [[CHR 0x09], [CHR 0x0A], [CHR 0x0B], [CHR 0x0C], [CHR 0x0D], [CHR 0x20],
      [CHR 0xC2, CHR 0x85], [CHR 0xC2, CHR 0xA0], [CHR 0xE1, CHR 0x9A, CHR 0x80],
      [CHR 0xE2, CHR 0x80, CHR 0x80], [CHR 0xE2, CHR 0x80, CHR 0x81],
      [CHR 0xE2, CHR 0x80, CHR 0x82], [CHR 0xE2, CHR 0x80, CHR 0x83],
      [CHR 0xE2, CHR 0x80, CHR 0x84], [CHR 0xE2, CHR 0x80, CHR 0x85],
      [CHR 0xE2, CHR 0x80, CHR 0x86], [CHR 0xE2, CHR 0x80, CHR 0x87],
      [CHR 0xE2, CHR 0x80, CHR 0x88], [CHR 0xE2, CHR 0x80, CHR 0x89],
      [CHR 0xE2, CHR 0x80, CHR 0x8A], [CHR 0xE2, CHR 0x80, CHR 0xA8],
      [CHR 0xE2, CHR 0x80, CHR 0xA9], [CHR 0xE2, CHR 0x80, CHR 0xAF],
      [CHR 0xE2, CHR 0x81, CHR 0x9F], [CHR 0xE3, CHR 0x80, CHR 0x80]]"

fun stripOne :: "string list \<Rightarrow> string \<Rightarrow> string option" where
  "stripOne [] s = None"
| "stripOne (w # ws) s =
     (if w \<noteq> [] \<and> take (length w) s = w then Some (drop (length w) s) else stripOne ws s)"

lemma stripOne_shorter: "stripOne ws s = Some r \<Longrightarrow> length r < length s"
proof (induction ws)
  case (Cons w ws)
  then show ?case by (cases s; cases w) (auto split: if_splits)
qed simp

function trimLeftWords :: "string list \<Rightarrow> string \<Rightarrow> string" where
  "trimLeftWords ws s = (case stripOne ws s of None \<Rightarrow> s | Some r \<Rightarrow> trimLeftWords ws r)"
  by pat_completeness auto
termination
  by (relation "measure (\<lambda>(ws, s). length s)") (auto simp: stripOne_shorter)

declare trimLeftWords.simps [simp del]

text \<open>\<^verbatim>\<open>strings.TrimSpace\<close>: leading runes from the left, trailing runes from the right.\<close>

definition TrimSpace :: "string \<Rightarrow> string" where
  "TrimSpace s =
     rev (trimLeftWords (map rev spaceRunes) (rev (trimLeftWords spaceRunes s)))"

text \<open>Visible ASCII bytes are untouched by trimming.\<close>

definition visibleByte :: "byte \<Rightarrow> bool" where
  [byte_simps]: "visibleByte c \<longleftrightarrow> CHR 0x21 \<le> c \<and> c \<le> CHR 0x7E"

lemma stripOne_None:
  "list_all (\<lambda>w. w \<noteq> [] \<and> \<not> P (hd w)) ws \<Longrightarrow> list_all P s \<Longrightarrow> stripOne ws s = None"
proof (induction ws)
  case (Cons w ws)
  have "take (length w) s \<noteq> w"
  proof
    assume eq: "take (length w) s = w"
    from Cons.prems have w: "w \<noteq> []" "\<not> P (hd w)" by auto
    with eq have "hd w = hd s" "s \<noteq> []" by (metis hd_take length_greater_0_conv, auto)
    with Cons.prems w show False by (metis list.set_sel(1) list_all_iff)
  qed
  with Cons show ?case by simp
qed simp

lemma spaceRunes_invisible:
  "list_all (\<lambda>w. w \<noteq> [] \<and> \<not> visibleByte (hd w)) spaceRunes"
  "list_all (\<lambda>w. w \<noteq> [] \<and> \<not> visibleByte (hd w)) (map rev spaceRunes)"
  by code_simp+

lemmas stripOne_spaceRunes_visible = stripOne_None [OF spaceRunes_invisible(1)]
lemmas stripOne_rev_spaceRunes_visible = stripOne_None [OF spaceRunes_invisible(2)]

lemma TrimSpace_visible [simp]: "list_all visibleByte s \<Longrightarrow> TrimSpace s = s"
  by (simp add: TrimSpace_def trimLeftWords.simps [of spaceRunes s]
      trimLeftWords.simps [of "map rev spaceRunes" "rev s"]
      stripOne_spaceRunes_visible stripOne_rev_spaceRunes_visible)

lemma TrimSpace_Nil [simp]: "TrimSpace [] = []"
  by (rule TrimSpace_visible) simp

text \<open>\<^verbatim>\<open>bytes.Trim(value, cutset)\<close> for an ASCII cutset.\<close>

definition TrimCut :: "(byte \<Rightarrow> bool) \<Rightarrow> string \<Rightarrow> string" where
  "TrimCut P s = rev (dropWhile P (rev (dropWhile P s)))"

lemma TrimCut_id:
  "s = [] \<or> (\<not> P (hd s) \<and> \<not> P (last s)) \<Longrightarrow> TrimCut P s = s"
proof -
  assume h: "s = [] \<or> (\<not> P (hd s) \<and> \<not> P (last s))"
  have d: "dropWhile P t = t" if "t = [] \<or> \<not> P (hd t)" for t
    using that by (cases t) auto
  show ?thesis
  proof (cases "s = []")
    case False
    with h have "dropWhile P s = s" by (simp add: d)
    moreover from h False have "dropWhile P (rev s) = rev s" by (simp add: d hd_rev)
    ultimately show ?thesis by (simp add: TrimCut_def)
  qed (simp add: TrimCut_def)
qed

lemma TrimCut_Nil [simp]: "TrimCut P [] = []"
  by (simp add: TrimCut_def)

lemma TrimCut_set: "set (TrimCut P s) \<subseteq> set s"
  by (auto simp: TrimCut_def dest!: set_dropWhileD)

lemma TrimCut_idem [simp]: "TrimCut P (TrimCut P s) = TrimCut P s"
proof (cases "TrimCut P s = []")
  case False
  let ?t = "dropWhile P s"
  let ?u = "dropWhile P (rev ?t)"
  from False have u: "?u \<noteq> []" by (simp add: TrimCut_def)
  then have "\<not> P (last (rev ?u))" by (simp add: last_rev hd_dropWhile)
  moreover have "\<not> P (hd (rev ?u))"
  proof -
    from u obtain v where "rev ?t = v @ ?u" by (metis takeWhile_dropWhile_id)
    then have t: "?t = rev ?u @ rev v" by (metis rev_append rev_rev_ident)
    with u have "hd ?t = hd (rev ?u)" by (metis hd_append2 rev_is_Nil_conv)
    moreover from t u have "?t \<noteq> []" by (metis append_is_Nil_conv rev_is_Nil_conv)
    ultimately show ?thesis by (metis hd_dropWhile)
  qed
  ultimately show ?thesis
    unfolding TrimCut_def [of P s] by (intro TrimCut_id) simp
qed simp

subsection \<open>Numbers\<close>

text \<open>The digits of \<^verbatim>\<open>strconv.FormatInt\<close> for bases up to 16.\<close>

definition digitChar :: "nat \<Rightarrow> byte" where
  "digitChar d = ''0123456789abcdef'' ! d"

fun formatUint :: "nat \<Rightarrow> nat \<Rightarrow> string" where
  "formatUint b n =
     (if n < b \<or> b < 2 then [digitChar n] else formatUint b (n div b) @ [digitChar (n mod b)])"

declare formatUint.simps [simp del]

text \<open>\<^verbatim>\<open>strconv.Itoa\<close> of a non-negative number.\<close>

definition Itoa :: "nat \<Rightarrow> string" where
  "Itoa n = formatUint 10 n"

definition isDecimal :: "byte \<Rightarrow> bool" where
  [byte_simps]: "isDecimal c \<longleftrightarrow> CHR ''0'' \<le> c \<and> c \<le> CHR ''9''"

definition decimalValue :: "byte \<Rightarrow> nat" where
  "decimalValue c = of_char c - 48"

text \<open>
  \<^verbatim>\<open>strconv.ParseUint(s, 10, bits)\<close>: decimal digits only, and a range error from \<open>2 ^ bits\<close> on.
\<close>

definition ParseUint :: "nat \<Rightarrow> string \<Rightarrow> nat option" where
  "ParseUint bits s =
     (if s = [] \<or> \<not> list_all isDecimal s then None
      else let v = foldl (\<lambda>a c. a * 10 + decimalValue c) 0 s
           in if v < 2 ^ bits then Some v else None)"

text \<open>The same computed over \<^typ>\<open>int\<close>, for evaluation.\<close>

lemma ParseUint_int [code]:
  "ParseUint bits s =
     (if s = [] \<or> \<not> list_all isDecimal s then None
      else let v = foldl (\<lambda>a c. a * 10 + int (decimalValue c)) 0 s
           in if v < 2 ^ bits then Some (nat v) else None)"
proof -
  have f: "foldl (\<lambda>a c. a * 10 + int (decimalValue c)) (int a) s =
      int (foldl (\<lambda>a c. a * 10 + decimalValue c) a s)" for a
  proof (induction s arbitrary: a)
    case (Cons c s)
    from Cons [of "a * 10 + decimalValue c"] show ?case by simp
  qed simp
  from f [of 0] have g: "foldl (\<lambda>a c. a * 10 + int (decimalValue c)) 0 s =
      int (foldl (\<lambda>a c. a * 10 + decimalValue c) 0 s)" by simp
  have h: "int v < 2 ^ bits \<longleftrightarrow> v < 2 ^ bits" for v
    by (metis of_nat_less_iff of_nat_numeral of_nat_power)
  show ?thesis by (simp add: ParseUint_def Let_def g h)
qed

lemma digit_cases:
  assumes "d < (16::nat)"
  obtains "d = 0" | "d = 1" | "d = 2" | "d = 3" | "d = 4" | "d = 5" | "d = 6" | "d = 7"
    | "d = 8" | "d = 9" | "d = 10" | "d = 11" | "d = 12" | "d = 13" | "d = 14" | "d = 15"
  using assms by (auto simp: numeral_eq_Suc less_Suc_eq)

lemma isDecimal_digitChar [simp]: "d < 10 \<Longrightarrow> isDecimal (digitChar d)"
  by (rule digit_cases [of d]) (auto simp: digitChar_def isDecimal_def)

lemma decimalValue_digitChar [simp]: "d < 10 \<Longrightarrow> decimalValue (digitChar d) = d"
  by (rule digit_cases [of d]) (auto simp: digitChar_def decimalValue_def)

lemma formatUint_nonempty [simp]: "formatUint b n \<noteq> []"
  by (subst formatUint.simps) simp

lemma formatUint_10_decimal: "list_all isDecimal (formatUint 10 n)"
proof (induction n rule: less_induct)
  case (less n)
  show ?case
  proof (cases "n < 10")
    case True
    then show ?thesis by (subst formatUint.simps) simp
  next
    case False
    then have "list_all isDecimal (formatUint 10 (n div 10))" by (intro less) simp
    with False show ?thesis by (subst formatUint.simps) simp
  qed
qed

lemma foldl_formatUint_10:
  "foldl (\<lambda>a c. a * 10 + decimalValue c) 0 (formatUint 10 n) = n"
proof (induction n rule: less_induct)
  case (less n)
  show ?case
  proof (cases "n < 10")
    case True
    then show ?thesis by (subst formatUint.simps) simp
  next
    case False
    then have "foldl (\<lambda>a c. a * 10 + decimalValue c) 0 (formatUint 10 (n div 10)) = n div 10"
      by (intro less) simp
    with False show ?thesis by (subst formatUint.simps) simp
  qed
qed

lemma ParseUint_Itoa [simp, codec_simps]: "n < 2 ^ bits \<Longrightarrow> ParseUint bits (Itoa n) = Some n"
  by (simp add: ParseUint_def Itoa_def formatUint_10_decimal foldl_formatUint_10 Let_def)

lemma Itoa_decimal: "list_all isDecimal (Itoa n)"
  by (simp add: Itoa_def formatUint_10_decimal)

lemma Itoa_nonempty [simp]: "Itoa n \<noteq> []"
  by (simp add: Itoa_def)

lemma isDecimal_visible: "isDecimal c \<Longrightarrow> visibleByte c"
  by (auto simp: byte_simps less_eq_char_def)

end
