(* ===== verification/Go_Net.thy ===== *)
theory Go_Net
  imports Go_Strings
begin

text \<open>
  The address functions of Go's \<^verbatim>\<open>net\<close>, \<^verbatim>\<open>net/netip\<close> and \<^verbatim>\<open>strconv\<close> packages that Anvil uses:
  \<^verbatim>\<open>net.SplitHostPort\<close>, \<^verbatim>\<open>net.ParseIP\<close>, \<^verbatim>\<open>net.IP.String\<close>, \<^verbatim>\<open>net.IP.IsLoopback\<close> and \<^verbatim>\<open>strconv.Atoi\<close>.
  An address is its 16 octets (IPv4 in IPv4-mapped form), as \<^verbatim>\<open>net.IP\<close> stores it.
\<close>

type_synonym ip = "nat list"

subsection \<open>Hexadecimal digits\<close>

text \<open>Digit values of a hexadecimal literal; \<open>None\<close> for any other byte.\<close>

definition hexDigit :: "byte \<Rightarrow> nat option" where
  "hexDigit c =
     (if CHR ''0'' \<le> c \<and> c \<le> CHR ''9'' then Some (of_char c - 48)
      else if CHR ''a'' \<le> c \<and> c \<le> CHR ''f'' then Some (of_char c - 97 + 10)
      else if CHR ''A'' \<le> c \<and> c \<le> CHR ''F'' then Some (of_char c - 65 + 10)
      else None)"

lemma hexDigit_less_16: "hexDigit c = Some d \<Longrightarrow> d < 16"
  by (auto simp: hexDigit_def less_eq_char_def split: if_splits)

lemma hexDigit_digitChar [simp]: "d < 16 \<Longrightarrow> hexDigit (digitChar d) = Some d"
  by (rule digit_cases [of d]) (simp_all add: digitChar_def hexDigit_def)

lemma hexDigit_visible: "hexDigit c = Some d \<Longrightarrow> visibleByte c"
  by (auto simp: hexDigit_def byte_simps less_eq_char_def split: if_splits)

text \<open>The value of a digit string, continuing from \<open>a\<close>.\<close>

definition hexFold :: "nat \<Rightarrow> bytes \<Rightarrow> nat" where
  "hexFold a s = foldl (\<lambda>a c. a * 16 + the (hexDigit c)) a s"

lemma hexFold_mono: "a \<le> hexFold a s"
proof (induction s arbitrary: a)
  case (Cons c s)
  have "a \<le> a * 16 + the (hexDigit c)" by simp
  also have "\<dots> \<le> hexFold (a * 16 + the (hexDigit c)) s" by (rule Cons)
  finally show ?case by (simp add: hexFold_def)
qed (simp add: hexFold_def)

lemma formatUint_16_hex: "list_all (\<lambda>c. hexDigit c \<noteq> None) (formatUint 16 n)"
proof (induction n rule: less_induct)
  case (less n)
  show ?case
  proof (cases "n < 16")
    case True
    then show ?thesis by (subst formatUint.simps) simp
  next
    case False
    then have "list_all (\<lambda>c. hexDigit c \<noteq> None) (formatUint 16 (n div 16))" by (intro less) simp
    with False show ?thesis by (subst formatUint.simps) simp
  qed
qed

lemma hexFold_formatUint: "hexFold 0 (formatUint 16 n) = n"
proof (induction n rule: less_induct)
  case (less n)
  show ?case
  proof (cases "n < 16")
    case True
    then show ?thesis by (subst formatUint.simps) (simp add: hexFold_def)
  next
    case False
    then have "hexFold 0 (formatUint 16 (n div 16)) = n div 16" by (intro less) simp
    with False show ?thesis by (subst formatUint.simps) (simp add: hexFold_def)
  qed
qed

subsection \<open>strconv.Atoi\<close>

definition Atoi :: "string \<Rightarrow> int option" where
  "Atoi s =
     (case s of
        [] \<Rightarrow> None
      | c # cs \<Rightarrow>
          if c = CHR ''-'' then
            (case ParseUint 64 cs of
               None \<Rightarrow> None
             | Some v \<Rightarrow> if int v \<le> 2 ^ 63 then Some (- int v) else None)
          else
            (case ParseUint 64 (if c = CHR ''+'' then cs else s) of
               None \<Rightarrow> None
             | Some v \<Rightarrow> if int v \<le> maxInt64 then Some (int v) else None))"

subsection \<open>net.SplitHostPort\<close>

definition SplitHostPort :: "string \<Rightarrow> (string \<times> string) option" where
  "SplitHostPort hostport =
     (let i = LastIndexByte hostport CHR '':'' in
      if i < 0 then None
      else if hd hostport = CHR ''['' then
        (let end = IndexByte hostport CHR '']'' in
         if end < 0 then None
         else if end + 1 = int (length hostport) then None
         else if end + 1 \<noteq> i then None
         else if CHR ''['' \<in> set (drop 1 hostport) then None
         else if CHR '']'' \<in> set (drop (nat end + 1) hostport) then None
         else Some (take (nat end - 1) (drop 1 hostport), drop (nat i + 1) hostport))
      else
        (let host = take (nat i) hostport in
         if CHR '':'' \<in> set host then None
         else if CHR ''['' \<in> set hostport \<or> CHR '']'' \<in> set hostport then None
         else Some (host, drop (nat i + 1) hostport)))"

subsection \<open>net.ParseIP\<close>

text \<open>
  One octet of dotted notation: at least one digit, no leading zero, at most 255.
\<close>

definition parseOctet :: "string \<Rightarrow> nat option" where
  "parseOctet s =
     (if 1 < length s \<and> hd s = CHR ''0'' then None else ParseUint 8 s)"

fun parseOctets :: "string list \<Rightarrow> nat list option" where
  "parseOctets [] = Some []"
| "parseOctets (s # ss) =
     (case parseOctet s of
        None \<Rightarrow> None
      | Some v \<Rightarrow> map_option (\<lambda>vs. v # vs) (parseOctets ss))"

definition parseIPv4Fields :: "string \<Rightarrow> nat list option" where
  "parseIPv4Fields s =
     (let parts = Split CHR ''.'' s in if length parts \<noteq> 4 then None else parseOctets parts)"

fun hexPrefix :: "string \<Rightarrow> string" where
  "hexPrefix [] = []"
| "hexPrefix (c # cs) = (if hexDigit c = None then [] else c # hexPrefix cs)"

lemma hexPrefix_length: "length (hexPrefix s) \<le> length s"
  by (induction s) auto

definition hexGroup :: "string \<Rightarrow> nat" where
  "hexGroup s = hexFold 0 s"

definition v4Prefix :: "nat list" where
  "v4Prefix = replicate 10 0 @ [255, 255]"

text \<open>
  The field loop of \<^verbatim>\<open>netip.parseIPv6\<close>: \<open>ip\<close> holds the octets parsed so far and \<open>ellipsis\<close> the
  position of \<^verbatim>\<open>::\<close>. The result is the octets, the ellipsis and the unread rest.
\<close>

function parseIPv6Loop ::
  "string \<Rightarrow> nat list \<Rightarrow> nat option \<Rightarrow> (nat list \<times> nat option \<times> string) option" where
  "parseIPv6Loop s ip ellipsis =
     (if 16 \<le> length ip then Some (ip, ellipsis, s)
      else
        let digits = hexPrefix s; rest = drop (length digits) s; acc = hexGroup digits;
            ip' = ip @ [acc div 256, acc mod 256] in
        if digits = [] \<or> 4 < length digits then None
        else if rest \<noteq> [] \<and> hd rest = CHR ''.'' then
          (if ellipsis = None \<and> length ip \<noteq> 12 then None
           else if 16 < length ip + 4 then None
           else (case parseIPv4Fields s of
                   None \<Rightarrow> None
                 | Some fs \<Rightarrow> Some (ip @ fs, ellipsis, [])))
        else if rest = [] then Some (ip', ellipsis, [])
        else if hd rest \<noteq> CHR '':'' then None
        else if tl rest = [] then None
        else if hd (tl rest) = CHR '':'' then
          (if ellipsis \<noteq> None then None
           else if tl (tl rest) = [] then Some (ip', Some (length ip'), [])
           else parseIPv6Loop (tl (tl rest)) ip' (Some (length ip')))
        else parseIPv6Loop (tl rest) ip' ellipsis)"
  by pat_completeness auto
termination
  by (relation "measure (\<lambda>(s, ip, ellipsis). 16 - length ip)") (auto simp: Let_def)

declare parseIPv6Loop.simps [simp del]

definition expandEllipsis :: "nat list \<Rightarrow> nat option \<Rightarrow> nat list option" where
  "expandEllipsis ip ellipsis =
     (if length ip < 16 then
        (case ellipsis of
           None \<Rightarrow> None
         | Some p \<Rightarrow> Some (take p ip @ replicate (16 - length ip) 0 @ drop p ip))
      else if ellipsis \<noteq> None then None
      else Some ip)"

definition parseIPv6 :: "string \<Rightarrow> ip option" where
  "parseIPv6 s =
     (let leading = (take 2 s = ''::''); s' = (if leading then drop 2 s else s) in
      if leading \<and> s' = [] then Some (replicate 16 0)
      else (case parseIPv6Loop s' [] (if leading then Some 0 else None) of
              None \<Rightarrow> None
            | Some (ip, ellipsis, rest) \<Rightarrow>
                if rest \<noteq> [] then None else expandEllipsis ip ellipsis))"

text \<open>A zone (\<^verbatim>\<open>%\<close>) is refused by \<^verbatim>\<open>net.ParseIP\<close>; the first separator selects the family.\<close>

definition ParseIP :: "string \<Rightarrow> ip option" where
  "ParseIP s =
     (let separators = filter (\<lambda>c. c = CHR ''.'' \<or> c = CHR '':'') s in
      if CHR ''%'' \<in> set s then None
      else (case separators of
              [] \<Rightarrow> None
            | c # _ \<Rightarrow>
                if c = CHR ''.'' then map_option (\<lambda>fs. v4Prefix @ fs) (parseIPv4Fields s)
                else parseIPv6 s))"

subsection \<open>net.IP.String and net.IP.IsLoopback\<close>

definition isIPv4 :: "ip \<Rightarrow> bool" where
  "isIPv4 ip \<longleftrightarrow> length ip = 16 \<and> take 12 ip = v4Prefix"

definition IsLoopback :: "ip \<Rightarrow> bool" where
  "IsLoopback ip \<longleftrightarrow>
     (if isIPv4 ip then ip ! 12 = 127 else ip = replicate 15 0 @ [1])"

fun ipGroups :: "nat list \<Rightarrow> nat list" where
  "ipGroups (a # b # rest) = (a * 256 + b) # ipGroups rest"
| "ipGroups _ = []"

definition zeroRun :: "nat list \<Rightarrow> nat" where
  "zeroRun gs = length (takeWhile (\<lambda>g. g = 0) gs)"

text \<open>The first longest run of at least two zero groups, as (start, length).\<close>

fun longestZeroRun :: "nat \<Rightarrow> nat list \<Rightarrow> nat \<times> nat \<Rightarrow> nat \<times> nat" where
  "longestZeroRun i [] best = best"
| "longestZeroRun i (g # gs) best =
     (let l = zeroRun (g # gs) in
      longestZeroRun (i + 1) gs (if 2 \<le> l \<and> snd best < l then (i, l) else best))"

definition formatGroups :: "nat list \<Rightarrow> string" where
  "formatGroups gs = Join (map (formatUint 16) gs) '':''"

definition IP_String :: "ip \<Rightarrow> string" where
  "IP_String ip =
     (if isIPv4 ip then Join (map Itoa (drop 12 ip)) ''.''
      else let gs = ipGroups ip; best = longestZeroRun 0 gs (0, 0) in
        if snd best = 0 then formatGroups gs
        else formatGroups (take (fst best) gs) @ ''::'' @
             formatGroups (drop (fst best + snd best) gs))"

end
