(* ===== verification/Http_Types.thy ===== *)
theory Http_Types
  imports Go_Net
begin

text \<open>
  \<^verbatim>\<open>src/src/http_types.go\<close> and \<^verbatim>\<open>src/src/http_errors.go\<close>: ordered header fields and their
  case-insensitive queries, request and response records, the parser limits with their
  validation, and the typed protocol errors.

  The two record types have fields of the same Go name; here the request's carry the prefix
  \<^verbatim>\<open>Req\<close> and the response's \<^verbatim>\<open>Resp\<close>. A \<^verbatim>\<open>*responseCommitState\<close> is an optional flag: \<open>None\<close> is the
  nil pointer.
\<close>

subsection \<open>Header fields\<close>

definition httpVersion11 :: string where
  "httpVersion11 = ''HTTP/1.1''"

datatype bodyMode = bodyModeNone | bodyModeFixed | bodyModeChunked | bodyModeCloseDelimited

record headerField =
  Name :: string
  Value :: string

type_synonym headerFields = "headerField list"

definition hf :: "string \<Rightarrow> string \<Rightarrow> headerField" where
  "hf n v = \<lparr>Name = n, Value = v\<rparr>"

lemma hf_sel [simp]: "Name (hf n v) = n" "Value (hf n v) = v"
  by (simp_all add: hf_def)

fun Values :: "headerFields \<Rightarrow> string \<Rightarrow> string list" where
  "Values [] name = []"
| "Values (field # h) name =
     (if EqualFold (Name field) name then Value field # Values h name else Values h name)"

fun First :: "headerFields \<Rightarrow> string \<Rightarrow> string \<times> bool" where
  "First [] name = ([], False)"
| "First (field # h) name =
     (if EqualFold (Name field) name then (Value field, True) else First h name)"

definition HasToken :: "headerFields \<Rightarrow> string \<Rightarrow> string \<Rightarrow> bool" where
  "HasToken h name token \<longleftrightarrow>
     list_ex (\<lambda>value. list_ex (\<lambda>part. EqualFold (TrimSpace part) token) (Split CHR '','' value))
       (Values h name)"

lemma Values_append [simp]: "Values (h @ h') name = Values h name @ Values h' name"
  by (induction h) auto

lemma Values_eq_filter:
  "Values h name = map Value (filter (\<lambda>f. EqualFold (Name f) name) h)"
  by (induction h) auto

lemma Values_Nil_iff: "Values h name = [] \<longleftrightarrow> (\<forall>f \<in> set h. \<not> EqualFold (Name f) name)"
  by (auto simp: Values_eq_filter filter_empty_conv)

lemma First_Values:
  "First h name = (case Values h name of [] \<Rightarrow> ([], False) | v # _ \<Rightarrow> (v, True))"
  by (induction h) auto

lemma HasToken_append [simp]:
  "HasToken (h @ h') name token \<longleftrightarrow> HasToken h name token \<or> HasToken h' name token"
  by (simp add: HasToken_def)

lemma HasToken_no_values: "Values h name = [] \<Longrightarrow> \<not> HasToken h name token"
  by (simp add: HasToken_def)

subsection \<open>Requests and responses\<close>

record httpRequest =
  Method :: string
  Target :: string
  ReqVersion :: string
  ReqHeaders :: headerFields
  ReqTrailers :: headerFields
  ReqBody :: bytes
  ReqBodyMode :: bodyMode
  ReqKeepAlive :: bool
  RemoteAddr :: string

type_synonym responseCommitState = "bool option"

definition MarkCommitted :: "responseCommitState \<Rightarrow> responseCommitState" where
  "MarkCommitted s = (case s of None \<Rightarrow> None | Some _ \<Rightarrow> Some True)"

definition Committed :: "responseCommitState \<Rightarrow> bool" where
  "Committed s \<longleftrightarrow> s = Some True"

record httpResponse =
  RespVersion :: string
  StatusCode :: int
  Reason :: string
  RespHeaders :: headerFields
  RespTrailers :: headerFields
  RespBody :: bytes
  RespBodyMode :: bodyMode
  RespKeepAlive :: bool
  RespClose :: bool
  CommitState :: responseCommitState

subsection \<open>Limits\<close>

definition maxHTTPStartLineLimit :: int where "maxHTTPStartLineLimit = 64 * 1024"
definition maxHTTPHeaderLimit :: int where "maxHTTPHeaderLimit = 256 * 1024"
definition maxHTTPHeaderFields :: int where "maxHTTPHeaderFields = 4 * 1024"
definition maxHTTPBodyLimit :: int where "maxHTTPBodyLimit = 64 * 1024 * 1024"
definition maxHTTPChunkLineLimit :: int where "maxHTTPChunkLineLimit = 64 * 1024"
definition maxHTTPChunkCount :: int where "maxHTTPChunkCount = 64 * 1024"
definition maxHTTPTrailerLimit :: int where "maxHTTPTrailerLimit = 64 * 1024"
definition maxHTTPTrailerFields :: int where "maxHTTPTrailerFields = 1 * 1024"

lemmas http_limit_constants =
  maxHTTPStartLineLimit_def maxHTTPHeaderLimit_def maxHTTPHeaderFields_def maxHTTPBodyLimit_def
  maxHTTPChunkLineLimit_def maxHTTPChunkCount_def maxHTTPTrailerLimit_def maxHTTPTrailerFields_def

record httpLimits =
  MaxStartLineBytes :: int
  MaxHeaderBytes :: int
  MaxHeaderFields :: int
  MaxBodyBytes :: int
  MaxChunkLineBytes :: int
  MaxChunkCount :: int
  MaxTrailerBytes :: int
  MaxTrailerFields :: int

definition defaultHTTPLimits :: httpLimits where
  "defaultHTTPLimits =
     \<lparr>MaxStartLineBytes = 8 * 1024, MaxHeaderBytes = 32 * 1024, MaxHeaderFields = 100,
      MaxBodyBytes = 8 * 1024 * 1024, MaxChunkLineBytes = 4 * 1024, MaxChunkCount = 16 * 1024,
      MaxTrailerBytes = 8 * 1024, MaxTrailerFields = 32\<rparr>"

text \<open>Configuration errors carry the format string of the source's \<^verbatim>\<open>fmt.Errorf\<close>.\<close>

definition httpLimits_validate :: "httpLimits \<Rightarrow> string + unit" where
  "httpLimits_validate l =
     (if MaxStartLineBytes l \<le> 0 \<or> MaxStartLineBytes l > maxHTTPStartLineLimit
        then Inl ''maximum start-line bytes must be between 1 and %d''
      else if MaxHeaderBytes l \<le> 0 \<or> MaxHeaderBytes l > maxHTTPHeaderLimit
        then Inl ''maximum header bytes must be between 1 and %d''
      else if MaxHeaderFields l \<le> 0 \<or> MaxHeaderFields l > maxHTTPHeaderFields
        then Inl ''maximum header fields must be between 1 and %d''
      else if MaxBodyBytes l < 0 \<or> MaxBodyBytes l > maxHTTPBodyLimit
        then Inl ''maximum body bytes must be between 0 and %d''
      else if MaxChunkLineBytes l \<le> 0 \<or> MaxChunkLineBytes l > maxHTTPChunkLineLimit
        then Inl ''maximum chunk-line bytes must be between 1 and %d''
      else if MaxChunkCount l \<le> 0 \<or> MaxChunkCount l > maxHTTPChunkCount
        then Inl ''maximum chunk count must be between 1 and %d''
      else if MaxTrailerBytes l \<le> 0 \<or> MaxTrailerBytes l > maxHTTPTrailerLimit
        then Inl ''maximum trailer bytes must be between 1 and %d''
      else if MaxTrailerFields l \<le> 0 \<or> MaxTrailerFields l > maxHTTPTrailerFields
        then Inl ''maximum trailer fields must be between 1 and %d''
      else Inr ())"

lemma httpLimits_validate_body:
  "httpLimits_validate l = Inr u \<Longrightarrow> 0 \<le> MaxBodyBytes l \<and> MaxBodyBytes l \<le> 64 * 1024 * 1024"
  by (auto simp: httpLimits_validate_def maxHTTPBodyLimit_def split: if_splits)

lemma httpLimits_validate_default: "httpLimits_validate defaultHTTPLimits = Inr ()"
  by (simp add: httpLimits_validate_def defaultHTTPLimits_def http_limit_constants)

subsection \<open>Errors\<close>

text \<open>What an underlying reader or writer reports.\<close>

datatype io_error = IoEOF | IoUnexpectedEOF | IoTimeout | IoShortWrite | IoOther string

datatype protocolErrorKind =
    protocolMalformedStartLine | protocolUnsupportedVersion | protocolUnsupportedTarget
  | protocolUnsupportedFeature | protocolMalformedHeader | protocolMissingHost
  | protocolAmbiguousFraming | protocolInvalidContentLength | protocolUnsupportedTransferCoding
  | protocolInvalidChunk | protocolLimitExceeded | protocolBodyTooLarge
  | protocolIncompleteMessage | protocolTimeout | protocolInvalidGeneratedMessage

record protocolError =
  Kind :: protocolErrorKind
  Section :: string
  Detail :: string
  Err :: "io_error option"

text \<open>An error of the codec is a raw I/O error or a typed protocol error.\<close>

datatype http_error = RawError io_error | ProtocolErr protocolError

definition newProtocolError :: "protocolErrorKind \<Rightarrow> string \<Rightarrow> string \<Rightarrow> http_error" where
  "newProtocolError kind section detail =
     ProtocolErr \<lparr>Kind = kind, Section = section, Detail = detail, Err = None\<rparr>"

definition protocolErrorFromRead :: "string \<Rightarrow> io_error \<Rightarrow> bool \<Rightarrow> http_error" where
  "protocolErrorFromRead section err partial =
     (if err = IoTimeout
        then ProtocolErr \<lparr>Kind = protocolTimeout, Section = section, Detail = [], Err = Some err\<rparr>
      else if err = IoEOF \<or> err = IoUnexpectedEOF then
        (if \<not> partial \<and> err = IoEOF then RawError IoEOF
         else ProtocolErr \<lparr>Kind = protocolIncompleteMessage, Section = section, Detail = [],
                Err = Some err\<rparr>)
      else ProtocolErr \<lparr>Kind = protocolIncompleteMessage, Section = section, Detail = [],
             Err = Some err\<rparr>)"

text \<open>\<^verbatim>\<open>protocolKind\<close>: the empty kind of the source is \<open>None\<close>.\<close>

fun protocolKind :: "http_error \<Rightarrow> protocolErrorKind option" where
  "protocolKind (ProtocolErr e) = Some (Kind e)"
| "protocolKind (RawError _) = None"

lemma protocolKind_new [simp]: "protocolKind (newProtocolError k s d) = Some k"
  by (simp add: newProtocolError_def)

text \<open>\<^verbatim>\<open>errors.Is(err, io.EOF)\<close>, which unwraps a protocol error.\<close>

fun isEOF :: "http_error \<Rightarrow> bool" where
  "isEOF (RawError e) \<longleftrightarrow> e = IoEOF"
| "isEOF (ProtocolErr e) \<longleftrightarrow> Err e = Some IoEOF"

text \<open>\<^verbatim>\<open>isTimeout(err)\<close> of proxy.go: a \<^verbatim>\<open>net.Error\<close> in the chain that reports a timeout.\<close>

fun isTimeout :: "http_error \<Rightarrow> bool" where
  "isTimeout (RawError e) \<longleftrightarrow> e = IoTimeout"
| "isTimeout (ProtocolErr e) \<longleftrightarrow> Err e = Some IoTimeout"

end
