(* ===== verification/Http_Parser.thy ===== *)
theory Http_Parser
  imports Http_Types
begin

text \<open>
  \<^verbatim>\<open>src/src/http_parser.go\<close>: the incremental HTTP/1.1 request and response parser.

  A \<^verbatim>\<open>*bufio.Reader\<close> is the pair of the bytes it will still deliver and the error it reports after
  them. \<^verbatim>\<open>ReadSlice\<close> is modelled with the reader's buffer size, so the fragment loop of
  \<open>readStrictLine\<close> is the source's. A parser returns its result with the reader that remains, or
  the error; the connection is abandoned after an error, so no reader is returned with it.
  Positions into a slice are its remaining suffixes.
\<close>

type_synonym reader = "string \<times> io_error"

abbreviation CR :: byte where "CR \<equiv> CHR 0x0D"
abbreviation LF :: byte where "LF \<equiv> CHR 0x0A"
abbreviation CRLF :: bytes where "CRLF \<equiv> [CHR 0x0D, CHR 0x0A]"
abbreviation HTAB :: byte where "HTAB \<equiv> CHR 0x09"
abbreviation DQUOTE :: byte where "DQUOTE \<equiv> CHR 0x22"
abbreviation BACKSLASH :: byte where "BACKSLASH \<equiv> CHR 0x5C"

subsection \<open>Byte classes\<close>

definition isTokenByte :: "byte \<Rightarrow> bool" where
  "isTokenByte value \<longleftrightarrow>
     (CHR ''0'' \<le> value \<and> value \<le> CHR ''9'') \<or> (CHR ''A'' \<le> value \<and> value \<le> CHR ''Z'') \<or>
     (CHR ''a'' \<le> value \<and> value \<le> CHR ''z'') \<or>
     value \<in> set ''!#$%&*+-.^_`|~'' \<or> value = CHR 0x27"

definition validToken :: "bytes \<Rightarrow> bool" where
  "validToken value \<longleftrightarrow> value \<noteq> [] \<and> list_all isTokenByte value"

definition validQuotedByte :: "byte \<Rightarrow> bool" where
  "validQuotedByte value \<longleftrightarrow> value = HTAB \<or> (CHR 0x20 \<le> value \<and> value \<noteq> CHR 0x7F)"

definition validFieldValue :: "bytes \<Rightarrow> bool" where
  "validFieldValue value \<longleftrightarrow>
     list_all (\<lambda>current. current = HTAB \<or> (CHR 0x20 \<le> current \<and> current \<noteq> CHR 0x7F)) value"

definition validReasonPhrase :: "bytes \<Rightarrow> bool" where
  "validReasonPhrase value \<longleftrightarrow> validFieldValue value"

definition trimOWS :: "bytes \<Rightarrow> bytes" where
  "trimOWS value = TrimCut (\<lambda>c. c = CHR '' '' \<or> c = HTAB) value"

fun skipOWS :: "bytes \<Rightarrow> bytes" where
  "skipOWS [] = []"
| "skipOWS (c # cs) = (if c = CHR '' '' \<or> c = HTAB then skipOWS cs else c # cs)"

definition decimalDigits :: "string \<Rightarrow> bool" where
  "decimalDigits value \<longleftrightarrow>
     value \<noteq> [] \<and> list_all (\<lambda>current. CHR ''0'' \<le> current \<and> current \<le> CHR ''9'') value"

definition hexadecimalValue :: "byte \<Rightarrow> u64 option" where
  "hexadecimalValue value =
     (if CHR ''0'' \<le> value \<and> value \<le> CHR ''9'' then Some (of_nat (of_char value - 48))
      else if CHR ''a'' \<le> value \<and> value \<le> CHR ''f'' then Some (of_nat (of_char value - 97) + 10)
      else if CHR ''A'' \<le> value \<and> value \<le> CHR ''F'' then Some (of_nat (of_char value - 65) + 10)
      else None)"

definition responseMustNotHaveBody :: "string \<Rightarrow> int \<Rightarrow> bool" where
  "responseMustNotHaveBody requestMethod statusCode \<longleftrightarrow>
     EqualFold requestMethod ''HEAD'' \<or> (100 \<le> statusCode \<and> statusCode < 200) \<or>
     statusCode = 204 \<or> statusCode = 304"

definition successfulConnectResponse :: "string \<Rightarrow> int \<Rightarrow> bool" where
  "successfulConnectResponse requestMethod statusCode \<longleftrightarrow>
     EqualFold requestMethod ''CONNECT'' \<and> 200 \<le> statusCode \<and> statusCode < 300"

definition maxInt :: int where
  "maxInt = maxInt64"

subsection \<open>Reading lines\<close>

datatype slice_error = ErrBufferFull | SliceError io_error

text \<open>
  \<^verbatim>\<open>(*bufio.Reader).ReadSlice('\n')\<close> with a buffer of \<open>bufSize\<close> bytes: up to and including the
  newline; a full buffer without one; or what is left and the reader's error.
\<close>

definition ReadSlice :: "nat \<Rightarrow> reader \<Rightarrow> bytes \<times> slice_error option \<times> reader" where
  "ReadSlice bufSize reader =
     (let s = fst reader; e = snd reader; window = take bufSize s in
      if LF \<in> set window
        then (let n = length (takeWhile (\<lambda>c. c \<noteq> LF) s) + 1 in (take n s, None, (drop n s, e)))
      else if bufSize \<le> length s then (window, Some ErrBufferFull, (drop bufSize s, e))
      else (s, Some (SliceError e), ([], e)))"

text \<open>\<^verbatim>\<open>bufio.NewReader\<close> uses 4096 bytes; no \<^verbatim>\<open>bufio.Reader\<close> has fewer than 16.\<close>

definition bufioDefaultSize :: nat where
  "bufioDefaultSize = 4096"

definition bufioSize :: "nat \<Rightarrow> nat" where
  "bufioSize n = max n 16"

definition lineErrorKind :: "string \<Rightarrow> protocolErrorKind" where
  "lineErrorKind section =
     (if section = ''request line'' \<or> section = ''status line'' then protocolMalformedStartLine
      else if Contains section ''chunk''
        then protocolInvalidChunk
      else protocolMalformedHeader)"

lemma ReadSlice_progress:
  "ReadSlice (bufioSize n) r = (f, Some ErrBufferFull, r') \<Longrightarrow> length (fst r') < length (fst r)"
  by (auto simp: ReadSlice_def bufioSize_def Let_def split: if_splits)

function readLineLoop ::
  "nat \<Rightarrow> int \<Rightarrow> string \<Rightarrow> bytes \<Rightarrow> reader \<Rightarrow> http_error + (bytes \<times> reader)" where
  "readLineLoop bufSize maximum section line reader =
     (case ReadSlice (bufioSize bufSize) reader of
        (fragment, err, reader') \<Rightarrow>
          if int (length line) > maximum - int (length fragment)
            then Inl (newProtocolError protocolLimitExceeded section
                        ''line exceeds configured byte limit'')
          else
            (case err of
               Some ErrBufferFull \<Rightarrow>
                 readLineLoop bufSize maximum section (line @ fragment) reader'
             | Some (SliceError e) \<Rightarrow>
                 Inl (protocolErrorFromRead section e (line @ fragment \<noteq> []))
             | None \<Rightarrow> Inr (line @ fragment, reader')))"
  by pat_completeness auto
termination
  by (relation "measure (\<lambda>(bufSize, maximum, section, line, reader). length (fst reader))")
     (auto dest!: ReadSlice_progress [OF sym])

declare readLineLoop.simps [simp del]

text \<open>The checks after the loop: CRLF at the end, no other CR or LF before it.\<close>

definition checkStrictLine ::
  "string \<Rightarrow> bytes \<Rightarrow> reader \<Rightarrow> http_error + (bytes \<times> int \<times> reader)" where
  "checkStrictLine section line reader =
     (if length line < 2 \<or> line ! (length line - 2) \<noteq> CR \<or> line ! (length line - 1) \<noteq> LF
        then Inl (newProtocolError (lineErrorKind section) section ''line must end with CRLF'')
      else
        (let content = take (length line - 2) line in
         if CR \<in> set content \<or> LF \<in> set content
           then Inl (newProtocolError (lineErrorKind section) section ''embedded line break'')
         else Inr (content, int (length line), reader)))"

definition readStrictLineSized ::
  "nat \<Rightarrow> reader \<Rightarrow> int \<Rightarrow> string \<Rightarrow> http_error + (bytes \<times> int \<times> reader)" where
  "readStrictLineSized bufSize reader maximum section =
     (if maximum < 2
        then Inl (newProtocolError protocolLimitExceeded section ''line limit is too small'')
      else
        andThen (readLineLoop bufSize maximum section [] reader)
          (\<lambda>(line, reader'). checkStrictLine section line reader'))"

definition readStrictLine ::
  "reader \<Rightarrow> int \<Rightarrow> string \<Rightarrow> http_error + (bytes \<times> int \<times> reader)" where
  "readStrictLine reader maximum section =
     readStrictLineSized bufioDefaultSize reader maximum section"

text \<open>
  Reference definition: the line is what precedes the first LF, whatever the fragments.
\<close>

definition strictLineSpec ::
  "reader \<Rightarrow> int \<Rightarrow> string \<Rightarrow> http_error + (bytes \<times> int \<times> reader)" where
  "strictLineSpec reader maximum section =
     (let s = fst reader; e = snd reader; n = length (takeWhile (\<lambda>c. c \<noteq> LF) s) + 1 in
      if maximum < 2
        then Inl (newProtocolError protocolLimitExceeded section ''line limit is too small'')
      else if (if LF \<in> set s then int n else int (length s)) > maximum
        then Inl (newProtocolError protocolLimitExceeded section
                    ''line exceeds configured byte limit'')
      else if LF \<in> set s then checkStrictLine section (take n s) (drop n s, e)
      else Inl (protocolErrorFromRead section e (s \<noteq> [])))"

lemma takeWhile_LF_take_drop:
  assumes "LF \<notin> set (take k s)" "k \<le> length s"
  shows "length (takeWhile (\<lambda>c. c \<noteq> LF) s) = k + length (takeWhile (\<lambda>c. c \<noteq> LF) (drop k s))"
proof -
  have "takeWhile (\<lambda>c. c \<noteq> LF) (take k s @ drop k s)
      = take k s @ takeWhile (\<lambda>c. c \<noteq> LF) (drop k s)"
    using assms(1) by (intro takeWhile_append2) auto
  then have "takeWhile (\<lambda>c. c \<noteq> LF) s = take k s @ takeWhile (\<lambda>c. c \<noteq> LF) (drop k s)"
    by simp
  with assms(2) show ?thesis by simp
qed

lemma readLineLoop_spec:
  fixes bufSize :: nat and s :: string
  defines "n \<equiv> \<lambda>t. length (takeWhile (\<lambda>c. c \<noteq> LF) t) + 1"
  shows "readLineLoop bufSize maximum section line (s, e) =
     (if int (length line) + (if LF \<in> set s then int (n s) else int (length s)) > maximum
        then Inl (newProtocolError protocolLimitExceeded section
                    ''line exceeds configured byte limit'')
      else if LF \<in> set s then Inr (line @ take (n s) s, (drop (n s) s, e))
      else Inl (protocolErrorFromRead section e (line @ s \<noteq> [])))"
proof (induction s arbitrary: line rule: length_induct)
  case (1 s)
  let ?k = "bufioSize bufSize"
  have k: "0 < ?k" by (simp add: bufioSize_def)
  consider (hit) "LF \<in> set (take ?k s)"
    | (full) "LF \<notin> set (take ?k s)" "?k \<le> length s"
    | (short) "LF \<notin> set (take ?k s)" "length s < ?k" by linarith
  then show ?case
  proof cases
    case hit
    then have lf: "LF \<in> set s" by (rule in_set_takeD)
    then obtain p r where "s = p @ LF # r" "LF \<notin> set p" by (rule split_at_first)
    then have len: "n s \<le> length s" by (simp add: n_def)
    from hit lf len show ?thesis
      by (subst readLineLoop.simps)
         (auto simp: ReadSlice_def Let_def n_def min_def)
  next
    case full
    define d where "d = drop ?k s"
    have len: "length s = ?k + length d" using full(2) by (simp add: d_def)
    then have "length d < length s" using k by simp
    note IH = 1 [rule_format, OF this, of "line @ take ?k s"]
    have mem: "LF \<in> set s \<longleftrightarrow> LF \<in> set d"
      using full(1) unfolding d_def by (metis Un_iff append_take_drop_id set_append)
    have eq: "n s = ?k + n d"
      using takeWhile_LF_take_drop [OF full] by (simp add: n_def d_def)
    have tk: "take (n s) s = take ?k s @ take (n d) d"
      unfolding eq d_def by (rule take_add)
    have dp: "drop (n s) s = drop (n d) d"
      by (simp add: eq d_def add.commute)
    have rs: "ReadSlice ?k (s, e) = (take ?k s, Some ErrBufferFull, (d, e))"
      using full by (simp add: ReadSlice_def Let_def d_def)
    have ne: "line @ s \<noteq> []" "(line @ take ?k s) @ d \<noteq> []" using len k by auto
    have l: "length (take ?k s) = ?k" using full(2) by simp
    have step: "readLineLoop bufSize maximum section line (s, e) =
       (if int (length line) > maximum - int ?k
        then Inl (newProtocolError protocolLimitExceeded section
                    ''line exceeds configured byte limit'')
        else readLineLoop bufSize maximum section (line @ take ?k s) (d, e))"
      by (subst readLineLoop.simps) (simp only: rs l split_conv option.case slice_error.case)
    show ?thesis
      unfolding step IH mem tk dp using ne by (simp add: eq len min_absorb2)
  next
    case short
    then have "take ?k s = s" by simp
    with short show ?thesis
      by (subst readLineLoop.simps) (simp add: ReadSlice_def Let_def)
  qed
qed

text \<open>
  The result of reading a line does not depend on the buffer size, that is, on how the
  loop is fed.
\<close>

lemma readStrictLineSized_spec:
  "readStrictLineSized bufSize reader maximum section = strictLineSpec reader maximum section"
  by (cases reader)
     (auto simp: readStrictLineSized_def strictLineSpec_def readLineLoop_spec Let_def)

lemma readStrictLine_spec:
  "readStrictLine reader maximum section = strictLineSpec reader maximum section"
  by (simp add: readStrictLine_def readStrictLineSized_spec)

declare readStrictLine_spec [code]

text \<open>What a successfully read line is: the bytes up to the first CRLF, which it consumes.\<close>

lemma checkStrictLine_Inr:
  "checkStrictLine section line r = Inr (content, k, r') \<longleftrightarrow>
     line = content @ CRLF \<and> CR \<notin> set content \<and> LF \<notin> set content \<and>
     k = int (length line) \<and> r' = r"
proof
  assume *: "checkStrictLine section line r = Inr (content, k, r')"
  then have "2 \<le> length line" by (auto simp: checkStrictLine_def split: if_splits)
  then obtain ys a b where "line = ys @ [a, b]" by (rule last_two)
  with * show "line = content @ CRLF \<and> CR \<notin> set content \<and> LF \<notin> set content \<and>
     k = int (length line) \<and> r' = r"
    by (auto simp: checkStrictLine_def Let_def nth_append split: if_splits)
qed (auto simp: checkStrictLine_def Let_def nth_append)

lemma readStrictLine_Inr:
  "readStrictLine (s, e) maximum section = Inr (content, k, r) \<longleftrightarrow>
     2 \<le> maximum \<and> k \<le> maximum \<and> k = int (length content) + 2 \<and>
     CR \<notin> set content \<and> LF \<notin> set content \<and> s = content @ CRLF @ fst r \<and> snd r = e"
  (is "?L \<longleftrightarrow> ?R")
proof
  assume L: ?L
  let ?n = "length (takeWhile (\<lambda>c. c \<noteq> LF) s) + 1"
  from L have "LF \<in> set s" and m: "2 \<le> maximum" "int ?n \<le> maximum"
    and c: "checkStrictLine section (take ?n s) (drop ?n s, e) = Inr (content, k, r)"
    by (auto simp: readStrictLine_spec strictLineSpec_def Let_def split: if_splits)
  from c have t: "take ?n s = content @ CRLF" and nin: "CR \<notin> set content" "LF \<notin> set content"
    and k: "k = int (length (take ?n s))" and r: "r = (drop ?n s, e)"
    unfolding checkStrictLine_Inr by blast+
  from t r have "s = content @ CRLF @ fst r" "snd r = e"
    by (metis append.assoc append_take_drop_id fst_conv, simp)
  moreover have "k = int (length content) + 2" unfolding k t by simp
  moreover from k m have "k \<le> maximum" by simp
  ultimately show ?R using m nin by simp
next
  assume R: ?R
  let ?p = "content @ [CR]"
  from R have s: "s = ?p @ LF # fst r" and p: "LF \<notin> set ?p" by auto
  then have tw: "takeWhile (\<lambda>c. c \<noteq> LF) s = ?p" by (metis takeWhile_neq_append_hit)
  then have "take (length (takeWhile (\<lambda>c. c \<noteq> LF) s) + 1) s = content @ CRLF"
    and "drop (length (takeWhile (\<lambda>c. c \<noteq> LF) s) + 1) s = fst r"
    unfolding tw by (simp_all add: s)
  moreover from R have "checkStrictLine section (content @ CRLF) (fst r, e) = Inr (content, k, r)"
    by (subst checkStrictLine_Inr) (auto simp: prod_eq_iff)
  ultimately show ?L using R tw s
    by (simp add: readStrictLine_spec strictLineSpec_def Let_def)
qed

lemma readStrictLine_append:
  "CR \<notin> set content \<Longrightarrow> LF \<notin> set content \<Longrightarrow> int (length content) + 2 \<le> maximum \<Longrightarrow>
   readStrictLine (content @ CR # LF # rest, e) maximum section =
     Inr (content, int (length content) + 2, (rest, e))"
  by (subst readStrictLine_Inr) auto

lemma readStrictLine_shorter:
  "readStrictLine reader maximum section = Inr (content, k, r) \<Longrightarrow>
   length (fst r) < length (fst reader)"
  by (cases reader) (auto simp: readStrictLine_Inr)

subsection \<open>Start lines\<close>

fun targetBytes :: "bytes \<Rightarrow> bool" where
  "targetBytes [] \<longleftrightarrow> True"
| "targetBytes (current # rest) \<longleftrightarrow>
     (if current < CHR 0x21 \<or> current > CHR 0x7E then False
      else if current = CHR ''#'' \<or> current = BACKSLASH then False
      else if current = CHR ''%'' then
        (case rest of
           h1 # h2 # rest' \<Rightarrow>
             hexadecimalValue h1 \<noteq> None \<and> hexadecimalValue h2 \<noteq> None \<and> targetBytes rest'
         | _ \<Rightarrow> False)
      else targetBytes rest)"

definition validRequestTarget :: "string \<Rightarrow> bytes \<Rightarrow> bool" where
  "validRequestTarget method target \<longleftrightarrow>
     (if target = ''*'' then EqualFold method ''OPTIONS''
      else if target = [] \<or> hd target \<noteq> CHR ''/'' then False
      else targetBytes target)"

definition parseRequestLine :: "bytes \<Rightarrow> http_error + (string \<times> string \<times> string)" where
  "parseRequestLine line =
     (case Split CHR '' '' line of
        [method, target, version] \<Rightarrow>
          if method = [] \<or> target = [] \<or> version = []
            then Inl (newProtocolError protocolMalformedStartLine ''request line''
                        ''expected method, target, and version'')
          else if \<not> validToken method
            then Inl (newProtocolError protocolMalformedStartLine ''request line''
                        ''method is not an HTTP token'')
          else if version \<noteq> httpVersion11
            then Inl (newProtocolError protocolUnsupportedVersion ''request line''
                        ''only HTTP/1.1 is supported'')
          else if EqualFold method ''CONNECT''
            then Inl (newProtocolError protocolUnsupportedTarget ''request line''
                        ''CONNECT is unsupported'')
          else if \<not> validRequestTarget method target
            then Inl (newProtocolError protocolUnsupportedTarget ''request line''
                        ''only origin-form and OPTIONS * are supported'')
          else Inr (method, target, version)
      | _ \<Rightarrow> Inl (newProtocolError protocolMalformedStartLine ''request line''
                  ''expected method, target, and version''))"

definition parseStatusLine :: "bytes \<Rightarrow> http_error + (string \<times> int \<times> string)" where
  "parseStatusLine line =
     (if length line < 13 \<or> take 8 line \<noteq> httpVersion11 \<or> line ! 8 \<noteq> CHR '' '' \<or>
         line ! 12 \<noteq> CHR '' ''
        then Inl (newProtocolError protocolMalformedStartLine ''status line''
                    ''invalid HTTP/1.1 status line'')
      else
        (let codeBytes = take 3 (drop 9 line) in
         if \<not> list_all (\<lambda>c. CHR ''0'' \<le> c \<and> c \<le> CHR ''9'') codeBytes
           then Inl (newProtocolError protocolMalformedStartLine ''status line''
                       ''status code must contain three digits'')
         else
           (let statusCode = int (decimalValue (codeBytes ! 0)) * 100 +
                  int (decimalValue (codeBytes ! 1)) * 10 + int (decimalValue (codeBytes ! 2)) in
            if statusCode < 100 \<or> statusCode > 599
              then Inl (newProtocolError protocolMalformedStartLine ''status line''
                          ''status code is outside 100-599'')
            else
              (let reason = drop 13 line in
               if \<not> validReasonPhrase reason
                 then Inl (newProtocolError protocolMalformedStartLine ''status line''
                             ''invalid reason phrase'')
               else Inr (httpVersion11, statusCode, reason)))))"

subsection \<open>Header blocks\<close>

definition parseHeaderField :: "bytes \<Rightarrow> string \<Rightarrow> http_error + headerField" where
  "parseHeaderField line section =
     (if line = [] \<or> hd line = CHR '' '' \<or> hd line = HTAB
        then Inl (newProtocolError protocolMalformedHeader section
                    ''obsolete line folding is forbidden'')
      else
        (let colon = IndexByte line CHR '':'' in
         if colon \<le> 0 \<or> \<not> validToken (take (nat colon) line)
           then Inl (newProtocolError protocolMalformedHeader section
                       ''invalid field name or whitespace before colon'')
         else
           (let value = trimOWS (drop (nat colon + 1) line) in
            if \<not> validFieldValue value
              then Inl (newProtocolError protocolMalformedHeader section
                          ''field value contains a forbidden control byte'')
            else Inr (hf (take (nat colon) line) value))))"

function readHeaderBlockLoop ::
  "int \<Rightarrow> int \<Rightarrow> string \<Rightarrow> headerFields \<Rightarrow> int \<Rightarrow> reader \<Rightarrow>
   http_error + (headerFields \<times> reader)" where
  "readHeaderBlockLoop maximumBytes maximumFields section headers consumed reader =
     (let remaining = maximumBytes - consumed in
      if remaining < 2
        then Inl (newProtocolError protocolLimitExceeded section
                    ''headers exceed configured byte limit'')
      else
        (case readStrictLine reader remaining section of
           Inl err \<Rightarrow> Inl err
         | Inr (line, lineBytes, reader') \<Rightarrow>
             if line = [] then Inr (headers, reader')
             else if int (length headers) \<ge> maximumFields
               then Inl (newProtocolError protocolLimitExceeded section
                           ''header field count exceeds configured limit'')
             else
               (case parseHeaderField line section of
                  Inl err \<Rightarrow> Inl err
                | Inr field \<Rightarrow>
                    readHeaderBlockLoop maximumBytes maximumFields section (headers @ [field])
                      (consumed + lineBytes) reader')))"
  by pat_completeness auto
termination
  by (relation "measure (\<lambda>(mb, mf, sec, h, c, reader). length (fst reader))")
     (auto dest!: readStrictLine_shorter)

declare readHeaderBlockLoop.simps [simp del]

definition readHeaderBlock ::
  "reader \<Rightarrow> int \<Rightarrow> int \<Rightarrow> string \<Rightarrow> http_error + (headerFields \<times> reader)" where
  "readHeaderBlock reader maximumBytes maximumFields section =
     readHeaderBlockLoop maximumBytes maximumFields section [] 0 reader"

subsection \<open>Header validation\<close>

fun regNameBytes :: "string \<Rightarrow> bool" where
  "regNameBytes [] \<longleftrightarrow> True"
| "regNameBytes (current # rest) \<longleftrightarrow>
     (if current = CHR ''%'' then
        (case rest of
           h1 # h2 # rest' \<Rightarrow>
             hexadecimalValue h1 \<noteq> None \<and> hexadecimalValue h2 \<noteq> None \<and> regNameBytes rest'
         | _ \<Rightarrow> False)
      else if (CHR ''0'' \<le> current \<and> current \<le> CHR ''9'') \<or>
              (CHR ''A'' \<le> current \<and> current \<le> CHR ''Z'') \<or>
              (CHR ''a'' \<le> current \<and> current \<le> CHR ''z'') \<or>
              current \<in> set ''-._~!$&()*+,;='' \<or> current = CHR 0x27
        then regNameBytes rest
      else False)"

definition validRegName :: "string \<Rightarrow> bool" where
  "validRegName host \<longleftrightarrow> host \<noteq> [] \<and> regNameBytes host"

text \<open>The port check at the end of \<open>validHost\<close>.\<close>

definition validHostPort :: "string \<Rightarrow> string \<Rightarrow> bool" where
  "validHostPort value port \<longleftrightarrow>
     (if port \<noteq> [] then
        (case ParseUint 16 port of None \<Rightarrow> False | Some parsed \<Rightarrow> int parsed \<le> 65535)
      else \<not> (value \<noteq> [] \<and> last value = CHR '':''))"

definition validHost :: "string \<Rightarrow> bool" where
  "validHost value \<longleftrightarrow>
     (if value = [] \<or> TrimSpace value \<noteq> value then False
      else if hd value = CHR ''['' then
        (let closing = IndexByte value CHR '']'' in
         if closing \<le> 1 \<or> ParseIP (take (nat closing - 1) (drop 1 value)) = None then False
         else
           (let remainder = drop (nat closing + 1) value in
            if remainder \<noteq> [] \<and> hd remainder \<noteq> CHR '':'' then False
            else if CHR '']'' \<in> set remainder then False
            else validHostPort value (drop 1 remainder)))
      else if count_list value CHR '':'' > 1 then False
      else
        (let colon = LastIndexByte value CHR '':'';
             host = (if 0 \<le> colon then take (nat colon) value else value);
             port = (if 0 \<le> colon then drop (nat colon + 1) value else []) in
         if \<not> validRegName host then False else validHostPort value port))"

definition validateConnectionFields :: "headerFields \<Rightarrow> string \<Rightarrow> http_error + unit" where
  "validateConnectionFields headers section =
     failIf
       (list_ex
          (\<lambda>value. list_ex (\<lambda>part. TrimSpace part = [] \<or> \<not> validToken (TrimSpace part))
             (Split CHR '','' value))
          (Values headers ''Connection''))
       (newProtocolError protocolMalformedHeader section ''Connection contains an invalid token'')"

definition validateRequestHeaders :: "string \<Rightarrow> headerFields \<Rightarrow> http_error + unit" where
  "validateRequestHeaders method headers =
     (let hostValues = Values headers ''Host'' in
      if hostValues = []
        then Inl (newProtocolError protocolMissingHost ''request headers'' ''HTTP/1.1 requires Host'')
      else if length hostValues \<noteq> 1 \<or> \<not> validHost (hd hostValues)
        then Inl (newProtocolError protocolMalformedHeader ''request headers''
                    ''Host must be one valid authority value'')
      else
        andThen (validateConnectionFields headers ''request headers'') (\<lambda>_.
          if HasToken headers ''Connection'' ''upgrade'' \<or> Values headers ''Upgrade'' \<noteq> []
            then Inl (newProtocolError protocolUnsupportedFeature ''request headers''
                        ''protocol upgrades are unsupported'')
          else if Values headers ''Expect'' \<noteq> []
            then Inl (newProtocolError protocolUnsupportedFeature ''request headers''
                        ''Expect is unsupported'')
          else Inr ()))"

definition validateResponseFramingHeaders :: "int \<Rightarrow> headerFields \<Rightarrow> http_error + unit" where
  "validateResponseFramingHeaders statusCode headers =
     failIf
       (((100 \<le> statusCode \<and> statusCode < 200) \<or> statusCode = 204) \<and>
        (Values headers ''Content-Length'' \<noteq> [] \<or> Values headers ''Transfer-Encoding'' \<noteq> []))
       (newProtocolError protocolMalformedHeader ''response headers''
          ''1xx and 204 responses cannot declare message framing'')"

definition forbiddenTrailers :: "string list" where
  "forbiddenTrailers =
     [''content-length'', ''transfer-encoding'', ''host'', ''connection'', ''trailer'', ''te'',
      ''upgrade'', ''proxy-connection'', ''keep-alive'']"

definition validateTrailers :: "headerFields \<Rightarrow> http_error + unit" where
  "validateTrailers trailers =
     failIf (list_ex (\<lambda>field. ToLower (Name field) \<in> set forbiddenTrailers) trailers)
       (newProtocolError protocolMalformedHeader ''trailers''
          ''framing or connection field is forbidden in trailers'')"

subsection \<open>Body framing\<close>

definition onlyChunkedTransferCoding :: "string list \<Rightarrow> bool" where
  "onlyChunkedTransferCoding values \<longleftrightarrow>
     (case values of
        [value] \<Rightarrow>
          (case Split CHR '','' value of
             [part] \<Rightarrow> EqualFold (TrimSpace part) ''chunked''
           | _ \<Rightarrow> False)
      | _ \<Rightarrow> False)"

text \<open>
  The two nested loops of \<open>parseContentLengths\<close> over the comma-separated items of every value;
  \<open>expected\<close> is \<open>None\<close> until the first item is seen.
\<close>

fun contentLengthLoop :: "nat option \<Rightarrow> string list \<Rightarrow> http_error + nat option" where
  "contentLengthLoop expected [] = Inr expected"
| "contentLengthLoop expected (raw # items) =
     (let item = TrimSpace raw in
      if item = [] \<or> \<not> decimalDigits item
        then Inl (newProtocolError protocolInvalidContentLength ''message framing''
                    ''Content-Length must contain decimal digits'')
      else
        (case ParseUint 63 item of
           None \<Rightarrow>
             Inl (ProtocolErr \<lparr>Kind = protocolInvalidContentLength, Section = ''message framing'',
                    Detail = [], Err = Some (IoOther ''strconv.ParseUint'')\<rparr>)
         | Some parsed \<Rightarrow>
             if expected \<noteq> None \<and> expected \<noteq> Some parsed
               then Inl (newProtocolError protocolAmbiguousFraming ''message framing''
                           ''Content-Length values conflict'')
             else contentLengthLoop (Some parsed) items))"

definition parseContentLengths :: "string list \<Rightarrow> http_error + int" where
  "parseContentLengths values =
     andThen (contentLengthLoop None (concat (map (Split CHR '','') values)))
       (\<lambda>seen. case seen of
          None \<Rightarrow> Inl (newProtocolError protocolInvalidContentLength ''message framing''
                         ''Content-Length is empty'')
        | Some expected \<Rightarrow> Inr (int expected))"

definition determineBodyFraming :: "headerFields \<Rightarrow> int \<Rightarrow> http_error + (bodyMode \<times> int)" where
  "determineBodyFraming headers maximumBody =
     (let transferValues = Values headers ''Transfer-Encoding'';
          lengthValues = Values headers ''Content-Length'' in
      if transferValues \<noteq> [] \<and> lengthValues \<noteq> []
        then Inl (newProtocolError protocolAmbiguousFraming ''message framing''
                    ''Transfer-Encoding and Content-Length cannot coexist'')
      else if transferValues \<noteq> [] then
        (if \<not> onlyChunkedTransferCoding transferValues
           then Inl (newProtocolError protocolUnsupportedTransferCoding ''message framing''
                       ''only a single chunked coding is supported'')
         else Inr (bodyModeChunked, 0))
      else if lengthValues = [] then Inr (bodyModeNone, 0)
      else
        andThen (parseContentLengths lengthValues)
          (\<lambda>bodyLength. if bodyLength > maximumBody
             then Inl (newProtocolError protocolBodyTooLarge ''message framing''
                         ''declared body exceeds configured limit'')
           else Inr (bodyModeFixed, bodyLength)))"

subsection \<open>Bodies\<close>

text \<open>\<^verbatim>\<open>io.ReadFull\<close> of \<open>n\<close> bytes.\<close>

definition ReadFull :: "reader \<Rightarrow> nat \<Rightarrow> io_error + (bytes \<times> reader)" where
  "ReadFull reader n =
     (let s = fst reader; e = snd reader in
      if n \<le> length s then Inr (take n s, (drop n s, e))
      else if s \<noteq> [] \<and> e = IoEOF then Inl IoUnexpectedEOF
      else Inl e)"

lemma ReadFull_append [simp]: "ReadFull (b @ rest, e) (length b) = Inr (b, (rest, e))"
  by (simp add: ReadFull_def)

definition readFixedBody :: "reader \<Rightarrow> int \<Rightarrow> string \<Rightarrow> http_error + (bytes \<times> reader)" where
  "readFixedBody reader bodyLength section =
     (if bodyLength = 0 then Inr ([], reader)
      else if bodyLength < 0 \<or> bodyLength > maxInt
        then Inl (newProtocolError protocolBodyTooLarge section
                    ''body cannot be represented on this platform'')
      else
        (case ReadFull reader (nat bodyLength) of
           Inl err \<Rightarrow> Inl (protocolErrorFromRead section err True)
         | Inr result \<Rightarrow> Inr result))"

text \<open>\<^verbatim>\<open>io.ReadAll(io.LimitReader(reader, n))\<close>: at most \<open>n\<close> bytes; EOF is not an error.\<close>

definition ReadAllLimited :: "reader \<Rightarrow> nat \<Rightarrow> io_error + (bytes \<times> reader)" where
  "ReadAllLimited reader n =
     (let s = fst reader; e = snd reader in
      if n \<le> length s \<or> e = IoEOF then Inr (take n s, (drop n s, e)) else Inl e)"

definition readCloseDelimitedBody ::
  "reader \<Rightarrow> int \<Rightarrow> string \<Rightarrow> http_error + (bytes \<times> reader)" where
  "readCloseDelimitedBody reader maximum section =
     (case ReadAllLimited reader (nat (maximum + 1)) of
        Inl err \<Rightarrow> Inl (protocolErrorFromRead section err True)
      | Inr (body, reader') \<Rightarrow>
          if int (length body) > maximum
            then Inl (newProtocolError protocolBodyTooLarge section
                        ''close-delimited body exceeds configured limit'')
          else Inr (body, reader'))"

subsubsection \<open>Chunk lines\<close>

fun consumeQuotedString :: "bytes \<Rightarrow> bytes \<times> bool" where
  "consumeQuotedString [] = ([], False)"
| "consumeQuotedString (current # rest) =
     (if current = DQUOTE then (rest, True)
      else if current = BACKSLASH then
        (case rest of
           [] \<Rightarrow> ([], False)
         | q # rest' \<Rightarrow> if \<not> validQuotedByte q then (rest, False) else consumeQuotedString rest')
      else if \<not> validQuotedByte current then (current # rest, False)
      else consumeQuotedString rest)"

definition skipToken :: "bytes \<Rightarrow> bytes" where
  "skipToken s = dropWhile isTokenByte s"

lemma skipOWS_length [simp]: "length (skipOWS s) \<le> length s"
  by (induction s) auto

lemma skipToken_length [simp]: "length (skipToken s) \<le> length s"
  by (simp add: skipToken_def length_dropWhile_le)

lemma consumeQuotedString_length: "length (fst (consumeQuotedString s)) \<le> length s"
proof (induction s rule: consumeQuotedString.induct)
  case (2 current rest)
  show ?case
  proof (cases "current = BACKSLASH \<and> current \<noteq> DQUOTE")
    case True
    with 2(1) show ?thesis by (cases rest) (simp_all add: le_SucI)
  next
    case False
    with 2(2) show ?thesis by (simp add: le_SucI)
  qed
qed simp

text \<open>
  The value after \<^verbatim>\<open>=\<close>: a quoted string or a token, then optional white space. \<open>None\<close> is the
  source's \<^verbatim>\<open>return false\<close>.
\<close>

definition extensionValue :: "bytes \<Rightarrow> bytes option" where
  "extensionValue s =
     (if s = [] then None
      else if hd s = DQUOTE then
        (case consumeQuotedString (tl s) of (s', ok) \<Rightarrow> if ok then Some (skipOWS s') else None)
      else if skipToken s = s then None
      else Some (skipOWS (skipToken s)))"

lemma extensionValue_length: "extensionValue s = Some s' \<Longrightarrow> length s' \<le> length s"
  using consumeQuotedString_length [of "tl s"] skipOWS_length [of "fst (consumeQuotedString (tl s))"]
    skipOWS_length [of "skipToken s"] skipToken_length [of s]
  by (auto simp: extensionValue_def split: if_splits prod.splits
      simp del: skipOWS_length skipToken_length)

function validChunkExtensions :: "bytes \<Rightarrow> bool" where
  "validChunkExtensions extensions \<longleftrightarrow>
     (case extensions of
        [] \<Rightarrow> True
      | c # rest \<Rightarrow>
          if c \<noteq> CHR '';'' then False
          else
            (let start = skipOWS rest; afterName = skipToken start in
             if afterName = start then False
             else
               (let s = skipOWS afterName;
                    nxt = (if s \<noteq> [] \<and> hd s = CHR ''='' then extensionValue (skipOWS (tl s))
                           else Some s) in
                case nxt of
                  None \<Rightarrow> False
                | Some s' \<Rightarrow>
                    if s' \<noteq> [] \<and> hd s' \<noteq> CHR '';'' then False else validChunkExtensions s')))"
  by pat_completeness auto
termination
proof (relation "measure length", goal_cases)
  case (2 extensions c rest start afterName s nxt s')
  have "length s \<le> length rest"
    unfolding 2 by (rule order_trans [OF skipOWS_length order_trans [OF skipToken_length skipOWS_length]])
  moreover have "length s' \<le> length s"
    using 2 extensionValue_length [of "skipOWS (tl s)" s'] skipOWS_length [of "tl s"]
    by (auto split: if_splits)
  ultimately show ?case using 2 by simp
qed simp

declare validChunkExtensions.simps [simp del]

fun chunkSizeLoop :: "u64 \<Rightarrow> bytes \<Rightarrow> http_error + u64" where
  "chunkSizeLoop value [] = Inr value"
| "chunkSizeLoop value (current # rest) =
     (case hexadecimalValue current of
        None \<Rightarrow> Inl (newProtocolError protocolInvalidChunk ''chunk size''
                       ''invalid or overflowing hexadecimal size'')
      | Some digit \<Rightarrow>
          if value > (- 1 - digit) div 16
            then Inl (newProtocolError protocolInvalidChunk ''chunk size''
                        ''invalid or overflowing hexadecimal size'')
          else chunkSizeLoop (value * 16 + digit) rest)"

definition parseChunkSizeLine :: "bytes \<Rightarrow> http_error + u64" where
  "parseChunkSizeLine line =
     (let semicolon = IndexByte line CHR '';'';
          sizeBytes = (if 0 \<le> semicolon then take (nat semicolon) line else line) in
      if 0 \<le> semicolon \<and> \<not> validChunkExtensions (drop (nat semicolon) line)
        then Inl (newProtocolError protocolInvalidChunk ''chunk size'' ''invalid chunk extension'')
      else if sizeBytes = []
        then Inl (newProtocolError protocolInvalidChunk ''chunk size'' ''missing hexadecimal size'')
      else chunkSizeLoop 0 sizeBytes)"

text \<open>
  The overflow test in front of every multiplication is exact: a digit string is accepted if and
  only if its value fits 64 bits.
\<close>

lemma hexadecimalValue_eq: "hexadecimalValue c = map_option word_of_nat (hexDigit c)"
  by (simp add: hexadecimalValue_def hexDigit_def)

lemma div_16_less_iff:
  "d < 16 \<Longrightarrow> 16 \<le> M \<Longrightarrow> (M - 1 - d) div 16 < v \<longleftrightarrow> M \<le> v * 16 + (d::nat)"
  by (subst div_less_iff_less_mult) auto

lemma chunk_step:
  fixes v :: u64
  assumes "d < 16"
  shows "v > (- 1 - word_of_nat d) div 16 \<longleftrightarrow> 2 ^ 64 \<le> unat v * 16 + d"
    and "unat v * 16 + d < 2 ^ 64 \<Longrightarrow> unat (v * 16 + word_of_nat d) = unat v * 16 + d"
proof -
  have d: "unat (word_of_nat d :: u64) = d" using assms by (simp add: unat_of_nat)
  have m: "unat (- 1 - word_of_nat d :: u64) = 2 ^ 64 - 1 - d"
  proof -
    have "word_of_nat d \<le> (- 1 :: u64)" by simp
    then have "unat (- 1 - word_of_nat d :: u64) = unat (- 1 :: u64) - unat (word_of_nat d :: u64)"
      by (rule unat_sub)
    moreover have "unat (- 1 :: u64) = 2 ^ 64 - 1"
      by (simp add: unsigned_minus_1_eq_mask mask_eq_exp_minus_1)
    ultimately show ?thesis using d by simp
  qed
  have "v > (- 1 - word_of_nat d) div 16 \<longleftrightarrow> (2 ^ 64 - 1 - d) div 16 < unat v"
    by (simp add: word_less_nat_alt unat_div m)
  also have "\<dots> \<longleftrightarrow> 2 ^ 64 \<le> unat v * 16 + d"
    by (rule div_16_less_iff [OF assms]) simp
  finally show "v > (- 1 - word_of_nat d) div 16 \<longleftrightarrow> 2 ^ 64 \<le> unat v * 16 + d" .
  show "unat (v * 16 + word_of_nat d) = unat v * 16 + d" if "unat v * 16 + d < 2 ^ 64"
    using that by (simp add: unat_word_ariths d)
qed

lemma chunkSizeLoop_eq:
  "chunkSizeLoop v s =
     (if list_all (\<lambda>c. hexDigit c \<noteq> None) s \<and> hexFold (unat v) s < 2 ^ 64
      then Inr (word_of_nat (hexFold (unat v) s))
      else Inl (newProtocolError protocolInvalidChunk ''chunk size''
                  ''invalid or overflowing hexadecimal size''))"
proof (induction s arbitrary: v)
  case Nil
  have "unat v < 2 ^ 64" using unsigned_less [of v] by simp
  then show ?case by (simp add: hexFold_def)
next
  case (Cons c s)
  show ?case
  proof (cases "hexDigit c")
    case None
    then show ?thesis by (simp add: hexadecimalValue_eq)
  next
    case (Some d)
    note d16 = hexDigit_less_16 [OF Some]
    have fold: "hexFold (unat v) (c # s) = hexFold (unat v * 16 + d) s"
      using Some by (simp add: hexFold_def)
    show ?thesis
    proof (cases "unat v * 16 + d < 2 ^ 64")
      case True
      with chunk_step [OF d16, of v] Some show ?thesis
        by (simp add: hexadecimalValue_eq Cons.IH fold)
    next
      case False
      then have "\<not> hexFold (unat v) (c # s) < 2 ^ 64"
        unfolding fold using hexFold_mono [of "unat v * 16 + d" s] by linarith
      with False chunk_step(1) [OF d16, of v] Some show ?thesis
        by (simp add: hexadecimalValue_eq)
    qed
  qed
qed

text \<open>The 64-bit comparison that bounds the decoded body.\<close>

definition chunkExceedsLimit :: "httpLimits \<Rightarrow> bytes \<Rightarrow> u64 \<Rightarrow> bool" where
  "chunkExceedsLimit limits body chunk \<longleftrightarrow>
     chunk > word_of_int (MaxBodyBytes limits) - word_of_nat (length body) \<or>
     chunk > word_of_int (maxInt - int (length body))"

function readChunkedBodyLoop ::
  "httpLimits \<Rightarrow> string \<Rightarrow> int \<Rightarrow> bytes \<Rightarrow> reader \<Rightarrow>
   http_error + ((bytes \<times> headerFields) \<times> reader)" where
  "readChunkedBodyLoop limits section chunkCount body reader =
     (if chunkCount > MaxChunkCount limits
        then Inl (newProtocolError protocolLimitExceeded section
                    ''chunk count exceeds configured limit'')
      else
        andThen (readStrictLine reader (MaxChunkLineBytes limits) ''chunk size'')
          (\<lambda>(line, _, reader1).
        andThen (parseChunkSizeLine line) (\<lambda>chunk.
        if chunk = 0 then
          andThen (readHeaderBlock reader1 (MaxTrailerBytes limits) (MaxTrailerFields limits)
                     ''trailers'')
            (\<lambda>(trailers, reader2).
          andThen (validateTrailers trailers) (\<lambda>_. Inr ((body, trailers), reader2)))
        else if chunkExceedsLimit limits body chunk
          then Inl (newProtocolError protocolBodyTooLarge section
                      ''decoded chunked body exceeds configured limit'')
        else
          (case ReadFull reader1 (unat chunk) of
             Inl err \<Rightarrow> Inl (protocolErrorFromRead section err True)
           | Inr (data, reader2) \<Rightarrow>
               (case ReadFull reader2 2 of
                  Inl err \<Rightarrow> Inl (protocolErrorFromRead section err True)
                | Inr (ending, reader3) \<Rightarrow>
                    if ending \<noteq> CRLF
                      then Inl (newProtocolError protocolInvalidChunk section
                                  ''chunk data must end with CRLF'')
                    else readChunkedBodyLoop limits section (chunkCount + 1) (body @ data)
                           reader3)))))"
  by pat_completeness auto
termination
  by (relation "measure (\<lambda>(limits, sec, chunkCount, body, reader).
        nat (MaxChunkCount limits + 1 - chunkCount))") auto

declare readChunkedBodyLoop.simps [simp del]

definition readChunkedBody ::
  "reader \<Rightarrow> httpLimits \<Rightarrow> string \<Rightarrow> http_error + ((bytes \<times> headerFields) \<times> reader)" where
  "readChunkedBody reader limits section = readChunkedBodyLoop limits section 1 [] reader"

subsection \<open>Messages\<close>

definition limitsError :: "string \<Rightarrow> http_error" where
  "limitsError err =
     ProtocolErr \<lparr>Kind = protocolLimitExceeded, Section = ''limits'', Detail = [],
       Err = Some (IoOther err)\<rparr>"

definition checkLimits :: "httpLimits \<Rightarrow> http_error + unit" where
  "checkLimits limits =
     (case httpLimits_validate limits of Inl err \<Rightarrow> Inl (limitsError err) | Inr _ \<Rightarrow> Inr ())"

definition readRequestBody ::
  "reader \<Rightarrow> httpLimits \<Rightarrow> bodyMode \<Rightarrow> int \<Rightarrow>
   http_error + ((bytes \<times> headerFields) \<times> reader)" where
  "readRequestBody reader limits mode bodyLength =
     (case mode of
        bodyModeNone \<Rightarrow> Inr (([], []), reader)
      | bodyModeFixed \<Rightarrow>
          andThen (readFixedBody reader bodyLength ''request body'')
            (\<lambda>(body, reader'). Inr ((body, []), reader'))
      | bodyModeChunked \<Rightarrow> readChunkedBody reader limits ''request body''
      | bodyModeCloseDelimited \<Rightarrow>
          Inl (newProtocolError protocolAmbiguousFraming ''request body''
                 ''invalid request body mode''))"

definition readHTTPRequest :: "reader \<Rightarrow> httpLimits \<Rightarrow> http_error + (httpRequest \<times> reader)" where
  "readHTTPRequest reader limits =
     andThen (checkLimits limits) (\<lambda>_.
     andThen (readStrictLine reader (MaxStartLineBytes limits) ''request line'')
       (\<lambda>(line, _, reader1).
     andThen (parseRequestLine line) (\<lambda>(method, target, version).
     andThen (readHeaderBlock reader1 (MaxHeaderBytes limits) (MaxHeaderFields limits)
                ''request headers'')
       (\<lambda>(headers, reader2).
     andThen (validateRequestHeaders method headers) (\<lambda>_.
     andThen (determineBodyFraming headers (MaxBodyBytes limits)) (\<lambda>(mode, bodyLength).
     andThen (readRequestBody reader2 limits mode bodyLength) (\<lambda>((body, trailers), reader3).
       Inr (\<lparr>Method = method, Target = target, ReqVersion = version, ReqHeaders = headers,
             ReqTrailers = trailers, ReqBody = body, ReqBodyMode = mode,
             ReqKeepAlive = \<not> HasToken headers ''Connection'' ''close'', RemoteAddr = []\<rparr>,
            reader3))))))))"

definition readResponseBody ::
  "reader \<Rightarrow> httpLimits \<Rightarrow> bodyMode \<Rightarrow> int \<Rightarrow>
   http_error + ((bytes \<times> headerFields \<times> bodyMode) \<times> reader)" where
  "readResponseBody reader limits mode bodyLength =
     (case mode of
        bodyModeNone \<Rightarrow>
          andThen (readCloseDelimitedBody reader (MaxBodyBytes limits) ''response body'')
            (\<lambda>(body, reader'). Inr ((body, [], bodyModeCloseDelimited), reader'))
      | bodyModeFixed \<Rightarrow>
          andThen (readFixedBody reader bodyLength ''response body'')
            (\<lambda>(body, reader'). Inr ((body, [], bodyModeFixed), reader'))
      | bodyModeChunked \<Rightarrow>
          andThen (readChunkedBody reader limits ''response body'')
            (\<lambda>((body, trailers), reader'). Inr ((body, trailers, bodyModeChunked), reader'))
      | bodyModeCloseDelimited \<Rightarrow>
          Inl (newProtocolError protocolAmbiguousFraming ''response body''
                 ''invalid response body mode''))"

definition readHTTPResponse ::
  "reader \<Rightarrow> httpLimits \<Rightarrow> string \<Rightarrow> http_error + (httpResponse \<times> reader)" where
  "readHTTPResponse reader limits requestMethod =
     andThen (checkLimits limits) (\<lambda>_.
     andThen (readStrictLine reader (MaxStartLineBytes limits) ''status line'')
       (\<lambda>(line, _, reader1).
     andThen (parseStatusLine line) (\<lambda>(version, statusCode, reason).
     andThen (readHeaderBlock reader1 (MaxHeaderBytes limits) (MaxHeaderFields limits)
                ''response headers'')
       (\<lambda>(headers, reader2).
     andThen (validateConnectionFields headers ''response headers'') (\<lambda>_.
     andThen (validateResponseFramingHeaders statusCode headers) (\<lambda>_.
     if successfulConnectResponse requestMethod statusCode \<or> statusCode = 101 \<or>
        HasToken headers ''Connection'' ''upgrade'' \<or> Values headers ''Upgrade'' \<noteq> []
       then Inl (newProtocolError protocolUnsupportedFeature ''response headers''
                   ''tunnels and protocol upgrades are unsupported'')
     else
     andThen (determineBodyFraming headers (MaxBodyBytes limits)) (\<lambda>(mode, bodyLength).
       (let response = \<lparr>RespVersion = version, StatusCode = statusCode, Reason = reason,
              RespHeaders = headers, RespTrailers = [], RespBody = [], RespBodyMode = mode,
              RespKeepAlive = False, RespClose = False, CommitState = None\<rparr> in
        if responseMustNotHaveBody requestMethod statusCode
          then Inr (response\<lparr>RespBodyMode := bodyModeNone,
                      RespKeepAlive := \<not> HasToken headers ''Connection'' ''close''\<rparr>, reader2)
        else
          andThen (readResponseBody reader2 limits mode bodyLength)
            (\<lambda>((body, trailers, mode'), reader3).
              Inr (response\<lparr>RespBody := body, RespTrailers := trailers, RespBodyMode := mode',
                     RespKeepAlive := mode' \<noteq> bodyModeCloseDelimited \<and>
                       \<not> HasToken headers ''Connection'' ''close''\<rparr>,
                   reader3))))))))))"

end
