(* ===== verification/Http_Writer.thy ===== *)
theory Http_Writer
  imports Http_Parser
begin

text \<open>
  \<^verbatim>\<open>src/src/http_writer.go\<close>: serialisation of requests and responses.

  An \<^verbatim>\<open>io.Writer\<close> is a function on a writer state: given the bytes offered it returns the count it
  accepted, its error and its new state. Every write function returns the error, if any, with the
  state the writer is left in, since bytes may have been sent before the failure.
\<close>

type_synonym 'w writer = "'w \<Rightarrow> bytes \<Rightarrow> int \<times> io_error option \<times> 'w"
type_synonym 'w written = "http_error option \<times> 'w"

text \<open>\<^verbatim>\<open>bytes.Buffer\<close>: accepts everything.\<close>

definition bufferWriter :: "bytes writer" where
  "bufferWriter w data = (int (length data), None, w @ data)"

text \<open>\<^verbatim>\<open>if err := f(); err != nil { return err }\<close> for write functions.\<close>

definition thenWrite :: "'w written \<Rightarrow> ('w \<Rightarrow> 'w written) \<Rightarrow> 'w written" where
  "thenWrite m f = (case m of (Some err, w) \<Rightarrow> (Some err, w) | (None, w) \<Rightarrow> f w)"

lemma thenWrite_simps [simp, result_simps]:
  "thenWrite (Some err, w) f = (Some err, w)"
  "thenWrite (None, w) f = f w"
  by (simp_all add: thenWrite_def)

lemma thenWrite_None_iff [result_simps]:
  "thenWrite m f = (None, w') \<longleftrightarrow> (\<exists>w. m = (None, w) \<and> f w = (None, w'))"
  by (cases m; cases "fst m") auto

function writeAll :: "'w writer \<Rightarrow> 'w \<Rightarrow> bytes \<Rightarrow> 'w written" where
  "writeAll wr w data =
     (if data = [] then (None, w)
      else
        (case wr w data of
           (written, err, w') \<Rightarrow>
             if written < 0 \<or> written > int (length data) then (Some (RawError IoShortWrite), w')
             else
               (case err of
                  Some e \<Rightarrow> (Some (RawError e), w')
                | None \<Rightarrow>
                    if written = 0 then (Some (RawError IoShortWrite), w')
                    else writeAll wr w' (drop (nat written) data))))"
  by pat_completeness auto
termination
  by (relation "measure (\<lambda>(wr, w, data). length data)") auto

declare writeAll.simps [simp del]

lemma writeAll_buffer [simp, codec_simps]: "writeAll bufferWriter w data = (None, w @ data)"
  by (subst writeAll.simps, subst writeAll.simps) (simp add: bufferWriter_def)

fun writeHeaderBlock :: "'w writer \<Rightarrow> 'w \<Rightarrow> headerFields \<Rightarrow> 'w written" where
  "writeHeaderBlock wr w [] = writeAll wr w CRLF"
| "writeHeaderBlock wr w (field # headers) =
     thenWrite (writeAll wr w (Name field @ '': '' @ Value field @ CRLF))
       (\<lambda>w'. writeHeaderBlock wr w' headers)"

fun validateGeneratedFields :: "headerFields \<Rightarrow> string \<Rightarrow> http_error option" where
  "validateGeneratedFields [] section = None"
| "validateGeneratedFields (field # rest) section =
     (if \<not> validToken (Name field)
        then Some (newProtocolError protocolInvalidGeneratedMessage section ''invalid field name'')
      else if \<not> validFieldValue (Value field) \<or> CR \<in> set (Value field) \<or> LF \<in> set (Value field)
        then Some (newProtocolError protocolInvalidGeneratedMessage section ''invalid field value'')
      else validateGeneratedFields rest section)"

definition framingField :: "headerField \<Rightarrow> bool" where
  "framingField field \<longleftrightarrow>
     EqualFold (Name field) ''Content-Length'' \<or> EqualFold (Name field) ''Transfer-Encoding'' \<or>
     EqualFold (Name field) ''Trailer''"

definition withoutFramingHeaders :: "headerFields \<Rightarrow> headerFields" where
  "withoutFramingHeaders headers = filter (\<lambda>field. \<not> framingField field) headers"

fun trailerNames :: "string list \<Rightarrow> headerFields \<Rightarrow> string list" where
  "trailerNames seen [] = []"
| "trailerNames seen (trailer # trailers) =
     (let key = ToLower (Name trailer) in
      if key \<in> set seen then trailerNames seen trailers
      else Name trailer # trailerNames (key # seen) trailers)"

definition appendTrailerDeclaration :: "headerFields \<Rightarrow> headerFields \<Rightarrow> headerFields" where
  "appendTrailerDeclaration headers trailers =
     (if trailers = [] then headers
      else headers @ [hf ''Trailer'' (Join (trailerNames [] trailers) '', '')])"

subsection \<open>Chunked bodies\<close>

text \<open>A \<^verbatim>\<open>chunkedBodyWriter\<close>; the writer it wraps is the state threaded through its methods.\<close>

record chunkedBodyWriter =
  cwTrailers :: headerFields
  cwClosed :: bool

definition newChunkedBodyWriter :: "headerFields \<Rightarrow> http_error + chunkedBodyWriter" where
  "newChunkedBodyWriter trailers =
     (case validateGeneratedFields trailers ''trailers'' of
        Some err \<Rightarrow> Inl err
      | None \<Rightarrow>
          andThen (validateTrailers trailers)
            (\<lambda>_. Inr \<lparr>cwTrailers = trailers, cwClosed = False\<rparr>))"

definition chunkedWrite ::
  "'w writer \<Rightarrow> 'w \<Rightarrow> chunkedBodyWriter \<Rightarrow> bytes \<Rightarrow> 'w written" where
  "chunkedWrite wr w cw data =
     (if cwClosed cw
        then (Some (newProtocolError protocolInvalidGeneratedMessage ''chunked writer''
                      ''write after close''), w)
      else if data = [] then (None, w)
      else
        thenWrite (writeAll wr w (formatUint 16 (length data) @ CRLF)) (\<lambda>w1.
        thenWrite (writeAll wr w1 data) (\<lambda>w2.
        writeAll wr w2 CRLF)))"

definition chunkedClose ::
  "'w writer \<Rightarrow> 'w \<Rightarrow> chunkedBodyWriter \<Rightarrow> 'w written \<times> chunkedBodyWriter" where
  "chunkedClose wr w cw =
     (if cwClosed cw then ((None, w), cw)
      else
        (thenWrite (writeAll wr w (''0'' @ CRLF)) (\<lambda>w1. writeHeaderBlock wr w1 (cwTrailers cw)),
         cw\<lparr>cwClosed := True\<rparr>))"

definition writeMessageBody ::
  "'w writer \<Rightarrow> 'w \<Rightarrow> bodyMode \<Rightarrow> bytes \<Rightarrow> headerFields \<Rightarrow> 'w written" where
  "writeMessageBody wr w mode body trailers =
     (case mode of
        bodyModeNone \<Rightarrow> (None, w)
      | bodyModeFixed \<Rightarrow> writeAll wr w body
      | bodyModeChunked \<Rightarrow>
          (case newChunkedBodyWriter trailers of
             Inl err \<Rightarrow> (Some err, w)
           | Inr cw \<Rightarrow>
               thenWrite (if body \<noteq> [] then chunkedWrite wr w cw body else (None, w))
                 (\<lambda>w1. fst (chunkedClose wr w1 cw)))
      | bodyModeCloseDelimited \<Rightarrow>
          (Some (newProtocolError protocolInvalidGeneratedMessage ''message writer''
                   ''unsupported body mode''), w))"

subsection \<open>Requests\<close>

text \<open>
  The checks of \<open>writeHTTPRequest\<close> before its first byte: the version, body mode and header
  fields it then writes.
\<close>

definition requestHead ::
  "httpRequest \<Rightarrow> http_error + (string \<times> bodyMode \<times> headerFields)" where
  "requestHead request =
     (let version = (if ReqVersion request = [] then httpVersion11 else ReqVersion request);
          line = Method request @ '' '' @ Target request @ '' '' @ version in
      andThen (parseRequestLine line) (\<lambda>(method, target, parsedVersion).
      if method \<noteq> Method request \<or> target \<noteq> Target request \<or> parsedVersion \<noteq> version
        then Inl (newProtocolError protocolInvalidGeneratedMessage ''request writer''
                    ''request line changed during validation'')
      else
      (case validateGeneratedFields (ReqHeaders request) ''request headers'' of
         Some err \<Rightarrow> Inl err
       | None \<Rightarrow>
      andThen (validateRequestHeaders (Method request) (ReqHeaders request)) (\<lambda>_.
      andThen (validateTrailers (ReqTrailers request)) (\<lambda>_.
      (let mode = (if ReqBodyMode request = bodyModeNone \<and> ReqBody request \<noteq> []
                   then bodyModeFixed else ReqBodyMode request);
           headers = withoutFramingHeaders (ReqHeaders request) in
       case mode of
         bodyModeCloseDelimited \<Rightarrow>
           Inl (newProtocolError protocolInvalidGeneratedMessage ''request writer''
                  ''request bodies cannot be close-delimited'')
       | bodyModeNone \<Rightarrow> Inr (version, mode, headers)
       | bodyModeFixed \<Rightarrow>
           Inr (version, mode,
                headers @ [hf ''Content-Length'' (Itoa (length (ReqBody request)))])
       | bodyModeChunked \<Rightarrow>
           Inr (version, mode,
                appendTrailerDeclaration (headers @ [hf ''Transfer-Encoding'' ''chunked''])
                  (ReqTrailers request))))))))"

definition writeHTTPRequest :: "'w writer \<Rightarrow> 'w \<Rightarrow> httpRequest \<Rightarrow> 'w written" where
  "writeHTTPRequest wr w request =
     (case requestHead request of
        Inl err \<Rightarrow> (Some err, w)
      | Inr (version, mode, headers) \<Rightarrow>
          thenWrite
            (writeAll wr w (Method request @ '' '' @ Target request @ '' '' @ version @ CRLF))
            (\<lambda>w1.
          thenWrite (writeHeaderBlock wr w1 headers) (\<lambda>w2.
          writeMessageBody wr w2 mode (ReqBody request) (ReqTrailers request))))"

subsection \<open>Responses\<close>

definition defaultReasonPhrase :: "int \<Rightarrow> string" where
  "defaultReasonPhrase statusCode =
     (if statusCode = 100 then ''Continue''
      else if statusCode = 200 then ''OK''
      else if statusCode = 201 then ''Created''
      else if statusCode = 204 then ''No Content''
      else if statusCode = 304 then ''Not Modified''
      else if statusCode = 400 then ''Bad Request''
      else if statusCode = 404 then ''Not Found''
      else if statusCode = 405 then ''Method Not Allowed''
      else if statusCode = 413 then ''Content Too Large''
      else if statusCode = 417 then ''Expectation Failed''
      else if statusCode = 500 then ''Internal Server Error''
      else if statusCode = 501 then ''Not Implemented''
      else if statusCode = 502 then ''Bad Gateway''
      else if statusCode = 503 then ''Service Unavailable''
      else if statusCode = 504 then ''Gateway Timeout''
      else ''Status'')"

text \<open>\<^verbatim>\<open>%03d\<close> of a non-negative number.\<close>

definition format03d :: "nat \<Rightarrow> string" where
  "format03d n = replicate (3 - length (Itoa n)) CHR ''0'' @ Itoa n"

definition responseHead ::
  "httpResponse \<Rightarrow> string \<Rightarrow> http_error + (string \<times> bodyMode \<times> headerFields)" where
  "responseHead response requestMethod =
     (let version = (if RespVersion response = [] then httpVersion11 else RespVersion response);
          reason = (if Reason response = [] then defaultReasonPhrase (StatusCode response)
                    else Reason response);
          noBody = responseMustNotHaveBody requestMethod (StatusCode response) in
      if version \<noteq> httpVersion11 \<or> StatusCode response < 100 \<or> StatusCode response > 599
        then Inl (newProtocolError protocolInvalidGeneratedMessage ''response writer''
                    ''invalid HTTP version or status code'')
      else if \<not> validReasonPhrase reason
        then Inl (newProtocolError protocolInvalidGeneratedMessage ''response writer''
                    ''invalid reason phrase'')
      else
      (case validateGeneratedFields (RespHeaders response) ''response headers'' of
         Some err \<Rightarrow> Inl err
       | None \<Rightarrow>
      andThen (validateConnectionFields (RespHeaders response) ''response headers'') (\<lambda>_.
      if successfulConnectResponse requestMethod (StatusCode response) \<or>
         StatusCode response = 101 \<or> HasToken (RespHeaders response) ''Connection'' ''upgrade'' \<or>
         Values (RespHeaders response) ''Upgrade'' \<noteq> []
        then Inl (newProtocolError protocolUnsupportedFeature ''response writer''
                    ''tunnels and protocol upgrades are unsupported'')
      else
      andThen (validateTrailers (RespTrailers response)) (\<lambda>_.
      (let mode = (if RespBodyMode response = bodyModeNone \<and> \<not> noBody then bodyModeFixed
                   else RespBodyMode response);
           filtered = withoutFramingHeaders (RespHeaders response);
           headers = (if RespClose response \<and> \<not> HasToken filtered ''Connection'' ''close''
                      then filtered @ [hf ''Connection'' ''close''] else filtered);
           contentLength = hf ''Content-Length'' (Itoa (length (RespBody response))) in
       if mode = bodyModeCloseDelimited
         then Inl (newProtocolError protocolInvalidGeneratedMessage ''response writer''
                     ''generated responses must use fixed or chunked framing'')
       else if noBody then
         Inr (reason, bodyModeNone,
              if EqualFold requestMethod ''HEAD'' \<or> StatusCode response = 304
              then headers @ [contentLength] else headers)
       else
         (case mode of
            bodyModeFixed \<Rightarrow> Inr (reason, mode, headers @ [contentLength])
          | bodyModeChunked \<Rightarrow>
              Inr (reason, mode,
                   appendTrailerDeclaration (headers @ [hf ''Transfer-Encoding'' ''chunked''])
                     (RespTrailers response))
          | _ \<Rightarrow> Inl (newProtocolError protocolInvalidGeneratedMessage ''response writer''
                      ''invalid body mode'')))))))"

definition writeHTTPResponse ::
  "'w writer \<Rightarrow> 'w \<Rightarrow> httpResponse \<Rightarrow> string \<Rightarrow> 'w written" where
  "writeHTTPResponse wr w response requestMethod =
     (case responseHead response requestMethod of
        Inl err \<Rightarrow> (Some err, w)
      | Inr (reason, mode, headers) \<Rightarrow>
          thenWrite
            (writeAll wr w
               (httpVersion11 @ '' '' @ format03d (nat (StatusCode response)) @ '' '' @ reason @
                CRLF))
            (\<lambda>w1.
          thenWrite (writeHeaderBlock wr w1 headers) (\<lambda>w2.
          if responseMustNotHaveBody requestMethod (StatusCode response) then (None, w2)
          else writeMessageBody wr w2 mode (RespBody response) (RespTrailers response))))"

end
