(* ===== verification/Http_Codec.thy ===== *)
theory Http_Codec
  imports Http_Writer
begin

text \<open>
  The pieces of a message on the wire and their round trips: byte classes of tokens, values and
  targets; header blocks (\<open>encodeHeaders\<close> against \<open>readHeaderBlock\<close>); fixed and chunked bodies
  (\<open>encodeChunked\<close> against \<open>readChunkedBody\<close>, with the exact 64-bit body-limit test).
\<close>

subsection \<open>Byte classes\<close>

lemma isTokenByte_visible: "isTokenByte c \<Longrightarrow> visibleByte c"
  by (auto simp: isTokenByte_def byte_simps less_eq_char_def)

lemma isTokenByte_ascii: "isTokenByte c \<Longrightarrow> isASCII c"
  by (auto simp: isTokenByte_def byte_simps less_eq_char_def)

lemma isTokenByte_neq:
  assumes "isTokenByte c"
  shows "c \<noteq> CHR '':''" "c \<noteq> CHR '' ''" "c \<noteq> CR" "c \<noteq> LF" "c \<noteq> HTAB" "c \<noteq> CHR '',''" "c \<noteq> CHR '';''"
  using assms by (auto simp: isTokenByte_def less_eq_char_def)

lemma validToken_notin:
  assumes "validToken t"
  shows "CHR '':'' \<notin> set t" "CHR '' '' \<notin> set t" "CR \<notin> set t" "LF \<notin> set t" "CHR '','' \<notin> set t"
  using assms isTokenByte_neq by (fastforce simp: validToken_def list_all_iff)+

lemma validToken_ascii: "validToken t \<Longrightarrow> list_all isASCII t"
  by (auto simp: validToken_def list_all_iff isTokenByte_ascii)

lemma validToken_visible: "validToken t \<Longrightarrow> list_all visibleByte t"
  by (auto simp: validToken_def list_all_iff isTokenByte_visible)

lemma list_all_notin: "list_all P v \<Longrightarrow> \<not> P c \<Longrightarrow> c \<notin> set v"
  by (auto simp: list_all_iff)

lemma validFieldValue_notin:
  assumes "validFieldValue v"
  shows "CR \<notin> set v" "LF \<notin> set v"
  by (rule list_all_notin [OF assms [unfolded validFieldValue_def]], code_simp)+

lemma EqualFold_token: "validToken s \<Longrightarrow> EqualFold s t \<longleftrightarrow> ToLower s = ToLower t"
  by (simp add: EqualFold_ascii validToken_ascii)

lemma hexadecimalValue_visible: "hexadecimalValue c \<noteq> None \<Longrightarrow> visibleByte c"
  by (auto simp: hexadecimalValue_eq intro: hexDigit_visible)

lemma targetBytes_visible: "targetBytes s \<Longrightarrow> list_all visibleByte s"
proof (induction s rule: targetBytes.induct)
  case (2 current rest)
  from "2.prems" have c: "visibleByte current"
    by (simp add: visibleByte_def not_less split: if_splits)
  show ?case
  proof (cases "current = CHR ''%''")
    case True
    with "2.prems" obtain h1 h2 r where r: "rest = h1 # h2 # r"
      "hexadecimalValue h1 \<noteq> None" "hexadecimalValue h2 \<noteq> None" "targetBytes r"
      by (simp split: list.splits if_splits)
    with True c "2.IH"(1) [of h1 "h2 # r" h2 r] "2.prems" show ?thesis
      by (simp add: hexadecimalValue_visible)
  next
    case False
    with "2.prems" have "targetBytes rest" by (simp split: if_splits)
    with False c "2.IH"(2) "2.prems" show ?thesis by (simp split: if_splits)
  qed
qed simp

lemma validRequestTarget_visible: "validRequestTarget m t \<Longrightarrow> list_all visibleByte t \<and> t \<noteq> []"
  by (auto simp: validRequestTarget_def targetBytes_visible byte_simps split: if_splits)

lemma visible_notin:
  assumes "list_all visibleByte s"
  shows "CHR '' '' \<notin> set s" "CR \<notin> set s" "LF \<notin> set s"
  by (rule list_all_notin [OF assms], code_simp)+

subsection \<open>Well-formed fields\<close>

text \<open>
  A field that survives serialisation: a token name and a value without control bytes or
  surrounding white space. The parser only produces such fields.
\<close>

definition wfField :: "headerField \<Rightarrow> bool" where
  "wfField f \<longleftrightarrow> validToken (Name f) \<and> validFieldValue (Value f) \<and> trimOWS (Value f) = Value f"

lemma parseHeaderField_wf: "parseHeaderField line section = Inr f \<Longrightarrow> wfField f"
  by (auto simp: parseHeaderField_def wfField_def Let_def trimOWS_def split: if_splits)

lemma readHeaderBlockLoop_step:
  "readHeaderBlockLoop mb mf section headers consumed reader = Inr (hs, r) \<longleftrightarrow>
   (\<exists>line n reader'. 2 \<le> mb - consumed \<and>
      readStrictLine reader (mb - consumed) section = Inr (line, n, reader') \<and>
      (line = [] \<and> hs = headers \<and> r = reader' \<or>
       line \<noteq> [] \<and> int (length headers) < mf \<and>
       (\<exists>field. parseHeaderField line section = Inr field \<and>
          readHeaderBlockLoop mb mf section (headers @ [field]) (consumed + n) reader' =
            Inr (hs, r))))"
  by (subst readHeaderBlockLoop.simps)
     (auto simp: Let_def not_less not_le split: sum.splits)

lemma readHeaderBlockLoop_wf:
  "readHeaderBlockLoop mb mf section headers consumed reader = Inr (hs, r) \<Longrightarrow>
   list_all wfField headers \<Longrightarrow> list_all wfField hs \<and> int (length hs) \<le> max mf (int (length headers))"
proof (induction "length (fst reader)" arbitrary: headers consumed reader rule: less_induct)
  case less
  from less.prems(1) obtain line n reader'
    where ln: "readStrictLine reader (mb - consumed) section = Inr (line, n, reader')"
    and alt: "line = [] \<and> hs = headers \<or>
       int (length headers) < mf \<and>
       (\<exists>field. parseHeaderField line section = Inr field \<and>
          readHeaderBlockLoop mb mf section (headers @ [field]) (consumed + n) reader' =
            Inr (hs, r))"
    by (subst (asm) readHeaderBlockLoop_step) blast
  from alt show ?case
  proof
    assume "int (length headers) < mf \<and> (\<exists>field. parseHeaderField line section = Inr field \<and>
          readHeaderBlockLoop mb mf section (headers @ [field]) (consumed + n) reader' =
            Inr (hs, r))"
    then obtain field where f: "int (length headers) < mf" "parseHeaderField line section = Inr field"
      "readHeaderBlockLoop mb mf section (headers @ [field]) (consumed + n) reader' = Inr (hs, r)"
      by blast
    from less.hyps [OF readStrictLine_shorter [OF ln] f(3)] f(1,2) less.prems(2) show ?thesis
      by (auto simp: parseHeaderField_wf)
  qed (use less.prems in simp)
qed

definition encodeField :: "headerField \<Rightarrow> bytes" where
  "encodeField f = Name f @ '': '' @ Value f @ CRLF"

definition encodeHeaders :: "headerFields \<Rightarrow> bytes" where
  "encodeHeaders hs = concat (map encodeField hs) @ CRLF"

lemma encodeHeaders_Cons [simp]: "encodeHeaders (f # hs) = encodeField f @ encodeHeaders hs"
  by (simp add: encodeHeaders_def)

lemma encodeHeaders_Nil [simp]: "encodeHeaders [] = CRLF"
  by (simp add: encodeHeaders_def)

lemma writeHeaderBlock_buffer [simp, codec_simps]:
  "writeHeaderBlock bufferWriter w hs = (None, w @ encodeHeaders hs)"
  by (induction hs arbitrary: w) (simp_all add: encodeField_def)

lemma trimOWS_space: "trimOWS (CHR '' '' # v) = trimOWS v"
  by (simp add: trimOWS_def TrimCut_def)

lemma parseHeaderField_encode:
  assumes "wfField f"
  shows "parseHeaderField (Name f @ CHR '':'' # CHR '' '' # Value f) section = Inr f"
proof -
  from assms have n: "validToken (Name f)" and v: "validFieldValue (Value f)"
    and t: "trimOWS (Value f) = Value f" by (auto simp: wfField_def)
  let ?line = "Name f @ CHR '':'' # CHR '' '' # Value f"
  from n have ne: "Name f \<noteq> []" and h: "isTokenByte (hd (Name f))"
    by (auto simp: validToken_def list_all_iff)
  have ix: "IndexByte ?line CHR '':'' = int (length (Name f))"
    by (rule IndexByte_append_hit) (rule validToken_notin(1) [OF n])
  have hd: "hd ?line \<noteq> CHR '' ''" "hd ?line \<noteq> HTAB"
    using ne isTokenByte_neq [OF h] by simp_all
  have d: "drop (nat (int (length (Name f))) + 1) ?line = CHR '' '' # Value f" by simp
  have "hf (Name f) (Value f) = f" by (simp add: hf_def)
  with ne n v t hd show ?thesis
    unfolding parseHeaderField_def Let_def ix d by (simp add: trimOWS_space)
qed

lemma readHeaderBlockLoop_encode:
  "list_all wfField hs \<Longrightarrow>
   consumed + int (length (encodeHeaders hs)) \<le> mb \<Longrightarrow>
   int (length headers) + int (length hs) \<le> mf \<Longrightarrow>
   readHeaderBlockLoop mb mf section headers consumed (encodeHeaders hs @ rest, e) =
     Inr (headers @ hs, (rest, e))"
proof (induction hs arbitrary: headers consumed)
  case Nil
  have "readStrictLine (CRLF @ rest, e) (mb - consumed) section = Inr ([], 2, (rest, e))"
    using Nil by (subst readStrictLine_Inr) auto
  with Nil show ?case by (subst readHeaderBlockLoop.simps) (simp add: Let_def)
next
  case (Cons f hs)
  let ?line = "Name f @ CHR '':'' # CHR '' '' # Value f"
  from Cons.prems have f: "wfField f" by simp
  then have nin: "CR \<notin> set ?line" "LF \<notin> set ?line"
    using validToken_notin [of "Name f"] validFieldValue_notin [of "Value f"]
    by (auto simp: wfField_def)
  have len: "int (length (encodeHeaders (f # hs))) =
      int (length ?line) + 2 + int (length (encodeHeaders hs))"
    by (simp add: encodeField_def)
  have pos: "2 \<le> int (length (encodeHeaders hs))" by (simp add: encodeHeaders_def)
  have s: "encodeHeaders (f # hs) @ rest = ?line @ CR # LF # encodeHeaders hs @ rest"
    by (simp add: encodeField_def)
  have rd: "readStrictLine (encodeHeaders (f # hs) @ rest, e) (mb - consumed) section =
      Inr (?line, int (length ?line) + 2, (encodeHeaders hs @ rest, e))"
    unfolding s using nin Cons.prems(2) len pos by (intro readStrictLine_append) auto
  have rem: "\<not> mb - consumed < 2" using Cons.prems(2) len pos by simp
  have fld: "\<not> mf \<le> int (length headers)" using Cons.prems(3) by simp
  have "readHeaderBlockLoop mb mf section headers consumed (encodeHeaders (f # hs) @ rest, e) =
      readHeaderBlockLoop mb mf section (headers @ [f]) (consumed + (int (length ?line) + 2))
        (encodeHeaders hs @ rest, e)"
    using rem fld parseHeaderField_encode [OF f]
    by (subst readHeaderBlockLoop.simps) (simp add: Let_def rd del: encodeHeaders_Cons)
  also have "\<dots> = Inr ((headers @ [f]) @ hs, (rest, e))"
    using Cons.prems len by (intro Cons.IH) auto
  finally show ?case by simp
qed

lemma readHeaderBlock_encode [codec_simps]:
  "list_all wfField hs \<Longrightarrow> int (length (encodeHeaders hs)) \<le> mb \<Longrightarrow> int (length hs) \<le> mf \<Longrightarrow>
   readHeaderBlock (encodeHeaders hs @ rest, e) mb mf section = Inr (hs, (rest, e))"
  by (simp add: readHeaderBlock_def readHeaderBlockLoop_encode)

subsection \<open>Bodies\<close>

lemma readFixedBody_append [codec_simps]:
  "int (length b) \<le> maxInt \<Longrightarrow>
   readFixedBody (b @ rest, e) (int (length b)) section = Inr (b, (rest, e))"
  by (cases "b = []") (auto simp: readFixedBody_def)

lemma hexDigit_semicolon [simp]: "hexDigit CHR '';'' = None" by code_simp

lemma hexDigits_notin:
  assumes "list_all (\<lambda>c. hexDigit c \<noteq> None) s"
  shows "CHR '';'' \<notin> set s" "CR \<notin> set s" "LF \<notin> set s"
  by (rule list_all_notin [OF assms], code_simp)+

lemma parseChunkSizeLine_hex [codec_simps]:
  assumes "n < 2 ^ 64"
  shows "parseChunkSizeLine (formatUint 16 n) = Inr (word_of_nat n)"
proof -
  have "CHR '';'' \<notin> set (formatUint 16 n)" by (rule hexDigits_notin(1) [OF formatUint_16_hex])
  then have "IndexByte (formatUint 16 n) CHR '';'' = -1" by (simp add: IndexByte_eq)
  with assms formatUint_16_hex [of n] show ?thesis
    by (simp add: parseChunkSizeLine_def Let_def chunkSizeLoop_eq hexFold_formatUint)
qed

lemma formatUint_16_0 [simp]: "formatUint 16 0 = ''0''"
  by (simp add: formatUint.simps digitChar_def)

text \<open>A chunk within the limit passes the 64-bit comparison.\<close>

lemma unat_word_of_int_diff:
  fixes m :: int
  assumes "int n \<le> m" "m < 2 ^ 64"
  shows "unat (word_of_int m - word_of_nat n :: u64) = nat m - n"
proof -
  have "word_of_int m - word_of_nat n = (word_of_nat (nat m - n) :: u64)"
  proof -
    from assms have "m = int (nat m - n) + int n" by simp
    then have "word_of_int m = (word_of_nat (nat m - n) + word_of_nat n :: u64)"
      by (metis of_int_add of_int_of_nat_eq)
    then show ?thesis by simp
  qed
  moreover from assms have "nat m - n < 2 ^ 64" by simp
  ultimately show ?thesis by (simp add: unat_of_nat)
qed

lemma chunkExceedsLimit_iff:
  assumes "int (length body) \<le> MaxBodyBytes limits" "MaxBodyBytes limits \<le> 64 * 1024 * 1024"
  shows "chunkExceedsLimit limits body chunk \<longleftrightarrow>
    int (length body) + int (unat chunk) > MaxBodyBytes limits"
proof -
  have 1: "unat (word_of_int (MaxBodyBytes limits) - word_of_nat (length body) :: u64) =
      nat (MaxBodyBytes limits) - length body"
    using assms by (intro unat_word_of_int_diff) auto
  have 2: "unat (word_of_int (maxInt - int (length body)) :: u64) = nat maxInt - length body"
    using assms unat_word_of_int_diff [of "length body" maxInt]
    by (simp add: maxInt_def maxInt64_def)
  have "chunkExceedsLimit limits body chunk \<longleftrightarrow>
      nat (MaxBodyBytes limits) - length body < unat chunk \<or> nat maxInt - length body < unat chunk"
    unfolding chunkExceedsLimit_def word_less_nat_alt 1 2 ..
  moreover have "nat (MaxBodyBytes limits) - length body < k \<or> nat maxInt - length body < k \<longleftrightarrow>
      int (length body) + int k > MaxBodyBytes limits" for k
    using assms by (auto simp: maxInt_def maxInt64_def)
  ultimately show ?thesis by metis
qed

lemma readChunkedBodyLoop_last:
  assumes "chunkCount \<le> MaxChunkCount limits" "3 \<le> MaxChunkLineBytes limits"
    and "readHeaderBlock reader (MaxTrailerBytes limits) (MaxTrailerFields limits) ''trailers'' =
       Inr (trailers, reader')"
    and "validateTrailers trailers = Inr ()"
    and "fst reader = t" "snd reader = e"
  shows "readChunkedBodyLoop limits section chunkCount body (''0'' @ CRLF @ t, e) =
    Inr ((body, trailers), reader')"
proof -
  have "readStrictLine (''0'' @ CRLF @ t, e) (MaxChunkLineBytes limits) ''chunk size'' =
      Inr (''0'', 3, (t, e))"
    using assms(2) by (subst readStrictLine_Inr) auto
  moreover have "parseChunkSizeLine ''0'' = Inr 0"
    using parseChunkSizeLine_hex [of 0] by simp
  moreover from assms(5,6) have "reader = (t, e)" by (cases reader) auto
  ultimately show ?thesis using assms(1,3,4)
    by (subst readChunkedBodyLoop.simps) simp
qed

lemma readChunkedBodyLoop_chunk:
  assumes "chunkCount \<le> MaxChunkCount limits"
    and "int (length (formatUint 16 (length data))) + 2 \<le> MaxChunkLineBytes limits"
    and "int (length body) + int (length data) \<le> MaxBodyBytes limits"
    and "MaxBodyBytes limits \<le> 64 * 1024 * 1024" and "data \<noteq> []"
  shows "readChunkedBodyLoop limits section chunkCount body
      (formatUint 16 (length data) @ CRLF @ data @ CRLF @ t, e) =
    readChunkedBodyLoop limits section (chunkCount + 1) (body @ data) (t, e)"
proof -
  let ?h = "formatUint 16 (length data)" and ?t = "data @ CRLF @ t"
  let ?w = "word_of_nat (length data) :: u64"
  have small: "length data < 2 ^ 64" using assms(3,4) by simp
  have rd: "readStrictLine (?h @ CRLF @ ?t, e) (MaxChunkLineBytes limits) ''chunk size'' =
      Inr (?h, int (length ?h) + 2, (?t, e))"
    using assms(2) hexDigits_notin [OF formatUint_16_hex] by (subst readStrictLine_Inr) auto
  have u: "unat ?w = length data" using small by (simp add: unat_of_nat)
  have nz: "?w \<noteq> 0" using u assms(5) by (metis length_0_conv unat_0)
  have ok: "\<not> chunkExceedsLimit limits body ?w"
    using assms(3,4) chunkExceedsLimit_iff [of body limits ?w, unfolded u] by simp
  have r1: "ReadFull (?t, e) (length data) = Inr (data, (CRLF @ t, e))" by (rule ReadFull_append)
  have r2: "ReadFull (CRLF @ t, e) 2 = Inr (CRLF, (t, e))"
    using ReadFull_append [of CRLF t e] by (simp add: numeral_2_eq_2)
  show ?thesis
    using assms(1) nz ok
    by (subst readChunkedBodyLoop.simps)
       (simp only: rd andThen_simps split_conv parseChunkSizeLine_hex [OF small] u r1 r2
          sum.case if_False if_True not_less [symmetric] simp_thms)
qed

text \<open>The chunked encoding of a body: one chunk for all of it, then the trailers.\<close>

definition encodeChunked :: "bytes \<Rightarrow> headerFields \<Rightarrow> bytes" where
  "encodeChunked body trailers =
     (if body = [] then [] else formatUint 16 (length body) @ CRLF @ body @ CRLF) @
     ''0'' @ CRLF @ encodeHeaders trailers"

definition chunkedFits :: "httpLimits \<Rightarrow> bytes \<Rightarrow> headerFields \<Rightarrow> bool" where
  "chunkedFits limits body trailers \<longleftrightarrow>
     2 \<le> MaxChunkCount limits \<and>
     int (length (formatUint 16 (length body))) + 2 \<le> MaxChunkLineBytes limits \<and>
     int (length (encodeHeaders trailers)) \<le> MaxTrailerBytes limits \<and>
     int (length trailers) \<le> MaxTrailerFields limits"

lemma readChunkedBody_encode [codec_simps]:
  assumes "list_all wfField trailers" "validateTrailers trailers = Inr ()"
    and "chunkedFits limits body trailers" "int (length body) \<le> MaxBodyBytes limits"
    and "MaxBodyBytes limits \<le> 64 * 1024 * 1024"
  shows "readChunkedBody (encodeChunked body trailers @ rest, e) limits section =
    Inr ((body, trailers), (rest, e))"
proof -
  have len: "3 \<le> MaxChunkLineBytes limits"
    using assms(3) formatUint_nonempty [of 16 "length body"]
    by (cases "formatUint 16 (length body)") (auto simp: chunkedFits_def)
  have fin: "readChunkedBodyLoop limits section c b (''0'' @ CRLF @ encodeHeaders trailers @ rest, e) =
      Inr ((b, trailers), (rest, e))" if "c \<le> MaxChunkCount limits" for c b
    using assms that len
    by (intro readChunkedBodyLoop_last [where reader = "(encodeHeaders trailers @ rest, e)"])
       (auto simp: chunkedFits_def readHeaderBlock_encode)
  show ?thesis
  proof (cases "body = []")
    case True
    with fin [of 1 "[]"] assms(3) show ?thesis
      by (simp add: readChunkedBody_def encodeChunked_def chunkedFits_def)
  next
    case False
    with readChunkedBodyLoop_chunk [of 1 limits body "[]" "section"
        "''0'' @ CRLF @ encodeHeaders trailers @ rest" e] fin [of 2 body] assms(3-5)
    show ?thesis
      by (simp add: readChunkedBody_def encodeChunked_def chunkedFits_def)
  qed
qed

end
