(* ===== verification/Http_Roundtrip.thy ===== *)
theory Http_Roundtrip
  imports Http_Codec
begin

text \<open>
  The parser inverts the writer. The wire form of a message is written out as \<open>encodeRequest\<close> and
  \<open>encodeResponse\<close>; the writer produces exactly it, and the parser reads it back as
  \<open>receivedRequest\<close> and \<open>receivedResponse\<close>, leaving the bytes that follow. The hypotheses are
  that fields carry no surrounding white space and that the sizes pass the parser's limits.
\<close>

subsection \<open>Framing of generated header lists\<close>

lemma validateGeneratedFields_None:
  "validateGeneratedFields hs section = None \<longleftrightarrow>
     list_all (\<lambda>f. validToken (Name f) \<and> validFieldValue (Value f)) hs"
  by (induction hs) (auto dest: validFieldValue_notin)

abbreviation tokenNames :: "headerFields \<Rightarrow> bool" where
  "tokenNames hs \<equiv> list_all (\<lambda>f. validToken (Name f)) hs"

lemma framing_names:
  "ToLower ''Content-Length'' = ''content-length''"
  "ToLower ''Transfer-Encoding'' = ''transfer-encoding''"
  "ToLower ''Trailer'' = ''trailer''"
  "ToLower ''Host'' = ''host''"
  "ToLower ''Connection'' = ''connection''"
  "ToLower ''Upgrade'' = ''upgrade''"
  "ToLower ''Expect'' = ''expect''"
  by code_simp+

lemma framingField_token:
  "validToken (Name f) \<Longrightarrow>
   framingField f \<longleftrightarrow> ToLower (Name f) \<in> {''content-length'', ''transfer-encoding'', ''trailer''}"
  by (simp add: framingField_def EqualFold_token framing_names)

lemma Values_withoutFraming [simp]:
  "tokenNames hs \<Longrightarrow>
   Values (withoutFramingHeaders hs) name =
     (if ToLower name \<in> {''content-length'', ''transfer-encoding'', ''trailer''} then []
      else Values hs name)"
  by (induction hs) (auto simp: withoutFramingHeaders_def framingField_token EqualFold_token)

lemma tokenNames_withoutFraming [simp]: "tokenNames hs \<Longrightarrow> tokenNames (withoutFramingHeaders hs)"
  by (auto simp: withoutFramingHeaders_def list_all_iff)

lemma validToken_literals [simp]:
  "validToken ''Content-Length''" "validToken ''Transfer-Encoding''" "validToken ''Trailer''"
  "validToken ''Connection''" "validToken ''chunked''" "validToken ''close''"
  by code_simp+

lemma Values_generated:
  "validToken n \<Longrightarrow> Values [hf n v] name = (if ToLower n = ToLower name then [v] else [])"
  by (simp add: EqualFold_token)

lemma trailerNames_tokens:
  "tokenNames ts \<Longrightarrow> list_all validToken (trailerNames seen ts)"
  by (induction ts arbitrary: seen) (auto simp: Let_def)

lemma trailerNames_nonempty: "ts \<noteq> [] \<Longrightarrow> trailerNames [] ts \<noteq> []"
  by (cases ts) (auto simp: Let_def)

lemma isTokenByte_fieldByte:
  "isTokenByte c \<Longrightarrow> c = HTAB \<or> (CHR 0x20 \<le> c \<and> c \<noteq> CHR 0x7F)"
  by (drule isTokenByte_visible) (auto simp: visibleByte_def less_eq_char_def)

lemma validToken_fieldValue: "validToken t \<Longrightarrow> validFieldValue t"
  using isTokenByte_fieldByte by (fastforce simp: validToken_def validFieldValue_def list_all_iff)

lemma validFieldValue_append [simp]:
  "validFieldValue (a @ b) \<longleftrightarrow> validFieldValue a \<and> validFieldValue b"
  by (simp add: validFieldValue_def)

lemma validFieldValue_comma [simp]: "validFieldValue '', ''" by code_simp

lemma trimOWS_edges:
  "v \<noteq> [] \<Longrightarrow> visibleByte (hd v) \<Longrightarrow> visibleByte (last v) \<Longrightarrow> trimOWS v = v"
  unfolding trimOWS_def by (rule TrimCut_id) (auto simp: visibleByte_def less_eq_char_def)

lemma Join_tokens:
  "ts \<noteq> [] \<Longrightarrow> list_all validToken ts \<Longrightarrow>
   Join ts '', '' \<noteq> [] \<and> validFieldValue (Join ts '', '') \<and>
   isTokenByte (hd (Join ts '', '')) \<and> isTokenByte (last (Join ts '', ''))"
proof (induction ts "'', ''" rule: Join.induct)
  case (2 x)
  then show ?case by (auto simp: validToken_fieldValue validToken_def list_all_iff)
next
  case (3 x y xs)
  from 3 have IH: "Join (y # xs) '', '' \<noteq> []" "validFieldValue (Join (y # xs) '', '')"
    "isTokenByte (last (Join (y # xs) '', ''))" and x: "validToken x" by auto
  then have "x \<noteq> []" "isTokenByte (hd x)" by (auto simp: validToken_def list_all_iff)
  with IH x show ?case by (simp add: validToken_fieldValue del: append_Cons append_Nil)
qed simp

lemma wfField_generated: "validToken n \<Longrightarrow> validToken v \<Longrightarrow> wfField (hf n v)"
proof -
  assume n: "validToken n" and v: "validToken v"
  then have "v \<noteq> []" "visibleByte (hd v)" "visibleByte (last v)"
    by (auto simp: validToken_def list_all_iff isTokenByte_visible)
  with n v show ?thesis by (simp add: wfField_def validToken_fieldValue trimOWS_edges)
qed

lemma isDecimal_token: "isDecimal c \<Longrightarrow> isTokenByte c"
  by (simp add: isDecimal_def isTokenByte_def)

lemma validToken_Itoa [simp]: "validToken (Itoa n)"
  using Itoa_decimal [of n] by (auto simp: validToken_def list_all_iff isDecimal_token)

lemma appendTrailerDeclaration_wf:
  assumes "list_all wfField hs" "list_all wfField ts"
  shows "list_all wfField (appendTrailerDeclaration hs ts)"
proof (cases "ts = []")
  case False
  let ?v = "Join (trailerNames [] ts) '', ''"
  from assms(2) have "list_all validToken (trailerNames [] ts)"
    by (intro trailerNames_tokens) (auto simp: list_all_iff wfField_def)
  from Join_tokens [OF trailerNames_nonempty [OF False] this]
  have "?v \<noteq> []" "validFieldValue ?v" "visibleByte (hd ?v)" "visibleByte (last ?v)"
    by (auto simp: isTokenByte_visible)
  then have "wfField (hf ''Trailer'' ?v)" by (simp add: wfField_def trimOWS_edges)
  with False assms(1) show ?thesis by (simp add: appendTrailerDeclaration_def)
qed (use assms in \<open>simp add: appendTrailerDeclaration_def\<close>)

lemma Values_appendTrailerDeclaration [simp]:
  "ToLower name \<noteq> ''trailer'' \<Longrightarrow> Values (appendTrailerDeclaration hs ts) name = Values hs name"
  by (simp add: appendTrailerDeclaration_def EqualFold_token framing_names)

lemma determineBodyFraming_none:
  "Values hs ''Transfer-Encoding'' = [] \<Longrightarrow> Values hs ''Content-Length'' = [] \<Longrightarrow>
   determineBodyFraming hs m = Inr (bodyModeNone, 0)"
  by (simp add: determineBodyFraming_def)

lemma parseContentLengths_Itoa:
  assumes "n < 2 ^ 63"
  shows "parseContentLengths [Itoa n] = Inr (int n)"
proof -
  have "Split CHR '','' (Itoa n) = [Itoa n]"
    by (rule Split_notin) (rule validToken_notin(5) [OF validToken_Itoa])
  moreover have "TrimSpace (Itoa n) = Itoa n"
    by (rule TrimSpace_visible) (rule validToken_visible [OF validToken_Itoa])
  moreover have "decimalDigits (Itoa n)"
    using Itoa_decimal [of n] by (simp add: decimalDigits_def list_all_iff isDecimal_def)
  ultimately show ?thesis using assms by (simp add: parseContentLengths_def Let_def)
qed

lemma determineBodyFraming_fixed:
  "Values hs ''Transfer-Encoding'' = [] \<Longrightarrow> Values hs ''Content-Length'' = [Itoa n] \<Longrightarrow>
   int n \<le> m \<Longrightarrow> m \<le> 64 * 1024 * 1024 \<Longrightarrow> determineBodyFraming hs m = Inr (bodyModeFixed, int n)"
  by (simp add: determineBodyFraming_def parseContentLengths_Itoa)

lemma determineBodyFraming_chunked:
  assumes "Values hs ''Transfer-Encoding'' = [''chunked'']" "Values hs ''Content-Length'' = []"
  shows "determineBodyFraming hs m = Inr (bodyModeChunked, 0)"
proof -
  have "onlyChunkedTransferCoding [''chunked'']" by code_simp
  with assms show ?thesis by (simp add: determineBodyFraming_def)
qed

lemma HasToken_cong: "Values h name = Values h' name \<Longrightarrow> HasToken h name t \<longleftrightarrow> HasToken h' name t"
  by (simp add: HasToken_def)

lemma validateConnectionFields_cong:
  "Values h ''Connection'' = Values h' ''Connection'' \<Longrightarrow>
   validateConnectionFields h section = validateConnectionFields h' section"
  by (simp add: validateConnectionFields_def)

lemma validateRequestHeaders_cong:
  assumes "\<And>n. ToLower n \<notin> {''content-length'', ''transfer-encoding'', ''trailer''} \<Longrightarrow>
    Values h n = Values h' n"
  shows "validateRequestHeaders m h = validateRequestHeaders m h'"
proof -
  have "Values h ''Host'' = Values h' ''Host''" "Values h ''Upgrade'' = Values h' ''Upgrade''"
    "Values h ''Expect'' = Values h' ''Expect''"
    and c: "Values h ''Connection'' = Values h' ''Connection''"
    by (rule assms, simp add: framing_names)+
  then show ?thesis
    unfolding validateRequestHeaders_def validateConnectionFields_def HasToken_def Let_def
    by (simp only: c)
qed

subsection \<open>Requests\<close>

text \<open>The framing fields the writer appends for a body mode.\<close>

fun framingHeaders :: "bodyMode \<Rightarrow> bytes \<Rightarrow> headerFields \<Rightarrow> headerFields" where
  "framingHeaders bodyModeFixed body trailers = [hf ''Content-Length'' (Itoa (length body))]"
| "framingHeaders bodyModeChunked body trailers =
     appendTrailerDeclaration [hf ''Transfer-Encoding'' ''chunked''] trailers"
| "framingHeaders _ body trailers = []"

fun encodeBody :: "bodyMode \<Rightarrow> bytes \<Rightarrow> headerFields \<Rightarrow> bytes" where
  "encodeBody bodyModeFixed body trailers = body"
| "encodeBody bodyModeChunked body trailers = encodeChunked body trailers"
| "encodeBody _ body trailers = []"

text \<open>Sizes under which a serialised message passes the parser's limits.\<close>

definition messageFits ::
  "httpLimits \<Rightarrow> bytes \<Rightarrow> headerFields \<Rightarrow> bodyMode \<Rightarrow> bytes \<Rightarrow> headerFields \<Rightarrow> bool" where
  "messageFits limits line headers mode body trailers \<longleftrightarrow>
     checkLimits limits = Inr () \<and>
     int (length line) + 2 \<le> MaxStartLineBytes limits \<and>
     int (length (encodeHeaders headers)) \<le> MaxHeaderBytes limits \<and>
     int (length headers) \<le> MaxHeaderFields limits \<and>
     int (length body) \<le> MaxBodyBytes limits \<and>
     (mode = bodyModeChunked \<longrightarrow> chunkedFits limits body trailers)"

lemma appendTrailerDeclaration_append:
  "appendTrailerDeclaration (h @ h') ts = h @ appendTrailerDeclaration h' ts"
  by (simp add: appendTrailerDeclaration_def)

lemma Values_framingHeaders:
  "Values (framingHeaders mode body ts) name =
     (case mode of
        bodyModeFixed \<Rightarrow> if ToLower name = ''content-length'' then [Itoa (length body)] else []
      | bodyModeChunked \<Rightarrow>
          (if ToLower name = ''transfer-encoding'' then [''chunked''] else []) @
          (if ToLower name = ''trailer'' \<and> ts \<noteq> []
           then [Join (trailerNames [] ts) '', ''] else [])
      | _ \<Rightarrow> [])"
  by (cases mode) (auto simp: appendTrailerDeclaration_def EqualFold_token framing_names)

lemma framingHeaders_wf: "list_all wfField ts \<Longrightarrow> list_all wfField (framingHeaders mode body ts)"
  by (cases mode) (simp_all add: wfField_generated appendTrailerDeclaration_wf)

lemma determineBodyFraming_generated:
  assumes "tokenNames hs" "mode \<noteq> bodyModeCloseDelimited"
    and "int (length body) \<le> m" "m \<le> 64 * 1024 * 1024"
  shows "determineBodyFraming (withoutFramingHeaders hs @ framingHeaders mode body ts) m =
    Inr (mode, if mode = bodyModeFixed then int (length body) else 0)"
  using assms
  by (cases mode)
     (auto simp: Values_framingHeaders framing_names simp del: framingHeaders.simps
        intro!: determineBodyFraming_none determineBodyFraming_fixed determineBodyFraming_chunked)

lemma readRequestBody_encode:
  assumes "mode \<noteq> bodyModeCloseDelimited" "mode = bodyModeNone \<Longrightarrow> body = []"
    and "list_all wfField ts" "validateTrailers ts = Inr ()"
    and "messageFits limits line hs mode body ts"
  shows "readRequestBody (encodeBody mode body ts @ rest, e) limits mode
      (if mode = bodyModeFixed then int (length body) else 0) =
    Inr ((body, if mode = bodyModeChunked then ts else []), (rest, e))"
proof -
  from assms(5) have "MaxBodyBytes limits \<le> 64 * 1024 * 1024"
    by (auto simp: messageFits_def checkLimits_def dest: httpLimits_validate_body split: sum.splits)
  with assms show ?thesis
    by (cases mode)
       (auto simp: readRequestBody_def messageFits_def maxInt_def maxInt64_def
          readFixedBody_append readChunkedBody_encode)
qed

definition requestLine :: "httpRequest \<Rightarrow> bytes" where
  "requestLine r = Method r @ '' '' @ Target r @ '' '' @ httpVersion11"

definition requestMode :: "httpRequest \<Rightarrow> bodyMode" where
  "requestMode r =
     (if ReqBodyMode r = bodyModeNone \<and> ReqBody r \<noteq> [] then bodyModeFixed else ReqBodyMode r)"

definition requestFields :: "httpRequest \<Rightarrow> headerFields" where
  "requestFields r =
     withoutFramingHeaders (ReqHeaders r) @
     framingHeaders (requestMode r) (ReqBody r) (ReqTrailers r)"

definition encodeRequest :: "httpRequest \<Rightarrow> bytes" where
  "encodeRequest r =
     requestLine r @ CRLF @ encodeHeaders (requestFields r) @
     encodeBody (requestMode r) (ReqBody r) (ReqTrailers r)"

text \<open>What the peer's parser makes of a written request.\<close>

definition receivedRequest :: "httpRequest \<Rightarrow> httpRequest" where
  "receivedRequest r =
     \<lparr>Method = Method r, Target = Target r, ReqVersion = httpVersion11,
      ReqHeaders = requestFields r,
      ReqTrailers = (if requestMode r = bodyModeChunked then ReqTrailers r else []),
      ReqBody = ReqBody r, ReqBodyMode = requestMode r,
      ReqKeepAlive = \<not> HasToken (ReqHeaders r) ''Connection'' ''close'', RemoteAddr = []\<rparr>"

definition requestFits :: "httpLimits \<Rightarrow> httpRequest \<Rightarrow> bool" where
  "requestFits limits r \<longleftrightarrow>
     list_all wfField (ReqHeaders r) \<and> list_all wfField (ReqTrailers r) \<and>
     messageFits limits (requestLine r) (requestFields r) (requestMode r) (ReqBody r)
       (ReqTrailers r)"

lemma parseRequestLine_Inr:
  assumes "parseRequestLine line = Inr (m, t, v)"
  shows "Split CHR '' '' line = [m, t, v] \<and> validToken m \<and> v = httpVersion11 \<and>
    \<not> EqualFold m ''CONNECT'' \<and> validRequestTarget m t"
  using assms by (auto simp: parseRequestLine_def split: list.splits if_splits)

lemma parseRequestLine_clean:
  assumes "parseRequestLine line = Inr (m, t, v)"
  shows "line = m @ '' '' @ t @ '' '' @ httpVersion11" "CR \<notin> set line" "LF \<notin> set line"
proof -
  note p = parseRequestLine_Inr [OF assms]
  show line: "line = m @ '' '' @ t @ '' '' @ httpVersion11"
    using Split_Join [of "CHR '' ''" line] p by simp
  have "CR \<notin> set httpVersion11" "LF \<notin> set httpVersion11" by code_simp+
  with p show "CR \<notin> set line" "LF \<notin> set line"
    unfolding line using validToken_notin [of m] visible_notin [of t] validRequestTarget_visible [of m t]
    by auto
qed

lemma requestHead_Inr:
  assumes "requestHead r = Inr (version, mode, headers)"
  shows "version = httpVersion11" "mode = requestMode r" "headers = requestFields r"
    and "mode \<noteq> bodyModeCloseDelimited" "tokenNames (ReqHeaders r)"
    and "validateRequestHeaders (Method r) (ReqHeaders r) = Inr ()"
    and "validateTrailers (ReqTrailers r) = Inr ()"
    and "parseRequestLine (requestLine r) = Inr (Method r, Target r, httpVersion11)"
proof -
  let ?v = "if ReqVersion r = [] then httpVersion11 else ReqVersion r"
  from assms have p: "parseRequestLine (Method r @ '' '' @ Target r @ '' '' @ ?v) =
        Inr (Method r, Target r, ?v)"
    and g: "validateGeneratedFields (ReqHeaders r) ''request headers'' = None"
    and h: "validateRequestHeaders (Method r) (ReqHeaders r) = Inr ()"
    and t: "validateTrailers (ReqTrailers r) = Inr ()"
    and v: "version = ?v"
    by (auto simp: requestHead_def Let_def result_simps split: if_splits option.splits bodyMode.splits)
  from parseRequestLine_Inr [OF p] have vv: "?v = httpVersion11" by blast
  with v show "version = httpVersion11" by simp
  from p show "parseRequestLine (requestLine r) = Inr (Method r, Target r, httpVersion11)"
    unfolding vv requestLine_def .
  from g show "tokenNames (ReqHeaders r)" by (auto simp: validateGeneratedFields_None list_all_iff)
  from h t show "validateRequestHeaders (Method r) (ReqHeaders r) = Inr ()"
    "validateTrailers (ReqTrailers r) = Inr ()" .
  from assms p g h t show "mode = requestMode r" "headers = requestFields r"
    "mode \<noteq> bodyModeCloseDelimited"
    unfolding requestHead_def Let_def
    by (auto simp: result_simps requestMode_def [symmetric] requestFields_def
        appendTrailerDeclaration_append split: bodyMode.splits)
qed

lemma wfField_generatedFields: "list_all wfField ts \<Longrightarrow> validateGeneratedFields ts section = None"
  by (auto simp: validateGeneratedFields_None list_all_iff wfField_def)

lemma writeMessageBody_buffer:
  "mode \<noteq> bodyModeCloseDelimited \<Longrightarrow> list_all wfField ts \<Longrightarrow> validateTrailers ts = Inr () \<Longrightarrow>
   writeMessageBody bufferWriter w mode body ts = (None, w @ encodeBody mode body ts)"
  by (cases mode)
     (simp_all add: writeMessageBody_def newChunkedBodyWriter_def wfField_generatedFields
        chunkedWrite_def chunkedClose_def encodeChunked_def)

lemma writeHTTPRequest_buffer:
  assumes "requestHead r = Inr (version, mode, headers)" "list_all wfField (ReqTrailers r)"
  shows "writeHTTPRequest bufferWriter w r = (None, w @ encodeRequest r)"
  using requestHead_Inr [OF assms(1)] assms
  by (simp add: writeHTTPRequest_def writeMessageBody_buffer encodeRequest_def requestLine_def)

lemma requestFields_wf:
  "list_all wfField (ReqHeaders r) \<Longrightarrow> list_all wfField (ReqTrailers r) \<Longrightarrow>
   list_all wfField (requestFields r)"
  using framingHeaders_wf [of "ReqTrailers r"]
  by (auto simp: requestFields_def withoutFramingHeaders_def list_all_iff)

lemma Values_requestFields:
  "tokenNames (ReqHeaders r) \<Longrightarrow>
   ToLower n \<notin> {''content-length'', ''transfer-encoding'', ''trailer''} \<Longrightarrow>
   Values (requestFields r) n = Values (ReqHeaders r) n"
  by (simp add: requestFields_def Values_framingHeaders split: bodyMode.splits)

text \<open>The parser inverts the writer, whatever follows on the connection.\<close>

lemma readHTTPRequest_encode:
  assumes head: "requestHead r = Inr (version, mode, headers)" and fits: "requestFits limits r"
  shows "readHTTPRequest (encodeRequest r @ rest, e) limits = Inr (receivedRequest r, (rest, e))"
proof -
  note rh = requestHead_Inr [OF head]
  from fits have wf: "list_all wfField (ReqHeaders r)" "list_all wfField (ReqTrailers r)"
    and mf: "messageFits limits (requestLine r) (requestFields r) (requestMode r) (ReqBody r)
      (ReqTrailers r)" by (auto simp: requestFits_def)
  from mf have lim: "checkLimits limits = Inr ()"
    and body: "int (length (ReqBody r)) \<le> MaxBodyBytes limits"
      "MaxBodyBytes limits \<le> 64 * 1024 * 1024"
    by (auto simp: messageFits_def checkLimits_def dest: httpLimits_validate_body split: sum.splits)
  let ?t1 = "encodeHeaders (requestFields r) @ encodeBody (requestMode r) (ReqBody r) (ReqTrailers r) @ rest"
  have line: "readStrictLine (encodeRequest r @ rest, e) (MaxStartLineBytes limits) ''request line'' =
      Inr (requestLine r, int (length (requestLine r)) + 2, (?t1, e))"
    using mf parseRequestLine_clean(2,3) [OF rh(8)] readStrictLine_append
    by (simp add: encodeRequest_def messageFits_def)
  have hdr: "readHeaderBlock (?t1, e) (MaxHeaderBytes limits) (MaxHeaderFields limits)
      ''request headers'' =
      Inr (requestFields r, (encodeBody (requestMode r) (ReqBody r) (ReqTrailers r) @ rest, e))"
    using mf requestFields_wf [OF wf] by (simp add: readHeaderBlock_encode messageFits_def)
  have none: "requestMode r = bodyModeNone \<Longrightarrow> ReqBody r = []"
    by (auto simp: requestMode_def split: if_splits)
  have val: "validateRequestHeaders (Method r) (requestFields r) = Inr ()"
    using rh(6) validateRequestHeaders_cong [of "requestFields r" "ReqHeaders r" "Method r"]
    by (simp add: Values_requestFields [OF rh(5)])
  have frm: "determineBodyFraming (requestFields r) (MaxBodyBytes limits) =
      Inr (requestMode r, if requestMode r = bodyModeFixed then int (length (ReqBody r)) else 0)"
    unfolding requestFields_def using rh(2,4,5) body
    by (intro determineBodyFraming_generated) auto
  have bdy: "readRequestBody (encodeBody (requestMode r) (ReqBody r) (ReqTrailers r) @ rest, e) limits
      (requestMode r) (if requestMode r = bodyModeFixed then int (length (ReqBody r)) else 0) =
      Inr ((ReqBody r, if requestMode r = bodyModeChunked then ReqTrailers r else []), (rest, e))"
    using rh(2,4,7) wf(2) none mf by (intro readRequestBody_encode) auto
  have conn: "HasToken (requestFields r) ''Connection'' ''close'' \<longleftrightarrow>
      HasToken (ReqHeaders r) ''Connection'' ''close''"
    by (rule HasToken_cong) (rule Values_requestFields [OF rh(5)], simp add: framing_names)
  show ?thesis
    unfolding readHTTPRequest_def lim andThen_simps line split_conv rh(8) hdr val frm bdy
    by (simp add: receivedRequest_def conn)
qed

lemma writeHTTPRequest_head:
  "writeHTTPRequest wr w r = (None, w') \<Longrightarrow> \<exists>version mode headers. requestHead r = Inr (version, mode, headers)"
  by (auto simp: writeHTTPRequest_def split: sum.splits)

subsection \<open>Responses\<close>

definition responseReason :: "httpResponse \<Rightarrow> string" where
  "responseReason r = (if Reason r = [] then defaultReasonPhrase (StatusCode r) else Reason r)"

definition statusLine :: "httpResponse \<Rightarrow> bytes" where
  "statusLine r =
     httpVersion11 @ '' '' @ format03d (nat (StatusCode r)) @ '' '' @ responseReason r"

definition responseMode :: "httpResponse \<Rightarrow> string \<Rightarrow> bodyMode" where
  "responseMode r method =
     (if responseMustNotHaveBody method (StatusCode r) then bodyModeNone
      else if RespBodyMode r = bodyModeNone then bodyModeFixed else RespBodyMode r)"

text \<open>The framing a response declares: HEAD and 304 announce a length without a body.\<close>

definition declaredMode :: "httpResponse \<Rightarrow> string \<Rightarrow> bodyMode" where
  "declaredMode r method =
     (if responseMustNotHaveBody method (StatusCode r)
      then (if EqualFold method ''HEAD'' \<or> StatusCode r = 304 then bodyModeFixed else bodyModeNone)
      else responseMode r method)"

definition responseBase :: "httpResponse \<Rightarrow> headerFields" where
  "responseBase r =
     RespHeaders r @
     (if RespClose r \<and> \<not> HasToken (RespHeaders r) ''Connection'' ''close''
      then [hf ''Connection'' ''close''] else [])"

definition responseFields :: "httpResponse \<Rightarrow> string \<Rightarrow> headerFields" where
  "responseFields r method =
     withoutFramingHeaders (responseBase r) @
     framingHeaders (declaredMode r method) (RespBody r) (RespTrailers r)"

definition encodeResponse :: "httpResponse \<Rightarrow> string \<Rightarrow> bytes" where
  "encodeResponse r method =
     statusLine r @ CRLF @ encodeHeaders (responseFields r method) @
     encodeBody (responseMode r method) (RespBody r) (RespTrailers r)"

definition receivedResponse :: "httpResponse \<Rightarrow> string \<Rightarrow> httpResponse" where
  "receivedResponse r method =
     \<lparr>RespVersion = httpVersion11, StatusCode = StatusCode r, Reason = responseReason r,
      RespHeaders = responseFields r method,
      RespTrailers = (if responseMode r method = bodyModeChunked then RespTrailers r else []),
      RespBody = (if responseMode r method = bodyModeNone then [] else RespBody r),
      RespBodyMode = responseMode r method,
      RespKeepAlive = \<not> (RespClose r \<or> HasToken (RespHeaders r) ''Connection'' ''close''),
      RespClose = False, CommitState = None\<rparr>"

definition responseFits :: "httpLimits \<Rightarrow> httpResponse \<Rightarrow> string \<Rightarrow> bool" where
  "responseFits limits r method \<longleftrightarrow>
     list_all wfField (RespHeaders r) \<and> list_all wfField (RespTrailers r) \<and>
     messageFits limits (statusLine r) (responseFields r method) (responseMode r method)
       (RespBody r) (RespTrailers r)"

text \<open>
  The one combination the writer frames and the parser refuses: a 1xx or 204 response to HEAD
  carries a Content-Length.
\<close>

definition framedHeadResponse :: "httpResponse \<Rightarrow> string \<Rightarrow> bool" where
  "framedHeadResponse r method \<longleftrightarrow>
     EqualFold method ''HEAD'' \<and>
     ((100 \<le> StatusCode r \<and> StatusCode r < 200) \<or> StatusCode r = 204)"

lemma HasToken_withoutFraming:
  "tokenNames hs \<Longrightarrow>
   HasToken (withoutFramingHeaders hs) ''Connection'' t \<longleftrightarrow> HasToken hs ''Connection'' t"
  by (rule HasToken_cong) (simp add: framing_names)

lemma withoutFraming_base:
  "tokenNames (RespHeaders r) \<Longrightarrow>
   withoutFramingHeaders (responseBase r) =
     (if RespClose r \<and> \<not> HasToken (withoutFramingHeaders (RespHeaders r)) ''Connection'' ''close''
      then withoutFramingHeaders (RespHeaders r) @ [hf ''Connection'' ''close'']
      else withoutFramingHeaders (RespHeaders r))"
proof -
  assume t: "tokenNames (RespHeaders r)"
  have "\<not> framingField (hf ''Connection'' ''close'')" by code_simp
  then show ?thesis
    by (simp add: responseBase_def withoutFramingHeaders_def
        HasToken_withoutFraming [OF t, unfolded withoutFramingHeaders_def])
qed

lemma responseHead_Inr:
  assumes "responseHead r method = Inr (reason, mode, headers)"
  shows "reason = responseReason r" "mode = responseMode r method"
    and "headers = responseFields r method"
    and "mode \<noteq> bodyModeCloseDelimited" "tokenNames (RespHeaders r)"
    and "validateConnectionFields (RespHeaders r) ''response headers'' = Inr ()"
    and "\<not> (successfulConnectResponse method (StatusCode r) \<or> StatusCode r = 101 \<or>
       HasToken (RespHeaders r) ''Connection'' ''upgrade'' \<or> Values (RespHeaders r) ''Upgrade'' \<noteq> [])"
    and "validateTrailers (RespTrailers r) = Inr ()"
    and "100 \<le> StatusCode r" "StatusCode r \<le> 599" "validReasonPhrase (responseReason r)"
proof -
  from assms have g: "validateGeneratedFields (RespHeaders r) ''response headers'' = None"
    by (auto simp: responseHead_def Let_def result_simps split: if_splits option.splits)
  then show t: "tokenNames (RespHeaders r)" by (auto simp: validateGeneratedFields_None list_all_iff)
  from assms show c: "validateConnectionFields (RespHeaders r) ''response headers'' = Inr ()"
    "\<not> (successfulConnectResponse method (StatusCode r) \<or> StatusCode r = 101 \<or>
       HasToken (RespHeaders r) ''Connection'' ''upgrade'' \<or> Values (RespHeaders r) ''Upgrade'' \<noteq> [])"
    "validateTrailers (RespTrailers r) = Inr ()"
    "100 \<le> StatusCode r" "StatusCode r \<le> 599" "validReasonPhrase (responseReason r)"
    unfolding responseReason_def
    by (auto simp: responseHead_def Let_def result_simps split: if_splits option.splits)
  have "reason = responseReason r \<and> mode = responseMode r method \<and> headers = responseFields r method \<and>
      mode \<noteq> bodyModeCloseDelimited"
    using assms g c unfolding responseHead_def Let_def withoutFraming_base [OF t, symmetric]
    by (cases "responseMustNotHaveBody method (StatusCode r)"; cases "RespBodyMode r")
      (auto simp: responseReason_def responseMode_def responseFields_def declaredMode_def
        appendTrailerDeclaration_append split: if_splits)
  then show "reason = responseReason r" "mode = responseMode r method"
    "headers = responseFields r method" "mode \<noteq> bodyModeCloseDelimited" by blast+
qed

lemma Itoa_status:
  assumes "100 \<le> n" "n < 1000"
  shows "Itoa n = [digitChar (n div 100), digitChar (n div 10 mod 10), digitChar (n mod 10)]"
proof -
  have "n div 10 div 10 = n div 100" by (simp add: div_mult2_eq [symmetric])
  moreover from assms have "\<not> n div 10 < 10" "n div 100 < 10" by linarith+
  ultimately show ?thesis
    using assms
    by (simp add: Itoa_def formatUint.simps [of 10 n] formatUint.simps [of 10 "n div 10"]
        formatUint.simps [of 10 "n div 100"])
qed

lemma three_digits: "(n::nat) = n div 100 * 100 + n div 10 mod 10 * 10 + n mod 10"
proof -
  have "n div 100 = n div 10 div 10" by (simp add: div_mult2_eq [symmetric])
  with mult_div_mod_eq [of 10 n] mult_div_mod_eq [of 10 "n div 10"] show ?thesis by linarith
qed

lemma parseStatusLine_encode:
  assumes "100 \<le> StatusCode r" "StatusCode r \<le> 599" "validReasonPhrase (responseReason r)"
  shows "parseStatusLine (statusLine r) = Inr (httpVersion11, StatusCode r, responseReason r)"
proof -
  define n where "n = nat (StatusCode r)"
  have n: "100 \<le> n" "n < 1000" "StatusCode r = int n" using assms by (auto simp: n_def)
  define a b c where "a = n div 100" and "b = n div 10 mod 10" and "c = n mod 10"
  have d: "a < 10" "b < 10" "c < 10" using n by (auto simp: a_def b_def c_def)
  have code: "int n = int a * 100 + int b * 10 + int c"
    using three_digits [of n] unfolding a_def b_def c_def by linarith
  have line: "statusLine r = ''HTTP/1.1 '' @ [digitChar a, digitChar b, digitChar c] @ '' '' @ responseReason r"
    using n Itoa_status [of n]
    by (simp add: statusLine_def httpVersion11_def format03d_def a_def b_def c_def)
  have "CHR ''0'' \<le> digitChar x \<and> digitChar x \<le> CHR ''9''" if "x < 10" for x
    using isDecimal_digitChar [OF that] by (simp add: isDecimal_def)
  with d code n(3) assms show ?thesis
    by (simp add: parseStatusLine_def line httpVersion11_def Let_def)
qed

lemma responseFields_wf:
  "list_all wfField (RespHeaders r) \<Longrightarrow> list_all wfField (RespTrailers r) \<Longrightarrow>
   list_all wfField (responseFields r method)"
  using framingHeaders_wf [of "RespTrailers r"]
  by (auto simp: responseFields_def responseBase_def withoutFramingHeaders_def list_all_iff
      wfField_generated)

lemma Values_responseFields:
  "tokenNames (RespHeaders r) \<Longrightarrow>
   ToLower n \<notin> {''content-length'', ''transfer-encoding'', ''trailer''} \<Longrightarrow>
   Values (responseFields r method) n = Values (responseBase r) n"
  by (simp add: responseFields_def Values_framingHeaders responseBase_def split: bodyMode.splits)

lemma responseFields_connection:
  assumes "tokenNames (RespHeaders r)"
  shows "validateConnectionFields (responseFields r method) section =
      validateConnectionFields (RespHeaders r) section"
    and "HasToken (responseFields r method) ''Connection'' ''upgrade'' \<longleftrightarrow>
      HasToken (RespHeaders r) ''Connection'' ''upgrade''"
    and "HasToken (responseFields r method) ''Connection'' ''close'' \<longleftrightarrow>
      RespClose r \<or> HasToken (RespHeaders r) ''Connection'' ''close''"
    and "Values (responseFields r method) ''Upgrade'' = Values (RespHeaders r) ''Upgrade''"
proof -
  have nil: "\<not> HasToken [] name t" for name t by (simp add: HasToken_def)
  have lit: "\<not> HasToken [hf ''Connection'' ''close''] ''Connection'' ''upgrade''"
    "HasToken [hf ''Connection'' ''close''] ''Connection'' ''close''"
    "\<not> list_ex (\<lambda>part. TrimSpace part = [] \<or> \<not> validToken (TrimSpace part))
       (Split CHR '','' ''close'')"
    by code_simp+
  have c: "Values (responseFields r method) ''Connection'' = Values (responseBase r) ''Connection''"
    by (rule Values_responseFields [OF assms]) (simp add: framing_names)
  show "validateConnectionFields (responseFields r method) section =
      validateConnectionFields (RespHeaders r) section"
    unfolding validateConnectionFields_def c using lit(3) by (simp add: responseBase_def)
  show "HasToken (responseFields r method) ''Connection'' ''upgrade'' \<longleftrightarrow>
      HasToken (RespHeaders r) ''Connection'' ''upgrade''"
    unfolding HasToken_cong [OF c] using lit(1) nil by (simp add: responseBase_def)
  show "HasToken (responseFields r method) ''Connection'' ''close'' \<longleftrightarrow>
      RespClose r \<or> HasToken (RespHeaders r) ''Connection'' ''close''"
    unfolding HasToken_cong [OF c] using lit(2) nil by (auto simp: responseBase_def)
  have "Values (responseFields r method) ''Upgrade'' = Values (responseBase r) ''Upgrade''"
    by (rule Values_responseFields [OF assms]) (simp add: framing_names)
  then show "Values (responseFields r method) ''Upgrade'' = Values (RespHeaders r) ''Upgrade''"
    by (simp add: responseBase_def EqualFold_token framing_names)
qed

lemma tokenNames_base: "tokenNames (RespHeaders r) \<Longrightarrow> tokenNames (responseBase r)"
  by (simp add: responseBase_def)

lemma validateResponseFraming_generated:
  assumes "tokenNames (RespHeaders r)" "\<not> framedHeadResponse r method"
  shows "validateResponseFramingHeaders (StatusCode r) (responseFields r method) = Inr ()"
proof (cases "(100 \<le> StatusCode r \<and> StatusCode r < 200) \<or> StatusCode r = 204")
  case True
  then have "declaredMode r method = bodyModeNone"
    using assms(2) by (auto simp: declaredMode_def responseMustNotHaveBody_def framedHeadResponse_def)
  then have "responseFields r method = withoutFramingHeaders (responseBase r)"
    by (simp add: responseFields_def)
  with tokenNames_base [OF assms(1)] show ?thesis
    by (simp add: validateResponseFramingHeaders_def framing_names)
next
  case False
  then show ?thesis by (auto simp: validateResponseFramingHeaders_def)
qed

lemma statusLine_clean:
  assumes "100 \<le> StatusCode r" "StatusCode r \<le> 599" "validReasonPhrase (responseReason r)"
  shows "CR \<notin> set (statusLine r)" "LF \<notin> set (statusLine r)"
proof -
  have "validToken (Itoa (nat (StatusCode r)))" by simp
  from validToken_notin [OF this] have "CR \<notin> set (format03d (nat (StatusCode r)))"
    "LF \<notin> set (format03d (nat (StatusCode r)))"
    by (auto simp: format03d_def)
  moreover have "CR \<notin> set httpVersion11" "LF \<notin> set httpVersion11" by code_simp+
  ultimately show "CR \<notin> set (statusLine r)" "LF \<notin> set (statusLine r)"
    using validFieldValue_notin [of "responseReason r"] assms(3)
    by (simp_all add: statusLine_def validReasonPhrase_def)
qed

lemma readResponseBody_encode:
  assumes "mode \<noteq> bodyModeCloseDelimited" "mode \<noteq> bodyModeNone"
    and "list_all wfField ts" "validateTrailers ts = Inr ()"
    and "messageFits limits line hs mode body ts"
  shows "readResponseBody (encodeBody mode body ts @ rest, e) limits mode
      (if mode = bodyModeFixed then int (length body) else 0) =
    Inr ((body, if mode = bodyModeChunked then ts else [], mode), (rest, e))"
proof -
  from assms(5) have "MaxBodyBytes limits \<le> 64 * 1024 * 1024"
    by (auto simp: messageFits_def checkLimits_def dest: httpLimits_validate_body split: sum.splits)
  with assms show ?thesis
    by (cases mode)
       (auto simp: readResponseBody_def messageFits_def maxInt_def maxInt64_def
          readFixedBody_append readChunkedBody_encode)
qed

lemma declaredMode_body:
  "\<not> responseMustNotHaveBody method (StatusCode r) \<Longrightarrow> declaredMode r method = responseMode r method"
  "\<not> responseMustNotHaveBody method (StatusCode r) \<Longrightarrow> responseMode r method \<noteq> bodyModeNone"
  "responseMustNotHaveBody method (StatusCode r) \<Longrightarrow> responseMode r method = bodyModeNone"
  "responseMustNotHaveBody method (StatusCode r) \<Longrightarrow> declaredMode r method \<noteq> bodyModeCloseDelimited"
  by (auto simp: declaredMode_def responseMode_def)

lemma readHTTPResponse_encode:
  assumes head: "responseHead r method = Inr (reason, mode, headers)"
    and fits: "responseFits limits r method" and nh: "\<not> framedHeadResponse r method"
  shows "readHTTPResponse (encodeResponse r method @ rest, e) limits method =
    Inr (receivedResponse r method, (rest, e))"
proof -
  note rh = responseHead_Inr [OF head]
  let ?hs = "responseFields r method" and ?m = "responseMode r method"
  let ?tail = "encodeBody ?m (RespBody r) (RespTrailers r) @ rest"
  from fits have wf: "list_all wfField (RespHeaders r)" "list_all wfField (RespTrailers r)"
    and mf: "messageFits limits (statusLine r) ?hs ?m (RespBody r) (RespTrailers r)"
    by (auto simp: responseFits_def)
  from mf have lim: "checkLimits limits = Inr ()"
    and body: "int (length (RespBody r)) \<le> MaxBodyBytes limits"
      "MaxBodyBytes limits \<le> 64 * 1024 * 1024"
    by (auto simp: messageFits_def checkLimits_def dest: httpLimits_validate_body split: sum.splits)
  have line: "readStrictLine (encodeResponse r method @ rest, e) (MaxStartLineBytes limits)
      ''status line'' =
      Inr (statusLine r, int (length (statusLine r)) + 2, (encodeHeaders ?hs @ ?tail, e))"
    using mf statusLine_clean [OF rh(9-11)] readStrictLine_append
    by (simp add: encodeResponse_def messageFits_def)
  have hdr: "readHeaderBlock (encodeHeaders ?hs @ ?tail, e) (MaxHeaderBytes limits)
      (MaxHeaderFields limits) ''response headers'' = Inr (?hs, (?tail, e))"
    using mf responseFields_wf [OF wf] by (simp add: readHeaderBlock_encode messageFits_def)
  let ?d = "declaredMode r method"
  have frm: "determineBodyFraming ?hs (MaxBodyBytes limits) =
      Inr (?d, if ?d = bodyModeFixed then int (length (RespBody r)) else 0)"
    unfolding responseFields_def using rh(2,4) body tokenNames_base [OF rh(5)]
      declaredMode_body [of "method" r]
    by (intro determineBodyFraming_generated) metis+
  note conn = responseFields_connection [OF rh(5)]
  note start = readHTTPResponse_def lim andThen_simps line split_conv
    parseStatusLine_encode [OF rh(9-11)] hdr conn rh(6)
    validateResponseFraming_generated [OF rh(5) nh] frm Let_def
  show ?thesis
  proof (cases "responseMustNotHaveBody method (StatusCode r)")
    case True
    with rh(7) declaredMode_body(3) [OF True] show ?thesis
      unfolding start by (simp add: receivedResponse_def conn)
  next
    case False
    with readResponseBody_encode [OF _ _ wf(2) rh(8) mf] rh(2,4,7) declaredMode_body [of "method" r]
    show ?thesis unfolding start by (simp add: receivedResponse_def conn)
  qed
qed

lemma writeHTTPResponse_buffer:
  assumes "responseHead r method = Inr (reason, mode, headers)" "list_all wfField (RespTrailers r)"
  shows "writeHTTPResponse bufferWriter w r method = (None, w @ encodeResponse r method)"
  using responseHead_Inr [OF assms(1)] assms declaredMode_body(3) [of "method" r]
  by (simp add: writeHTTPResponse_def writeMessageBody_buffer encodeResponse_def statusLine_def)

lemma writeHTTPResponse_head:
  "writeHTTPResponse wr w r method = (None, w') \<Longrightarrow>
   \<exists>reason mode headers. responseHead r method = Inr (reason, mode, headers)"
  by (auto simp: writeHTTPResponse_def split: sum.splits)

end
