(* ===== verification/Http_Framing.thy ===== *)
theory Http_Framing
  imports Http_Roundtrip
begin

text \<open>
  What the parser guarantees of every request it accepts, whatever the peer sent: it consumed a
  prefix of the input that alone determines the result, and the request is framed in exactly one
  way, within the limits.
\<close>

subsection \<open>Self-delimiting parsers\<close>

definition delimits :: "(reader \<Rightarrow> 'e + ('a \<times> reader)) \<Rightarrow> bool" where
  "delimits p \<longleftrightarrow>
     (\<forall>s e x s' e'. p (s, e) = Inr (x, (s', e')) \<longrightarrow>
        e' = e \<and> (\<exists>u. s = u @ s' \<and> (\<forall>t f. p (u @ t, f) = Inr (x, (t, f)))))"

lemma delimitsI:
  "(\<And>s e x s' e'. p (s, e) = Inr (x, (s', e')) \<Longrightarrow>
      e' = e \<and> (\<exists>u. s = u @ s' \<and> (\<forall>t f. p (u @ t, f) = Inr (x, (t, f))))) \<Longrightarrow> delimits p"
  unfolding delimits_def by blast

lemma delimitsD:
  assumes "delimits p" "p (s, e) = Inr (x, (s', e'))"
  obtains u where "e' = e" "s = u @ s'" "\<And>t f. p (u @ t, f) = Inr (x, (t, f))"
  using assms unfolding delimits_def by blast

lemma delimits_eq: "delimits q \<Longrightarrow> (\<And>r. p r = q r) \<Longrightarrow> delimits p"
  unfolding delimits_def by simp

lemma delimits_return [simp, intro]: "delimits (\<lambda>r. Inr (x, r))"
  by (rule delimitsI) auto

lemma delimits_fail [simp, intro]: "delimits (\<lambda>r. Inl err)"
  by (rule delimitsI) auto

lemma delimits_if [intro]:
  "(b \<Longrightarrow> delimits p) \<Longrightarrow> (\<not> b \<Longrightarrow> delimits q) \<Longrightarrow> delimits (\<lambda>r. if b then p r else q r)"
  by (cases b) simp_all

lemma delimits_pure [intro]:
  "(\<And>x. m = Inr x \<Longrightarrow> delimits (q x)) \<Longrightarrow> delimits (\<lambda>r. andThen m (\<lambda>x. q x r))"
  by (cases m) simp_all

lemma delimits_prod [intro]:
  "(\<And>a b. x = (a, b) \<Longrightarrow> delimits (q a b)) \<Longrightarrow> delimits (\<lambda>r. case x of (a, b) \<Rightarrow> q a b r)"
  by (cases x) simp_all

lemma delimits_case [intro]:
  "(\<And>a b. x = (a, b) \<Longrightarrow> delimits (q a b)) \<Longrightarrow> delimits (case x of (a, b) \<Rightarrow> q a b)"
  by (cases x) simp_all

lemma delimits_bind [intro]:
  assumes "delimits p" "\<And>x. delimits (q x)"
  shows "delimits (\<lambda>r. andThen (p r) (\<lambda>(x, r'). q x r'))"
proof (rule delimitsI)
  fix s e y s' e'
  assume "andThen (p (s, e)) (\<lambda>(x, r'). q x r') = Inr (y, s', e')"
  then obtain x s1 e1 where p: "p (s, e) = Inr (x, (s1, e1))" and q: "q x (s1, e1) = Inr (y, (s', e'))"
    by (auto simp: andThen_Inr_iff)
  obtain u where u: "e1 = e" "s = u @ s1" "\<And>t f. p (u @ t, f) = Inr (x, (t, f))"
    by (rule delimitsD [OF assms(1) p]) (rule that)
  obtain v where v: "e' = e1" "s1 = v @ s'" "\<And>t f. q x (v @ t, f) = Inr (y, (t, f))"
    by (rule delimitsD [OF assms(2) q]) (rule that)
  show "e' = e \<and> (\<exists>w. s = w @ s' \<and>
      (\<forall>t f. andThen (p (w @ t, f)) (\<lambda>(x, r'). q x r') = Inr (y, t, f)))"
    using u v by (intro conjI exI [of _ "u @ v"]) simp_all
qed

lemma delimits_line:
  assumes "\<And>content k. 2 \<le> k \<Longrightarrow> delimits (q content k)"
  shows "delimits (\<lambda>r. andThen (readStrictLine r maximum section) (\<lambda>(content, k, r'). q content k r'))"
proof (rule delimitsI)
  fix s e y s' e'
  assume "andThen (readStrictLine (s, e) maximum section) (\<lambda>(content, k, r'). q content k r') =
    Inr (y, s', e')"
  then obtain c k s1 e1 where l: "readStrictLine (s, e) maximum section = Inr (c, k, (s1, e1))"
    and q: "q c k (s1, e1) = Inr (y, (s', e'))"
    by (auto simp: andThen_Inr_iff)
  then have k: "2 \<le> k" and s: "s = (c @ CRLF) @ s1" "e1 = e" by (auto simp: readStrictLine_Inr)
  from l have again: "readStrictLine ((c @ CRLF) @ t, f) maximum section = Inr (c, k, (t, f))" for t f
    by (simp add: readStrictLine_Inr)
  obtain v where v: "e' = e1" "s1 = v @ s'" "\<And>t f. q c k (v @ t, f) = Inr (y, (t, f))"
    by (rule delimitsD [OF assms [OF k] q]) (rule that)
  have "andThen (readStrictLine (((c @ CRLF) @ v) @ t, f) maximum section)
      (\<lambda>(content, k, r'). q content k r') = Inr (y, t, f)" for t f
    unfolding append.assoc [of "c @ CRLF" v t] again by (simp add: v(3))
  then show "e' = e \<and> (\<exists>w. s = w @ s' \<and> (\<forall>t f. andThen (readStrictLine (w @ t, f) maximum section)
      (\<lambda>(content, k, r'). q content k r') = Inr (y, t, f)))"
    using s v(1,2) by (intro conjI exI [of _ "(c @ CRLF) @ v"] allI) (simp_all only: append.assoc)
qed

lemma delimits_ReadFull:
  "delimits (\<lambda>r. case ReadFull r n of Inl err \<Rightarrow> Inl (g err) | Inr x \<Rightarrow> Inr x)"
proof (rule delimitsI)
  fix s e x s' e'
  assume "(case ReadFull (s, e) n of Inl err \<Rightarrow> Inl (g err) | Inr x \<Rightarrow> Inr x) = Inr (x, s', e')"
  then have "n \<le> length s" "x = take n s" "s' = drop n s" "e' = e"
    by (auto simp: ReadFull_def Let_def split: if_splits sum.splits)
  then show "e' = e \<and> (\<exists>u. s = u @ s' \<and> (\<forall>t f.
      (case ReadFull (u @ t, f) n of Inl err \<Rightarrow> Inl (g err) | Inr x \<Rightarrow> Inr x) = Inr (x, t, f)))"
    by (intro conjI exI [of _ "take n s"]) (simp_all add: ReadFull_def min_def)
qed

lemma case_sum_andThen: "(case m of Inl e \<Rightarrow> Inl e | Inr x \<Rightarrow> f x) = andThen m f"
  by (simp add: andThen_def)

lemma delimits_readHeaderBlockLoop:
  "delimits (\<lambda>r. readHeaderBlockLoop mb mf section headers consumed r)"
proof (induction "nat (mb - consumed)" arbitrary: headers consumed rule: less_induct)
  case less
  have "delimits (\<lambda>r. if mb - consumed < 2
      then Inl (newProtocolError protocolLimitExceeded section
                  ''headers exceed configured byte limit'')
      else andThen (readStrictLine r (mb - consumed) section) (\<lambda>(line, n, r').
        if line = [] then Inr (headers, r')
        else if int (length headers) \<ge> mf
          then Inl (newProtocolError protocolLimitExceeded section
                      ''header field count exceeds configured limit'')
        else andThen (parseHeaderField line section) (\<lambda>field.
          readHeaderBlockLoop mb mf section (headers @ [field]) (consumed + n) r')))"
    by (intro delimits_if delimits_line delimits_pure delimits_return delimits_fail less) auto
  then show ?case
    by (rule delimits_eq) (subst readHeaderBlockLoop.simps, simp only: Let_def case_sum_andThen)
qed

lemma delimits_readFixedBody: "delimits (\<lambda>r. readFixedBody r n section)"
  unfolding readFixedBody_def by (intro delimits_if delimits_return delimits_fail delimits_ReadFull)

definition readFullTyped :: "string \<Rightarrow> nat \<Rightarrow> reader \<Rightarrow> http_error + (bytes \<times> reader)" where
  "readFullTyped section n r =
     (case ReadFull r n of Inl err \<Rightarrow> Inl (protocolErrorFromRead section err True) | Inr x \<Rightarrow> Inr x)"

lemma case_ReadFull_andThen:
  "(case ReadFull r n of Inl err \<Rightarrow> Inl (protocolErrorFromRead section err True) | Inr x \<Rightarrow> f x) =
   andThen (readFullTyped section n r) f"
  by (simp add: readFullTyped_def split: sum.splits)

lemma delimits_readFullTyped: "delimits (readFullTyped section n)"
  unfolding readFullTyped_def by (rule delimits_ReadFull)

lemma delimits_readChunkedBodyLoop:
  "delimits (\<lambda>r. readChunkedBodyLoop limits section count body r)"
proof (induction "nat (MaxChunkCount limits + 1 - count)" arbitrary: count body rule: less_induct)
  case less
  have "delimits (\<lambda>r. if count > MaxChunkCount limits
        then Inl (newProtocolError protocolLimitExceeded section
                    ''chunk count exceeds configured limit'')
      else andThen (readStrictLine r (MaxChunkLineBytes limits) ''chunk size'') (\<lambda>(line, k, r1).
        andThen (parseChunkSizeLine line) (\<lambda>chunk.
        if chunk = 0 then
          andThen (readHeaderBlock r1 (MaxTrailerBytes limits) (MaxTrailerFields limits)
                     ''trailers'') (\<lambda>(trailers, r2).
          andThen (validateTrailers trailers) (\<lambda>_. Inr ((body, trailers), r2)))
        else if chunkExceedsLimit limits body chunk
          then Inl (newProtocolError protocolBodyTooLarge section
                      ''decoded chunked body exceeds configured limit'')
        else andThen (readFullTyped section (unat chunk) r1) (\<lambda>(data, r2).
          andThen (readFullTyped section 2 r2) (\<lambda>(ending, r3).
            if ending \<noteq> CRLF
              then Inl (newProtocolError protocolInvalidChunk section
                          ''chunk data must end with CRLF'')
            else readChunkedBodyLoop limits section (count + 1) (body @ data) r3)))))"
    unfolding readHeaderBlock_def
    by (intro delimits_if delimits_line delimits_pure delimits_return delimits_fail delimits_bind
        delimits_readFullTyped delimits_readHeaderBlockLoop less) auto
  then show ?case
    by (rule delimits_eq)
       (subst readChunkedBodyLoop.simps,
        simp only: case_ReadFull_andThen)
qed

lemma delimits_readRequestBody: "delimits (\<lambda>r. readRequestBody r limits mode n)"
proof (cases mode)
  case bodyModeFixed
  have "delimits (\<lambda>r. andThen (readFixedBody r n ''request body'')
      (\<lambda>(body, r'). Inr ((body, [] :: headerFields), r')))"
    by (intro delimits_bind delimits_readFixedBody delimits_return)
  with bodyModeFixed show ?thesis by (simp add: readRequestBody_def)
qed (simp_all add: readRequestBody_def readChunkedBody_def delimits_readChunkedBodyLoop)

lemma delimits_readHTTPRequest: "delimits (\<lambda>r. readHTTPRequest r limits)"
  unfolding readHTTPRequest_def readHeaderBlock_def
  by (intro delimits_pure delimits_prod delimits_case delimits_line delimits_bind delimits_readHeaderBlockLoop
      delimits_readRequestBody delimits_return)

subsection \<open>Accepted requests\<close>

text \<open>Exactly one framing: no field, one agreed length, or the single coding \<^verbatim>\<open>chunked\<close>.\<close>

definition wellFramed :: "headerFields \<Rightarrow> bodyMode \<Rightarrow> bytes \<Rightarrow> bool" where
  "wellFramed headers mode body \<longleftrightarrow>
     (let te = Values headers ''Transfer-Encoding''; cl = Values headers ''Content-Length'' in
      case mode of
        bodyModeNone \<Rightarrow> te = [] \<and> cl = [] \<and> body = []
      | bodyModeFixed \<Rightarrow> te = [] \<and> parseContentLengths cl = Inr (int (length body))
      | bodyModeChunked \<Rightarrow> cl = [] \<and> onlyChunkedTransferCoding te
      | bodyModeCloseDelimited \<Rightarrow> False)"

definition soundRequest :: "httpLimits \<Rightarrow> httpRequest \<Rightarrow> bool" where
  "soundRequest limits r \<longleftrightarrow>
     validToken (Method r) \<and> \<not> EqualFold (Method r) ''CONNECT'' \<and>
     validRequestTarget (Method r) (Target r) \<and> ReqVersion r = httpVersion11 \<and>
     list_all wfField (ReqHeaders r) \<and> int (length (ReqHeaders r)) \<le> MaxHeaderFields limits \<and>
     (\<exists>host. Values (ReqHeaders r) ''Host'' = [host] \<and> validHost host) \<and>
     Values (ReqHeaders r) ''Upgrade'' = [] \<and> Values (ReqHeaders r) ''Expect'' = [] \<and>
     list_all wfField (ReqTrailers r) \<and> int (length (ReqTrailers r)) \<le> MaxTrailerFields limits \<and>
     (\<forall>f \<in> set (ReqTrailers r). ToLower (Name f) \<notin> set forbiddenTrailers) \<and>
     wellFramed (ReqHeaders r) (ReqBodyMode r) (ReqBody r) \<and>
     int (length (ReqBody r)) \<le> MaxBodyBytes limits"

lemma readHeaderBlock_wf:
  assumes "readHeaderBlock r mb mf section = Inr (hs, r')" "0 \<le> mf"
  shows "list_all wfField hs" "int (length hs) \<le> mf"
  using readHeaderBlockLoop_wf [of mb mf "section" "[]" 0 r hs r'] assms
  by (auto simp: readHeaderBlock_def)

lemma readChunkedBodyLoop_sound:
  assumes "readChunkedBodyLoop limits section count body r = Inr ((b, ts), r')"
    and "int (length body) \<le> MaxBodyBytes limits" "MaxBodyBytes limits \<le> 64 * 1024 * 1024"
    and "0 \<le> MaxTrailerFields limits"
  shows "int (length b) \<le> MaxBodyBytes limits \<and> list_all wfField ts \<and>
    int (length ts) \<le> MaxTrailerFields limits \<and> validateTrailers ts = Inr ()"
  using assms(1,2)
proof (induction "nat (MaxChunkCount limits + 1 - count)" arbitrary: count body r rule: less_induct)
  case less
  from less.prems(1) obtain line k r1 chunk
    where c: "count \<le> MaxChunkCount limits"
    and alt: "chunk = 0 \<and> (\<exists>hb. readHeaderBlock r1 (MaxTrailerBytes limits)
          (MaxTrailerFields limits) ''trailers'' = Inr hb \<and> fst hb = ts \<and> b = body \<and>
          validateTrailers ts = Inr ()) \<or>
      (\<exists>data r2 r3. \<not> chunkExceedsLimit limits body chunk \<and> ReadFull r1 (unat chunk) = Inr (data, r2) \<and>
        readChunkedBodyLoop limits section (count + 1) (body @ data) r3 = Inr ((b, ts), r'))"
    by (subst (asm) readChunkedBodyLoop.simps)
       (auto simp: result_simps not_less split: if_splits sum.splits, blast+)
  from alt show ?case
  proof
    assume "chunk = 0 \<and> (\<exists>hb. readHeaderBlock r1 (MaxTrailerBytes limits)
          (MaxTrailerFields limits) ''trailers'' = Inr hb \<and> fst hb = ts \<and> b = body \<and>
          validateTrailers ts = Inr ())"
    with less.prems(2) assms(4) show ?thesis
      using readHeaderBlock_wf [of r1 "MaxTrailerBytes limits" "MaxTrailerFields limits" "''trailers''" ts]
      by auto
  next
    assume "\<exists>data r2 r3. \<not> chunkExceedsLimit limits body chunk \<and> ReadFull r1 (unat chunk) = Inr (data, r2) \<and>
        readChunkedBodyLoop limits section (count + 1) (body @ data) r3 = Inr ((b, ts), r')"
    then obtain data r2 r3 where ok: "\<not> chunkExceedsLimit limits body chunk"
      and rf: "ReadFull r1 (unat chunk) = Inr (data, r2)"
      and rec: "readChunkedBodyLoop limits section (count + 1) (body @ data) r3 = Inr ((b, ts), r')"
      by blast
    from rf have "length data = unat chunk"
      by (auto simp: ReadFull_def Let_def split: if_splits)
    with ok chunkExceedsLimit_iff [OF less.prems(2) assms(3), of chunk]
    have "int (length (body @ data)) \<le> MaxBodyBytes limits" by simp
    with less.hyps [OF _ rec] c show ?thesis by simp
  qed
qed

lemma readFixedBody_length:
  "readFixedBody r n section = Inr (b, r') \<Longrightarrow> int (length b) = n"
  by (auto simp: readFixedBody_def ReadFull_def Let_def split: if_splits sum.splits)

lemma determineBodyFraming_Inr:
  assumes "determineBodyFraming headers m = Inr (mode, n)"
  shows "(mode = bodyModeNone \<and> Values headers ''Transfer-Encoding'' = [] \<and>
       Values headers ''Content-Length'' = []) \<or>
     (mode = bodyModeFixed \<and> Values headers ''Transfer-Encoding'' = [] \<and>
       parseContentLengths (Values headers ''Content-Length'') = Inr n \<and> n \<le> m) \<or>
     (mode = bodyModeChunked \<and> Values headers ''Content-Length'' = [] \<and>
       onlyChunkedTransferCoding (Values headers ''Transfer-Encoding''))"
  using assms by (auto simp: determineBodyFraming_def Let_def result_simps split: if_splits)

lemma checkLimits_Inr:
  "checkLimits limits = Inr u \<Longrightarrow> 0 \<le> MaxBodyBytes limits \<and> MaxBodyBytes limits \<le> 64 * 1024 * 1024 \<and>
     0 \<le> MaxHeaderFields limits \<and> 0 \<le> MaxTrailerFields limits"
  by (auto simp: checkLimits_def httpLimits_validate_def maxHTTPBodyLimit_def
      split: sum.splits if_splits)

lemma readRequestBody_sound:
  assumes "determineBodyFraming headers (MaxBodyBytes limits) = Inr (mode, n)"
    and "readRequestBody r limits mode n = Inr ((b, ts), r')" and "checkLimits limits = Inr ()"
  shows "wellFramed headers mode b" "int (length b) \<le> MaxBodyBytes limits" "list_all wfField ts"
    and "int (length ts) \<le> MaxTrailerFields limits" "validateTrailers ts = Inr ()"
proof -
  note lim = checkLimits_Inr [OF assms(3)]
  have empty: "validateTrailers [] = Inr ()" by (simp add: validateTrailers_def)
  have "wellFramed headers mode b \<and> int (length b) \<le> MaxBodyBytes limits \<and> list_all wfField ts \<and>
    int (length ts) \<le> MaxTrailerFields limits \<and> validateTrailers ts = Inr ()"
  proof (cases mode)
    case bodyModeFixed
    with assms(2) readFixedBody_length [of r n "''request body''" b r'] have "ts = []" "int (length b) = n"
      by (auto simp: readRequestBody_def result_simps)
    with bodyModeFixed determineBodyFraming_Inr [OF assms(1)] lim empty show ?thesis
      by (simp add: wellFramed_def)
  next
    case bodyModeChunked
    with assms(2) readChunkedBodyLoop_sound [of limits "''request body''" 1 "[]" r b ts r'] lim
      determineBodyFraming_Inr [OF assms(1)]
    show ?thesis by (simp add: readRequestBody_def readChunkedBody_def wellFramed_def)
  qed (use assms(2) determineBodyFraming_Inr [OF assms(1)] lim empty
      in \<open>auto simp: readRequestBody_def wellFramed_def\<close>)
  then show "wellFramed headers mode b" "int (length b) \<le> MaxBodyBytes limits" "list_all wfField ts"
    "int (length ts) \<le> MaxTrailerFields limits" "validateTrailers ts = Inr ()" by blast+
qed

lemma validateRequestHeaders_Inr:
  "validateRequestHeaders m headers = Inr u \<Longrightarrow>
   (\<exists>host. Values headers ''Host'' = [host] \<and> validHost host) \<and>
   Values headers ''Upgrade'' = [] \<and> Values headers ''Expect'' = []"
  by (auto simp: validateRequestHeaders_def Let_def result_simps length_Suc_conv split: if_splits)

lemma readHTTPRequest_Inr:
  assumes "readHTTPRequest reader limits = Inr (r, rest)"
  obtains line k reader1 reader2 n
  where "checkLimits limits = Inr ()"
    and "readStrictLine reader (MaxStartLineBytes limits) ''request line'' = Inr (line, k, reader1)"
    and "parseRequestLine line = Inr (Method r, Target r, ReqVersion r)"
    and "readHeaderBlock reader1 (MaxHeaderBytes limits) (MaxHeaderFields limits) ''request headers'' =
       Inr (ReqHeaders r, reader2)"
    and "validateRequestHeaders (Method r) (ReqHeaders r) = Inr ()"
    and "determineBodyFraming (ReqHeaders r) (MaxBodyBytes limits) = Inr (ReqBodyMode r, n)"
    and "readRequestBody reader2 limits (ReqBodyMode r) n = Inr ((ReqBody r, ReqTrailers r), rest)"
    and "ReqKeepAlive r \<longleftrightarrow> \<not> HasToken (ReqHeaders r) ''Connection'' ''close''" "RemoteAddr r = []"
  using assms by (auto simp: readHTTPRequest_def result_simps)

lemma readHTTPRequest_sound:
  assumes "readHTTPRequest reader limits = Inr (r, rest)"
  shows "soundRequest limits r"
proof -
  obtain line k reader1 reader2 n where
    lim: "checkLimits limits = Inr ()"
    and p: "parseRequestLine line = Inr (Method r, Target r, ReqVersion r)"
    and h: "readHeaderBlock reader1 (MaxHeaderBytes limits) (MaxHeaderFields limits) ''request headers'' =
       Inr (ReqHeaders r, reader2)"
    and v: "validateRequestHeaders (Method r) (ReqHeaders r) = Inr ()"
    and d: "determineBodyFraming (ReqHeaders r) (MaxBodyBytes limits) = Inr (ReqBodyMode r, n)"
    and b: "readRequestBody reader2 limits (ReqBodyMode r) n = Inr ((ReqBody r, ReqTrailers r), rest)"
    using assms by (rule readHTTPRequest_Inr)
  note body = readRequestBody_sound [OF d b lim]
  have "\<forall>f \<in> set (ReqTrailers r). ToLower (Name f) \<notin> set forbiddenTrailers"
    using body(5) by (auto simp: validateTrailers_def list_ex_iff)
  with parseRequestLine_Inr [OF p] readHeaderBlock_wf [OF h] checkLimits_Inr [OF lim]
    validateRequestHeaders_Inr [OF v] body
  show ?thesis unfolding soundRequest_def by blast
qed

text \<open>Every accepted request passes the checks of the writer.\<close>

lemma readHTTPRequest_writable:
  assumes "readHTTPRequest reader limits = Inr (r, rest)"
  shows "writeHTTPRequest bufferWriter w r = (None, w @ encodeRequest r)"
proof -
  from readHTTPRequest_sound [OF assms] have s: "soundRequest limits r" .
  obtain line where p: "parseRequestLine line = Inr (Method r, Target r, ReqVersion r)"
    and v: "validateRequestHeaders (Method r) (ReqHeaders r) = Inr ()"
    using assms by (rule readHTTPRequest_Inr)
  from parseRequestLine_Inr [OF p] parseRequestLine_clean(1) [OF p]
  have "parseRequestLine (Method r @ '' '' @ Target r @ '' '' @ ReqVersion r) =
      Inr (Method r, Target r, ReqVersion r)" and ne: "ReqVersion r \<noteq> []"
    using p by (auto simp: httpVersion11_def)
  moreover have "validateGeneratedFields (ReqHeaders r) ''request headers'' = None"
    using s by (auto simp: soundRequest_def validateGeneratedFields_None list_all_iff wfField_def)
  moreover have "validateTrailers (ReqTrailers r) = Inr ()"
    using s by (auto simp: soundRequest_def validateTrailers_def list_ex_iff)
  moreover have "ReqBodyMode r \<noteq> bodyModeCloseDelimited"
    using s by (auto simp: soundRequest_def wellFramed_def)
  ultimately have "\<exists>x. requestHead r = Inr x"
    using v by (cases "ReqBodyMode r") (simp_all add: requestHead_def Let_def)
  then obtain version mode headers where "requestHead r = Inr (version, mode, headers)" by auto
  then show ?thesis
    by (rule writeHTTPRequest_buffer) (use s in \<open>simp add: soundRequest_def\<close>)
qed

end
