(* ===== verification/Http_Interfaces.thy ===== *)
theory Http_Interfaces
  imports Http_Framing
begin

text \<open>
  The two interfaces of the codec. \<open>byte_sink\<close> is what the write functions need of an
  \<^verbatim>\<open>io.Writer\<close>; every message written to one is, up to a failure, the message written to a
  buffer. \<open>message_codec\<close> is an encoder with a decoder that inverts it and leaves the rest of the
  stream; messages sent back to back are then decoded one by one. Both are interpreted on the
  definitions of the writer and the parser.
\<close>

subsection \<open>Sinks\<close>

text \<open>
  Comparing a run \<open>m\<close> on some sink with the run \<open>ref\<close> on a buffer, from a sink that already holds
  \<open>base\<close>.
\<close>

definition emits :: "('w \<Rightarrow> bytes) \<Rightarrow> bytes \<Rightarrow> 'w written \<Rightarrow> bytes written \<Rightarrow> bool" where
  "emits sent base m ref \<longleftrightarrow>
     (fst m = None \<longrightarrow> fst ref = None \<and> sent (snd m) = base @ snd ref) \<and>
     (\<exists>k. sent (snd m) = base @ take k (snd ref))"

definition extends :: "(bytes \<Rightarrow> bytes written) \<Rightarrow> bool" where
  "extends g \<longleftrightarrow> (\<forall>b. \<exists>d. snd (g b) = b @ d)"

lemma extends_writeAll [simp]: "extends (\<lambda>b. writeAll bufferWriter b data)"
  by (simp add: extends_def)

lemma extends_writeHeaderBlock [simp]: "extends (\<lambda>b. writeHeaderBlock bufferWriter b hs)"
  by (simp add: extends_def)

lemma extends_thenWrite:
  assumes "extends f" "extends g"
  shows "extends (\<lambda>b. thenWrite (f b) g)"
  unfolding extends_def
proof
  fix b
  from assms(1) obtain d where d: "snd (f b) = b @ d" by (auto simp: extends_def)
  obtain err w where fb: "f b = (err, w)" by fastforce
  from assms(2) obtain d' where "snd (g w) = w @ d'" by (auto simp: extends_def)
  with d fb show "\<exists>d. snd (thenWrite (f b) g) = b @ d" by (cases err) auto
qed

lemma extends_writeMessageBody: "extends (\<lambda>b. writeMessageBody bufferWriter b mode body ts)"
  by (auto simp: extends_def writeMessageBody_def chunkedWrite_def chunkedClose_def
      newChunkedBodyWriter_def andThen_def split: bodyMode.splits sum.splits option.splits)

lemma emits_thenWrite:
  assumes m: "emits sent base m ref" and g: "extends g"
    and f: "\<And>w b. sent w = base @ b \<Longrightarrow> emits sent base (f w) (g b)"
  shows "emits sent base (thenWrite m f) (thenWrite ref g)"
proof (cases m)
  case (Pair err w)
  show ?thesis
  proof (cases err)
    case None
    with m Pair obtain b where "ref = (None, b)" "sent w = base @ b"
      by (cases ref) (auto simp: emits_def)
    with f Pair None show ?thesis by simp
  next
    case (Some e)
    obtain rerr b where ref: "ref = (rerr, b)" by fastforce
    from m Pair ref obtain k where k: "sent w = base @ take k b" by (auto simp: emits_def)
    obtain d where d: "snd (g b) = b @ d" using g by (auto simp: extends_def)
    have "take k b = take (min k (length b)) (b @ d)" by (cases "k \<le> length b") simp_all
    with k d have "\<exists>j. sent w = base @ take j (snd (g b))" by metis
    with Some Pair ref k show ?thesis by (cases rerr) (auto simp: emits_def)
  qed
qed

locale byte_sink =
  fixes wr :: "'w writer" and sent :: "'w \<Rightarrow> bytes"
  assumes sink: "wr w data = (n, err, w') \<Longrightarrow>
    0 \<le> n \<and> n \<le> int (length data) \<and> sent w' = sent w @ take (nat n) data"
begin

lemma writeAll_emits:
  "sent w = base @ b \<Longrightarrow> emits sent base (writeAll wr w data) (writeAll bufferWriter b data)"
proof (induction "length data" arbitrary: w b data rule: less_induct)
  case less
  show ?case
  proof (cases "data = []")
    case True
    with less.prems show ?thesis
      by (subst writeAll.simps) (auto simp: emits_def intro: exI [of _ "length b"])
  next
    case False
    obtain n err w' where r: "wr w data = (n, err, w')" by (metis prod_cases3)
    with sink [OF r] have n: "0 \<le> n" "n \<le> int (length data)" "sent w' = sent w @ take (nat n) data"
      by auto
    have part: "\<exists>k. sent w' = base @ take k (b @ data)"
      using n(3) less.prems by (intro exI [of _ "length b + nat n"]) simp
    show ?thesis
    proof (cases "err = None \<and> n \<noteq> 0")
      case True
      have s: "sent w' = base @ (b @ take (nat n) data)" using n(3) less.prems by simp
      have "emits sent base (writeAll wr w' (drop (nat n) data))
          (writeAll bufferWriter (b @ take (nat n) data) (drop (nat n) data))"
        using True False n by (intro less.hyps s) (cases data, auto)
      with True False r n show ?thesis by (subst writeAll.simps) simp
    next
      case bad: False
      with False r n part show ?thesis
        by (subst writeAll.simps) (auto simp: emits_def split: option.splits)
    qed
  qed
qed

lemma writeHeaderBlock_emits:
  "sent w = base @ b \<Longrightarrow>
   emits sent base (writeHeaderBlock wr w hs) (writeHeaderBlock bufferWriter b hs)"
proof (induction hs arbitrary: w b)
  case Nil
  then show ?case using writeAll_emits [OF Nil] by simp
next
  case (Cons f hs)
  show ?case
    unfolding writeHeaderBlock.simps
    by (rule emits_thenWrite [OF writeAll_emits [OF Cons.prems] extends_writeHeaderBlock Cons.IH])
qed

lemma writeMessageBody_emits:
  assumes "sent w = base @ b"
  shows "emits sent base (writeMessageBody wr w mode body ts) (writeMessageBody bufferWriter b mode body ts)"
proof -
  have same: "emits sent base (err, w) (err, b)" for err
    using assms by (auto simp: emits_def intro: exI [of _ "length b"])
  have ext: "extends (\<lambda>b1. thenWrite (writeAll bufferWriter b1 body) (\<lambda>b2. writeAll bufferWriter b2 CRLF))"
    by (intro extends_thenWrite extends_writeAll)
  have chunk: "emits sent base (chunkedWrite wr w cw body) (chunkedWrite bufferWriter b cw body)" for cw
    unfolding chunkedWrite_def using same
    by (auto intro!: emits_thenWrite writeAll_emits extends_writeAll extends_thenWrite assms
        simp del: writeAll_buffer)
  have cls: "emits sent base (fst (chunkedClose wr w' cw)) (fst (chunkedClose bufferWriter b' cw))"
    if "sent w' = base @ b'" for w' b' cw
    unfolding chunkedClose_def using that
    by (auto intro!: emits_thenWrite writeAll_emits writeHeaderBlock_emits extends_writeHeaderBlock
        simp: emits_def [of _ _ "(None, w')"] simp del: writeAll_buffer writeHeaderBlock_buffer
        intro: exI [of _ "length b'"])
  have extc: "extends (\<lambda>b'. fst (chunkedClose bufferWriter b' cw))" for cw
    by (auto simp: extends_def chunkedClose_def)
  show ?thesis
    unfolding writeMessageBody_def
    using same chunk cls cls [OF assms] extc writeAll_emits [OF assms]
    by (auto split: bodyMode.splits sum.splits simp del: writeAll_buffer intro!: emits_thenWrite)
qed

lemma writeHTTPRequest_emits:
  assumes "sent w = base"
  shows "emits sent base (writeHTTPRequest wr w r) (writeHTTPRequest bufferWriter [] r)"
proof (cases "requestHead r")
  case (Inl err)
  with assms show ?thesis by (auto simp: writeHTTPRequest_def emits_def)
next
  case (Inr a)
  obtain v m h where a: "a = (v, m, h)" by (cases a)
  show ?thesis
    unfolding writeHTTPRequest_def Inr a sum.case split_conv
    by (intro emits_thenWrite writeAll_emits writeHeaderBlock_emits writeMessageBody_emits
        extends_thenWrite extends_writeHeaderBlock extends_writeMessageBody) (simp_all add: assms)
qed

lemma writeHTTPResponse_emits:
  assumes "sent w = base"
  shows "emits sent base (writeHTTPResponse wr w r method) (writeHTTPResponse bufferWriter [] r method)"
proof (cases "responseHead r method")
  case (Inl err)
  with assms show ?thesis by (auto simp: writeHTTPResponse_def emits_def)
next
  case (Inr a)
  obtain v m h where a: "a = (v, m, h)" by (cases a)
  let ?nb = "responseMustNotHaveBody method (StatusCode r)"
  have e: "extends (\<lambda>b. if ?nb then (None, b) else writeMessageBody bufferWriter b m (RespBody r) (RespTrailers r))"
    using extends_writeMessageBody by (simp add: extends_def)
  have s: "emits sent base
      (if ?nb then (None, w2) else writeMessageBody wr w2 m (RespBody r) (RespTrailers r))
      (if ?nb then (None, b) else writeMessageBody bufferWriter b m (RespBody r) (RespTrailers r))"
    if "sent w2 = base @ b" for w2 b
    using writeMessageBody_emits [OF that] that
    by (auto simp: emits_def intro: exI [of _ "length b"])
  show ?thesis
    unfolding writeHTTPResponse_def Inr a sum.case split_conv
    by (intro emits_thenWrite writeAll_emits writeHeaderBlock_emits s e
        extends_thenWrite extends_writeHeaderBlock) (simp_all add: assms)
qed

end

interpretation buffer: byte_sink bufferWriter "\<lambda>w. w"
  by unfold_locales (auto simp: bufferWriter_def)

text \<open>
  A \<^verbatim>\<open>net.Conn\<close> that takes \<open>room\<close> more bytes and then fails with \<open>err\<close>: the write that does not fit
  is cut short and reports the error.
\<close>

record connState =
  delivered :: bytes
  room :: nat

definition connWriter :: "io_error \<Rightarrow> connState writer" where
  "connWriter err c data =
     (if length data \<le> room c
      then (int (length data), None,
            \<lparr>delivered = delivered c @ data, room = room c - length data\<rparr>)
      else (int (room c), Some err,
            \<lparr>delivered = delivered c @ take (room c) data, room = 0\<rparr>))"

interpretation conn: byte_sink "connWriter err" delivered for err
  by unfold_locales (auto simp: connWriter_def split: if_splits)

subsection \<open>Codecs\<close>

fun decodeMany ::
  "(reader \<Rightarrow> 'e + ('r \<times> reader)) \<Rightarrow> nat \<Rightarrow> reader \<Rightarrow> 'e + ('r list \<times> reader)" where
  "decodeMany dec 0 r = Inr ([], r)"
| "decodeMany dec (Suc n) r =
     andThen (dec r) (\<lambda>(x, r').
     andThen (decodeMany dec n r') (\<lambda>(xs, r''). Inr (x # xs, r'')))"

locale message_codec =
  fixes enc :: "'m \<Rightarrow> bytes" and dec :: "reader \<Rightarrow> 'e + ('r \<times> reader)"
    and ok :: "'m \<Rightarrow> bool" and view :: "'m \<Rightarrow> 'r"
  assumes dec_enc: "ok m \<Longrightarrow> dec (enc m @ rest, e) = Inr (view m, (rest, e))"
begin

lemma prefix_free:
  assumes "ok m" "ok m'" "enc m @ s = enc m' @ s'"
  shows "view m = view m' \<and> s = s'"
  using dec_enc [OF assms(1), of s e] dec_enc [OF assms(2), of s' e] assms(3) by simp

lemma decode_pipeline:
  "list_all ok ms \<Longrightarrow>
   decodeMany dec (length ms) (concat (map enc ms) @ rest, e) = Inr (map view ms, (rest, e))"
  by (induction ms) (simp_all add: dec_enc)

end

interpretation header_codec: message_codec encodeHeaders
  "\<lambda>r. readHeaderBlock r maximumBytes maximumFields section"
  "\<lambda>hs. list_all wfField hs \<and> int (length (encodeHeaders hs)) \<le> maximumBytes \<and>
     int (length hs) \<le> maximumFields"
  "\<lambda>hs. hs" for maximumBytes maximumFields "section"
  by unfold_locales (simp add: readHeaderBlock_encode)

definition writableRequest :: "httpLimits \<Rightarrow> httpRequest \<Rightarrow> bool" where
  "writableRequest limits r \<longleftrightarrow>
     fst (writeHTTPRequest bufferWriter [] r) = None \<and> requestFits limits r"

definition writableResponse :: "httpLimits \<Rightarrow> string \<Rightarrow> httpResponse \<Rightarrow> bool" where
  "writableResponse limits method r \<longleftrightarrow>
     fst (writeHTTPResponse bufferWriter [] r method) = None \<and> responseFits limits r method \<and>
     \<not> framedHeadResponse r method"

lemma writableRequest_head:
  "writableRequest limits r \<Longrightarrow>
   (\<exists>v m h. requestHead r = Inr (v, m, h)) \<and> requestFits limits r"
  unfolding writableRequest_def by (metis prod.collapse writeHTTPRequest_head)

lemma writableResponse_head:
  "writableResponse limits method r \<Longrightarrow>
   (\<exists>v m h. responseHead r method = Inr (v, m, h)) \<and> responseFits limits r method \<and>
   \<not> framedHeadResponse r method"
  unfolding writableResponse_def by (metis prod.collapse writeHTTPResponse_head)

lemma writableRequest_encode:
  "writableRequest limits r \<Longrightarrow> writeHTTPRequest bufferWriter w r = (None, w @ encodeRequest r)"
  using writableRequest_head writeHTTPRequest_buffer by (fastforce simp: requestFits_def)

lemma writableResponse_encode:
  "writableResponse limits method r \<Longrightarrow>
   writeHTTPResponse bufferWriter w r method = (None, w @ encodeResponse r method)"
  using writableResponse_head writeHTTPResponse_buffer by (fastforce simp: responseFits_def)

interpretation request_codec: message_codec encodeRequest
  "\<lambda>r. readHTTPRequest r limits" "writableRequest limits" receivedRequest for limits
  by unfold_locales (metis readHTTPRequest_encode writableRequest_head)

interpretation response_codec: message_codec "\<lambda>r. encodeResponse r method"
  "\<lambda>rd. readHTTPResponse rd limits method" "writableResponse limits method"
  "\<lambda>r. receivedResponse r method" for "method" limits
  by unfold_locales (metis readHTTPResponse_encode writableResponse_head)

end
