(* ===== verification/Http_Properties.thy ===== *)
theory Http_Properties
  imports Http_Interfaces
begin

text \<open>
  The properties of the HTTP codec, with witnesses evaluated on concrete messages.
\<close>

subsection \<open>Example messages\<close>

definition sampleRequest :: httpRequest where
  "sampleRequest =
     \<lparr>Method = ''POST'', Target = ''/a%20b?x=1'', ReqVersion = [],
      ReqHeaders = [hf ''Host'' ''localhost:80'', hf ''Content-Length'' ''7''],
      ReqTrailers = [hf ''X-Sum'' ''9''], ReqBody = ''hello'', ReqBodyMode = bodyModeChunked,
      ReqKeepAlive = True, RemoteAddr = []\<rparr>"

definition plainRequest :: httpRequest where
  "plainRequest =
     \<lparr>Method = ''GET'', Target = ''/'', ReqVersion = ''HTTP/1.1'',
      ReqHeaders = [hf ''Host'' ''a''], ReqTrailers = [], ReqBody = [],
      ReqBodyMode = bodyModeNone, ReqKeepAlive = True, RemoteAddr = []\<rparr>"

definition sampleResponse :: httpResponse where
  "sampleResponse =
     \<lparr>RespVersion = [], StatusCode = 200, Reason = [], RespHeaders = [hf ''X-A'' ''b''],
      RespTrailers = [], RespBody = ''ok'', RespBodyMode = bodyModeFixed, RespKeepAlive = True,
      RespClose = True, CommitState = None\<rparr>"

definition noContent :: httpResponse where
  "noContent =
     \<lparr>RespVersion = [], StatusCode = 204, Reason = [], RespHeaders = [], RespTrailers = [],
      RespBody = [], RespBodyMode = bodyModeNone, RespKeepAlive = True, RespClose = False,
      CommitState = None\<rparr>"

subsection \<open>Properties\<close>

text \<open>
  C1: a request that the writer accepts is read back by the parser exactly as sent, and the bytes
  that follow it on the connection are left unread: method, target, body and (for chunked bodies)
  trailers are unchanged, and the header list is the sender's with its framing fields replaced by
  the ones of the body mode.
\<close>

theorem request_roundtrip:
  assumes "writeHTTPRequest bufferWriter [] r = (None, out)" and "requestFits limits r"
  shows "readHTTPRequest (out @ rest, e) limits = Inr (receivedRequest r, (rest, e))"
proof -
  from assms have "writableRequest limits r" by (simp add: writableRequest_def)
  with request_codec.dec_enc [OF this] writableRequest_encode [OF this, of "[]"] assms(1)
  show ?thesis by simp
qed

theorem request_roundtrip_witness:
  "readHTTPRequest (snd (writeHTTPRequest bufferWriter [] sampleRequest) @ ''GET '', IoEOF)
     defaultHTTPLimits = Inr (receivedRequest sampleRequest, (''GET '', IoEOF))"
proof (rule request_roundtrip)
  have "fst (writeHTTPRequest bufferWriter [] sampleRequest) = None" by code_simp
  then show "writeHTTPRequest bufferWriter [] sampleRequest =
      (None, snd (writeHTTPRequest bufferWriter [] sampleRequest))" by (metis prod.collapse)
  show "requestFits defaultHTTPLimits sampleRequest" by code_simp
qed

text \<open>
  C30: a response that the writer accepts for a request method is read back by a parser that knows
  the method: status, reason, fields, and the body unless the method or status forbids one. The
  exception is a 1xx or 204 response to HEAD (see \<open>head_no_content_unreadable\<close>).
\<close>

theorem response_roundtrip:
  assumes "writeHTTPResponse bufferWriter [] r method = (None, out)"
    and "responseFits limits r method" and "\<not> framedHeadResponse r method"
  shows "readHTTPResponse (out @ rest, e) limits method =
    Inr (receivedResponse r method, (rest, e))"
proof -
  from assms have "writableResponse limits method r" by (simp add: writableResponse_def)
  with response_codec.dec_enc [OF this] writableResponse_encode [OF this, of "[]"] assms(1)
  show ?thesis by simp
qed

theorem response_roundtrip_witness:
  "readHTTPResponse (snd (writeHTTPResponse bufferWriter [] sampleResponse ''GET'') @ [], IoEOF)
     defaultHTTPLimits ''GET'' = Inr (receivedResponse sampleResponse ''GET'', ([], IoEOF))"
proof (rule response_roundtrip)
  have "fst (writeHTTPResponse bufferWriter [] sampleResponse ''GET'') = None" by code_simp
  then show "writeHTTPResponse bufferWriter [] sampleResponse ''GET'' =
      (None, snd (writeHTTPResponse bufferWriter [] sampleResponse ''GET''))"
    by (metis prod.collapse)
  show "responseFits defaultHTTPLimits sampleResponse ''GET''" by code_simp
  show "\<not> framedHeadResponse sampleResponse ''GET''" by code_simp
qed

text \<open>
  Requests written back to back on one connection are parsed one by one, in order, each as
  it was sent: no byte of one message is taken for part of another.
\<close>

lemma request_pipeline:
  assumes "list_all (writableRequest limits) rs"
  shows "decodeMany (\<lambda>rd. readHTTPRequest rd limits) (length rs)
      (concat (map (\<lambda>r. snd (writeHTTPRequest bufferWriter [] r)) rs) @ rest, e) =
    Inr (map receivedRequest rs, (rest, e))"
proof -
  from assms have "map (\<lambda>r. snd (writeHTTPRequest bufferWriter [] r)) rs = map encodeRequest rs"
    using writableRequest_encode [of limits _ "[]"] by (auto simp: list_all_iff)
  with request_codec.decode_pipeline [OF assms] show ?thesis by metis
qed

lemma request_pipeline_instance:
  "decodeMany (\<lambda>rd. readHTTPRequest rd defaultHTTPLimits) (length [sampleRequest, plainRequest])
      (concat (map (\<lambda>r. snd (writeHTTPRequest bufferWriter [] r)) [sampleRequest, plainRequest]) @
         ''x'', IoTimeout) =
    Inr (map receivedRequest [sampleRequest, plainRequest], (''x'', IoTimeout))"
proof (rule request_pipeline)
  have "writableRequest defaultHTTPLimits sampleRequest" by code_simp
  moreover have "writableRequest defaultHTTPLimits plainRequest" by code_simp
  ultimately show "list_all (writableRequest defaultHTTPLimits) [sampleRequest, plainRequest]"
    by simp
qed

text \<open>
  C29: whatever the peer sends, an accepted request is a prefix of the input that alone determines
  the result: with any other continuation, and any other error at its end, the parser returns the
  same request and leaves exactly that continuation.
\<close>

theorem request_self_delimiting:
  assumes "readHTTPRequest (s, e) limits = Inr (r, (s', e'))"
  shows "e' = e \<and> (\<exists>u. s = u @ s' \<and>
    (\<forall>t f. readHTTPRequest (u @ t, f) limits = Inr (r, (t, f))))"
  using delimits_readHTTPRequest assms unfolding delimits_def by blast

theorem request_self_delimiting_witness:
  "\<exists>u. snd (writeHTTPRequest bufferWriter [] plainRequest) = u \<and>
    (\<forall>t f. readHTTPRequest (u @ t, f) defaultHTTPLimits =
       Inr (receivedRequest plainRequest, (t, f)))"
proof -
  have "readHTTPRequest (snd (writeHTTPRequest bufferWriter [] plainRequest), IoEOF)
      defaultHTTPLimits = Inr (receivedRequest plainRequest, ([], IoEOF))" by code_simp
  from request_self_delimiting [OF this] show ?thesis by simp
qed

text \<open>
  C10: every request the parser accepts is well formed and framed in exactly one way: token method
  and valid target, one valid Host, clean fields and trailers within the configured counts, never
  both Transfer-Encoding and Content-Length, all Content-Length items equal to the body's length,
  and a body no longer than the limit.
\<close>

theorem request_sound:
  assumes "readHTTPRequest reader limits = Inr (r, rest)"
  shows "soundRequest limits r"
  using assms by (rule readHTTPRequest_sound)

theorem request_sound_witness:
  "soundRequest defaultHTTPLimits (receivedRequest plainRequest)"
proof -
  have "readHTTPRequest (snd (writeHTTPRequest bufferWriter [] plainRequest), IoEOF)
      defaultHTTPLimits = Inr (receivedRequest plainRequest, ([], IoEOF))" by code_simp
  then show ?thesis by (rule request_sound)
qed

text \<open>
  Every request the parser accepts can be forwarded: the writer accepts it, and if the
  result passes the receiver's limits the receiver reads the same method, target, body and
  trailers.
\<close>

lemma request_forwardable:
  assumes "readHTTPRequest reader limits = Inr (r, rest)"
  shows "writeHTTPRequest bufferWriter [] r = (None, encodeRequest r) \<and>
    (requestFits limits' r \<longrightarrow>
      readHTTPRequest (encodeRequest r @ t, f) limits' = Inr (receivedRequest r, (t, f)))"
  using readHTTPRequest_writable [OF assms, of "[]"] request_codec.dec_enc [of limits' r t f]
  by (simp add: writableRequest_def)

lemma request_forwardable_instance:
  "writeHTTPRequest bufferWriter [] (receivedRequest plainRequest) =
     (None, encodeRequest (receivedRequest plainRequest)) \<and>
   readHTTPRequest (encodeRequest (receivedRequest plainRequest) @ ''x'', IoTimeout)
     defaultHTTPLimits = Inr (receivedRequest (receivedRequest plainRequest), (''x'', IoTimeout))"
proof -
  have "readHTTPRequest (snd (writeHTTPRequest bufferWriter [] plainRequest), IoEOF)
      defaultHTTPLimits = Inr (receivedRequest plainRequest, ([], IoEOF))" by code_simp
  from request_forwardable [OF this, of defaultHTTPLimits "''x''" IoTimeout]
  show ?thesis
  proof
    have "requestFits defaultHTTPLimits (receivedRequest plainRequest)" by code_simp
    moreover assume "writeHTTPRequest bufferWriter [] (receivedRequest plainRequest) =
        (None, encodeRequest (receivedRequest plainRequest))"
      and "requestFits defaultHTTPLimits (receivedRequest plainRequest) \<longrightarrow>
        readHTTPRequest (encodeRequest (receivedRequest plainRequest) @ ''x'', IoTimeout)
          defaultHTTPLimits =
        Inr (receivedRequest (receivedRequest plainRequest), (''x'', IoTimeout))"
    ultimately show ?thesis by blast
  qed
qed

text \<open>
  A response written to a connection that fails after any number of bytes leaves there a
  prefix of the complete message, and the writer reports success only if all of it was taken.
\<close>

lemma response_write_prefix:
  "case writeHTTPResponse (connWriter err) \<lparr>delivered = [], room = n\<rparr> r method of
     (None, c) \<Rightarrow> writeHTTPResponse bufferWriter [] r method = (None, delivered c)
   | (Some failure, c) \<Rightarrow>
       \<exists>k. delivered c = take k (snd (writeHTTPResponse bufferWriter [] r method))"
  using conn.writeHTTPResponse_emits [of "\<lparr>delivered = [], room = n\<rparr>" "[]" err r "method"]
  by (auto simp: emits_def prod_eq_iff split: prod.splits option.splits)

text \<open>
  C32: reading a line with \<^verbatim>\<open>bufio.ReadSlice\<close> fragments of any buffer size gives the same result as
  cutting the input at the first line feed, limits and errors included.
\<close>

theorem line_reading_fragments:
  "readStrictLineSized bufSize reader maximum section = strictLineSpec reader maximum section"
  by (rule readStrictLineSized_spec)

text \<open>
  A chunk-size line without extensions is accepted exactly when it is a non-empty string of
  hexadecimal digits whose value fits 64 bits, and then gives that value: the overflow test before
  every multiplication neither misses an overflow nor rejects a representable size.
\<close>

lemma chunk_size_exact:
  assumes "CHR '';'' \<notin> set line"
  shows "parseChunkSizeLine line = Inr n \<longleftrightarrow>
    line \<noteq> [] \<and> list_all (\<lambda>c. hexDigit c \<noteq> None) line \<and> hexFold 0 line < 2 ^ 64 \<and>
    n = word_of_nat (hexFold 0 line)"
  using assms
  by (auto simp: parseChunkSizeLine_def Let_def IndexByte_eq chunkSizeLoop_eq split: if_splits)

lemma chunk_size_exact_instance:
  "parseChunkSizeLine ''fFfFfFfFfFfFfFfF'' = Inr (- 1) \<and>
   \<not> (\<exists>n. parseChunkSizeLine ''10000000000000000'' = Inr n)"
proof
  have a: "CHR '';'' \<notin> set ''fFfFfFfFfFfFfFfF''" "CHR '';'' \<notin> set ''10000000000000000''" by simp_all
  have "hexFold 0 ''fFfFfFfFfFfFfFfF'' = 2 ^ 64 - 1" by (simp add: hexFold_def hexDigit_def)
  moreover have "list_all (\<lambda>c. hexDigit c \<noteq> None) ''fFfFfFfFfFfFfFfF''" by code_simp
  moreover have "(- 1 :: u64) = word_of_nat (2 ^ 64 - 1)" by simp
  ultimately show "parseChunkSizeLine ''fFfFfFfFfFfFfFfF'' = Inr (- 1)"
    unfolding chunk_size_exact [OF a(1)] by simp
  have "\<not> hexFold 0 ''10000000000000000'' < 2 ^ 64"
    by (simp add: hexFold_def hexDigit_def)
  then show "\<not> (\<exists>n. parseChunkSizeLine ''10000000000000000'' = Inr n)"
    unfolding chunk_size_exact [OF a(2)] by blast
qed

text \<open>
  The writer frames a 204 response to HEAD with a Content-Length, which the parser of the
  same repository refuses as malformed.
\<close>

lemma head_no_content_unreadable:
  "fst (writeHTTPResponse bufferWriter [] noContent ''HEAD'') = None \<and>
   readHTTPResponse (snd (writeHTTPResponse bufferWriter [] noContent ''HEAD''), IoEOF)
     defaultHTTPLimits ''HEAD'' =
   Inl (newProtocolError protocolMalformedHeader ''response headers''
          ''1xx and 204 responses cannot declare message framing'')"
  by code_simp

text \<open>
  Field values are compared under Unicode case folding and trimmed of Unicode spaces, so a
  Transfer-Encoding spelt with the Kelvin sign frames a chunked body, and a Content-Length
  followed by a no-break space frames a fixed one.
\<close>

lemma unicode_framing_accepted:
  "determineBodyFraming [hf ''Transfer-Encoding'' (''chun'' @ [CHR 0xE2, CHR 0x84, CHR 0xAA] @ ''ed'')]
     m = Inr (bodyModeChunked, 0) \<and>
   determineBodyFraming [hf ''Content-Length'' (''5'' @ [CHR 0xC2, CHR 0xA0])] 100 =
     Inr (bodyModeFixed, 5)"
proof
  have "onlyChunkedTransferCoding [''chun'' @ [CHR 0xE2, CHR 0x84, CHR 0xAA] @ ''ed'']" by code_simp
  moreover have "Values [hf ''Transfer-Encoding'' x] ''Content-Length'' = []" for x
    by (simp add: EqualFold_token framing_names)
  ultimately show "determineBodyFraming
      [hf ''Transfer-Encoding'' (''chun'' @ [CHR 0xE2, CHR 0x84, CHR 0xAA] @ ''ed'')] m =
      Inr (bodyModeChunked, 0)" by (simp add: determineBodyFraming_def Let_def)
qed code_simp

end
