(* ===== verification/Router.thy ===== *)
theory Router
  imports Http_Parser "HOL-Library.Multiset" "HOL-Library.AList"
begin

text \<open>
  \<^verbatim>\<open>src/src/router.go\<close>: route patterns, the route trees (one per method), registration, freezing and
  lookup with backtracking.

  A nil node is \<open>None\<close>; the map of static children is a map. The map of methods is an association
  list with distinct keys, because \<open>Lookup\<close> iterates over it; \<open>lookup_iteration_order\<close> shows that
  the order is immaterial. The type variable \<open>'h\<close> is the handler.
\<close>

definition anyMethod :: string where "anyMethod = ''*''"

record routeParam =
  ParamName :: string
  ParamValue :: string

fun Get :: "routeParam list \<Rightarrow> string \<Rightarrow> string \<times> bool" where
  "Get [] name = ([], False)"
| "Get (parameter # p) name =
     (if ParamName parameter = name then (ParamValue parameter, True) else Get p name)"

record 'h routeEndpoint =
  handler :: 'h
  paramNames :: "string list"

datatype 'h routeNode = RouteNode
  (static: "string \<Rightarrow> 'h routeNode option")
  (parameter: "'h routeNode option")
  (wildcard: "'h routeNode option")
  (endpoint: "'h routeEndpoint option")

record 'h routeTree =
  methods :: "(string \<times> 'h routeNode) list"
  frozen :: bool

record 'h routeResolution =
  Handler :: "'h option"
  Params :: "routeParam list"
  AllowedMethods :: "string list"

definition newRouteTree :: "'h routeTree" where
  "newRouteTree = \<lparr>methods = [], frozen = False\<rparr>"

definition emptyNode :: "'h routeNode" where
  "emptyNode = RouteNode (\<lambda>_. None) None None None"

subsection \<open>Patterns\<close>

datatype routeSegmentKind = routeSegmentStatic | routeSegmentParameter | routeSegmentWildcard

definition requestPath :: "string \<Rightarrow> string" where
  "requestPath target =
     (let query = IndexByte target CHR ''?'' in
      if 0 \<le> query then take (nat query) target else target)"

definition splitRoutePath :: "string \<Rightarrow> string list" where
  "splitRoutePath path =
     (if path = ''/'' then []
      else if path = ''*'' then [''*'']
      else Split CHR ''/'' (if path \<noteq> [] \<and> hd path = CHR ''/'' then tl path else path))"

text \<open>
  The loop over the segments; \<open>names\<close> holds the names seen so far, in order. The second test of
  the two prefixes at the end of the source's loop body can never be reached with a prefix left.
\<close>

fun routePatternLoop ::
  "string list \<Rightarrow> string list \<Rightarrow> string + (string list \<times> routeSegmentKind list)" where
  "routePatternLoop names [] = Inr (names, [])"
| "routePatternLoop names (segment # segments) =
     (if segment \<noteq> [] \<and> hd segment = CHR '':'' then
        (let name = tl segment in
         if \<not> validToken name then Inl ''route parameter %q has an invalid name''
         else if name \<in> set names then Inl ''route parameter name %q is repeated''
         else
           andThen (routePatternLoop (names @ [name]) segments)
             (\<lambda>(names', kinds). Inr (names', routeSegmentParameter # kinds)))
      else if segment \<noteq> [] \<and> hd segment = CHR ''*'' then
        (let name = tl segment in
         if segments \<noteq> [] then Inl ''route wildcard must be terminal''
         else if \<not> validToken name then Inl ''route wildcard %q has an invalid name''
         else if name \<in> set names then Inl ''route parameter name %q is repeated''
         else
           andThen (routePatternLoop (names @ [name]) segments)
             (\<lambda>(names', kinds). Inr (names', routeSegmentWildcard # kinds)))
      else
        andThen (routePatternLoop names segments)
          (\<lambda>(names', kinds). Inr (names', routeSegmentStatic # kinds)))"

definition parseRoutePattern ::
  "string \<Rightarrow> string + (string list \<times> string list \<times> routeSegmentKind list)" where
  "parseRoutePattern pattern =
     (if pattern \<noteq> ''*'' \<and> \<not> (pattern \<noteq> [] \<and> hd pattern = CHR ''/'')
        then Inl ''route pattern %q must be origin-form or *''
      else if CHR ''?'' \<in> set pattern \<or> CHR ''#'' \<in> set pattern
        then Inl ''route pattern %q must not contain a query or fragment''
      else
        andThen (routePatternLoop [] (splitRoutePath pattern))
          (\<lambda>(names, kinds). Inr (splitRoutePath pattern, names, kinds)))"

subsection \<open>Registration\<close>

text \<open>One step from a node to a child: the structural part of a pattern segment.\<close>

datatype pathElem = PathStatic string | PathParameter | PathWildcard

fun pathElemOf :: "string \<Rightarrow> routeSegmentKind \<Rightarrow> pathElem" where
  "pathElemOf segment routeSegmentStatic = PathStatic segment"
| "pathElemOf segment routeSegmentParameter = PathParameter"
| "pathElemOf segment routeSegmentWildcard = PathWildcard"

definition orEmpty :: "'h routeNode option \<Rightarrow> 'h routeNode" where
  "orEmpty n = (case n of None \<Rightarrow> emptyNode | Some m \<Rightarrow> m)"

text \<open>
  The descent of \<open>Register\<close>: missing children are created, the endpoint is set at the end;
  \<open>None\<close> is the duplicate. A duplicate's path exists already, so the error changes no node.
\<close>

fun insertRoute ::
  "pathElem list \<Rightarrow> 'h routeEndpoint \<Rightarrow> 'h routeNode \<Rightarrow> 'h routeNode option" where
  "insertRoute [] ep (RouteNode st pa wi en) =
     (if en \<noteq> None then None else Some (RouteNode st pa wi (Some ep)))"
| "insertRoute (PathStatic segment # path) ep (RouteNode st pa wi en) =
     map_option (\<lambda>child. RouteNode (st(segment \<mapsto> child)) pa wi en)
       (insertRoute path ep (orEmpty (st segment)))"
| "insertRoute (PathParameter # path) ep (RouteNode st pa wi en) =
     map_option (\<lambda>child. RouteNode st (Some child) wi en) (insertRoute path ep (orEmpty pa))"
| "insertRoute (PathWildcard # path) ep (RouteNode st pa wi en) =
     map_option (\<lambda>child. RouteNode st pa (Some child) en) (insertRoute path ep (orEmpty wi))"

definition Register ::
  "'h routeTree \<Rightarrow> string \<Rightarrow> string \<Rightarrow> 'h option \<Rightarrow> string + 'h routeTree" where
  "Register r method pattern h =
     (if frozen r then Inl ''route tree is frozen''
      else
        (case h of
           None \<Rightarrow> Inl ''route handler is required''
         | Some hnd \<Rightarrow>
             if method \<noteq> anyMethod \<and> \<not> validToken method
               then Inl ''route method %q is not an HTTP token''
             else
               andThen (parseRoutePattern pattern) (\<lambda>(segments, names, kinds).
                 (case insertRoute (map2 pathElemOf segments kinds)
                         \<lparr>handler = hnd, paramNames = names\<rparr>
                         (orEmpty (map_of (methods r) method)) of
                    None \<Rightarrow> Inl ''route %s %s duplicates an existing structural pattern''
                  | Some root \<Rightarrow> Inr (r\<lparr>methods := AList.update method root (methods r)\<rparr>)))))"

definition Freeze :: "'h routeTree \<Rightarrow> string + 'h routeTree" where
  "Freeze r =
     (if methods r = [] then Inl ''at least one route is required''
      else Inr (r\<lparr>frozen := True\<rparr>))"

subsection \<open>Lookup\<close>

definition appendRouteValue :: "string list \<Rightarrow> string \<Rightarrow> string list" where
  "appendRouteValue values value = values @ [value]"

text \<open>The position in the source's segment slice is the list of segments that remain.\<close>

fun matchRoute ::
  "'h routeNode option \<Rightarrow> string list \<Rightarrow> string list \<Rightarrow> ('h routeEndpoint \<times> string list) option"
where
  "matchRoute None segments values = None"
| "matchRoute (Some node) [] values =
     (case endpoint node of Some ep \<Rightarrow> Some (ep, values) | None \<Rightarrow> None)"
| "matchRoute (Some node) (segment # rest) values =
     (case (case static node segment of
              Some child \<Rightarrow> matchRoute (Some child) rest values
            | None \<Rightarrow> None) of
        Some found \<Rightarrow> Some found
      | None \<Rightarrow>
          (case (if segment \<noteq> [] \<and> parameter node \<noteq> None
                 then matchRoute (parameter node) rest (appendRouteValue values segment)
                 else None) of
             Some found \<Rightarrow> Some found
           | None \<Rightarrow>
               (case wildcard node of
                  Some w \<Rightarrow>
                    (case endpoint w of
                       Some ep \<Rightarrow> Some (ep, appendRouteValue values (Join (segment # rest) ''/''))
                     | None \<Rightarrow> None)
                | None \<Rightarrow> None)))"

definition bindRouteParams :: "string list \<Rightarrow> string list \<Rightarrow> routeParam list" where
  "bindRouteParams names values =
     (if length names \<noteq> length values then []
      else map2 (\<lambda>n v. \<lparr>ParamName = n, ParamValue = v\<rparr>) names values)"

definition noResolution :: "'h routeResolution" where
  "noResolution = \<lparr>Handler = None, Params = [], AllowedMethods = []\<rparr>"

definition resolved :: "'h routeEndpoint \<times> string list \<Rightarrow> 'h routeResolution" where
  "resolved found =
     \<lparr>Handler = Some (handler (fst found)),
      Params = bindRouteParams (paramNames (fst found)) (snd found), AllowedMethods = []\<rparr>"

definition allowedMethods ::
  "(string \<times> 'h routeNode) list \<Rightarrow> string \<Rightarrow> string list \<Rightarrow> string list" where
  "allowedMethods ms method segments =
     sort (map fst
       (filter (\<lambda>(candidate, root). candidate \<noteq> anyMethod \<and> candidate \<noteq> method \<and>
                  matchRoute (Some root) segments [] \<noteq> None) ms))"

definition Lookup :: "'h routeTree \<Rightarrow> string \<Rightarrow> string \<Rightarrow> 'h routeResolution" where
  "Lookup r method target =
     (if \<not> frozen r then noResolution
      else
        (let segments = splitRoutePath (requestPath target) in
         case matchRoute (map_of (methods r) method) segments [] of
           Some found \<Rightarrow> resolved found
         | None \<Rightarrow>
             (case matchRoute (map_of (methods r) anyMethod) segments [] of
                Some found \<Rightarrow> resolved found
              | None \<Rightarrow>
                  noResolution\<lparr>AllowedMethods := allowedMethods (methods r) method segments\<rparr>)))"

subsection \<open>The tree as a map of paths\<close>

fun nodeAt :: "pathElem list \<Rightarrow> 'h routeNode \<Rightarrow> 'h routeEndpoint option" where
  "nodeAt [] n = endpoint n"
| "nodeAt (PathStatic s # p) n = (case static n s of None \<Rightarrow> None | Some c \<Rightarrow> nodeAt p c)"
| "nodeAt (PathParameter # p) n = (case parameter n of None \<Rightarrow> None | Some c \<Rightarrow> nodeAt p c)"
| "nodeAt (PathWildcard # p) n = (case wildcard n of None \<Rightarrow> None | Some c \<Rightarrow> nodeAt p c)"

lemma path_cases:
  obtains "p = []" | s p' where "p = PathStatic s # p'" | p' where "p = PathParameter # p'"
    | p' where "p = PathWildcard # p'"
proof (cases p)
  case (Cons a p')
  then show thesis using that by (cases a) auto
qed (use that in auto)

lemma nodeAt_empty [simp]: "nodeAt p emptyNode = None"
  by (cases p rule: path_cases) (auto simp: emptyNode_def)

lemma nodeAt_orEmpty: "nodeAt p (orEmpty n) = (case n of None \<Rightarrow> None | Some c \<Rightarrow> nodeAt p c)"
  by (cases n) (simp_all add: orEmpty_def)

lemma insertRoute_None: "insertRoute p ep n = None \<longleftrightarrow> nodeAt p n \<noteq> None"
  by (induction p ep n rule: insertRoute.induct) (auto simp: nodeAt_orEmpty split: option.splits)

lemma insertRoute_nodeAt:
  "insertRoute p ep n = Some n' \<Longrightarrow> nodeAt q n' = (if q = p then Some ep else nodeAt q n)"
proof (induction p ep n arbitrary: q n' rule: insertRoute.induct)
  case (1 ep st pa wi en)
  then show ?case by (cases q rule: path_cases) (auto split: if_splits)
next
  case (2 segment path ep st pa wi en)
  then obtain c where c: "insertRoute path ep (orEmpty (st segment)) = Some c"
    and n': "n' = RouteNode (st(segment \<mapsto> c)) pa wi en" by auto
  from 2(1) [OF c] n' show ?case
    by (cases q rule: path_cases) (auto simp: nodeAt_orEmpty)
next
  case (3 path ep st pa wi en)
  then obtain c where c: "insertRoute path ep (orEmpty pa) = Some c"
    and n': "n' = RouteNode st (Some c) wi en" by auto
  from 3(1) [OF c] n' show ?case
    by (cases q rule: path_cases) (auto simp: nodeAt_orEmpty)
next
  case (4 path ep st pa wi en)
  then obtain c where c: "insertRoute path ep (orEmpty wi) = Some c"
    and n': "n' = RouteNode st pa (Some c) en" by auto
  from 4(1) [OF c] n' show ?case
    by (cases q rule: path_cases) (auto simp: nodeAt_orEmpty)
qed

text \<open>
  The interface: a store in which an entry can be added once. The laws are what lookups rely on.
\<close>

locale once_store =
  fixes empty :: 's and get :: "'k \<Rightarrow> 's \<Rightarrow> 'v option" and put :: "'k \<Rightarrow> 'v \<Rightarrow> 's \<Rightarrow> 's option"
  assumes get_empty: "get k empty = None"
    and put_None: "put k v s = None \<longleftrightarrow> get k s \<noteq> None"
    and get_put: "put k v s = Some s' \<Longrightarrow> get k' s' = (if k' = k then Some v else get k' s)"
begin

lemma put_total: "get k s = None \<Longrightarrow> \<exists>s'. put k v s = Some s'"
  using put_None by (metis option.exhaust)

lemma put_keeps: "put k v s = Some s' \<Longrightarrow> get k' s = Some v' \<Longrightarrow> get k' s' = Some v'"
  using get_put put_None by (metis option.distinct(1))

lemma put_entries:
  "put k v s = Some s' \<Longrightarrow> (\<forall>k v. get k s = Some v \<longrightarrow> P k v) \<Longrightarrow> P k v \<Longrightarrow>
   (\<forall>k v. get k s' = Some v \<longrightarrow> P k v)"
  using get_put by (metis option.inject)

end

interpretation route_store: once_store emptyNode nodeAt insertRoute
  by unfold_locales (auto simp: insertRoute_None insertRoute_nodeAt)

subsection \<open>Matching against a reference\<close>

text \<open>The values a path captures from the segments of a request, if it matches them.\<close>

fun pathMatch :: "pathElem list \<Rightarrow> string list \<Rightarrow> string list option" where
  "pathMatch [] [] = Some []"
| "pathMatch (PathStatic s # p) (x # xs) = (if s = x then pathMatch p xs else None)"
| "pathMatch (PathParameter # p) (x # xs) =
     (if x \<noteq> [] then map_option (Cons x) (pathMatch p xs) else None)"
| "pathMatch [PathWildcard] (x # xs) = Some [Join (x # xs) ''/'']"
| "pathMatch _ _ = None"

text \<open>Precedence at the first difference: static, then parameter, then wildcard.\<close>

fun elemRank :: "pathElem \<Rightarrow> nat" where
  "elemRank (PathStatic _) = 0"
| "elemRank PathParameter = 1"
| "elemRank PathWildcard = 2"

definition pathRank :: "pathElem list \<Rightarrow> nat list" where
  "pathRank p = map elemRank p"

lemma matchRoute_None:
  "matchRoute (Some n) segs vals = None \<Longrightarrow> nodeAt q n = Some e \<Longrightarrow> pathMatch q segs = None"
proof (induction segs arbitrary: n vals q)
  case Nil
  then show ?case by (cases q rule: path_cases) (auto split: option.splits)
next
  case (Cons x xs)
  show ?case
  proof (cases q rule: path_cases)
    case (2 s p)
    with Cons show ?thesis by (auto split: option.splits)
  next
    case (3 p)
    with Cons show ?thesis by (auto split: option.splits if_splits)
  next
    case (4 p)
    with Cons show ?thesis by (cases p) (auto split: option.splits)
  qed simp
qed

text \<open>
  The found endpoint is registered under a path that matches, and no registered path that
  matches takes precedence over it.
\<close>

definition bestPath :: "'h routeNode \<Rightarrow> string list \<Rightarrow> pathElem list \<Rightarrow> bool" where
  "bestPath n segs p \<longleftrightarrow>
     nodeAt p n \<noteq> None \<and> pathMatch p segs \<noteq> None \<and>
     (\<forall>q. nodeAt q n \<noteq> None \<longrightarrow> pathMatch q segs \<noteq> None \<longrightarrow> pathRank p \<le> pathRank q)"

lemma pathRank_Cons [simp]: "pathRank (a # p) = elemRank a # pathRank p"
  by (simp add: pathRank_def)

lemma pathRank_Nil [simp]: "pathRank [] = []"
  by (simp add: pathRank_def)

lemma bestPath_static:
  assumes "static n x = Some c" "bestPath c xs p"
  shows "bestPath n (x # xs) (PathStatic x # p)"
  unfolding bestPath_def
proof (intro conjI allI impI)
  fix q assume q: "nodeAt q n \<noteq> None" "pathMatch q (x # xs) \<noteq> None"
  show "pathRank (PathStatic x # p) \<le> pathRank q"
    using assms q by (cases q rule: path_cases) (auto simp: bestPath_def split: if_splits)
qed (use assms in \<open>auto simp: bestPath_def\<close>)

lemma bestPath_parameter:
  assumes "parameter n = Some c" "x \<noteq> []" "bestPath c xs p"
    and none: "\<And>c q. static n x = Some c \<Longrightarrow> nodeAt q c \<noteq> None \<Longrightarrow> pathMatch q xs = None"
  shows "bestPath n (x # xs) (PathParameter # p)"
  unfolding bestPath_def
proof (intro conjI allI impI)
  fix q assume q: "nodeAt q n \<noteq> None" "pathMatch q (x # xs) \<noteq> None"
  show "pathRank (PathParameter # p) \<le> pathRank q"
    using assms(1-3) none q
    by (cases q rule: path_cases) (auto simp: bestPath_def split: if_splits option.splits)
qed (use assms in \<open>auto simp: bestPath_def\<close>)

lemma bestPath_wildcard:
  assumes "wildcard n = Some w" "endpoint w = Some ep"
    and s: "\<And>c q. static n x = Some c \<Longrightarrow> nodeAt q c \<noteq> None \<Longrightarrow> pathMatch q xs = None"
    and p: "\<And>c q. x \<noteq> [] \<Longrightarrow> parameter n = Some c \<Longrightarrow> nodeAt q c \<noteq> None \<Longrightarrow> pathMatch q xs = None"
  shows "bestPath n (x # xs) [PathWildcard]"
  unfolding bestPath_def
proof (intro conjI allI impI)
  fix q assume q: "nodeAt q n \<noteq> None" "pathMatch q (x # xs) \<noteq> None"
  show "pathRank [PathWildcard] \<le> pathRank q"
    using assms(1,2) s p q
    by (cases q rule: path_cases) (auto simp: bestPath_def split: if_splits option.splits)
qed (use assms in auto)

lemma matchRoute_Some:
  "matchRoute (Some n) segs vals = Some (ep, vs) \<Longrightarrow>
   \<exists>p ws. bestPath n segs p \<and> nodeAt p n = Some ep \<and> pathMatch p segs = Some ws \<and> vs = vals @ ws"
proof (induction segs arbitrary: n vals)
  case Nil
  then have "endpoint n = Some ep" "vs = vals" by (auto split: option.splits)
  then show ?case by (intro exI [of _ "[]"]) (auto simp: bestPath_def pathRank_def)
next
  case (Cons x xs)
  have none: "pathMatch q xs = None" if "matchRoute (Some c) xs v = None" "nodeAt q c \<noteq> None" for c q v
    using matchRoute_None [OF that(1)] that(2) by blast
  consider
    (s) c where "static n x = Some c" "matchRoute (Some c) xs vals = Some (ep, vs)"
  | (p) c where "\<And>c. static n x = Some c \<Longrightarrow> matchRoute (Some c) xs vals = None"
      "parameter n = Some c" "x \<noteq> []" "matchRoute (Some c) xs (vals @ [x]) = Some (ep, vs)"
  | (w) w where "\<And>c. static n x = Some c \<Longrightarrow> matchRoute (Some c) xs vals = None"
      "\<And>c. parameter n = Some c \<Longrightarrow> x \<noteq> [] \<Longrightarrow> matchRoute (Some c) xs (vals @ [x]) = None"
      "wildcard n = Some w" "endpoint w = Some ep" "vs = vals @ [Join (x # xs) ''/'']"
    using Cons.prems
    by (auto simp: appendRouteValue_def split: option.splits if_splits)
  then show ?case
  proof cases
    case s
    from Cons.IH [OF s(2)] obtain q ws where q: "bestPath c xs q" "nodeAt q c = Some ep"
      "pathMatch q xs = Some ws" "vs = vals @ ws" by blast
    with s(1) bestPath_static [OF s(1) q(1)] show ?thesis
      by (intro exI [of _ "PathStatic x # q"]) simp
  next
    case p
    from Cons.IH [OF p(4)] obtain q ws where q: "bestPath c xs q" "nodeAt q c = Some ep"
      "pathMatch q xs = Some ws" "vs = (vals @ [x]) @ ws" by blast
    have "bestPath n (x # xs) (PathParameter # q)"
      by (rule bestPath_parameter [OF p(2,3) q(1)]) (rule none [OF p(1)])
    with q p(2,3) show ?thesis by (intro exI [of _ "PathParameter # q"]) simp
  next
    case w
    have "bestPath n (x # xs) [PathWildcard]"
      by (rule bestPath_wildcard [OF w(3,4)]) (rule none [OF w(1)], assumption+, rule none [OF w(2)])
    with w show ?thesis by (intro exI [of _ "[PathWildcard]"]) simp
  qed
qed

subsection \<open>Trees built by registration\<close>

definition routeAt :: "'h routeTree \<Rightarrow> string \<Rightarrow> pathElem list \<Rightarrow> 'h routeEndpoint option" where
  "routeAt r method p = nodeAt p (orEmpty (map_of (methods r) method))"

fun captures :: "pathElem list \<Rightarrow> nat" where
  "captures [] = 0"
| "captures (PathStatic _ # p) = captures p"
| "captures (_ # p) = Suc (captures p)"

lemma pathMatch_captures: "pathMatch p segs = Some ws \<Longrightarrow> length ws = captures p"
  by (induction p segs arbitrary: ws rule: pathMatch.induct) (auto split: if_splits)

lemma routePatternLoop_Inr:
  "routePatternLoop names segs = Inr (names', kinds) \<Longrightarrow> distinct names \<Longrightarrow>
   length kinds = length segs \<and> distinct names' \<and>
   length names' = length names + captures (map2 pathElemOf segs kinds)"
proof (induction segs arbitrary: names kinds)
  case (Cons segment segs)
  from Cons.prems(1) obtain kind ks ns where k: "kinds = kind # ks"
    and rec: "routePatternLoop ns segs = Inr (names', ks)"
    and ns: "(kind = routeSegmentStatic \<and> ns = names) \<or>
      (kind \<noteq> routeSegmentStatic \<and> ns = names @ [tl segment] \<and> tl segment \<notin> set names)"
    by (auto simp: Let_def result_simps split: if_splits)
  from ns Cons.prems(2) have "distinct ns" by auto
  from Cons.IH [OF rec this] k ns show ?case by (cases kind) auto
qed simp

lemma parseRoutePattern_Inr:
  assumes "parseRoutePattern pattern = Inr (segments, names, kinds)"
  shows "length names = captures (map2 pathElemOf segments kinds)" "distinct names"
    and "length kinds = length segments" "segments = splitRoutePath pattern"
  using assms routePatternLoop_Inr [of "[]"]
  by (auto simp: parseRoutePattern_def result_simps split: if_splits)

lemma Register_Inr:
  assumes "Register r method pattern h = Inr r'"
  obtains h' segments names kinds where "h = Some h'" "\<not> frozen r" "frozen r' = frozen r"
    "parseRoutePattern pattern = Inr (segments, names, kinds)"
    "routeAt r method (map2 pathElemOf segments kinds) = None"
    "\<And>m p. routeAt r' m p =
       (if m = method \<and> p = map2 pathElemOf segments kinds
        then Some \<lparr>handler = h', paramNames = names\<rparr> else routeAt r m p)"
    "distinct (map fst (methods r)) \<Longrightarrow> distinct (map fst (methods r'))"
    "methods r' \<noteq> []"
proof -
  from assms obtain h' segments names kinds root where
    h: "h = Some h'" "\<not> frozen r" and p: "parseRoutePattern pattern = Inr (segments, names, kinds)"
    and root: "insertRoute (map2 pathElemOf segments kinds) \<lparr>handler = h', paramNames = names\<rparr>
       (orEmpty (map_of (methods r) method)) = Some root"
    and r': "r' = r\<lparr>methods := AList.update method root (methods r)\<rparr>"
    by (auto simp: Register_def result_simps split: if_splits option.splits)
  have new: "routeAt r method (map2 pathElemOf segments kinds) = None"
    using root route_store.put_None unfolding routeAt_def by (metis option.distinct(1))
  have at: "routeAt r' m p =
      (if m = method \<and> p = map2 pathElemOf segments kinds
       then Some \<lparr>handler = h', paramNames = names\<rparr> else routeAt r m p)" for m p
    using route_store.get_put [OF root, of p]
    by (auto simp: routeAt_def r' update_conv' orEmpty_def)
  have ne: "AList.update method root ms \<noteq> []" for ms by (cases ms) auto
  show thesis
    by (rule that [OF h _ p new at]) (auto simp: r' ne distinct_update)
qed

inductive builtTree :: "'h routeTree \<Rightarrow> bool" where
  built_new: "builtTree newRouteTree"
| built_register: "builtTree r \<Longrightarrow> Register r method pattern h = Inr r' \<Longrightarrow> builtTree r'"
| built_freeze: "builtTree r \<Longrightarrow> Freeze r = Inr r' \<Longrightarrow> builtTree r'"

text \<open>Every endpoint has one distinct name per captured value.\<close>

definition routeTreeOk :: "'h routeTree \<Rightarrow> bool" where
  "routeTreeOk r \<longleftrightarrow>
     distinct (map fst (methods r)) \<and>
     (\<forall>m p ep. routeAt r m p = Some ep \<longrightarrow>
        length (paramNames ep) = captures p \<and> distinct (paramNames ep))"

lemma Register_ok:
  assumes "Register r method pattern h = Inr r'" "routeTreeOk r"
  shows "routeTreeOk r'"
proof -
  obtain h' segments names kinds where
    p: "parseRoutePattern pattern = Inr (segments, names, kinds)"
    and at: "\<And>m p. routeAt r' m p =
       (if m = method \<and> p = map2 pathElemOf segments kinds
        then Some \<lparr>handler = h', paramNames = names\<rparr> else routeAt r m p)"
    and d: "distinct (map fst (methods r)) \<Longrightarrow> distinct (map fst (methods r'))"
    using assms(1) by (rule Register_Inr) (rule that)
  from assms(2) parseRoutePattern_Inr [OF p] d show ?thesis
    unfolding routeTreeOk_def at by (auto split: if_splits)
qed

lemma builtTree_ok: "builtTree r \<Longrightarrow> routeTreeOk r"
proof (induction rule: builtTree.induct)
  case built_new
  then show ?case by (simp add: routeTreeOk_def newRouteTree_def routeAt_def orEmpty_def)
next
  case (built_register r m pat h r')
  then show ?case by (blast intro: Register_ok)
next
  case (built_freeze r r')
  then show ?case by (auto simp: Freeze_def routeTreeOk_def routeAt_def split: if_splits)
qed

lemma matchRoute_root:
  "matchRoute (map_of (methods r) method) segs vals = Some (ep, vs) \<Longrightarrow>
   \<exists>p ws. routeAt r method p = Some ep \<and> pathMatch p segs = Some ws \<and> vs = vals @ ws \<and>
     (\<forall>q. routeAt r method q \<noteq> None \<longrightarrow> pathMatch q segs \<noteq> None \<longrightarrow> pathRank p \<le> pathRank q)"
  by (cases "map_of (methods r) method")
     (auto simp: routeAt_def orEmpty_def bestPath_def dest!: matchRoute_Some)

lemma matchRoute_root_None:
  "matchRoute (map_of (methods r) method) segs vals = None \<longleftrightarrow>
   (\<forall>p. routeAt r method p \<noteq> None \<longrightarrow> pathMatch p segs = None)"
proof
  assume "matchRoute (map_of (methods r) method) segs vals = None"
  then show "\<forall>p. routeAt r method p \<noteq> None \<longrightarrow> pathMatch p segs = None"
    using matchRoute_None
    by (cases "map_of (methods r) method") (fastforce simp: routeAt_def orEmpty_def)+
next
  assume none: "\<forall>p. routeAt r method p \<noteq> None \<longrightarrow> pathMatch p segs = None"
  show "matchRoute (map_of (methods r) method) segs vals = None"
  proof (cases "matchRoute (map_of (methods r) method) segs vals")
    case (Some found)
    from matchRoute_root [of r "method" segs vals "fst found" "snd found"] Some none
    show ?thesis by auto
  qed simp
qed

text \<open>The paths of a method that a request's segments match.\<close>

definition matching :: "'h routeTree \<Rightarrow> string \<Rightarrow> string list \<Rightarrow> pathElem list set" where
  "matching r method segs = {p. routeAt r method p \<noteq> None \<and> pathMatch p segs \<noteq> None}"

lemma matchRoute_root_empty:
  "matchRoute (map_of (methods r) method) segs vals = None \<longleftrightarrow> matching r method segs = {}"
  unfolding matchRoute_root_None matching_def Collect_empty_eq by metis

lemma Lookup_cases:
  assumes "frozen r"
  shows "Lookup r method target =
    (let segs = splitRoutePath (requestPath target);
         m = (if matching r method segs \<noteq> {} then method else anyMethod) in
     if matching r m segs \<noteq> {}
     then resolved (the (matchRoute (map_of (methods r) m) segs []))
     else noResolution\<lparr>AllowedMethods := allowedMethods (methods r) method segs\<rparr>)"
  using assms
  by (auto simp: Lookup_def Let_def matchRoute_root_empty [symmetric, of r _ _ "[]"]
      split: option.splits)

lemma allowedMethods_spec:
  assumes "distinct (map fst (methods r))"
  shows "sorted (allowedMethods (methods r) method segs)"
    and "distinct (allowedMethods (methods r) method segs)"
    and "set (allowedMethods (methods r) method segs) =
      {m. m \<noteq> anyMethod \<and> m \<noteq> method \<and> matching r m segs \<noteq> {}}"
proof -
  let ?P = "\<lambda>(candidate, root). candidate \<noteq> anyMethod \<and> candidate \<noteq> method \<and>
      matchRoute (Some root) segs [] \<noteq> None"
  show "sorted (allowedMethods (methods r) method segs)" by (simp add: allowedMethods_def)
  show "distinct (allowedMethods (methods r) method segs)"
    using assms by (simp add: allowedMethods_def distinct_map_filter)
  have in_iff: "(m, n) \<in> set (methods r) \<longleftrightarrow> map_of (methods r) m = Some n" for m n
    using assms by simp
  have "matching r m segs \<noteq> {} \<longleftrightarrow>
      (\<exists>n. (m, n) \<in> set (methods r) \<and> matchRoute (Some n) segs [] \<noteq> None)" for m
    unfolding in_iff using matchRoute_root_empty [of r m segs "[]"]
    by (cases "map_of (methods r) m") auto
  then have eq: "(m \<noteq> anyMethod \<and> m \<noteq> method \<and> matching r m segs \<noteq> {}) \<longleftrightarrow>
      (\<exists>n. (m, n) \<in> set (methods r) \<and> ?P (m, n))" for m
    unfolding split_conv by iprover
  have "{m. m \<noteq> anyMethod \<and> m \<noteq> method \<and> matching r m segs \<noteq> {}} =
      fst ` {x \<in> set (methods r). ?P x}"
    unfolding eq
    by (rule set_eqI) (simp only: mem_Collect_eq image_iff Bex_def split_paired_Ex fst_conv, iprover)
  then show "set (allowedMethods (methods r) method segs) =
      {m. m \<noteq> anyMethod \<and> m \<noteq> method \<and> matching r m segs \<noteq> {}}"
    by (simp add: allowedMethods_def)
qed

lemma Get_bind:
  "distinct names \<Longrightarrow> length names = length vals \<Longrightarrow> i < length names \<Longrightarrow>
   Get (bindRouteParams names vals) (names ! i) = (vals ! i, True)"
proof -
  have "distinct names \<Longrightarrow> i < length names \<Longrightarrow>
     Get (map2 (\<lambda>n v. \<lparr>ParamName = n, ParamValue = v\<rparr>) names vals) (names ! i) = (vals ! i, True)"
    if "length names = length vals"
    using that
  proof (induction names vals arbitrary: i rule: list_induct2)
    case (Cons n ns v vs)
    then show ?case by (cases i) auto
  qed simp
  then show "distinct names \<Longrightarrow> length names = length vals \<Longrightarrow> i < length names \<Longrightarrow>
   Get (bindRouteParams names vals) (names ! i) = (vals ! i, True)"
    by (simp add: bindRouteParams_def)
qed

lemma allowedMethods_order:
  assumes "mset ms = mset ms'"
  shows "allowedMethods ms method segs = allowedMethods ms' method segs"
proof -
  have sort_cong: "mset (map fst (filter P ms)) = mset (map fst (filter P ms'))" for P
    by (simp add: assms mset_map mset_filter)
  show ?thesis
    unfolding allowedMethods_def
    by (rule properties_for_sort, simp only: mset_sort sort_cong, rule sorted_sort)
qed

lemma map_of_order:
  assumes "mset ms = mset ms'" "distinct (map fst ms)"
  shows "map_of ms = map_of ms'"
proof -
  have "mset (map fst ms) = mset (map fst ms')" using assms(1) by simp
  then have "distinct (map fst ms')" using assms(2) mset_eq_imp_distinct_iff by blast
  moreover have "set ms = set ms'" using assms(1) by (metis set_mset_mset)
  ultimately show ?thesis using assms(2) map_of_inject_set by blast
qed

subsection \<open>Properties\<close>

definition sampleTree :: "nat routeTree" where
  "sampleTree =
     (case andThen (Register newRouteTree ''GET'' ''/api/:id'' (Some 1)) (\<lambda>r.
           andThen (Register r ''GET'' ''/api/*rest'' (Some 2)) (\<lambda>r.
           andThen (Register r ''PUT'' ''/api/:id'' (Some 3)) (\<lambda>r.
           andThen (Register r ''*'' ''/any'' (Some 4)) Freeze))) of
        Inr r \<Rightarrow> r | Inl _ \<Rightarrow> newRouteTree)"

lemma sampleTree_built: "builtTree sampleTree"
proof -
  have "builtTree r" if built: "andThen (Register newRouteTree ''GET'' ''/api/:id'' (Some 1)) (\<lambda>r.
           andThen (Register r ''GET'' ''/api/*rest'' (Some 2)) (\<lambda>r.
           andThen (Register r ''PUT'' ''/api/:id'' (Some 3)) (\<lambda>r.
           andThen (Register r ''*'' ''/any'' (Some 4)) Freeze))) = Inr r" for r :: "nat routeTree"
  proof -
    from built obtain a b c d :: "nat routeTree"
      where "Register newRouteTree ''GET'' ''/api/:id'' (Some 1) = Inr a"
        "Register a ''GET'' ''/api/*rest'' (Some 2) = Inr b"
        "Register b ''PUT'' ''/api/:id'' (Some 3) = Inr c"
        "Register c ''*'' ''/any'' (Some 4) = Inr d" "Freeze d = Inr r"
      unfolding andThen_Inr_iff by metis
    then show ?thesis by (metis built_new built_register built_freeze)
  qed
  moreover have "builtTree (newRouteTree :: nat routeTree)" by (rule built_new)
  ultimately show ?thesis unfolding sampleTree_def by (simp split: sum.split)
qed

text \<open>
  C11: registration refines the update of a finite map from (method, structural path) to
  endpoint: it succeeds only for a new key, adds exactly that entry and changes no other, and a
  tree rejects the second registration of the same structural pattern.
\<close>

theorem register_refines_map:
  assumes "\<not> frozen r" "method = anyMethod \<or> validToken method"
    and "parseRoutePattern pattern = Inr (segments, names, kinds)"
  shows "case Register r method pattern (Some h) of
      Inr r' \<Rightarrow> routeAt r method (map2 pathElemOf segments kinds) = None \<and>
        (\<forall>m p. routeAt r' m p =
           (if m = method \<and> p = map2 pathElemOf segments kinds
            then Some \<lparr>handler = h, paramNames = names\<rparr> else routeAt r m p))
    | Inl err \<Rightarrow> routeAt r method (map2 pathElemOf segments kinds) \<noteq> None"
proof (cases "Register r method pattern (Some h)")
  case (Inl err)
  with assms have "insertRoute (map2 pathElemOf segments kinds) \<lparr>handler = h, paramNames = names\<rparr>
      (orEmpty (map_of (methods r) method)) = None"
    by (auto simp: Register_def split: option.splits)
  with Inl show ?thesis by (simp add: route_store.put_None routeAt_def)
next
  case (Inr r')
  then show ?thesis
  proof (rule Register_Inr)
    fix h' segments' names' kinds'
    assume "Some h = Some h'" "parseRoutePattern pattern = Inr (segments', names', kinds')"
      "routeAt r method (map2 pathElemOf segments' kinds') = None"
      "\<And>m p. routeAt r' m p = (if m = method \<and> p = map2 pathElemOf segments' kinds'
         then Some \<lparr>handler = h', paramNames = names'\<rparr> else routeAt r m p)"
    with assms(3) Inr show ?thesis by simp
  qed
qed

theorem register_refines_map_witness:
  "case Register (newRouteTree :: nat routeTree) ''GET'' ''/a/:id'' (Some 7) of
     Inr r' \<Rightarrow> routeAt (newRouteTree :: nat routeTree) ''GET''
         (map2 pathElemOf [''a'', '':id''] [routeSegmentStatic, routeSegmentParameter]) = None \<and>
       (\<forall>m p. routeAt r' m p =
         (if m = ''GET'' \<and>
             p = map2 pathElemOf [''a'', '':id''] [routeSegmentStatic, routeSegmentParameter]
          then Some \<lparr>handler = 7, paramNames = [''id'']\<rparr> else routeAt newRouteTree m p))
   | Inl err \<Rightarrow> routeAt (newRouteTree :: nat routeTree) ''GET''
         (map2 pathElemOf [''a'', '':id''] [routeSegmentStatic, routeSegmentParameter]) \<noteq> None"
proof (rule register_refines_map)
  show "\<not> frozen (newRouteTree :: nat routeTree)" by (simp add: newRouteTree_def)
  show "''GET'' = anyMethod \<or> validToken ''GET''" by code_simp
  show "parseRoutePattern ''/a/:id'' =
      Inr ([''a'', '':id''], [''id''], [routeSegmentStatic, routeSegmentParameter])" by code_simp
qed

text \<open>
  C16: in a frozen tree built by registration, a handler that \<open>Lookup\<close> returns was registered for
  the request's method (or, when no route of the method matches, for any method) under a path that
  matches; no matching path of that method takes precedence over it (static before parameter
  before wildcard at the first difference); and its parameters are exactly its distinct names
  paired with the captured values.
\<close>

theorem lookup_most_specific:
  assumes "builtTree r" "frozen r" "Handler (Lookup r method target) = Some h"
  shows "\<exists>m p ep ws.
    m = (if matching r method (splitRoutePath (requestPath target)) \<noteq> {} then method else anyMethod) \<and>
    routeAt r m p = Some ep \<and> handler ep = h \<and>
    pathMatch p (splitRoutePath (requestPath target)) = Some ws \<and>
    (\<forall>q \<in> matching r m (splitRoutePath (requestPath target)). pathRank p \<le> pathRank q) \<and>
    distinct (paramNames ep) \<and> length (paramNames ep) = length ws \<and>
    Params (Lookup r method target) =
      map2 (\<lambda>n v. \<lparr>ParamName = n, ParamValue = v\<rparr>) (paramNames ep) ws"
proof -
  let ?segs = "splitRoutePath (requestPath target)"
  define m where "m = (if matching r method ?segs \<noteq> {} then method else anyMethod)"
  from assms(2,3) have ne: "matching r m ?segs \<noteq> {}"
    and look: "Lookup r method target = resolved (the (matchRoute (map_of (methods r) m) ?segs []))"
    unfolding Lookup_cases [OF assms(2)] Let_def m_def
    by (auto simp: noResolution_def split: if_splits)
  from ne obtain ep ws where f: "matchRoute (map_of (methods r) m) ?segs [] = Some (ep, ws)"
    using matchRoute_root_empty [of r m ?segs "[]"] by auto
  from matchRoute_root [OF f] obtain p where p: "routeAt r m p = Some ep" "pathMatch p ?segs = Some ws"
    "\<And>q. q \<in> matching r m ?segs \<Longrightarrow> pathRank p \<le> pathRank q" by (auto simp: matching_def)
  from builtTree_ok [OF assms(1)] p(1,2)
  have names: "distinct (paramNames ep)" "length (paramNames ep) = length ws"
    by (auto simp: routeTreeOk_def pathMatch_captures)
  have "handler ep = h" using assms(3) look f by (simp add: resolved_def)
  moreover have "Params (Lookup r method target) =
      map2 (\<lambda>n v. \<lparr>ParamName = n, ParamValue = v\<rparr>) (paramNames ep) ws"
    using look f names(2) by (simp add: resolved_def bindRouteParams_def)
  ultimately show ?thesis using p names m_def by blast
qed

theorem lookup_most_specific_witness:
  "\<exists>m p ep ws.
    m = (if matching sampleTree ''GET'' (splitRoutePath (requestPath ''/api/7?x'')) \<noteq> {}
         then ''GET'' else anyMethod) \<and>
    routeAt sampleTree m p = Some ep \<and> handler ep = 1 \<and>
    pathMatch p (splitRoutePath (requestPath ''/api/7?x'')) = Some ws \<and>
    (\<forall>q \<in> matching sampleTree m (splitRoutePath (requestPath ''/api/7?x'')). pathRank p \<le> pathRank q) \<and>
    distinct (paramNames ep) \<and> length (paramNames ep) = length ws \<and>
    Params (Lookup sampleTree ''GET'' ''/api/7?x'') =
      map2 (\<lambda>n v. \<lparr>ParamName = n, ParamValue = v\<rparr>) (paramNames ep) ws"
proof (rule lookup_most_specific [OF sampleTree_built])
  show "frozen sampleTree" by code_simp
  show "Handler (Lookup sampleTree ''GET'' ''/api/7?x'') = Some 1" by code_simp
qed

text \<open>
  When \<open>Lookup\<close> finds no handler, no route of the method or of any method matches the path,
  and the allowed methods are, sorted and without repetition, exactly the other methods that have
  a matching route; so 405 is answered if and only if another method would have matched.
\<close>

lemma lookup_none:
  assumes "builtTree r" "frozen r" "Handler (Lookup r method target) = None"
  shows "matching r method (splitRoutePath (requestPath target)) = {} \<and>
    matching r anyMethod (splitRoutePath (requestPath target)) = {} \<and>
    sorted (AllowedMethods (Lookup r method target)) \<and>
    distinct (AllowedMethods (Lookup r method target)) \<and>
    set (AllowedMethods (Lookup r method target)) =
      {m. m \<noteq> anyMethod \<and> m \<noteq> method \<and> matching r m (splitRoutePath (requestPath target)) \<noteq> {}}"
proof -
  from builtTree_ok [OF assms(1)] have d: "distinct (map fst (methods r))"
    by (simp add: routeTreeOk_def)
  let ?segs = "splitRoutePath (requestPath target)"
  from assms(3) have e: "matching r method ?segs = {}" "matching r anyMethod ?segs = {}"
    unfolding Lookup_cases [OF assms(2)] Let_def by (auto simp: resolved_def split: if_splits)
  then have "AllowedMethods (Lookup r method target) = allowedMethods (methods r) method ?segs"
    by (simp add: Lookup_cases [OF assms(2)] Let_def)
  with e allowedMethods_spec [OF d, of "method" ?segs] show ?thesis by simp
qed

lemma lookup_none_instance:
  "matching sampleTree ''HEAD'' (splitRoutePath (requestPath ''/api/7'')) = {} \<and>
    matching sampleTree anyMethod (splitRoutePath (requestPath ''/api/7'')) = {} \<and>
    sorted (AllowedMethods (Lookup sampleTree ''HEAD'' ''/api/7'')) \<and>
    distinct (AllowedMethods (Lookup sampleTree ''HEAD'' ''/api/7'')) \<and>
    set (AllowedMethods (Lookup sampleTree ''HEAD'' ''/api/7'')) =
      {m. m \<noteq> anyMethod \<and> m \<noteq> ''HEAD'' \<and>
          matching sampleTree m (splitRoutePath (requestPath ''/api/7'')) \<noteq> {}}"
proof (rule lookup_none [OF sampleTree_built])
  show "frozen sampleTree" by code_simp
  show "Handler (Lookup sampleTree ''HEAD'' ''/api/7'') = None" by code_simp
qed

text \<open>
  The result of a lookup does not depend on the order in which Go iterates over the map of
  methods.
\<close>

lemma lookup_iteration_order:
  assumes "distinct (map fst ms)" "mset ms = mset ms'"
  shows "Lookup \<lparr>methods = ms, frozen = b\<rparr> method target = Lookup \<lparr>methods = ms', frozen = b\<rparr> method target"
  unfolding Lookup_def routeTree.select_convs map_of_order [OF assms(2,1)]
    allowedMethods_order [OF assms(2)] ..

lemma lookup_iteration_order_instance:
  "Lookup \<lparr>methods = methods sampleTree, frozen = True\<rparr> ''HEAD'' ''/api/7'' =
   Lookup \<lparr>methods = rev (methods sampleTree), frozen = True\<rparr> ''HEAD'' ''/api/7''"
proof (rule lookup_iteration_order)
  show "distinct (map fst (methods sampleTree))" by code_simp
qed simp

text \<open>
  The pattern \<^verbatim>\<open>*\<close>, which the first check of \<open>parseRoutePattern\<close> admits, can never be
  registered: its one segment is taken for a wildcard without a name.
\<close>

lemma asterisk_pattern_rejected:
  "parseRoutePattern ''*'' = Inl ''route wildcard %q has an invalid name''"
  by code_simp

end
