(* ===== verification/Http_Server.thy ===== *)
theory Http_Server
  imports Http_Interfaces Router
begin

text \<open>
  \<^verbatim>\<open>src/src/http_server.go\<close>: the loop that serves one connection, dispatch to a route's handler,
  failure responses and buffered writing.

  A handler is a function on a state \<open>'x\<close> that stands for everything handlers share; its outcome
  is a panic or the pair of results of the source. The connection is the reader, and a writer
  \<open>wr\<close> with its \<open>flush\<close> (the \<^verbatim>\<open>bufio.Writer\<close> over the connection). Cancellation of the context is
  sampled twice per request; the two samples are functions of the request number.
\<close>

datatype handlerOutcome = HandlerPanic | HandlerReturn "httpResponse option" "io_error option"

type_synonym 'x routeHandler =
  "'x \<Rightarrow> httpRequest \<Rightarrow> routeParam list \<Rightarrow> handlerOutcome \<times> 'x"

definition maxRequestsPerClient :: int where "maxRequestsPerClient = 1000000"

record httpServerConfig =
  Limits :: httpLimits
  MaxRequestsPerConnection :: int

definition httpServerConfig_validate :: "httpServerConfig \<Rightarrow> string + unit" where
  "httpServerConfig_validate c =
     andThen (httpLimits_validate (Limits c)) (\<lambda>_.
     if MaxRequestsPerConnection c \<le> 0 \<or> MaxRequestsPerConnection c > maxRequestsPerClient
       then Inl ''maximum requests per connection must be between 1 and %d''
     else Inr ())"

text \<open>The tree is frozen before the handler is returned; the handler serves with it.\<close>

definition newHTTPConnectionHandler ::
  "'h routeTree option \<Rightarrow> httpServerConfig \<Rightarrow> string + 'h routeTree" where
  "newHTTPConnectionHandler router config =
     (case router of
        None \<Rightarrow> Inl ''route tree is required''
      | Some tree \<Rightarrow> andThen (httpServerConfig_validate config) (\<lambda>_. Freeze tree))"

definition textResponse :: "int \<Rightarrow> string \<Rightarrow> httpResponse" where
  "textResponse status body =
     \<lparr>RespVersion = httpVersion11, StatusCode = status, Reason = [],
      RespHeaders = [hf ''Content-Type'' ''text/plain; charset=utf-8''], RespTrailers = [],
      RespBody = body, RespBodyMode = bodyModeFixed, RespKeepAlive = True, RespClose = False,
      CommitState = None\<rparr>"

definition internalError :: httpResponse where
  "internalError = (textResponse 500 (''internal server error'' @ [LF]))\<lparr>RespClose := True\<rparr>"

definition dispatchHTTPRequest ::
  "'x routeHandler routeTree \<Rightarrow> httpRequest \<Rightarrow> 'x \<Rightarrow> httpResponse \<times> 'x" where
  "dispatchHTTPRequest router request x =
     (let resolution = Lookup router (Method request) (Target request) in
      case Handler resolution of
        None \<Rightarrow>
          (if AllowedMethods resolution \<noteq> []
           then
             (let response = textResponse 405 (''method not allowed'' @ [LF]) in
              (response\<lparr>RespHeaders := RespHeaders response @
                 [hf ''Allow'' (Join (AllowedMethods resolution) '', '')]\<rparr>, x))
           else (textResponse 404 (''route not found'' @ [LF]), x))
      | Some h \<Rightarrow>
          (case h x request (Params resolution) of
             (HandlerPanic, x') \<Rightarrow> (internalError, x')
           | (HandlerReturn response err, x') \<Rightarrow>
               (if err \<noteq> None then (internalError, x')
                else (case response of None \<Rightarrow> (internalError, x') | Some r \<Rightarrow> (r, x')))))"

definition protocolFailureResponse :: "http_error \<Rightarrow> httpResponse" where
  "protocolFailureResponse err =
     (let (status, message) =
        (case err of
           RawError _ \<Rightarrow> (400, ''bad request'' @ [LF])
         | ProtocolErr e \<Rightarrow>
             (case Kind e of
                protocolBodyTooLarge \<Rightarrow> (413, ''request body too large'' @ [LF])
              | protocolUnsupportedTransferCoding \<Rightarrow>
                  (501, ''transfer coding not implemented'' @ [LF])
              | protocolUnsupportedFeature \<Rightarrow>
                  (if Contains (ToLower (Detail e)) ''expect''
                   then (417, ''expectation failed'' @ [LF]) else (400, ''bad request'' @ [LF]))
              | _ \<Rightarrow> (400, ''bad request'' @ [LF]))) in
      (textResponse status message)\<lparr>RespClose := True\<rparr>)"

text \<open>
  The response is serialised into a buffer first; only a complete message is written. The result
  is the fallback flag, the error, the writer, and the response's commit state afterwards.
\<close>

definition writeBufferedHTTPResponse ::
  "'w writer \<Rightarrow> ('w \<Rightarrow> io_error option \<times> 'w) \<Rightarrow> 'w \<Rightarrow> httpResponse \<Rightarrow> string \<Rightarrow>
   bool \<times> http_error option \<times> 'w \<times> responseCommitState" where
  "writeBufferedHTTPResponse wr flush w response requestMethod =
     (let (err, encoded) = writeHTTPResponse bufferWriter [] response requestMethod;
          usedFallback = (err \<noteq> None);
          (fallbackErr, bytes) =
            (if usedFallback then writeHTTPResponse bufferWriter [] internalError requestMethod
             else (None, encoded)) in
      if fallbackErr \<noteq> None then (usedFallback, fallbackErr, w, CommitState response)
      else
        (case writeAll wr w bytes of
           (Some e, w') \<Rightarrow> (usedFallback, Some e, w', MarkCommitted (CommitState response))
         | (None, w') \<Rightarrow>
             (case flush w' of
                (ferr, w'') \<Rightarrow>
                  (usedFallback, map_option RawError ferr, w'', MarkCommitted (CommitState response)))))"

record connectionEnv =
  remoteAddress :: string
  cancelledBefore :: "int \<Rightarrow> bool"
  cancelledAfter :: "int \<Rightarrow> bool"

text \<open>\<^verbatim>\<open>closeAfterResponse\<close> and the response with its two flags set.\<close>

definition closeAfterResponse :: "httpServerConfig \<Rightarrow> int \<Rightarrow> httpRequest \<Rightarrow> httpResponse \<Rightarrow> bool" where
  "closeAfterResponse config requestNumber request response \<longleftrightarrow>
     \<not> ReqKeepAlive request \<or> RespClose response \<or>
     HasToken (RespHeaders response) ''Connection'' ''close'' \<or>
     requestNumber = MaxRequestsPerConnection config"

function serveLoop ::
  "'w writer \<Rightarrow> ('w \<Rightarrow> io_error option \<times> 'w) \<Rightarrow> connectionEnv \<Rightarrow> 'x routeHandler routeTree \<Rightarrow>
   httpServerConfig \<Rightarrow> int \<Rightarrow> reader \<Rightarrow> 'w \<Rightarrow> 'x \<Rightarrow> http_error option \<times> 'w \<times> 'x" where
  "serveLoop wr flush env router config requestNumber reader w x =
     (if requestNumber > MaxRequestsPerConnection config then (None, w, x)
      else if cancelledBefore env requestNumber then (None, w, x)
      else
        (case readHTTPRequest reader (Limits config) of
           Inl err \<Rightarrow>
             (if isEOF err \<or> protocolKind err = Some protocolTimeout \<or>
                 cancelledAfter env requestNumber then (None, w, x)
              else
                (case writeBufferedHTTPResponse wr flush w (protocolFailureResponse err) [] of
                   (_, writeErr, w', _) \<Rightarrow> (writeErr, w', x)))
         | Inr (parsed, reader') \<Rightarrow>
             (let request = parsed\<lparr>RemoteAddr := remoteAddress env\<rparr>;
                  (response, x') = dispatchHTTPRequest router request x;
                  closing = closeAfterResponse config requestNumber request response in
              case writeBufferedHTTPResponse wr flush w
                     (response\<lparr>RespClose := closing, RespKeepAlive := \<not> closing\<rparr>)
                     (Method request) of
                (usedFallback, Some err, w', _) \<Rightarrow> (Some err, w', x')
              | (usedFallback, None, w', _) \<Rightarrow>
                  if closing \<or> usedFallback then (None, w', x')
                  else serveLoop wr flush env router config (requestNumber + 1) reader' w' x')))"
  by pat_completeness auto
termination
  by (relation "measure (\<lambda>(wr, flush, env, router, config, n, r, w, x).
        nat (MaxRequestsPerConnection config + 1 - n))") auto

declare serveLoop.simps [simp del]

definition serveHTTPConnection ::
  "'w writer \<Rightarrow> ('w \<Rightarrow> io_error option \<times> 'w) \<Rightarrow> connectionEnv \<Rightarrow> 'x routeHandler routeTree \<Rightarrow>
   httpServerConfig \<Rightarrow> reader \<Rightarrow> 'w \<Rightarrow> 'x \<Rightarrow> http_error option \<times> 'w \<times> 'x" where
  "serveHTTPConnection wr flush env router config reader w x =
     serveLoop wr flush env router config 1 reader w x"

subsection \<open>Buffered responses\<close>

lemma internalError_head: "\<exists>h. responseHead internalError m = Inr h"
proof -
  have hs: "validateGeneratedFields (RespHeaders internalError) ''response headers'' = None"
    "validateConnectionFields (RespHeaders internalError) ''response headers'' = Inr ()"
    "\<not> HasToken (RespHeaders internalError) ''Connection'' ''upgrade''"
    "Values (RespHeaders internalError) ''Upgrade'' = []"
    "validateTrailers (RespTrailers internalError) = Inr ()"
    "validReasonPhrase (defaultReasonPhrase 500)"
    by code_simp+
  have "StatusCode internalError = 500" "RespVersion internalError = httpVersion11"
    "Reason internalError = []" "RespBodyMode internalError = bodyModeFixed"
    by (simp_all add: internalError_def textResponse_def)
  with hs show ?thesis
    by (simp add: responseHead_def Let_def successfulConnectResponse_def httpVersion11_def)
qed

lemma internalError_written:
  "writeHTTPResponse bufferWriter [] internalError m = (None, encodeResponse internalError m)"
proof -
  obtain a b c where "responseHead internalError m = Inr (a, b, c)"
    using internalError_head by (metis prod_cases3)
  from writeHTTPResponse_buffer [OF this, of "[]"] show ?thesis
    by (simp add: internalError_def textResponse_def)
qed

text \<open>The message that is put on the connection: the response, or the fallback in its place.\<close>

definition wireBytes :: "httpResponse \<Rightarrow> string \<Rightarrow> bytes" where
  "wireBytes response m =
     (if fst (writeHTTPResponse bufferWriter [] response m) = None
      then snd (writeHTTPResponse bufferWriter [] response m) else encodeResponse internalError m)"

lemma writeBuffered_eq:
  "writeBufferedHTTPResponse wr flush w response m =
     (let fallback = (fst (writeHTTPResponse bufferWriter [] response m) \<noteq> None) in
      case writeAll wr w (wireBytes response m) of
        (Some e, w') \<Rightarrow> (fallback, Some e, w', MarkCommitted (CommitState response))
      | (None, w') \<Rightarrow>
          (case flush w' of
             (ferr, w'') \<Rightarrow>
               (fallback, map_option RawError ferr, w'', MarkCommitted (CommitState response))))"
  by (cases "writeHTTPResponse bufferWriter [] response m")
     (auto simp: writeBufferedHTTPResponse_def wireBytes_def internalError_written Let_def
        split: prod.splits option.splits)

lemma writeBuffered_buffer:
  "writeBufferedHTTPResponse bufferWriter (\<lambda>w. (None, w)) w response m =
     (fst (writeHTTPResponse bufferWriter [] response m) \<noteq> None, None, w @ wireBytes response m,
      MarkCommitted (CommitState response))"
  by (simp add: writeBuffered_eq Let_def)

lemma writeAll_conn:
  "writeAll (connWriter err) c data =
     (if length data \<le> room c
      then (None, \<lparr>delivered = delivered c @ data, room = room c - length data\<rparr>)
      else (Some (RawError err), \<lparr>delivered = delivered c @ take (room c) data, room = 0\<rparr>))"
  by (subst writeAll.simps, subst writeAll.simps) (auto simp: connWriter_def)

subsection \<open>The connection loop\<close>

text \<open>
  Reference semantics of a connection on which the peer sends the requests \<open>qs\<close> and closes: each
  is dispatched in turn, and the first response that announces the end is the last.
\<close>

fun answers ::
  "connectionEnv \<Rightarrow> 'x routeHandler routeTree \<Rightarrow> httpServerConfig \<Rightarrow> int \<Rightarrow> 'x \<Rightarrow> httpRequest list \<Rightarrow>
   (string \<times> httpResponse) list \<times> 'x" where
  "answers env router config n x [] = ([], x)"
| "answers env router config n x (q # qs) =
     (let request = (receivedRequest q)\<lparr>RemoteAddr := remoteAddress env\<rparr>;
          (response, x') = dispatchHTTPRequest router request x;
          closing = closeAfterResponse config n request response;
          answer = (Method q, response\<lparr>RespClose := closing, RespKeepAlive := \<not> closing\<rparr>) in
      if closing then ([answer], x')
      else (let (rest, x'') = answers env router config (n + 1) x' qs in (answer # rest, x'')))"

lemma answers_bounded:
  "n \<le> MaxRequestsPerConnection config \<Longrightarrow>
   int (length (fst (answers env router config n x qs))) \<le> MaxRequestsPerConnection config - n + 1"
proof (induction qs arbitrary: n x)
  case (Cons q qs)
  let ?request = "(receivedRequest q)\<lparr>RemoteAddr := remoteAddress env\<rparr>"
  obtain response x' where d: "dispatchHTTPRequest router ?request x = (response, x')" by fastforce
  show ?case
  proof (cases "closeAfterResponse config n ?request response")
    case True
    with Cons.prems d show ?thesis by simp
  next
    case False
    then have "n + 1 \<le> MaxRequestsPerConnection config"
      using Cons.prems by (auto simp: closeAfterResponse_def)
    from Cons.IH [OF this, of x'] False d show ?thesis by (simp add: split_beta)
  qed
qed simp

lemma readHTTPRequest_eof:
  "checkLimits limits = Inr () \<Longrightarrow> 2 \<le> MaxStartLineBytes limits \<Longrightarrow>
   readHTTPRequest ([], IoEOF) limits = Inl (RawError IoEOF)"
  by (simp add: readHTTPRequest_def readStrictLine_spec strictLineSpec_def Let_def
      protocolErrorFromRead_def)

lemma serveLoop_answers:
  assumes "checkLimits (Limits config) = Inr ()" "2 \<le> MaxStartLineBytes (Limits config)"
    and "\<And>i. \<not> cancelledBefore env i"
  shows "n \<le> MaxRequestsPerConnection config \<Longrightarrow>
    list_all (writableRequest (Limits config)) qs \<Longrightarrow>
    answers env router config n x qs = (out, x') \<Longrightarrow>
    (\<And>m r. (m, r) \<in> set out \<Longrightarrow> fst (writeHTTPResponse bufferWriter [] r m) = None) \<Longrightarrow>
    serveLoop bufferWriter (\<lambda>w. (None, w)) env router config n
      (concat (map encodeRequest qs), IoEOF) w x =
    (None, w @ concat (map (\<lambda>(m, r). snd (writeHTTPResponse bufferWriter [] r m)) out), x')"
proof (induction qs arbitrary: n w x out x')
  case Nil
  then show ?case using assms
    by (subst serveLoop.simps) (simp add: readHTTPRequest_eof)
next
  case (Cons q qs)
  let ?request = "(receivedRequest q)\<lparr>RemoteAddr := remoteAddress env\<rparr>"
  obtain response x1 where d: "dispatchHTTPRequest router ?request x = (response, x1)" by fastforce
  define closing where "closing = closeAfterResponse config n ?request response"
  define r where "r = response\<lparr>RespClose := closing, RespKeepAlive := \<not> closing\<rparr>"
  obtain rest x2 where a: "answers env router config (n + 1) x1 qs = (rest, x2)" by fastforce
  from Cons.prems(3) d a have out: "out = (Method q, r) # (if closing then [] else rest)"
    and x': "x' = (if closing then x1 else x2)"
    by (auto simp: closing_def r_def split: if_splits)
  have rd: "readHTTPRequest (concat (map encodeRequest (q # qs)), IoEOF) (Limits config) =
      Inr (receivedRequest q, (concat (map encodeRequest qs), IoEOF))"
    using Cons.prems(2) request_codec.dec_enc by simp
  have w: "fst (writeHTTPResponse bufferWriter [] r (Method q)) = None"
    using Cons.prems(4) out by simp
  then have wb: "wireBytes r (Method q) = snd (writeHTTPResponse bufferWriter [] r (Method q))"
    by (simp add: wireBytes_def)
  have "Method ?request = Method q" by (simp add: receivedRequest_def)
  then have step: "serveLoop bufferWriter (\<lambda>w. (None, w)) env router config n
      (concat (map encodeRequest (q # qs)), IoEOF) w x =
    (if closing then (None, w @ wireBytes r (Method q), x1)
     else serveLoop bufferWriter (\<lambda>w. (None, w)) env router config (n + 1)
            (concat (map encodeRequest qs), IoEOF) (w @ wireBytes r (Method q)) x1)"
    using Cons.prems(1) assms(3) w
    by (cases closing; subst serveLoop.simps)
       (simp_all add: rd d Let_def writeBuffered_buffer r_def flip: closing_def
          del: concat.simps list.map)
  show ?case
  proof (cases closing)
    case True
    with step out x' wb show ?thesis by simp
  next
    case False
    then have "n + 1 \<le> MaxRequestsPerConnection config"
      using Cons.prems(1) by (auto simp: closing_def closeAfterResponse_def)
    from Cons.IH [OF this _ a, of "w @ wireBytes r (Method q)"] False Cons.prems(2,4) out x' step wb
    show ?thesis by simp
  qed
qed

subsection \<open>Properties\<close>

definition echoHandler :: "nat routeHandler" where
  "echoHandler x request params =
     (HandlerReturn (Some (textResponse 200 (Target request))) None, Suc x)"

definition echoTree :: "nat routeHandler routeTree" where
  "echoTree =
     (case andThen (Register newRouteTree ''GET'' ''/a'' (Some echoHandler)) Freeze of
        Inr r \<Rightarrow> r | Inl _ \<Rightarrow> newRouteTree)"

definition echoRequest :: httpRequest where
  "echoRequest =
     \<lparr>Method = ''GET'', Target = ''/a'', ReqVersion = [], ReqHeaders = [hf ''Host'' ''h''],
      ReqTrailers = [], ReqBody = [], ReqBodyMode = bodyModeNone, ReqKeepAlive = True,
      RemoteAddr = []\<rparr>"

definition echoEnv :: connectionEnv where
  "echoEnv = \<lparr>remoteAddress = ''127.0.0.1:9'', cancelledBefore = (\<lambda>_. False),
     cancelledAfter = (\<lambda>_. False)\<rparr>"

definition echoConfig :: httpServerConfig where
  "echoConfig = \<lparr>Limits = defaultHTTPLimits, MaxRequestsPerConnection = 2\<rparr>"

text \<open>
  C8: a connection on which the peer sends any number of valid requests back to back and closes
  gets exactly the answers of dispatching them in order, each request to its own response, with
  the handlers' shared state threaded through; after the first response that closes, nothing more
  is read, and there are never more responses than \<^verbatim>\<open>MaxRequestsPerConnection\<close>.
\<close>

theorem serve_pipeline:
  assumes "httpServerConfig_validate config = Inr ()" "2 \<le> MaxStartLineBytes (Limits config)"
    and "\<forall>i. \<not> cancelledBefore env i"
    and "list_all (writableRequest (Limits config)) qs"
    and "answers env router config 1 x qs = (out, x')"
    and "\<forall>(m, r) \<in> set out. fst (writeHTTPResponse bufferWriter [] r m) = None"
  shows "serveHTTPConnection bufferWriter (\<lambda>w. (None, w)) env router config
      (concat (map encodeRequest qs), IoEOF) [] x =
    (None, concat (map (\<lambda>(m, r). snd (writeHTTPResponse bufferWriter [] r m)) out), x') \<and>
    int (length out) \<le> MaxRequestsPerConnection config"
proof -
  from assms(1) have lim: "checkLimits (Limits config) = Inr ()" and n: "1 \<le> MaxRequestsPerConnection config"
    by (auto simp: httpServerConfig_validate_def checkLimits_def result_simps split: if_splits)
  have "int (length out) \<le> MaxRequestsPerConnection config"
    using answers_bounded [OF n, of env router x qs] assms(5) by simp
  moreover have "serveLoop bufferWriter (\<lambda>w. (None, w)) env router config 1
      (concat (map encodeRequest qs), IoEOF) [] x =
    (None, [] @ concat (map (\<lambda>(m, r). snd (writeHTTPResponse bufferWriter [] r m)) out), x')"
    using assms(3,6) by (intro serveLoop_answers lim assms(2,4,5) n) auto
  ultimately show ?thesis by (simp add: serveHTTPConnection_def)
qed

theorem serve_pipeline_witness:
  "serveHTTPConnection bufferWriter (\<lambda>w. (None, w)) echoEnv echoTree echoConfig
      (concat (map encodeRequest [echoRequest, echoRequest]), IoEOF) [] 0 =
    (None, concat (map (\<lambda>(m, r). snd (writeHTTPResponse bufferWriter [] r m))
       (fst (answers echoEnv echoTree echoConfig 1 0 [echoRequest, echoRequest]))),
     snd (answers echoEnv echoTree echoConfig 1 0 [echoRequest, echoRequest])) \<and>
   int (length (fst (answers echoEnv echoTree echoConfig 1 0 [echoRequest, echoRequest])))
     \<le> MaxRequestsPerConnection echoConfig"
proof (rule serve_pipeline)
  show "httpServerConfig_validate echoConfig = Inr ()" by code_simp
  show "2 \<le> MaxStartLineBytes (Limits echoConfig)" by code_simp
  show "\<forall>i. \<not> cancelledBefore echoEnv i" by (simp add: echoEnv_def)
  have "writableRequest (Limits echoConfig) echoRequest" by code_simp
  then show "list_all (writableRequest (Limits echoConfig)) [echoRequest, echoRequest]" by simp
  show "answers echoEnv echoTree echoConfig 1 0 [echoRequest, echoRequest] =
    (fst (answers echoEnv echoTree echoConfig 1 0 [echoRequest, echoRequest]),
     snd (answers echoEnv echoTree echoConfig 1 0 [echoRequest, echoRequest]))" by simp
  have "list_all (\<lambda>(m, r). fst (writeHTTPResponse bufferWriter [] r m) = None)
      (fst (answers echoEnv echoTree echoConfig 1 0 [echoRequest, echoRequest]))" by code_simp
  then show "\<forall>(m, r) \<in> set (fst (answers echoEnv echoTree echoConfig 1 0 [echoRequest, echoRequest])).
      fst (writeHTTPResponse bufferWriter [] r m) = None" by (simp add: list_all_iff)
qed

text \<open>
  Whatever response a handler produces, one complete message is put on the connection: the
  response itself when the writer accepts it, and otherwise the 500 fallback, never a part of the
  rejected one. If the connection fails meanwhile, what it got is a prefix of that message, and
  the error is reported.
\<close>

lemma buffered_response_atomic:
  "\<exists>out. (writeHTTPResponse bufferWriter [] response m = (None, out) \<or>
      fst (writeHTTPResponse bufferWriter [] response m) \<noteq> None \<and>
      writeHTTPResponse bufferWriter [] internalError m = (None, out)) \<and>
    (case writeBufferedHTTPResponse (connWriter err) (\<lambda>c. (None, c)) c response m of
       (fallback, e, c', cs) \<Rightarrow>
         (fallback \<longleftrightarrow> fst (writeHTTPResponse bufferWriter [] response m) \<noteq> None) \<and>
         cs = MarkCommitted (CommitState response) \<and>
         (\<exists>k. delivered c' = delivered c @ take k out) \<and>
         (e = None \<longleftrightarrow> length out \<le> room c) \<and> (length out \<le> room c \<longrightarrow> delivered c' = delivered c @ out))"
proof (intro exI [of _ "wireBytes response m"] conjI)
  show "writeHTTPResponse bufferWriter [] response m = (None, wireBytes response m) \<or>
      fst (writeHTTPResponse bufferWriter [] response m) \<noteq> None \<and>
      writeHTTPResponse bufferWriter [] internalError m = (None, wireBytes response m)"
    by (cases "writeHTTPResponse bufferWriter [] response m")
       (auto simp: wireBytes_def internalError_written)
  show "case writeBufferedHTTPResponse (connWriter err) (\<lambda>c. (None, c)) c response m of
       (fallback, e, c', cs) \<Rightarrow>
         (fallback \<longleftrightarrow> fst (writeHTTPResponse bufferWriter [] response m) \<noteq> None) \<and>
         cs = MarkCommitted (CommitState response) \<and>
         (\<exists>k. delivered c' = delivered c @ take k (wireBytes response m)) \<and>
         (e = None \<longleftrightarrow> length (wireBytes response m) \<le> room c) \<and>
         (length (wireBytes response m) \<le> room c \<longrightarrow>
            delivered c' = delivered c @ wireBytes response m)"
    by (auto simp: writeBuffered_eq writeAll_conn Let_def) (metis order_refl take_all)+
qed

lemma buffered_response_atomic_instance:
  "\<exists>out. (writeHTTPResponse bufferWriter [] internalError ''GET'' = (None, out) \<or>
      fst (writeHTTPResponse bufferWriter [] internalError ''GET'') \<noteq> None \<and>
      writeHTTPResponse bufferWriter [] internalError ''GET'' = (None, out)) \<and>
    (case writeBufferedHTTPResponse (connWriter IoTimeout) (\<lambda>c. (None, c))
            \<lparr>delivered = [], room = 9\<rparr> internalError ''GET'' of
       (fallback, e, c', cs) \<Rightarrow>
         (fallback \<longleftrightarrow> fst (writeHTTPResponse bufferWriter [] internalError ''GET'') \<noteq> None) \<and>
         cs = MarkCommitted (CommitState internalError) \<and>
         (\<exists>k. delivered c' = delivered \<lparr>delivered = [], room = 9\<rparr> @ take k out) \<and>
         (e = None \<longleftrightarrow> length out \<le> room \<lparr>delivered = [], room = 9\<rparr>) \<and>
         (length out \<le> room \<lparr>delivered = [], room = 9\<rparr> \<longrightarrow>
            delivered c' = delivered \<lparr>delivered = [], room = 9\<rparr> @ out))"
  by (rule buffered_response_atomic)

text \<open>
  Server and client agree on whether the connection persists: reading the response of the
  loop, the client finds it kept alive exactly when the server goes on to read another request.
\<close>

lemma persistence_agreed:
  assumes "closing = closeAfterResponse config n request response"
    and "r = response\<lparr>RespClose := closing, RespKeepAlive := \<not> closing\<rparr>"
    and "writeHTTPResponse bufferWriter [] r m = (None, out)"
    and "responseFits limits r m" and "\<not> framedHeadResponse r m"
  shows "\<exists>seen. readHTTPResponse (out @ rest, e) limits m = Inr (seen, (rest, e)) \<and>
    RespKeepAlive seen = (\<not> closing) \<and> StatusCode seen = StatusCode response"
proof -
  from assms(3-5) have "writableResponse limits m r" by (simp add: writableResponse_def)
  then have "readHTTPResponse (out @ rest, e) limits m = Inr (receivedResponse r m, (rest, e))"
    using response_codec.dec_enc writableResponse_encode [of limits m r "[]"] assms(3) by simp
  moreover have "RespKeepAlive (receivedResponse r m) = (\<not> closing)"
    using assms(1,2) by (auto simp: receivedResponse_def closeAfterResponse_def)
  ultimately show ?thesis using assms(2) by (auto simp: receivedResponse_def)
qed

lemma persistence_agreed_instance:
  "\<exists>seen. readHTTPResponse
      (snd (writeHTTPResponse bufferWriter []
         ((textResponse 200 ''x'')\<lparr>RespClose := True, RespKeepAlive := \<not> True\<rparr>) ''GET'') @ [], IoEOF)
      defaultHTTPLimits ''GET'' = Inr (seen, ([], IoEOF)) \<and>
    RespKeepAlive seen = (\<not> True) \<and> StatusCode seen = StatusCode (textResponse 200 ''x'')"
proof (rule persistence_agreed [where config = echoConfig and n = 2 and request = echoRequest])
  let ?r = "(textResponse 200 ''x'')\<lparr>RespClose := True, RespKeepAlive := \<not> True\<rparr>"
  show "True = closeAfterResponse echoConfig 2 echoRequest (textResponse 200 ''x'')"
    by (simp add: closeAfterResponse_def echoConfig_def)
  have "fst (writeHTTPResponse bufferWriter [] ?r ''GET'') = None" by code_simp
  then show "writeHTTPResponse bufferWriter [] ?r ''GET'' =
      (None, snd (writeHTTPResponse bufferWriter [] ?r ''GET''))" by (metis prod.collapse)
  show "responseFits defaultHTTPLimits ?r ''GET''" by code_simp
  show "\<not> framedHeadResponse ?r ''GET''" by code_simp
qed (rule refl)

lemma protocolFailure_values:
  "protocolFailureResponse err \<in>
     (\<lambda>(s, b). (textResponse s (b @ [LF]))\<lparr>RespClose := True\<rparr>) `
       {(400, ''bad request''), (413, ''request body too large''),
        (501, ''transfer coding not implemented''), (417, ''expectation failed'')}"
  by (cases err) (auto simp: protocolFailureResponse_def split: protocolErrorKind.split)

lemma protocolFailure_readable:
  assumes "r = protocolFailureResponse err"
  shows "writeHTTPResponse bufferWriter [] r [] = (None, encodeResponse r [])"
    and "readHTTPResponse (encodeResponse r [] @ t, e) defaultHTTPLimits [] =
      Inr (receivedResponse r [], (t, e))"
    and "StatusCode r \<in> {400, 413, 417, 501}" "RespClose r"
proof -
  let ?mk = "\<lambda>(s, b). (textResponse s (b @ [LF]))\<lparr>RespClose := True\<rparr>"
  have "list_all (\<lambda>p. writableResponse defaultHTTPLimits [] (?mk p))
      [(400, ''bad request''), (413, ''request body too large''),
        (501, ''transfer coding not implemented''), (417, ''expectation failed'')]"
    by code_simp
  then have w: "writableResponse defaultHTTPLimits [] r"
    using protocolFailure_values [of err] assms by (auto simp: list_all_iff)
  from writableResponse_encode [OF w, of "[]"]
  show "writeHTTPResponse bufferWriter [] r [] = (None, encodeResponse r [])" by simp
  from response_codec.dec_enc [OF w]
  show "readHTTPResponse (encodeResponse r [] @ t, e) defaultHTTPLimits [] =
      Inr (receivedResponse r [], (t, e))" .
  show "StatusCode r \<in> {400, 413, 417, 501}" "RespClose r"
    using protocolFailure_values [of err] assms by (auto simp: textResponse_def)
qed

text \<open>
  A request that cannot be parsed, for another reason than the peer's silence, is answered
  once, no handler runs and nothing more is read; the client reads a closing response with status
  400, 413, 417 or 501.
\<close>

lemma serve_malformed:
  assumes "1 \<le> MaxRequestsPerConnection config" "\<not> cancelledBefore env 1"
    and "readHTTPRequest reader (Limits config) = Inl err"
    and "\<not> isEOF err" "protocolKind err \<noteq> Some protocolTimeout" "\<not> cancelledAfter env 1"
  shows "\<exists>out seen.
    serveHTTPConnection bufferWriter (\<lambda>w. (None, w)) env router config reader [] x = (None, out, x) \<and>
    readHTTPResponse (out @ rest, e) defaultHTTPLimits [] = Inr (seen, (rest, e)) \<and>
    StatusCode seen \<in> {400, 413, 417, 501} \<and> \<not> RespKeepAlive seen"
proof -
  let ?r = "protocolFailureResponse err"
  note rd = protocolFailure_readable [OF refl, of err]
  have "serveHTTPConnection bufferWriter (\<lambda>w. (None, w)) env router config reader [] x =
      (None, encodeResponse ?r [], x)"
    unfolding serveHTTPConnection_def using assms rd(1)
    by (subst serveLoop.simps) (simp add: writeBuffered_buffer wireBytes_def)
  moreover have "\<not> RespKeepAlive (receivedResponse ?r [])" "StatusCode (receivedResponse ?r []) = StatusCode ?r"
    using rd(4) by (simp_all add: receivedResponse_def)
  ultimately show ?thesis using rd(2,3) by metis
qed

lemma serve_malformed_instance:
  "\<exists>out seen.
    serveHTTPConnection bufferWriter (\<lambda>w. (None, w)) echoEnv echoTree echoConfig
      (''GET /'' @ CRLF, IoEOF) [] 0 = (None, out, 0) \<and>
    readHTTPResponse (out @ ''z'', IoTimeout) defaultHTTPLimits [] = Inr (seen, (''z'', IoTimeout)) \<and>
    StatusCode seen \<in> {400, 413, 417, 501} \<and> \<not> RespKeepAlive seen"
proof (rule serve_malformed)
  show "1 \<le> MaxRequestsPerConnection echoConfig" by code_simp
  show "\<not> cancelledBefore echoEnv 1" "\<not> cancelledAfter echoEnv 1" by (simp_all add: echoEnv_def)
  let ?err = "newProtocolError protocolMalformedStartLine ''request line''
    ''expected method, target, and version''"
  show "readHTTPRequest (''GET /'' @ CRLF, IoEOF) (Limits echoConfig) = Inl ?err" by code_simp
  show "\<not> isEOF ?err" "protocolKind ?err \<noteq> Some protocolTimeout" by code_simp+
qed

end
