(* ===== verification/Resilience.thy ===== *)
theory Resilience
  imports Http_Parser "HOL-Library.Multiset"
begin

text \<open>
  \<^verbatim>\<open>src/src/resilience.go\<close>, with the validation of backend settings from \<^verbatim>\<open>src/src/proxy.go\<close>:
  backends with bounded admission, passive failure windows, circuit breakers, active health, and
  the pool with its two selection policies.

  A time is its number of nanoseconds since Go's zero time, so the zero time is 0; \<open>Sub\<close> saturates
  as \<^verbatim>\<open>time.Time.Sub\<close> does. The clock is passed as an argument. The callbacks of the policy are
  effects: an operation returns the transition it publishes. The admission channel is the number
  of tokens in it. Connections are values of a type variable \<open>'c\<close>.
\<close>

type_synonym time = int
type_synonym duration = int

definition Sub :: "time \<Rightarrow> time \<Rightarrow> duration" where
  "Sub a b = max minInt64 (min maxInt64 (a - b))"

definition second :: duration where "second = 1000000000"

definition maxConfiguredTimeout :: duration where "maxConfiguredTimeout = 24 * 60 * 60 * second"

definition maxBackendPoolSize :: int where "maxBackendPoolSize = 256"
definition maxBackendInFlight :: int where "maxBackendInFlight = 65536"
definition maxBackendIdleConnections :: int where "maxBackendIdleConnections = 4096"
definition maxBackendAliasBytes :: int where "maxBackendAliasBytes = 64"
definition maxBackendAddressBytes :: int where "maxBackendAddressBytes = 512"
definition maxHealthPathBytes :: int where "maxHealthPathBytes = 8 * 1024"
definition maxResilienceThreshold :: int where "maxResilienceThreshold = 1000000"

lemmas resilience_constants =
  maxBackendPoolSize_def maxBackendInFlight_def maxBackendIdleConnections_def
  maxBackendAliasBytes_def maxBackendAddressBytes_def maxHealthPathBytes_def
  maxResilienceThreshold_def maxConfiguredTimeout_def second_def

definition selectorRoundRobin :: string where "selectorRoundRobin = ''round-robin''"
definition selectorLeastInFlight :: string where "selectorLeastInFlight = ''least-in-flight''"

datatype circuitState = circuitClosed | circuitOpen | circuitHalfOpen

record circuitTransition =
  TransitionAlias :: string
  From :: circuitState
  To :: circuitState
  At :: time
  TransitionReason :: string

record healthTransition =
  HealthAlias :: string
  FromHealthy :: bool
  ToHealthy :: bool
  HealthAt :: time
  HealthReason :: string

record resilienceConfig =
  Selector :: string
  PassiveFailureThreshold :: int
  PassiveInterval :: duration
  CircuitCooldown :: duration
  HalfOpenMaxRequests :: int
  HalfOpenSuccesses :: int
  ActiveFailureThreshold :: int
  ActiveSuccessThreshold :: int
  SlowLatencyThreshold :: duration
  ClockSet :: bool

definition defaultResilienceConfig :: resilienceConfig where
  "defaultResilienceConfig =
     \<lparr>Selector = selectorRoundRobin, PassiveFailureThreshold = 3, PassiveInterval = 30 * second,
      CircuitCooldown = 2 * second, HalfOpenMaxRequests = 1, HalfOpenSuccesses = 1,
      ActiveFailureThreshold = 2, ActiveSuccessThreshold = 2, SlowLatencyThreshold = 0,
      ClockSet = True\<rparr>"

definition resilienceConfig_setDefaults :: "resilienceConfig \<Rightarrow> resilienceConfig" where
  "resilienceConfig_setDefaults c =
     (let c1 = (if Selector c = [] then c\<lparr>Selector := selectorRoundRobin\<rparr> else c) in
      if \<not> ClockSet c1 then c1\<lparr>ClockSet := True\<rparr> else c1)"

definition resilienceConfig_validate :: "resilienceConfig \<Rightarrow> string + unit" where
  "resilienceConfig_validate c =
     (if Selector c \<noteq> selectorRoundRobin \<and> Selector c \<noteq> selectorLeastInFlight
        then Inl ''selector must be %q or %q''
      else if PassiveFailureThreshold c \<le> 0 \<or> PassiveFailureThreshold c > maxResilienceThreshold \<or>
              PassiveInterval c \<le> 0 \<or> PassiveInterval c > maxConfiguredTimeout \<or>
              CircuitCooldown c \<le> 0 \<or> CircuitCooldown c > maxConfiguredTimeout
        then Inl ''passive threshold, interval, and circuit cooldown must be greater than zero''
      else if HalfOpenMaxRequests c \<le> 0 \<or> HalfOpenMaxRequests c > maxBackendInFlight \<or>
              HalfOpenSuccesses c \<le> 0 \<or> HalfOpenSuccesses c > HalfOpenMaxRequests c
        then Inl ''half-open successes must be positive and no greater than the half-open request limit''
      else if ActiveFailureThreshold c \<le> 0 \<or> ActiveFailureThreshold c > maxResilienceThreshold \<or>
              ActiveSuccessThreshold c \<le> 0 \<or> ActiveSuccessThreshold c > maxResilienceThreshold
        then Inl ''active health thresholds must be greater than zero''
      else if SlowLatencyThreshold c < 0 then Inl ''slow latency threshold must not be negative''
      else if \<not> ClockSet c then Inl ''clock is required''
      else Inr ())"

record backendConfig =
  Alias :: string
  Address :: string
  Authority :: string
  MaxInFlight :: int
  MaxIdleConnections :: int
  IdleTimeout :: duration
  HealthPath :: string

definition backendConfig_setDefaults :: "backendConfig \<Rightarrow> backendConfig" where
  "backendConfig_setDefaults c =
     (let c1 = (if Authority c = [] then c\<lparr>Authority := Address c\<rparr> else c);
          c2 = (if MaxIdleConnections c1 = 0 then c1\<lparr>MaxIdleConnections := 8\<rparr> else c1);
          c3 = (if IdleTimeout c2 = 0 then c2\<lparr>IdleTimeout := 30 * second\<rparr> else c2) in
      if HealthPath c3 = [] then c3\<lparr>HealthPath := ''/health''\<rparr> else c3)"

definition backendConfig_validate :: "backendConfig \<Rightarrow> string + unit" where
  "backendConfig_validate c =
     (if \<not> validToken (Alias c) \<or> int (length (Alias c)) > maxBackendAliasBytes
        then Inl ''backend alias %q must be an HTTP token''
      else if int (length (Address c)) > maxBackendAddressBytes
        then Inl ''backend %q address exceeds %d bytes''
      else
        (case SplitHostPort (Address c) of
           None \<Rightarrow> Inl ''backend %q address %q must be host:port''
         | Some (host, portText) \<Rightarrow>
             if host = [] then Inl ''backend %q address %q must be host:port''
             else if (case Atoi portText of None \<Rightarrow> True | Some port \<Rightarrow> port < 1 \<or> port > 65535)
               then Inl ''backend %q port must be between 1 and 65535''
             else
               (let authority = (if Authority c = [] then Address c else Authority c) in
                if int (length authority) > maxBackendAddressBytes \<or> \<not> validHost authority
                  then Inl ''backend %q authority %q is invalid''
                else if MaxInFlight c \<le> 0 \<or> MaxInFlight c > maxBackendInFlight
                  then Inl ''backend %q maximum in-flight requests must be between 1 and %d''
                else if MaxIdleConnections c < 0 \<or>
                        MaxIdleConnections c > maxBackendIdleConnections \<or>
                        IdleTimeout c \<le> 0 \<or> IdleTimeout c > maxConfiguredTimeout
                  then Inl ''backend %q idle connection settings are outside documented bounds''
                else if HealthPath c = [] \<or> int (length (HealthPath c)) > maxHealthPathBytes \<or>
                        hd (HealthPath c) \<noteq> CHR ''/'' \<or> CR \<in> set (HealthPath c) \<or>
                        LF \<in> set (HealthPath c) \<or> CHR ''#'' \<in> set (HealthPath c)
                  then Inl ''backend %q health path must be a safe origin-form path''
                else Inr ())))"

subsection \<open>Backends\<close>

record 'c idleUpstreamConnection =
  connection :: 'c
  idleSince :: time

record 'c proxyBackend =
  config :: backendConfig
  admission :: int
  inFlight :: int
  policy :: resilienceConfig
  healthy :: bool
  activeFailures :: int
  activeSuccesses :: int
  circuit :: circuitState
  passiveFailures :: int
  passiveWindowStart :: time
  openedAt :: time
  halfOpenInFlight :: int
  halfOpenSuccesses :: int
  idle :: "'c idleUpstreamConnection list"
  poolClosed :: bool

datatype passiveOutcome = passiveNeutral | passiveSuccess | passiveFailure

definition transitionLocked ::
  "circuitState \<Rightarrow> time \<Rightarrow> string \<Rightarrow> 'c proxyBackend \<Rightarrow> circuitTransition option \<times> 'c proxyBackend"
where
  "transitionLocked dest at reason b =
     (let from = circuit b in
      if from = dest \<and> dest \<noteq> circuitOpen then (None, b)
      else
        (let b1 = b\<lparr>circuit := dest, passiveFailures := 0, passiveWindowStart := at,
                    halfOpenInFlight := 0, halfOpenSuccesses := 0\<rparr>;
             b2 = (if dest = circuitOpen then b1\<lparr>openedAt := at\<rparr>
                   else if dest = circuitClosed then b1\<lparr>openedAt := 0\<rparr> else b1) in
         (Some \<lparr>TransitionAlias = Alias (config b), From = from, To = dest, At = at,
                TransitionReason = reason\<rparr>, b2)))"

definition advanceCooldown ::
  "time \<Rightarrow> 'c proxyBackend \<Rightarrow> circuitTransition option \<times> 'c proxyBackend" where
  "advanceCooldown now b =
     (if circuit b \<noteq> circuitOpen \<or> Sub now (openedAt b) < CircuitCooldown (policy b) then (None, b)
      else transitionLocked circuitHalfOpen now ''cooldown_elapsed'' b)"

text \<open>
  \<open>tryReserve\<close> holds the state lock twice at most and the channel operation stands between: the
  two parts are separate definitions, so that they can interleave with other operations.
  \<open>reserveState\<close> is the locked part: \<open>None\<close> if the state is not eligible, else whether the
  reservation is a half-open one.
\<close>

definition reserveState :: "'c proxyBackend \<Rightarrow> bool option \<times> 'c proxyBackend" where
  "reserveState b =
     (if \<not> healthy b \<or> circuit b = circuitOpen \<or>
         (circuit b = circuitHalfOpen \<and> halfOpenInFlight b \<ge> HalfOpenMaxRequests (policy b))
        then (None, b)
      else
        (let halfOpen = (circuit b = circuitHalfOpen) in
         (Some halfOpen,
          if halfOpen then b\<lparr>halfOpenInFlight := halfOpenInFlight b + 1\<rparr> else b)))"

text \<open>The select: a token enters the channel, or the half-open permit is given back.\<close>

definition admit :: "bool \<Rightarrow> 'c proxyBackend \<Rightarrow> bool \<times> 'c proxyBackend" where
  "admit halfOpen b =
     (if admission b < MaxInFlight (config b)
        then (True, b\<lparr>admission := admission b + 1, inFlight := inFlight b + 1\<rparr>)
      else
        (False, if halfOpen then b\<lparr>halfOpenInFlight := halfOpenInFlight b - 1\<rparr> else b))"

record reserveResult =
  Reserved :: "bool option"
  StateEligible :: bool
  Published :: "circuitTransition option"

text \<open>\<open>Reserved\<close> is the \<^verbatim>\<open>halfOpen\<close> field of the new reservation, if there is one.\<close>

definition tryReserve :: "time \<Rightarrow> 'c proxyBackend \<Rightarrow> reserveResult \<times> 'c proxyBackend" where
  "tryReserve now b =
     (let (transition, b1) = advanceCooldown now b in
      case reserveState b1 of
        (None, b2) \<Rightarrow> (\<lparr>Reserved = None, StateEligible = False, Published = transition\<rparr>, b2)
      | (Some halfOpen, b2) \<Rightarrow>
          (case admit halfOpen b2 of
             (ok, b3) \<Rightarrow>
               (\<lparr>Reserved = (if ok then Some halfOpen else None), StateEligible = True,
                 Published = transition\<rparr>, b3)))"

definition recordPassive ::
  "passiveOutcome \<Rightarrow> bool \<Rightarrow> time \<Rightarrow> 'c proxyBackend \<Rightarrow>
   circuitTransition option \<times> 'c proxyBackend" where
  "recordPassive outcome halfOpen now b =
     (let b1 = (if halfOpen \<and> halfOpenInFlight b > 0
                then b\<lparr>halfOpenInFlight := halfOpenInFlight b - 1\<rparr> else b) in
      if outcome = passiveNeutral then (None, b1)
      else if circuit b1 = circuitHalfOpen \<and> halfOpen then
        (if outcome = passiveFailure
           then transitionLocked circuitOpen now ''half_open_failure'' b1
         else
           (let b2 = b1\<lparr>halfOpenSuccesses := halfOpenSuccesses b1 + 1\<rparr> in
            if halfOpenSuccesses b2 \<ge> HalfOpenSuccesses (policy b2)
              then transitionLocked circuitClosed now ''half_open_recovered'' b2
            else (None, b2)))
      else if circuit b1 \<noteq> circuitClosed then (None, b1)
      else
        (let b2 = (if passiveWindowStart b1 = 0 \<or>
                      Sub now (passiveWindowStart b1) \<ge> PassiveInterval (policy b1)
                   then b1\<lparr>passiveWindowStart := now, passiveFailures := 0\<rparr> else b1) in
         if outcome = passiveSuccess
           then (None, b2\<lparr>passiveFailures := 0, passiveWindowStart := now\<rparr>)
         else
           (let b3 = b2\<lparr>passiveFailures := passiveFailures b2 + 1\<rparr> in
            if passiveFailures b3 \<ge> PassiveFailureThreshold (policy b3)
              then transitionLocked circuitOpen now ''passive_failure_threshold'' b3
            else (None, b3))))"

text \<open>
  \<open>Complete\<close> and \<open>Release\<close>: the flag \<^verbatim>\<open>released\<close> is tested and set atomically; a second call does
  nothing.
\<close>

record backendReservation =
  ResHalfOpen :: bool
  Released :: bool

definition Complete ::
  "passiveOutcome \<Rightarrow> time \<Rightarrow> backendReservation \<Rightarrow> 'c proxyBackend \<Rightarrow>
   circuitTransition option \<times> backendReservation \<times> 'c proxyBackend" where
  "Complete outcome at r b =
     (if Released r then (None, r, b)
      else
        (let (transition, b1) = recordPassive outcome (ResHalfOpen r) at b in
         (transition, r\<lparr>Released := True\<rparr>,
          b1\<lparr>inFlight := inFlight b1 - 1, admission := admission b1 - 1\<rparr>)))"

definition Release ::
  "time \<Rightarrow> backendReservation \<Rightarrow> 'c proxyBackend \<Rightarrow>
   circuitTransition option \<times> backendReservation \<times> 'c proxyBackend" where
  "Release now r b = Complete passiveNeutral now r b"

definition recordActive ::
  "bool \<Rightarrow> time \<Rightarrow> 'c proxyBackend \<Rightarrow> healthTransition option \<times> 'c proxyBackend" where
  "recordActive success now b =
     (let previous = healthy b;
          b1 =
            (if success then
               (let b2 = b\<lparr>activeFailures := 0, activeSuccesses := activeSuccesses b + 1\<rparr> in
                if activeSuccesses b2 \<ge> ActiveSuccessThreshold (policy b2)
                then b2\<lparr>healthy := True\<rparr> else b2)
             else
               (let b2 = b\<lparr>activeSuccesses := 0, activeFailures := activeFailures b + 1\<rparr> in
                if activeFailures b2 \<ge> ActiveFailureThreshold (policy b2)
                then b2\<lparr>healthy := False\<rparr> else b2));
          reason = (if success then ''active_probe_recovered'' else ''active_probe_failure'') in
      (if previous \<noteq> healthy b1
       then Some \<lparr>HealthAlias = Alias (config b), FromHealthy = previous, ToHealthy = healthy b1,
                  HealthAt = now, HealthReason = reason\<rparr>
       else None, b1))"

definition beginCircuitProbe ::
  "time \<Rightarrow> 'c proxyBackend \<Rightarrow> (bool \<times> circuitTransition option) \<times> 'c proxyBackend" where
  "beginCircuitProbe now b =
     (let (transition, b1) =
        (if circuit b = circuitOpen \<and> Sub now (openedAt b) \<ge> CircuitCooldown (policy b)
         then transitionLocked circuitHalfOpen now ''cooldown_elapsed'' b else (None, b)) in
      if circuit b1 \<noteq> circuitHalfOpen \<or> halfOpenInFlight b1 \<ge> HalfOpenMaxRequests (policy b1)
        then ((False, transition), b1)
      else ((True, transition), b1\<lparr>halfOpenInFlight := halfOpenInFlight b1 + 1\<rparr>))"

definition completeCircuitProbe ::
  "bool \<Rightarrow> bool \<Rightarrow> time \<Rightarrow> 'c proxyBackend \<Rightarrow> circuitTransition option \<times> 'c proxyBackend" where
  "completeCircuitProbe success permitted now b =
     (if \<not> permitted then (None, b)
      else recordPassive (if success then passiveSuccess else passiveFailure) True now b)"

record backendSnapshot =
  SnapAlias :: string
  SnapHealthy :: bool
  SnapCircuit :: circuitState
  SnapInFlight :: int
  SnapActiveFailures :: int
  SnapActiveSuccesses :: int
  SnapPassiveFailures :: int
  SnapHalfOpenInFlight :: int
  SnapHalfOpenSuccesses :: int
  SnapOpenedAt :: time

definition snapshot :: "'c proxyBackend \<Rightarrow> backendSnapshot" where
  "snapshot b =
     \<lparr>SnapAlias = Alias (config b), SnapHealthy = healthy b, SnapCircuit = circuit b,
      SnapInFlight = inFlight b, SnapActiveFailures = activeFailures b,
      SnapActiveSuccesses = activeSuccesses b, SnapPassiveFailures = passiveFailures b,
      SnapHalfOpenInFlight = halfOpenInFlight b, SnapHalfOpenSuccesses = halfOpenSuccesses b,
      SnapOpenedAt = openedAt b\<rparr>"

subsection \<open>The pool\<close>

record 'c backendPool =
  backends :: "'c proxyBackend list"
  sequence :: u64
  resilience :: resilienceConfig

datatype proxyErrorKind =
    proxyNoBackend | proxyAdmissionRejected | proxyDialFailure | proxyDialTimeout
  | proxyWriteFailure | proxyWriteTimeout | proxyUpstreamTimeout | proxyUpstreamProtocol
  | proxyUpstreamIncomplete | proxyCanceled

definition newBackend :: "resilienceConfig \<Rightarrow> backendConfig \<Rightarrow> 'c proxyBackend" where
  "newBackend res c =
     \<lparr>config = c, admission = 0, inFlight = 0, policy = res, healthy = True, activeFailures = 0,
      activeSuccesses = 0, circuit = circuitClosed, passiveFailures = 0, passiveWindowStart = 0,
      openedAt = 0, halfOpenInFlight = 0, halfOpenSuccesses = 0, idle = [], poolClosed = False\<rparr>"

fun addBackends ::
  "resilienceConfig \<Rightarrow> string list \<Rightarrow> backendConfig list \<Rightarrow> string + 'c proxyBackend list" where
  "addBackends res aliases [] = Inr []"
| "addBackends res aliases (raw # configs) =
     (let c = backendConfig_setDefaults raw in
      andThen (backendConfig_validate c) (\<lambda>_.
      (let aliasKey = ToLower (Alias c) in
       if aliasKey \<in> set aliases then Inl ''backend alias %q is duplicated''
       else
         andThen (addBackends res (aliasKey # aliases) configs)
           (\<lambda>bs. Inr (newBackend res c # bs)))))"

definition newBackendPoolWithConfig ::
  "backendConfig list \<Rightarrow> resilienceConfig \<Rightarrow> string + 'c backendPool" where
  "newBackendPoolWithConfig configs raw =
     (if configs = [] \<or> int (length configs) > maxBackendPoolSize
        then Inl ''backend pool requires between 1 and %d backends''
      else
        (let res = resilienceConfig_setDefaults raw in
         andThen (resilienceConfig_validate res) (\<lambda>_.
         andThen (addBackends res [] configs) (\<lambda>bs.
           Inr \<lparr>backends = bs, sequence = 0, resilience = res\<rparr>))))"

definition newBackendPool :: "backendConfig list \<Rightarrow> string + 'c backendPool" where
  "newBackendPool configs = newBackendPoolWithConfig configs defaultResilienceConfig"

record reservedAt =
  ReservedIndex :: nat
  ReservedHalfOpen :: bool

text \<open>
  The loop over the candidates, in the order given: the first reservation wins. The transitions
  published on the way are returned in order.
\<close>

fun reserveInOrder ::
  "string list \<Rightarrow> time \<Rightarrow> nat list \<Rightarrow> bool \<Rightarrow> 'c proxyBackend list \<Rightarrow>
   (proxyErrorKind + reservedAt) \<times> circuitTransition list \<times> 'c proxyBackend list" where
  "reserveInOrder excluded now [] eligible bs =
     (Inl (if eligible then proxyAdmissionRejected else proxyNoBackend), [], bs)"
| "reserveInOrder excluded now (index # order) eligible bs =
     (let backend = bs ! index in
      if ToLower (Alias (config backend)) \<in> set excluded
        then reserveInOrder excluded now order eligible bs
      else
        (let (result, backend') = tryReserve now backend;
             bs' = bs[index := backend'];
             published = (case Published result of None \<Rightarrow> [] | Some t \<Rightarrow> [t]) in
         case Reserved result of
           Some halfOpen \<Rightarrow>
             (Inr \<lparr>ReservedIndex = index, ReservedHalfOpen = halfOpen\<rparr>, published, bs')
         | None \<Rightarrow>
             (let (r, ts, bs'') =
                reserveInOrder excluded now order (eligible \<or> StateEligible result) bs' in
              (r, published @ ts, bs''))))"

text \<open>
  The insertion sort of \<open>candidateOrder\<close>, on the array: \<open>shiftLoop\<close> is the inner loop with
  \<open>j + 1\<close> as its argument, \<open>insertionLoop\<close> the outer loop from \<open>i\<close> on.
\<close>

fun shiftLoop :: "(nat \<Rightarrow> int) \<Rightarrow> nat \<Rightarrow> nat \<Rightarrow> nat list \<Rightarrow> nat list" where
  "shiftLoop load value 0 order = order[0 := value]"
| "shiftLoop load value (Suc j) order =
     (if load (order ! j) > load value
      then shiftLoop load value j (order[Suc j := order ! j])
      else order[Suc j := value])"

function insertionLoop :: "(nat \<Rightarrow> int) \<Rightarrow> nat \<Rightarrow> nat list \<Rightarrow> nat list" where
  "insertionLoop load i order =
     (if i < length order then insertionLoop load (i + 1) (shiftLoop load (order ! i) i order)
      else order)"
  by pat_completeness auto

lemma length_shiftLoop [simp]: "length (shiftLoop load v k order) = length order"
  by (induction k arbitrary: order) auto

termination insertionLoop
  by (relation "measure (\<lambda>(load, i, order). length order - i)") auto

declare insertionLoop.simps [simp del]

definition rotation :: "nat \<Rightarrow> nat \<Rightarrow> nat list" where
  "rotation start cnt = map (\<lambda>offset. (start + offset) mod cnt) [0..<cnt]"

definition candidateOrder :: "'c backendPool \<Rightarrow> nat list \<times> 'c backendPool" where
  "candidateOrder p =
     (let cnt = length (backends p);
          start = unat (sequence p) mod cnt;
          p' = p\<lparr>sequence := sequence p + 1\<rparr>;
          order = rotation start cnt in
      if Selector (resilience p) \<noteq> selectorLeastInFlight then (order, p')
      else (insertionLoop (\<lambda>i. inFlight (backends p ! i)) 1 order, p'))"

definition reserveNextExcluding ::
  "string list \<Rightarrow> time \<Rightarrow> 'c backendPool \<Rightarrow>
   (proxyErrorKind + reservedAt) \<times> circuitTransition list \<times> 'c backendPool" where
  "reserveNextExcluding excluded now p =
     (if backends p = [] then (Inl proxyNoBackend, [], p)
      else
        (let (order, p') =
           (if Selector (resilience p) = selectorRoundRobin
            then (rotation (unat (sequence p) mod length (backends p)) (length (backends p)),
                  p\<lparr>sequence := sequence p + 1\<rparr>)
            else candidateOrder p);
             (r, ts, bs) = reserveInOrder excluded now order False (backends p') in
         (r, ts, p'\<lparr>backends := bs\<rparr>)))"

definition reserveNext ::
  "time \<Rightarrow> 'c backendPool \<Rightarrow>
   (proxyErrorKind + reservedAt) \<times> circuitTransition list \<times> 'c backendPool" where
  "reserveNext now p = reserveNextExcluding [] now p"

definition snapshots :: "'c backendPool \<Rightarrow> backendSnapshot list" where
  "snapshots p = map snapshot (backends p)"

subsection \<open>The insertion sort\<close>

lemma shiftLoop_eq:
  assumes "k < length order" "order = xs @ ys" "length xs = k" "sorted (map load xs)" "ys \<noteq> []"
  shows "shiftLoop load v k order =
    filter (\<lambda>x. load x \<le> load v) xs @ v # filter (\<lambda>x. load x > load v) xs @ tl ys"
  using assms
proof (induction k arbitrary: order xs ys)
  case 0
  then show ?case by (cases ys) auto
next
  case (Suc j)
  from Suc.prems(3) obtain zs z where xs: "xs = zs @ [z]" by (cases xs rule: rev_cases) auto
  with Suc.prems(3) have zs: "length zs = j" by simp
  from Suc.prems obtain y yt where ys: "ys = y # yt" by (cases ys) auto
  have oj: "order ! j = z" using Suc.prems(2) xs zs by (simp add: nth_append)
  have srt: "sorted (map load zs)" "\<And>x. x \<in> set zs \<Longrightarrow> load x \<le> load z"
    using Suc.prems(4) xs by (auto simp: sorted_append)
  show ?case
  proof (cases "load z > load v")
    case True
    have upd: "order[Suc j := z] = zs @ z # z # yt"
      using Suc.prems(2) xs zs ys by (simp add: list_update_append)
    have "shiftLoop load v j (zs @ z # z # yt) =
        filter (\<lambda>x. load x \<le> load v) zs @ v # filter (\<lambda>x. load x > load v) zs @ z # yt"
      using Suc.IH [of "zs @ z # z # yt" zs "z # z # yt"] zs srt(1) by simp
    with True oj upd show ?thesis by (simp add: xs ys)
  next
    case False
    then have all: "\<And>x. x \<in> set xs \<Longrightarrow> load x \<le> load v" using srt(2) xs by fastforce
    then have "filter (\<lambda>x. load x \<le> load v) xs = xs" "filter (\<lambda>x. load x > load v) xs = []"
      by (auto simp: filter_empty_conv not_less filter_id_conv)
    moreover have "order[Suc j := v] = xs @ v # yt"
      using Suc.prems(2,3) ys by (simp add: list_update_append)
    ultimately show ?thesis using False oj by (simp add: ys)
  qed
qed

lemma insertionLoop_eq:
  assumes "order = sort_key load xs @ ys" "length xs = i"
  shows "insertionLoop load i order = sort_key load (xs @ ys)"
  using assms
proof (induction ys arbitrary: xs order i)
  case Nil
  then show ?case by (subst insertionLoop.simps) simp
next
  case (Cons y ys)
  let ?s = "sort_key load xs"
  let ?t = "filter (\<lambda>x. load x \<le> load y) ?s @ y # filter (\<lambda>x. load x > load y) ?s"
  have i: "i < length order" "order ! i = y" using Cons.prems by (auto simp: nth_append)
  have "shiftLoop load y i order = ?t @ ys"
    using shiftLoop_eq [of i order ?s "y # ys" load y] Cons.prems i by simp
  moreover have "sort_key load (xs @ [y]) = ?t"
  proof (rule properties_for_sort_key)
    have "mset (filter (\<lambda>x. load x \<le> load y) ?s) + mset (filter (\<lambda>x. load x > load y) ?s) = mset xs"
      by (simp add: not_le [symmetric] flip: multiset_partition)
    then show "mset ?t = mset (xs @ [y])" by simp
    show "filter (\<lambda>x. load k = load x) ?t = filter (\<lambda>x. load k = load x) (xs @ [y])" for k
    proof -
      have st: "filter (\<lambda>x. load k = load x) ?s = filter (\<lambda>x. load k = load x) xs"
        using sort_key_stable [of load "load k" xs] by (metis (mono_tags, lifting) filter_cong)
      have "filter (\<lambda>x. load k = load x) (filter (\<lambda>x. load x \<le> load y) ?s) =
          (if load k \<le> load y then filter (\<lambda>x. load k = load x) ?s else [])"
        "filter (\<lambda>x. load k = load x) (filter (\<lambda>x. load x > load y) ?s) =
          (if load k > load y then filter (\<lambda>x. load k = load x) ?s else [])"
        by (auto simp: filter_empty_conv intro!: filter_cong)
      with st show ?thesis by auto
    qed
    have "sorted (map load ?s)" by simp
    then have "sorted (map load (filter P ?s))" for P by (rule sorted_filter)
    then show "sorted (map load ?t)" by (auto simp: sorted_append)
  qed
  ultimately have "shiftLoop load y i order = sort_key load (xs @ [y]) @ ys" by simp
  from Cons.IH [OF this] Cons.prems(2) i show ?case
    by (subst insertionLoop.simps) simp
qed

lemma insertionLoop_sort: "insertionLoop load 1 order = sort_key load order"
proof (cases order)
  case Nil
  then show ?thesis by (subst insertionLoop.simps) simp
next
  case (Cons x xs)
  then show ?thesis using insertionLoop_eq [of order load "[x]" xs 1] by simp
qed

end
