(* ===== verification/Circuit.thy ===== *)
theory Circuit
  imports Resilience
begin

text \<open>
  Invariants of a backend under any interleaving of its operations. The state is the backend with
  the tokens that are out: calls of \<open>tryReserve\<close> between their two parts, reservations that are
  not completed, and permitted health probes. A token is its half-open flag.
\<close>

record 'c backendSys =
  sysBackend :: "'c proxyBackend"
  pendingTokens :: "bool multiset"
  heldTokens :: "bool multiset"
  probeTokens :: nat

definition openReservation :: "bool \<Rightarrow> backendReservation" where
  "openReservation h = \<lparr>ResHalfOpen = h, Released = False\<rparr>"

inductive bstep :: "'c backendSys \<Rightarrow> 'c backendSys \<Rightarrow> bool" where
  step_cooldown: "advanceCooldown now (sysBackend s) = (t, b) \<Longrightarrow> bstep s (s\<lparr>sysBackend := b\<rparr>)"
| step_lock: "reserveState (sysBackend s) = (Some h, b) \<Longrightarrow>
    bstep s (s\<lparr>sysBackend := b, pendingTokens := add_mset h (pendingTokens s)\<rparr>)"
| step_admit: "h \<in># pendingTokens s \<Longrightarrow> admit h (sysBackend s) = (ok, b) \<Longrightarrow>
    bstep s (s\<lparr>sysBackend := b, pendingTokens := pendingTokens s - {#h#},
              heldTokens := (if ok then add_mset h (heldTokens s) else heldTokens s)\<rparr>)"
| step_complete: "h \<in># heldTokens s \<Longrightarrow>
    Complete outcome at (openReservation h) (sysBackend s) = (t, r, b) \<Longrightarrow>
    bstep s (s\<lparr>sysBackend := b, heldTokens := heldTokens s - {#h#}\<rparr>)"
| step_active: "recordActive success now (sysBackend s) = (t, b) \<Longrightarrow> bstep s (s\<lparr>sysBackend := b\<rparr>)"
| step_probe: "beginCircuitProbe now (sysBackend s) = ((permitted, t), b) \<Longrightarrow>
    bstep s (s\<lparr>sysBackend := b, probeTokens := (if permitted then Suc (probeTokens s) else probeTokens s)\<rparr>)"
| step_probe_end: "0 < probeTokens s \<Longrightarrow>
    completeCircuitProbe success True now (sysBackend s) = (t, b) \<Longrightarrow>
    bstep s (s\<lparr>sysBackend := b, probeTokens := probeTokens s - 1\<rparr>)"

definition startSys :: "resilienceConfig \<Rightarrow> backendConfig \<Rightarrow> 'c backendSys" where
  "startSys res c =
     \<lparr>sysBackend = newBackend res c, pendingTokens = {#}, heldTokens = {#}, probeTokens = 0\<rparr>"

inductive reachableSys :: "resilienceConfig \<Rightarrow> backendConfig \<Rightarrow> 'c backendSys \<Rightarrow> bool"
  for res c where
  reach_start: "reachableSys res c (startSys res c)"
| reach_step: "reachableSys res c s \<Longrightarrow> bstep s s' \<Longrightarrow> reachableSys res c s'"

subsection \<open>Admission\<close>

lemma transitionLocked_keeps:
  assumes "transitionLocked dest at reason b = (t, b')"
  shows "admission b' = admission b" "inFlight b' = inFlight b" "config b' = config b"
    "policy b' = policy b"
  using assms by (auto simp: transitionLocked_def Let_def split: if_splits)

lemma recordPassive_keeps:
  assumes "recordPassive outcome h now b = (t, b')"
  shows "admission b' = admission b" "inFlight b' = inFlight b" "config b' = config b"
    "policy b' = policy b"
  using assms
  by (auto simp: recordPassive_def Let_def dest: transitionLocked_keeps split: if_splits)

definition admissionOk :: "resilienceConfig \<Rightarrow> backendConfig \<Rightarrow> 'c backendSys \<Rightarrow> bool" where
  "admissionOk res c s \<longleftrightarrow>
     config (sysBackend s) = c \<and> policy (sysBackend s) = res \<and>
     admission (sysBackend s) = int (size (heldTokens s)) \<and>
     inFlight (sysBackend s) = int (size (heldTokens s)) \<and>
     int (size (heldTokens s)) \<le> MaxInFlight c"

lemma bstep_admission:
  assumes "bstep s s'" "admissionOk res c s"
  shows "admissionOk res c s'"
  using assms
proof (induction rule: bstep.induct)
  case (step_cooldown now s t b)
  then show ?case
    by (auto simp: admissionOk_def advanceCooldown_def dest: transitionLocked_keeps split: if_splits)
next
  case (step_lock s h b)
  then show ?case by (auto simp: admissionOk_def reserveState_def Let_def split: if_splits)
next
  case (step_admit h s ok b)
  then show ?case by (auto simp: admissionOk_def admit_def split: if_splits)
next
  case (step_complete h s outcome at t r b)
  obtain t' b1 where rp: "recordPassive outcome h at (sysBackend s) = (t', b1)" by fastforce
  from step_complete rp
  have b: "b = b1\<lparr>inFlight := inFlight b1 - 1, admission := admission b1 - 1\<rparr>"
    by (auto simp: Complete_def openReservation_def)
  have "size (heldTokens s) = Suc (size (heldTokens s - {#h#}))"
    using step_complete(1) by (metis insert_DiffM size_add_mset)
  with step_complete(3) recordPassive_keeps [OF rp] b show ?case
    by (simp add: admissionOk_def)
next
  case (step_active success now s t b)
  then show ?case by (auto simp: admissionOk_def recordActive_def Let_def split: if_splits)
next
  case (step_probe now s permitted t b)
  then show ?case
    by (auto simp: admissionOk_def beginCircuitProbe_def Let_def dest: transitionLocked_keeps
        split: if_splits prod.splits)
next
  case (step_probe_end s success now t b)
  then show ?case
    by (auto simp: admissionOk_def completeCircuitProbe_def dest: recordPassive_keeps)
qed

lemma reachable_admission:
  "reachableSys res c s \<Longrightarrow> 0 \<le> MaxInFlight c \<Longrightarrow> admissionOk res c s"
proof (induction rule: reachableSys.induct)
  case reach_start
  then show ?case by (simp add: admissionOk_def startSys_def newBackend_def)
next
  case (reach_step s s')
  then show ?case by (blast intro: bstep_admission)
qed

subsection \<open>Half-open permits\<close>

definition halfOpenTokens :: "'c backendSys \<Rightarrow> nat" where
  "halfOpenTokens s =
     count (pendingTokens s) True + count (heldTokens s) True + probeTokens s"

text \<open>With a single permit, the counter is the number of tokens out.\<close>

definition singlePermit :: "'c backendSys \<Rightarrow> bool" where
  "singlePermit s \<longleftrightarrow>
     HalfOpenMaxRequests (policy (sysBackend s)) = 1 \<and>
     halfOpenInFlight (sysBackend s) = int (halfOpenTokens s) \<and> halfOpenTokens s \<le> 1 \<and>
     (circuit (sysBackend s) \<noteq> circuitHalfOpen \<longrightarrow> halfOpenTokens s = 0)"

lemma transitionLocked_half:
  assumes "transitionLocked dest at reason b = (t, b')"
  shows "halfOpenInFlight b' = (if circuit b = dest \<and> dest \<noteq> circuitOpen then halfOpenInFlight b else 0)"
    "circuit b' = dest \<or> circuit b = dest \<and> circuit b' = circuit b"
  using assms by (auto simp: transitionLocked_def Let_def split: if_splits)

text \<open>A half-open completion gives its permit back, or ends the period.\<close>

lemma recordPassive_half:
  assumes "recordPassive outcome True now b = (t, b')" "circuit b = circuitHalfOpen"
    "halfOpenInFlight b = 1"
  shows "halfOpenInFlight b' = 0"
  using assms
  by (auto simp: recordPassive_def Let_def transitionLocked_def split: if_splits)

lemma recordPassive_normal:
  assumes "recordPassive outcome False now b = (t, b')"
    "circuit b \<noteq> circuitHalfOpen \<Longrightarrow> halfOpenInFlight b = 0"
  shows "halfOpenInFlight b' = halfOpenInFlight b"
    "circuit b' \<noteq> circuitHalfOpen \<Longrightarrow> circuit b \<noteq> circuitHalfOpen"
  using assms
  by (auto simp: recordPassive_def Let_def transitionLocked_def split: if_splits)

lemma Complete_open:
  "Complete outcome at (openReservation h) b = (t, r, b') \<Longrightarrow>
   \<exists>t1 b1. recordPassive outcome h at b = (t1, b1) \<and> circuit b' = circuit b1 \<and>
     halfOpenInFlight b' = halfOpenInFlight b1 \<and> policy b' = policy b"
  by (auto simp: Complete_def openReservation_def Let_def split: prod.splits
      dest: recordPassive_keeps)

lemma bstep_single:
  assumes "bstep s s'" "singlePermit s"
  shows "singlePermit s'"
  using assms
proof (induction rule: bstep.induct)
  case (step_cooldown now s t b)
  then show ?case
    by (auto simp: singlePermit_def halfOpenTokens_def advanceCooldown_def transitionLocked_def Let_def
        split: if_splits)
next
  case (step_lock s h b)
  then show ?case
    by (auto simp: singlePermit_def halfOpenTokens_def reserveState_def Let_def split: if_splits)
next
  case (step_admit h s ok b)
  from step_admit(1) obtain n where "count (pendingTokens s) h = Suc n"
    by (metis count_eq_zero_iff not0_implies_Suc)
  with step_admit show ?case
    by (cases h) (auto simp: singlePermit_def halfOpenTokens_def admit_def split: if_splits)
next
  case (step_complete h s outcome at t r b)
  from Complete_open [OF step_complete(2)] obtain t1 b1
    where rp: "recordPassive outcome h at (sysBackend s) = (t1, b1)"
    and b: "circuit b = circuit b1" "halfOpenInFlight b = halfOpenInFlight b1"
      "policy b = policy (sysBackend s)" by blast
  from step_complete(1) obtain n where pos: "count (heldTokens s) h = Suc n"
    by (metis count_eq_zero_iff not0_implies_Suc)
  show ?case
  proof (cases h)
    case True
    with pos step_complete(3) have "circuit (sysBackend s) = circuitHalfOpen"
      "halfOpenInFlight (sysBackend s) = 1"
      "count (pendingTokens s) True = 0" "count (heldTokens s) True = 1" "probeTokens s = 0"
      by (auto simp: singlePermit_def halfOpenTokens_def)
    with recordPassive_half [of outcome at "sysBackend s" t1 b1] rp True b step_complete(3)
    show ?thesis by (simp add: singlePermit_def halfOpenTokens_def)
  next
    case False
    with recordPassive_normal [of outcome at "sysBackend s" t1 b1] rp b step_complete(3)
    show ?thesis by (auto simp: singlePermit_def halfOpenTokens_def)
  qed
next
  case (step_active success now s t b)
  then show ?case
    by (auto simp: singlePermit_def halfOpenTokens_def recordActive_def Let_def split: if_splits)
next
  case (step_probe now s permitted t b)
  then show ?case
    by (auto simp: singlePermit_def halfOpenTokens_def beginCircuitProbe_def transitionLocked_def Let_def
        split: if_splits prod.splits)
next
  case (step_probe_end s success now t b)
  then have "circuit (sysBackend s) = circuitHalfOpen" "halfOpenInFlight (sysBackend s) = 1"
      "count (pendingTokens s) True = 0" "count (heldTokens s) True = 0" "probeTokens s = 1"
    by (auto simp: singlePermit_def halfOpenTokens_def)
  moreover obtain o' where rp: "recordPassive o' True now (sysBackend s) = (t, b)"
    using step_probe_end(2) by (auto simp: completeCircuitProbe_def)
  ultimately show ?case
    using recordPassive_half [OF rp] recordPassive_keeps(4) [OF rp] step_probe_end(3)
    by (simp add: singlePermit_def halfOpenTokens_def)
qed

lemma reachable_single:
  "reachableSys res c s \<Longrightarrow> HalfOpenMaxRequests res = 1 \<Longrightarrow> singlePermit s"
proof (induction rule: reachableSys.induct)
  case reach_start
  then show ?case by (simp add: singlePermit_def halfOpenTokens_def startSys_def newBackend_def)
next
  case (reach_step s s')
  then show ?case by (blast intro: bstep_single)
qed

subsection \<open>Schedules\<close>

text \<open>Steps as data, so that a schedule can be executed.\<close>

datatype baction =
    ActCooldown time | ActLock | ActAdmit bool | ActComplete bool passiveOutcome time
  | ActProbe time | ActProbeEnd bool time

fun applyAction :: "baction \<Rightarrow> 'c backendSys \<Rightarrow> 'c backendSys option" where
  "applyAction (ActCooldown now) s =
     Some (s\<lparr>sysBackend := snd (advanceCooldown now (sysBackend s))\<rparr>)"
| "applyAction ActLock s =
     (case reserveState (sysBackend s) of
        (None, _) \<Rightarrow> None
      | (Some h, b) \<Rightarrow> Some (s\<lparr>sysBackend := b, pendingTokens := add_mset h (pendingTokens s)\<rparr>))"
| "applyAction (ActAdmit h) s =
     (if h \<in># pendingTokens s then
        (case admit h (sysBackend s) of
           (ok, b) \<Rightarrow> Some (s\<lparr>sysBackend := b, pendingTokens := pendingTokens s - {#h#},
              heldTokens := (if ok then add_mset h (heldTokens s) else heldTokens s)\<rparr>))
      else None)"
| "applyAction (ActComplete h outcome at) s =
     (if h \<in># heldTokens s then
        (case Complete outcome at (openReservation h) (sysBackend s) of
           (_, _, b) \<Rightarrow> Some (s\<lparr>sysBackend := b, heldTokens := heldTokens s - {#h#}\<rparr>))
      else None)"
| "applyAction (ActProbe now) s =
     (case beginCircuitProbe now (sysBackend s) of
        ((permitted, _), b) \<Rightarrow> Some (s\<lparr>sysBackend := b,
           probeTokens := (if permitted then Suc (probeTokens s) else probeTokens s)\<rparr>))"
| "applyAction (ActProbeEnd success now) s =
     (if 0 < probeTokens s then
        (case completeCircuitProbe success True now (sysBackend s) of
           (_, b) \<Rightarrow> Some (s\<lparr>sysBackend := b, probeTokens := probeTokens s - 1\<rparr>))
      else None)"

lemma applyAction_bstep:
  assumes "applyAction a s = Some s'"
  shows "bstep s s'"
proof (cases a)
  case (ActCooldown now)
  with assms step_cooldown [of now s "fst (advanceCooldown now (sysBackend s))"] show ?thesis by auto
next
  case ActLock
  with assms step_lock show ?thesis by (auto split: prod.splits option.splits)
next
  case (ActAdmit h)
  obtain ok b where "admit h (sysBackend s) = (ok, b)" by fastforce
  with assms ActAdmit step_admit [OF _ this] show ?thesis by (simp split: if_splits)
next
  case (ActComplete h outcome at)
  with assms step_complete show ?thesis by (auto split: prod.splits if_splits)
next
  case (ActProbe now)
  obtain permitted t b where "beginCircuitProbe now (sysBackend s) = ((permitted, t), b)"
    by (metis prod.exhaust)
  with assms ActProbe step_probe [OF this] show ?thesis by simp
next
  case (ActProbeEnd success now)
  obtain t b where "completeCircuitProbe success True now (sysBackend s) = (t, b)" by fastforce
  with assms ActProbeEnd step_probe_end [OF _ this] show ?thesis by (simp split: if_splits)
qed

fun runActions :: "baction list \<Rightarrow> 'c backendSys \<Rightarrow> 'c backendSys option" where
  "runActions [] s = Some s"
| "runActions (a # as) s =
     (case applyAction a s of None \<Rightarrow> None | Some s' \<Rightarrow> runActions as s')"

lemma runActions_reachable:
  "reachableSys res c s \<Longrightarrow> runActions as s = Some s' \<Longrightarrow> reachableSys res c s'"
proof (induction "as" arbitrary: s)
  case (Cons a as)
  then obtain s1 where "applyAction a s = Some s1" "runActions as s1 = Some s'"
    by (auto split: option.splits)
  with Cons.IH [of s1] reach_step [OF Cons.prems(1) applyAction_bstep] show ?case by blast
qed simp

definition sampleBackend :: backendConfig where
  "sampleBackend =
     \<lparr>Alias = ''a'', Address = ''127.0.0.1:9000'', Authority = ''127.0.0.1:9000'',
      MaxInFlight = 4, MaxIdleConnections = 8, IdleTimeout = 30 * second, HealthPath = ''/health''\<rparr>"

definition twoPermits :: resilienceConfig where
  "twoPermits =
     defaultResilienceConfig\<lparr>PassiveFailureThreshold := 1, HalfOpenMaxRequests := 2\<rparr>"

subsection \<open>Failure windows\<close>

definition failAt :: "'c proxyBackend \<Rightarrow> time \<Rightarrow> 'c proxyBackend" where
  "failAt b now = snd (recordPassive passiveFailure False now b)"

lemma Sub_window:
  "0 \<le> t - u \<Longrightarrow> t - u < I \<Longrightarrow> I \<le> maxConfiguredTimeout \<Longrightarrow> Sub t u < I"
  by (auto simp: Sub_def min_def max_def minInt64_def)

text \<open>Failures in one window are counted one by one until the threshold.\<close>

lemma failAt_counts:
  assumes "circuit b = circuitClosed" "passiveWindowStart b = u" "u \<noteq> 0"
    and "\<And>t. t \<in> set ts \<Longrightarrow> 0 \<le> t - u \<and> t - u < PassiveInterval (policy b)"
    and "PassiveInterval (policy b) \<le> maxConfiguredTimeout"
    and "passiveFailures b + int (length ts) < PassiveFailureThreshold (policy b)"
  shows "circuit (foldl failAt b ts) = circuitClosed \<and>
    passiveFailures (foldl failAt b ts) = passiveFailures b + int (length ts) \<and>
    passiveWindowStart (foldl failAt b ts) = u \<and> policy (foldl failAt b ts) = policy b"
  using assms
proof (induction ts arbitrary: b)
  case (Cons t ts)
  have "Sub t u < PassiveInterval (policy b)"
    using Cons.prems(4) [of t] Cons.prems(5) by (intro Sub_window) auto
  then have f: "failAt b t = b\<lparr>passiveFailures := passiveFailures b + 1\<rparr>"
    using Cons.prems by (simp add: failAt_def recordPassive_def Let_def)
  have "circuit (foldl failAt (failAt b t) ts) = circuitClosed \<and>
    passiveFailures (foldl failAt (failAt b t) ts) = passiveFailures (failAt b t) + int (length ts) \<and>
    passiveWindowStart (foldl failAt (failAt b t) ts) = u \<and>
    policy (foldl failAt (failAt b t) ts) = policy (failAt b t)"
    using Cons.prems by (intro Cons.IH) (auto simp: f)
  then show ?case by (simp add: f)
qed simp

lemma failAt_first:
  assumes "circuit b = circuitClosed" "passiveWindowStart b = 0" "t \<noteq> 0"
    and "1 < PassiveFailureThreshold (policy b)"
  shows "failAt b t = b\<lparr>passiveWindowStart := t, passiveFailures := 1\<rparr>"
  using assms by (simp add: failAt_def recordPassive_def Let_def)

lemma failAt_opens:
  assumes "circuit b = circuitClosed" "passiveWindowStart b = u" "u \<noteq> 0" "0 \<le> t - u"
    and "t - u < PassiveInterval (policy b)" "PassiveInterval (policy b) \<le> maxConfiguredTimeout"
    and "passiveFailures b + 1 = PassiveFailureThreshold (policy b)"
  shows "circuit (failAt b t) = circuitOpen" "openedAt (failAt b t) = t"
  using assms Sub_window [OF assms(4,5,6)]
  by (simp_all add: failAt_def recordPassive_def transitionLocked_def Let_def)

subsection \<open>Properties\<close>


definition sampleRun :: "unit backendSys option" where
  "sampleRun = runActions [ActLock, ActLock, ActAdmit False, ActAdmit False,
     ActComplete False passiveSuccess 5] (startSys defaultResilienceConfig sampleBackend)"

lemma runActions_start:
  "runActions as (startSys res c) = Some s \<Longrightarrow> reachableSys res c s"
  using runActions_reachable reach_start by blast

lemma sampleRun_reachable: "reachableSys defaultResilienceConfig sampleBackend (the sampleRun)"
proof -
  have "sampleRun \<noteq> None" unfolding sampleRun_def by code_simp
  then obtain s where s: "sampleRun = Some s" by blast
  then have "reachableSys defaultResilienceConfig sampleBackend s"
    unfolding sampleRun_def by (rule runActions_start)
  then show ?thesis unfolding s option.sel .
qed


text \<open>
  With the default of one half-open permit, in every interleaving of requests, health probes
  and cooldowns at most one trial is out, the counter of permits equals it, and none is out
  unless the circuit is half open.
\<close>

lemma half_open_single:
  fixes s :: "'c backendSys"
  assumes "reachableSys res c s" "HalfOpenMaxRequests res = 1"
  shows "halfOpenTokens s \<le> 1 \<and> halfOpenInFlight (sysBackend s) = int (halfOpenTokens s) \<and>
    (circuit (sysBackend s) \<noteq> circuitHalfOpen \<longrightarrow> halfOpenTokens s = 0)"
  using reachable_single [OF assms] by (simp add: singlePermit_def)

lemma half_open_single_instance:
  "halfOpenInFlight (sysBackend (the sampleRun)) = int (halfOpenTokens (the sampleRun)) \<and>
   circuit (sysBackend (the sampleRun)) = circuitClosed \<and> halfOpenTokens (the sampleRun) = 0"
proof -
  have "circuit (sysBackend (the sampleRun)) = circuitClosed" unfolding sampleRun_def by code_simp
  moreover have "HalfOpenMaxRequests defaultResilienceConfig = 1"
    by (simp add: defaultResilienceConfig_def)
  ultimately show ?thesis using half_open_single [OF sampleRun_reachable] by simp
qed

text \<open>
  With more than one permit the bound fails: leaving the half-open state resets the counter
  while trials are still out, so that the next half-open period admits its full number besides
  them, here three trials with two permits.
\<close>

lemma half_open_overrun:
  "\<exists>s :: unit backendSys. reachableSys twoPermits sampleBackend s \<and>
     resilienceConfig_validate twoPermits = Inr () \<and>
     int (halfOpenTokens s) > HalfOpenMaxRequests twoPermits"
proof -
  let ?run = "runActions [ActLock, ActAdmit False, ActComplete False passiveFailure 1,
     ActCooldown (3 * second), ActLock, ActAdmit True, ActLock, ActAdmit True,
     ActComplete True passiveFailure (4 * second), ActCooldown (7 * second),
     ActLock, ActAdmit True, ActLock, ActAdmit True]
     (startSys twoPermits sampleBackend :: unit backendSys)"
  have "case ?run of None \<Rightarrow> False | Some s \<Rightarrow> int (halfOpenTokens s) > HalfOpenMaxRequests twoPermits"
    by code_simp
  then obtain s where s: "?run = Some s" "int (halfOpenTokens s) > HalfOpenMaxRequests twoPermits"
    by (auto split: option.splits)
  have "resilienceConfig_validate twoPermits = Inr ()" by code_simp
  with runActions_start [OF s(1)] s(2) show ?thesis by blast
qed



text \<open>
  An open circuit grants nothing until its cooldown has elapsed, and the first attempt after
  it is granted as a half-open trial, provided the backend is healthy and has room.
\<close>

lemma open_circuit_cooldown:
  fixes b :: "'c proxyBackend"
  assumes "circuit b = circuitOpen" "0 < HalfOpenMaxRequests (policy b)" "healthy b"
    and "admission b < MaxInFlight (config b)"
  shows "if Sub now (openedAt b) < CircuitCooldown (policy b)
    then tryReserve now b = (\<lparr>Reserved = None, StateEligible = False, Published = None\<rparr>, b)
    else Reserved (fst (tryReserve now b)) = Some True \<and>
      circuit (snd (tryReserve now b)) = circuitHalfOpen \<and>
      halfOpenInFlight (snd (tryReserve now b)) = 1 \<and>
      inFlight (snd (tryReserve now b)) = inFlight b + 1"
  using assms
  by (simp add: tryReserve_def advanceCooldown_def transitionLocked_def reserveState_def admit_def Let_def)

definition openBackend :: "unit proxyBackend" where
  "openBackend = (newBackend defaultResilienceConfig sampleBackend)\<lparr>circuit := circuitOpen, openedAt := 7\<rparr>"

lemma open_circuit_cooldown_instance:
  "if Sub (3 * second) (openedAt openBackend) < CircuitCooldown (policy openBackend)
    then tryReserve (3 * second) openBackend =
      (\<lparr>Reserved = None, StateEligible = False, Published = None\<rparr>, openBackend)
    else Reserved (fst (tryReserve (3 * second) openBackend)) = Some True \<and>
      circuit (snd (tryReserve (3 * second) openBackend)) = circuitHalfOpen \<and>
      halfOpenInFlight (snd (tryReserve (3 * second) openBackend)) = 1 \<and>
      inFlight (snd (tryReserve (3 * second) openBackend)) = inFlight openBackend + 1"
  by (rule open_circuit_cooldown)
     (simp_all add: openBackend_def newBackend_def defaultResilienceConfig_def sampleBackend_def)

text \<open>
  Completing a reservation takes effect once: any later \<open>Complete\<close> or \<open>Release\<close> of it, with any
  outcome at any time, changes nothing and publishes nothing.
\<close>

lemma complete_once:
  fixes b :: "'c proxyBackend"
  assumes "Complete outcome at r b = (transition, r', b')"
  shows "Complete outcome2 at2 r' b2 = (None, r', b2) \<and> Release at2 r' b2 = (None, r', b2) \<and>
    (\<not> Released r \<longrightarrow> inFlight b' = inFlight b - 1 \<and> admission b' = admission b - 1)"
proof -
  from assms have "Released r'"
    by (auto simp: Complete_def Let_def split: prod.splits if_splits)
  moreover have "\<not> Released r \<longrightarrow> inFlight b' = inFlight b - 1 \<and> admission b' = admission b - 1"
    using assms recordPassive_keeps
    by (fastforce simp: Complete_def Let_def split: prod.splits if_splits)
  ultimately show ?thesis by (simp add: Complete_def Release_def)
qed

end
