(* ===== verification/Pool_Selection.thy ===== *)
theory Pool_Selection
  imports Resilience
begin

text \<open>
  Which backend a pool reserves. The loop over candidates takes the first one that is available,
  whatever the order; the locale \<open>candidate_order\<close> is what the two selection policies have in
  common, and its lemmas are used for both.
\<close>

definition excludedIn :: "string list \<Rightarrow> 'c proxyBackend \<Rightarrow> bool" where
  "excludedIn excluded b \<longleftrightarrow> ToLower (Alias (config b)) \<in> set excluded"

definition available :: "string list \<Rightarrow> time \<Rightarrow> 'c proxyBackend \<Rightarrow> bool" where
  "available excluded now b \<longleftrightarrow>
     \<not> excludedIn excluded b \<and> Reserved (fst (tryReserve now b)) \<noteq> None"

definition eligibleNow :: "string list \<Rightarrow> time \<Rightarrow> 'c proxyBackend \<Rightarrow> bool" where
  "eligibleNow excluded now b \<longleftrightarrow> \<not> excludedIn excluded b \<and> StateEligible (fst (tryReserve now b))"

lemma reserveInOrder_result:
  "distinct order \<Longrightarrow> (\<forall>i \<in> set order. i < length bs) \<Longrightarrow>
   fst (reserveInOrder excluded now order eligible bs) =
     (case find (\<lambda>i. available excluded now (bs ! i)) order of
        Some i \<Rightarrow> Inr \<lparr>ReservedIndex = i, ReservedHalfOpen = the (Reserved (fst (tryReserve now (bs ! i))))\<rparr>
      | None \<Rightarrow> Inl (if eligible \<or> (\<exists>i \<in> set order. eligibleNow excluded now (bs ! i))
                    then proxyAdmissionRejected else proxyNoBackend))"
proof (induction order arbitrary: eligible bs)
  case (Cons i order)
  obtain res b' where tr: "tryReserve now (bs ! i) = (res, b')" by fastforce
  show ?case
  proof (cases "excludedIn excluded (bs ! i)")
    case True
    with Cons show ?thesis by (auto simp: excludedIn_def available_def eligibleNow_def Let_def)
  next
    case ne: False
    show ?thesis
    proof (cases "Reserved res")
      case (Some h)
      with ne tr show ?thesis by (simp add: excludedIn_def available_def Let_def)
    next
      case None
      let ?bs = "bs[i := b']"
      have same: "?bs ! j = bs ! j" if "j \<in> set order" for j
        using that Cons.prems by (cases "j = i") auto
      have f: "find (\<lambda>j. available excluded now (?bs ! j)) order =
          find (\<lambda>j. available excluded now (bs ! j)) order"
        by (rule find_cong) (simp_all add: same)
      have "fst (reserveInOrder excluded now order (eligible \<or> StateEligible res) ?bs) =
        (case find (\<lambda>j. available excluded now (bs ! j)) order of
          Some j \<Rightarrow> Inr \<lparr>ReservedIndex = j, ReservedHalfOpen = the (Reserved (fst (tryReserve now (?bs ! j))))\<rparr>
        | None \<Rightarrow> Inl (if (eligible \<or> StateEligible res) \<or> (\<exists>j \<in> set order. eligibleNow excluded now (?bs ! j))
                      then proxyAdmissionRejected else proxyNoBackend))"
        using Cons.prems by (subst Cons.IH) (auto simp: f)
      moreover have "j \<in> set order" if "find (\<lambda>j. available excluded now (bs ! j)) order = Some j" for j
        using that by (auto simp: find_Some_iff)
      ultimately show ?thesis using ne None tr
        by (auto simp: excludedIn_def available_def eligibleNow_def Let_def same
            split: prod.splits option.splits)
    qed
  qed
qed simp

lemma tryReserve_config [simp]: "config (snd (tryReserve now b)) = config b"
  by (auto simp: tryReserve_def advanceCooldown_def transitionLocked_def reserveState_def admit_def Let_def
      split: prod.splits option.splits)

lemma bex_nth: "(\<exists>b \<in> set xs. P b) \<longleftrightarrow> (\<exists>i \<in> {0..<length xs}. P (xs ! i))"
  unfolding Bex_def in_set_conv_nth by auto

lemma reserveInOrder_keep:
  "i \<notin> set order \<Longrightarrow> snd (snd (reserveInOrder excluded now order e bs)) ! i = bs ! i"
proof (induction order arbitrary: e bs)
  case (Cons k order)
  obtain res b where tr: "tryReserve now (bs ! k) = (res, b)" by fastforce
  have "snd (snd (reserveInOrder excluded now order (e \<or> StateEligible res) (bs[k := b]))) ! i = bs ! i"
    using Cons by simp
  with Cons tr show ?case by (simp add: Let_def split_beta split: option.split)
qed simp

text \<open>What the loop does to the backends: those tried before the winner, and it, made one attempt.\<close>

lemma reserveInOrder_backends:
  "distinct order \<Longrightarrow> (\<forall>i \<in> set order. i < length bs) \<Longrightarrow> j < length bs \<Longrightarrow>
   snd (snd (reserveInOrder excluded now order eligible bs)) ! j \<in> {bs ! j, snd (tryReserve now (bs ! j))} \<and>
   length (snd (snd (reserveInOrder excluded now order eligible bs))) = length bs"
proof (induction order arbitrary: eligible bs)
  case (Cons i order)
  obtain res b' where tr: "tryReserve now (bs ! i) = (res, b')" by fastforce
  show ?case
  proof (cases "excludedIn excluded (bs ! i)")
    case True
    with Cons show ?thesis by (auto simp: excludedIn_def Let_def)
  next
    case ne: False
    show ?thesis
    proof (cases "Reserved res")
      case (Some h)
      with ne tr Cons.prems show ?thesis
        by (cases "j = i") (simp_all add: excludedIn_def Let_def)
    next
      case None
      let ?r = "reserveInOrder excluded now order (eligible \<or> StateEligible res) (bs[i := b'])"
      have IH: "snd (snd ?r) ! j \<in> {bs[i := b'] ! j, snd (tryReserve now (bs[i := b'] ! j))}"
        "length (snd (snd ?r)) = length bs"
        using Cons.IH [of "bs[i := b']" "eligible \<or> StateEligible res"] Cons.prems by auto
      have "snd (snd ?r) ! i = b'" using reserveInOrder_keep [where i = i and order = order and bs = "bs[i := b']"] Cons.prems by simp
      with IH ne None tr Cons.prems show ?thesis
        by (cases "j = i") (auto simp: excludedIn_def Let_def split: prod.splits)
    qed
  qed
qed simp

subsection \<open>Orders\<close>

lemma rotation_rotate: "0 < n \<Longrightarrow> rotation s n = rotate s [0..<n]"
  by (rule nth_equalityI) (simp_all add: rotation_def nth_rotate add.commute)

lemma rotation_distinct: "distinct (rotation s n)" and rotation_set: "set (rotation s n) = {0..<n}"
proof -
  show "distinct (rotation s n)"
    by (cases "n = 0") (simp_all add: rotation_rotate rotation_def [of s 0])
  show "set (rotation s n) = {0..<n}"
    by (cases "n = 0") (simp_all add: rotation_rotate rotation_def [of s 0])
qed

text \<open>The order a policy tries the backends of a pool in.\<close>

definition roundRobinOrder :: "'c backendPool \<Rightarrow> nat list" where
  "roundRobinOrder p =
     rotation (unat (sequence p) mod length (backends p)) (length (backends p))"

definition leastInFlightOrder :: "'c backendPool \<Rightarrow> nat list" where
  "leastInFlightOrder p = sort_key (\<lambda>i. inFlight (backends p ! i)) (roundRobinOrder p)"

locale candidate_order =
  fixes policy_name :: string and order :: "'c backendPool \<Rightarrow> nat list"
  assumes order_distinct: "distinct (order p)"
    and order_set: "set (order p) = {0..<length (backends p)}"
    and reserve_order: "Selector (resilience p) = policy_name \<Longrightarrow> backends p \<noteq> [] \<Longrightarrow>
      reserveNextExcluding excluded now p =
        (case reserveInOrder excluded now (order p) False (backends p) of
           (r, ts, bs) \<Rightarrow> (r, ts, p\<lparr>sequence := sequence p + 1, backends := bs\<rparr>))"
begin

lemma result:
  fixes p :: "'c backendPool"
  assumes "Selector (resilience p) = policy_name" "backends p \<noteq> []"
  shows "fst (reserveNextExcluding excluded now p) =
     (case find (\<lambda>i. available excluded now (backends p ! i)) (order p) of
        Some i \<Rightarrow> Inr \<lparr>ReservedIndex = i,
                   ReservedHalfOpen = the (Reserved (fst (tryReserve now (backends p ! i))))\<rparr>
      | None \<Rightarrow> Inl (if \<exists>b \<in> set (backends p). eligibleNow excluded now b
                    then proxyAdmissionRejected else proxyNoBackend))"
proof -
  have "(\<exists>i \<in> set (order p). eligibleNow excluded now (backends p ! i)) \<longleftrightarrow>
      (\<exists>b \<in> set (backends p). eligibleNow excluded now b)"
    unfolding order_set bex_nth ..
  moreover have "fst (reserveNextExcluding excluded now p) =
      fst (reserveInOrder excluded now (order p) False (backends p))"
    by (simp add: reserve_order [OF assms] split_beta)
  moreover have "\<forall>i \<in> set (order p). i < length (backends p)" by (simp add: order_set)
  ultimately show ?thesis
    by (simp only: reserveInOrder_result [OF order_distinct] simp_thms)
qed

lemma granted_iff:
  fixes p :: "'c backendPool"
  assumes "Selector (resilience p) = policy_name" "backends p \<noteq> []"
  shows "(\<exists>r. fst (reserveNextExcluding excluded now p) = Inr r) \<longleftrightarrow>
    (\<exists>b \<in> set (backends p). available excluded now b)"
proof (cases "find (\<lambda>i. available excluded now (backends p ! i)) (order p)")
  case None
  then have "\<not> (\<exists>b \<in> set (backends p). available excluded now b)"
    unfolding bex_nth by (auto simp: find_None_iff order_set)
  then show ?thesis by (simp add: result [OF assms] None)
next
  case (Some i)
  then have "i \<in> set (order p)" "available excluded now (backends p ! i)"
    by (auto simp: find_Some_iff)
  then have "\<exists>b \<in> set (backends p). available excluded now b"
    unfolding bex_nth by (auto simp: order_set)
  then show ?thesis by (simp add: result [OF assms] Some)
qed

end

lemma insertion_order:
  "insertionLoop (\<lambda>i. inFlight (backends p ! i)) 1
     (rotation (unat (sequence p) mod length (backends p)) (length (backends p))) = leastInFlightOrder p"
  by (simp only: insertionLoop_sort leastInFlightOrder_def roundRobinOrder_def)

interpretation round_robin: candidate_order selectorRoundRobin roundRobinOrder
proof
  show "distinct (roundRobinOrder p)" "set (roundRobinOrder p) = {0..<length (backends p)}"
    for p :: "'c backendPool"
    by (simp_all add: roundRobinOrder_def rotation_distinct rotation_set)
  show "reserveNextExcluding excluded now p =
      (case reserveInOrder excluded now (roundRobinOrder p) False (backends p) of
         (r, ts, bs) \<Rightarrow> (r, ts, p\<lparr>sequence := sequence p + 1, backends := bs\<rparr>))"
    if "Selector (resilience p) = selectorRoundRobin" "backends p \<noteq> []"
    for p :: "'c backendPool" and excluded now
    using that by (simp add: reserveNextExcluding_def roundRobinOrder_def split_beta)
qed

interpretation least_in_flight: candidate_order selectorLeastInFlight leastInFlightOrder
proof
  show "distinct (leastInFlightOrder p)" "set (leastInFlightOrder p) = {0..<length (backends p)}"
    for p :: "'c backendPool"
    by (simp_all add: leastInFlightOrder_def roundRobinOrder_def rotation_distinct rotation_set)
  show "reserveNextExcluding excluded now p =
      (case reserveInOrder excluded now (leastInFlightOrder p) False (backends p) of
         (r, ts, bs) \<Rightarrow> (r, ts, p\<lparr>sequence := sequence p + 1, backends := bs\<rparr>))"
    if "Selector (resilience p) = selectorLeastInFlight" "backends p \<noteq> []"
    for p :: "'c backendPool" and excluded now
    using that
    by (simp add: reserveNextExcluding_def candidateOrder_def insertion_order [unfolded One_nat_def] Let_def split_beta
        selectorLeastInFlight_def selectorRoundRobin_def)
qed

lemma find_sorted_least:
  assumes "find P xs = Some x" "sorted (map f xs)" "y \<in> set xs" "P y"
  shows "f x \<le> f y"
  using assms
proof (induction xs)
  case (Cons a xs)
  then show ?case by (cases "P a") auto
qed simp

subsection \<open>Properties\<close>

text \<open>
  Under either policy a reservation is granted exactly when some backend that is not excluded
  would grant one; otherwise the error tells whether one was eligible but full (admission
  rejected) or none was (no backend).
\<close>

lemma reserve_complete:
  fixes p :: "'c backendPool"
  assumes "Selector (resilience p) \<in> {selectorRoundRobin, selectorLeastInFlight}" "backends p \<noteq> []"
  shows "case fst (reserveNextExcluding excluded now p) of
      Inr r \<Rightarrow> ReservedIndex r < length (backends p) \<and>
        available excluded now (backends p ! ReservedIndex r) \<and>
        Reserved (fst (tryReserve now (backends p ! ReservedIndex r))) = Some (ReservedHalfOpen r)
    | Inl kind \<Rightarrow> \<not> (\<exists>b \<in> set (backends p). available excluded now b) \<and>
        kind = (if \<exists>b \<in> set (backends p). eligibleNow excluded now b
                then proxyAdmissionRejected else proxyNoBackend)"
proof -
  have gen: ?thesis
    if res: "fst (reserveNextExcluding excluded now p) =
      (case find (\<lambda>i. available excluded now (backends p ! i)) order of
        Some i \<Rightarrow> Inr \<lparr>ReservedIndex = i,
                   ReservedHalfOpen = the (Reserved (fst (tryReserve now (backends p ! i))))\<rparr>
      | None \<Rightarrow> Inl (if \<exists>b \<in> set (backends p). eligibleNow excluded now b
                    then proxyAdmissionRejected else proxyNoBackend))"
      and set: "set order = {0..<length (backends p)}" for order
  proof (cases "find (\<lambda>i. available excluded now (backends p ! i)) order")
    case None
    then have "\<not> (\<exists>b \<in> set (backends p). available excluded now b)"
      unfolding bex_nth by (auto simp: find_None_iff set)
    then show ?thesis by (simp add: res None)
  next
    case (Some i)
    then have "i \<in> set order" "available excluded now (backends p ! i)"
      by (auto simp: find_Some_iff)
    with Some show ?thesis unfolding res by (auto simp: set available_def)
  qed
  from assms show ?thesis
    using gen [OF round_robin.result round_robin.order_set]
      gen [OF least_in_flight.result least_in_flight.order_set] by blast
qed

definition samplePool :: "string \<Rightarrow> unit backendPool" where
  "samplePool selector =
     (let mk = (\<lambda>alias n. newBackend defaultResilienceConfig
            \<lparr>Alias = alias, Address = ''127.0.0.1:9000'', Authority = ''127.0.0.1:9000'',
             MaxInFlight = 4, MaxIdleConnections = 8, IdleTimeout = second, HealthPath = ''/health''\<rparr>
            \<lparr>inFlight := n, admission := n\<rparr>) in
      \<lparr>backends = [mk ''a'' 3, mk ''b'' 1, mk ''c'' 2], sequence = 5,
       resilience = defaultResilienceConfig\<lparr>Selector := selector\<rparr>\<rparr>)"

lemma reserve_complete_instance:
  "case fst (reserveNextExcluding [''b''] 7 (samplePool selectorLeastInFlight)) of
      Inr r \<Rightarrow> ReservedIndex r < length (backends (samplePool selectorLeastInFlight)) \<and>
        available [''b''] 7 (backends (samplePool selectorLeastInFlight) ! ReservedIndex r) \<and>
        Reserved (fst (tryReserve 7 (backends (samplePool selectorLeastInFlight) ! ReservedIndex r))) =
          Some (ReservedHalfOpen r)
    | Inl kind \<Rightarrow> \<not> (\<exists>b \<in> set (backends (samplePool selectorLeastInFlight)). available [''b''] 7 b) \<and>
        kind = (if \<exists>b \<in> set (backends (samplePool selectorLeastInFlight)). eligibleNow [''b''] 7 b
                then proxyAdmissionRejected else proxyNoBackend)"
  by (rule reserve_complete) (simp_all add: samplePool_def Let_def)

text \<open>
  Under least-in-flight, the in-place insertion sort makes the pool reserve a backend with the
  fewest requests in flight among all that would grant a reservation.
\<close>

lemma least_in_flight_minimal:
  fixes p :: "'c backendPool"
  assumes "Selector (resilience p) = selectorLeastInFlight" "backends p \<noteq> []"
    and "fst (reserveNextExcluding excluded now p) = Inr r"
    and "b \<in> set (backends p)" "available excluded now b"
  shows "inFlight (backends p ! ReservedIndex r) \<le> inFlight b"
proof -
  from assms(3) obtain i where i: "find (\<lambda>i. available excluded now (backends p ! i))
      (leastInFlightOrder p) = Some i" "ReservedIndex r = i"
    unfolding least_in_flight.result [OF assms(1,2)] by (auto split: option.splits)
  from assms(4) obtain j where j: "b = backends p ! j" "j < length (backends p)"
    by (auto simp: in_set_conv_nth)
  have "sorted (map (\<lambda>i. inFlight (backends p ! i)) (leastInFlightOrder p))"
    by (simp add: leastInFlightOrder_def)
  from find_sorted_least [OF i(1) this, of j] i(2) j assms(5) show ?thesis
    by (simp add: least_in_flight.order_set)
qed

lemma least_in_flight_minimal_instance:
  "inFlight (backends (samplePool selectorLeastInFlight) ! 1) \<le>
   inFlight (backends (samplePool selectorLeastInFlight) ! 0)"
proof -
  have r: "fst (reserveNextExcluding [] 7 (samplePool selectorLeastInFlight)) =
      Inr \<lparr>ReservedIndex = 1, ReservedHalfOpen = False\<rparr>" by code_simp
  have "available [] 7 (backends (samplePool selectorLeastInFlight) ! 0)" by code_simp
  from least_in_flight_minimal [OF _ _ r _ this] show ?thesis
    by (simp add: samplePool_def Let_def)
qed

text \<open>
  Under round robin, reservations rotate: as long as every backend grants, the one at the
  sequence number modulo the pool size is reserved, and the sequence number (a 64-bit counter)
  advances by one.
\<close>

lemma round_robin_rotates:
  fixes p :: "'c backendPool"
  assumes "Selector (resilience p) = selectorRoundRobin" "backends p \<noteq> []"
    and "\<forall>b \<in> set (backends p). available excluded now b"
  shows "\<exists>h. fst (reserveNextExcluding excluded now p) =
      Inr \<lparr>ReservedIndex = unat (sequence p) mod length (backends p), ReservedHalfOpen = h\<rparr> \<and>
    sequence (snd (snd (reserveNextExcluding excluded now p))) = sequence p + 1"
proof -
  let ?n = "length (backends p)" and ?s = "unat (sequence p) mod length (backends p)"
  have n: "0 < ?n" using assms(2) by simp
  then have "?s < ?n" by simp
  have "roundRobinOrder p = ?s # map (\<lambda>k. (?s + k) mod ?n) [1..<?n]"
    using n by (simp add: roundRobinOrder_def rotation_def upt_conv_Cons)
  moreover have "available excluded now (backends p ! ?s)" using assms(3) \<open>?s < ?n\<close> by simp
  ultimately have "find (\<lambda>i. available excluded now (backends p ! i)) (roundRobinOrder p) = Some ?s"
    by simp
  then show ?thesis
    unfolding round_robin.result [OF assms(1,2)]
    by (simp add: round_robin.reserve_order [OF assms(1,2)] split_beta)
qed

end
