(* ===== verification/Upstream_Pool.thy ===== *)
theory Upstream_Pool
  imports Resilience
begin

text \<open>
  \<^verbatim>\<open>src/src/upstream_pool.go\<close>: the stack of idle upstream connections of a backend. Operations
  return the connections they close. Dialling is an argument: its error or the new connection.
  Setting a deadline on a connection and the error of closing one are ignored by the source and
  not modelled.
\<close>

datatype 'e acquireError = PoolClosed | DialFailed 'e

function acquireConnection ::
  "time \<Rightarrow> 'e + 'c \<Rightarrow> 'c proxyBackend \<Rightarrow>
   ('e acquireError + ('c \<times> bool)) \<times> 'c list \<times> 'c proxyBackend" where
  "acquireConnection now dial b =
     (if poolClosed b \<or> idle b = [] then
        (if poolClosed b then (Inl PoolClosed, [], b)
         else
           (case dial of
              Inl err \<Rightarrow> (Inl (DialFailed err), [], b)
            | Inr c \<Rightarrow> (Inr (c, False), [], b)))
      else
        (let entry = last (idle b); b' = b\<lparr>idle := butlast (idle b)\<rparr> in
         if Sub now (idleSince entry) \<ge> IdleTimeout (config b) then
           (case acquireConnection now dial b' of
              (r, closed, b'') \<Rightarrow> (r, connection entry # closed, b''))
         else (Inr (connection entry, True), [], b')))"
  by pat_completeness auto
termination
  by (relation "measure (\<lambda>(now, dial, b). length (idle b))") auto

declare acquireConnection.simps [simp del]

definition recycleConnection ::
  "'c option \<Rightarrow> time \<Rightarrow> 'c proxyBackend \<Rightarrow> bool \<times> 'c list \<times> 'c proxyBackend" where
  "recycleConnection c now b =
     (case c of
        None \<Rightarrow> (False, [], b)
      | Some conn \<Rightarrow>
          if poolClosed b \<or> int (length (idle b)) \<ge> MaxIdleConnections (config b)
            then (False, [conn], b)
          else (True, [], b\<lparr>idle := idle b @ [\<lparr>connection = conn, idleSince = now\<rparr>]\<rparr>))"

definition closeIdleConnections :: "'c proxyBackend \<Rightarrow> 'c list \<times> 'c proxyBackend" where
  "closeIdleConnections b = (map connection (idle b), b\<lparr>poolClosed := True, idle := []\<rparr>)"

text \<open>\<^verbatim>\<open>backendPool.Close\<close>: the connections closed, over all backends.\<close>

definition closePool :: "'c backendPool \<Rightarrow> 'c list \<times> 'c backendPool" where
  "closePool p =
     (concat (map (fst \<circ> closeIdleConnections) (backends p)),
      p\<lparr>backends := map (snd \<circ> closeIdleConnections) (backends p)\<rparr>)"

subsection \<open>Invariant and accounting\<close>

definition idleOk :: "'c proxyBackend \<Rightarrow> bool" where
  "idleOk b \<longleftrightarrow>
     int (length (idle b)) \<le> max 0 (MaxIdleConnections (config b)) \<and> (poolClosed b \<longrightarrow> idle b = [])"

lemma acquire_closed: "poolClosed b \<Longrightarrow> acquireConnection now dial b = (Inl PoolClosed, [], b)"
  by (subst acquireConnection.simps) simp

lemma acquire_dial:
  "\<not> poolClosed b \<Longrightarrow> idle b = [] \<Longrightarrow>
   acquireConnection now dial b =
     (case dial of Inl err \<Rightarrow> Inl (DialFailed err) | Inr c \<Rightarrow> Inr (c, False), [], b)"
  by (subst acquireConnection.simps) (simp split: sum.split)

lemma acquire_pop:
  "\<not> poolClosed b \<Longrightarrow> idle b = xs @ [x] \<Longrightarrow>
   acquireConnection now dial b =
     (if Sub now (idleSince x) \<ge> IdleTimeout (config b) then
        (case acquireConnection now dial (b\<lparr>idle := xs\<rparr>) of
           (r, closed, b'') \<Rightarrow> (r, connection x # closed, b''))
      else (Inr (connection x, True), [], b\<lparr>idle := xs\<rparr>))"
  by (subst acquireConnection.simps) simp

text \<open>
  What a call does with the idle stack: it keeps a lower part of it, closes the entries above, or
  all but the last of them, which it hands out.
\<close>

lemma acquireConnection_stack:
  assumes "acquireConnection now dial b = (r, closed, b')" "idle b = xs"
  shows "\<exists>n. b' = b\<lparr>idle := take n xs\<rparr> \<and>
    mset (map connection xs) = mset (map connection (take n xs)) + mset closed +
      (case r of Inr (c, True) \<Rightarrow> {#c#} | _ \<Rightarrow> {#}) \<and>
    (\<forall>c. r = Inr (c, False) \<longrightarrow> dial = Inr c \<and> take n xs = []) \<and>
    (\<forall>c. r = Inr (c, True) \<longrightarrow>
       (\<exists>entry \<in> set xs. connection entry = c \<and> Sub now (idleSince entry) < IdleTimeout (config b)))"
  using assms
proof (induction xs arbitrary: b r closed b' rule: rev_induct)
  case Nil
  have b: "b\<lparr>idle := []\<rparr> = b" using Nil.prems(2) by simp
  show ?case
  proof (cases "poolClosed b")
    case True
    with Nil.prems b show ?thesis by (auto simp: acquire_closed)
  next
    case False
    with Nil.prems b show ?thesis by (cases dial) (auto simp: acquire_dial)
  qed
next
  case (snoc x xs)
  show ?case
  proof (cases "poolClosed b")
    case True
    have "b = b\<lparr>idle := take (Suc (length xs)) (xs @ [x])\<rparr>" using snoc.prems(2) by simp
    with True snoc.prems(1) show ?thesis
      by (intro exI [of _ "Suc (length xs)"]) (auto simp: acquire_closed)
  next
    case op: False
    note pop = acquire_pop [OF op snoc.prems(2), of now dial]
    show ?thesis
    proof (cases "Sub now (idleSince x) \<ge> IdleTimeout (config b)")
      case True
      obtain r1 c1 b1 where rec: "acquireConnection now dial (b\<lparr>idle := xs\<rparr>) = (r1, c1, b1)"
        by (metis prod_cases3)
      with True snoc.prems(1) pop have eq: "r = r1" "closed = connection x # c1" "b' = b1" by simp_all
      from snoc.IH [OF rec] obtain n where n: "b1 = b\<lparr>idle := take n xs\<rparr>"
        "mset (map connection xs) = mset (map connection (take n xs)) + mset c1 +
           (case r1 of Inr (c, True) \<Rightarrow> {#c#} | _ \<Rightarrow> {#})"
        "\<forall>c. r1 = Inr (c, False) \<longrightarrow> dial = Inr c \<and> take n xs = []"
        "\<forall>c. r1 = Inr (c, True) \<longrightarrow> (\<exists>entry \<in> set xs. connection entry = c \<and>
           Sub now (idleSince entry) < IdleTimeout (config b))" by auto
      have t: "take (min n (length xs)) (xs @ [x]) = take n xs" by (cases "n \<le> length xs") simp_all
      show ?thesis
        unfolding eq by (rule exI [of _ "min n (length xs)"], unfold t) (use n in auto)
    next
      case False
      with snoc.prems(1) pop have "r = Inr (connection x, True)" "closed = []" "b' = b\<lparr>idle := xs\<rparr>"
        by simp_all
      with False show ?thesis by (intro exI [of _ "length xs"]) (simp add: not_le)
    qed
  qed
qed

lemma acquireConnection_ok:
  assumes "acquireConnection now dial b = (r, closed, b')" "idleOk b"
  shows "idleOk b'"
proof -
  from acquireConnection_stack [OF assms(1) refl] obtain n where "b' = b\<lparr>idle := take n (idle b)\<rparr>"
    by blast
  with assms(2) show ?thesis by (auto simp: idleOk_def)
qed

lemma recycleConnection_ok:
  "recycleConnection c now b = (ok, closed, b') \<Longrightarrow> idleOk b \<Longrightarrow> idleOk b'"
  by (auto simp: recycleConnection_def idleOk_def split: option.splits if_splits)

lemma closeIdleConnections_ok: "closeIdleConnections b = (closed, b') \<Longrightarrow> idleOk b'"
  by (auto simp: closeIdleConnections_def idleOk_def)

subsection \<open>Properties\<close>

definition warmBackend :: "nat proxyBackend" where
  "warmBackend =
     (newBackend defaultResilienceConfig
        \<lparr>Alias = ''a'', Address = ''127.0.0.1:9000'', Authority = [], MaxInFlight = 4,
         MaxIdleConnections = 3, IdleTimeout = 10, HealthPath = ''/health''\<rparr>)
       \<lparr>idle := [\<lparr>connection = 1, idleSince = 95\<rparr>, \<lparr>connection = 2, idleSince = 80\<rparr>]\<rparr>"

text \<open>
  Acquiring a connection neither leaks nor invents one: every idle connection is still idle
  afterwards, or was closed because it had expired, or is the one handed out; a new connection
  comes from the dialler and only when no idle one is left; and a reused one has been idle for
  less than the timeout.
\<close>

lemma acquire_accounts:
  assumes "acquireConnection now dial b = (r, closed, b')"
  shows "mset (map connection (idle b)) =
      mset (map connection (idle b')) + mset closed +
      (case r of Inr (c, True) \<Rightarrow> {#c#} | _ \<Rightarrow> {#}) \<and>
    (\<forall>c. r = Inr (c, False) \<longrightarrow> dial = Inr c \<and> idle b' = []) \<and>
    (\<forall>c. r = Inr (c, True) \<longrightarrow>
       (\<exists>entry \<in> set (idle b). connection entry = c \<and>
          Sub now (idleSince entry) < IdleTimeout (config b)))"
proof -
  from acquireConnection_stack [OF assms refl] obtain n where n: "b' = b\<lparr>idle := take n (idle b)\<rparr>"
    "mset (map connection (idle b)) = mset (map connection (take n (idle b))) + mset closed +
      (case r of Inr (c, True) \<Rightarrow> {#c#} | _ \<Rightarrow> {#})"
    "\<forall>c. r = Inr (c, False) \<longrightarrow> dial = Inr c \<and> take n (idle b) = []"
    "\<forall>c. r = Inr (c, True) \<longrightarrow> (\<exists>entry \<in> set (idle b). connection entry = c \<and>
       Sub now (idleSince entry) < IdleTimeout (config b))" by blast
  from n(1) have "idle b' = take n (idle b)" by simp
  with n(2-4) show ?thesis by simp
qed

lemma acquire_accounts_instance:
  "mset (map connection (idle warmBackend)) =
     mset (map connection []) + mset [2] + {#1#} \<and>
   (\<exists>entry \<in> set (idle warmBackend). connection entry = 1 \<and>
      Sub 100 (idleSince entry) < IdleTimeout (config warmBackend))"
proof -
  have "fst (acquireConnection 100 (Inr 9 :: unit + nat) warmBackend) = Inr (1, True) \<and>
      fst (snd (acquireConnection 100 (Inr 9 :: unit + nat) warmBackend)) = [2] \<and>
      idle (snd (snd (acquireConnection 100 (Inr 9 :: unit + nat) warmBackend))) = []"
    by code_simp
  then obtain b' where "acquireConnection 100 (Inr 9 :: unit + nat) warmBackend = (Inr (1, True), [2], b')"
    and "idle b' = []" by (metis prod.collapse)
  from acquire_accounts [OF this(1)] this(2) show ?thesis by simp
qed

text \<open>
  The number of idle connections never exceeds \<^verbatim>\<open>MaxIdleConnections\<close>, and a closed pool keeps
  none: acquiring, recycling and closing preserve this, and what recycling does not keep it closes.
\<close>

lemma idle_bounded:
  assumes "idleOk b"
  shows "idleOk (snd (snd (acquireConnection now dial b))) \<and>
    idleOk (snd (snd (recycleConnection c t b))) \<and> idleOk (snd (closeIdleConnections b)) \<and>
    (\<forall>conn. c = Some conn \<longrightarrow>
       mset (map connection (idle b)) + {#conn#} =
       mset (map connection (idle (snd (snd (recycleConnection c t b))))) +
       mset (fst (snd (recycleConnection c t b)))) \<and>
    fst (closeIdleConnections b) = map connection (idle b)"
proof -
  have "idleOk (snd (snd (acquireConnection now dial b)))"
    using acquireConnection_ok [OF _ assms] by (metis prod.collapse)
  moreover have "idleOk (snd (snd (recycleConnection c t b)))"
    using recycleConnection_ok [OF _ assms] by (metis prod.collapse)
  moreover have "idleOk (snd (closeIdleConnections b))"
    using closeIdleConnections_ok by (metis prod.collapse)
  ultimately show ?thesis
    by (auto simp: recycleConnection_def closeIdleConnections_def)
qed

lemma idle_bounded_instance:
  "idleOk (snd (snd (recycleConnection (Some 7) 100 warmBackend)))"
proof -
  have "idleOk warmBackend" by code_simp
  from idle_bounded [OF this] show ?thesis by blast
qed

end
