(* ===== verification/Proxy_Headers.thy ===== *)
theory Proxy_Headers
  imports Http_Framing Http_Server Upstream_Pool
begin

text \<open>
  The pure part of \<^verbatim>\<open>src/src/proxy.go\<close>: the proxy's configuration, what is forwarded to a backend and
  back to the client, and the classification of failures.

  Go's sets of lower-case names are lists here. The configuration's function fields (clock, request
  identifiers, dialler) are arguments of the definitions that call them; \<^verbatim>\<open>setDefaults\<close> makes sure
  they are never nil. A \<^verbatim>\<open>proxyError\<close> keeps its kind and alias; the error it wraps is only printed.
\<close>

subsection \<open>Configuration\<close>

definition defaultViaName :: string where "defaultViaName = ''anvil''"
definition requestIDHeader :: string where "requestIDHeader = ''X-Anvil-Request-ID''"
definition maxInformationalResponses :: nat where "maxInformationalResponses = 8"

record proxyConfig =
  DialTimeout :: duration
  ReadTimeout :: duration
  WriteTimeout :: duration
  ProxyLimits :: httpLimits
  ViaName :: string
  AddForwarded :: bool
  AddXForwarded :: bool
  MaxAttempts :: int
  RetryTimeout :: duration
  RetryStatuses :: "int list"
  ProxyRoute :: string
  Observed :: bool

definition defaultProxyConfig :: proxyConfig where
  "defaultProxyConfig =
     \<lparr>DialTimeout = 2 * second, ReadTimeout = 10 * second, WriteTimeout = 10 * second,
      ProxyLimits = defaultHTTPLimits, ViaName = defaultViaName, AddForwarded = True,
      AddXForwarded = True, MaxAttempts = 2, RetryTimeout = 2 * second, RetryStatuses = [],
      ProxyRoute = ''dev-proxy'', Observed = False\<rparr>"

definition proxyConfig_setDefaults :: "proxyConfig \<Rightarrow> proxyConfig" where
  "proxyConfig_setDefaults c = (if ProxyRoute c = [] then c\<lparr>ProxyRoute := ''dev-proxy''\<rparr> else c)"

definition proxyConfig_validate :: "proxyConfig \<Rightarrow> string + unit" where
  "proxyConfig_validate c =
     (if DialTimeout c \<le> 0 \<or> ReadTimeout c \<le> 0 \<or> WriteTimeout c \<le> 0
        then Inl ''proxy dial, read, and write timeouts must be greater than zero''
      else if MaxAttempts c \<le> 0 \<or> RetryTimeout c \<le> 0
        then Inl ''proxy maximum attempts and retry timeout must be greater than zero''
      else if MaxAttempts c > maxBackendPoolSize \<or> RetryTimeout c > maxConfiguredTimeout \<or>
              DialTimeout c > maxConfiguredTimeout \<or> ReadTimeout c > maxConfiguredTimeout \<or>
              WriteTimeout c > maxConfiguredTimeout
        then Inl ''proxy attempts or timeouts exceed documented bounds''
      else
        andThen (httpLimits_validate (ProxyLimits c)) (\<lambda>_.
        if \<not> validToken (ViaName c) \<or> int (length (ViaName c)) > maxBackendAliasBytes
          then Inl ''Via pseudonym %q must be an HTTP token''
        else if \<not> validToken (ProxyRoute c) \<or> int (length (ProxyRoute c)) > maxBackendAliasBytes
          then Inl ''route alias %q must be an HTTP token''
        else if list_ex (\<lambda>status. status < 400 \<or> status > 599) (RetryStatuses c)
          then Inl ''retry status %d must be between 400 and 599''
        else Inr ()))"

subsection \<open>Header rewriting\<close>

definition connectionNominations :: "headerFields \<Rightarrow> string list" where
  "connectionNominations hs =
     map ToLower
       (filter validToken (map TrimSpace (concat (map (Split CHR '','') (Values hs ''Connection'')))))"

definition hopByHopNames :: "string list" where
  "hopByHopNames =
     [''Connection'', ''Proxy-Connection'', ''Keep-Alive'', ''Proxy-Authenticate'',
      ''Proxy-Authorization'', ''TE'', ''Trailer'', ''Transfer-Encoding'', ''Upgrade'']"

definition hopByHopFieldSet :: "string list \<Rightarrow> string list" where
  "hopByHopFieldSet nominated = nominated @ map ToLower hopByHopNames"

definition filterHeaderFields :: "headerFields \<Rightarrow> string list \<Rightarrow> headerFields" where
  "filterHeaderFields hs remove = filter (\<lambda>field. ToLower (Name field) \<notin> set remove) hs"

definition replaceHeader :: "headerFields \<Rightarrow> string \<Rightarrow> string \<Rightarrow> headerFields" where
  "replaceHeader hs name value = filterHeaderFields hs [ToLower name] @ [hf name value]"

definition remoteIP :: "string \<Rightarrow> ip option" where
  "remoteIP address =
     (case SplitHostPort address of None \<Rightarrow> None | Some (host, _) \<Rightarrow> ParseIP host)"

definition forwardedValue :: "ip \<Rightarrow> string \<Rightarrow> string" where
  "forwardedValue peer originalHost =
     (let forValue = IP_String peer;
          quoted = (if Contains forValue '':'' then [CHR 0x22, CHR ''[''] @ forValue @ [CHR '']'', CHR 0x22]
                    else forValue) in
      ''for='' @ quoted @ '';host='' @ [CHR 0x22] @ originalHost @ [CHR 0x22] @ '';proto=http'')"

definition replacedNames :: "string list" where
  "replacedNames =
     [''Host'', ''Forwarded'', ''X-Forwarded-For'', ''X-Forwarded-Host'', ''X-Forwarded-Proto'',
      requestIDHeader]"

definition upstreamRemove :: "headerFields \<Rightarrow> string list" where
  "upstreamRemove headers =
     hopByHopFieldSet (connectionNominations headers) @ map ToLower replacedNames"

definition forwardedFields :: "httpRequest \<Rightarrow> proxyConfig \<Rightarrow> headerFields" where
  "forwardedFields request pc =
     (case remoteIP (RemoteAddr request) of
        None \<Rightarrow> []
      | Some peerIP \<Rightarrow>
          (let originalHost = fst (First (ReqHeaders request) ''Host'') in
           (if AddForwarded pc then [hf ''Forwarded'' (forwardedValue peerIP originalHost)] else []) @
           (if AddXForwarded pc
            then [hf ''X-Forwarded-For'' (IP_String peerIP), hf ''X-Forwarded-Host'' originalHost,
                  hf ''X-Forwarded-Proto'' ''http'']
            else [])))"

definition buildUpstreamRequest :: "httpRequest \<Rightarrow> string \<Rightarrow> string \<Rightarrow> proxyConfig \<Rightarrow> httpRequest" where
  "buildUpstreamRequest request authority requestID pc =
     (let remove = upstreamRemove (ReqHeaders request) in
      \<lparr>Method = Method request, Target = Target request, ReqVersion = httpVersion11,
       ReqHeaders = filterHeaderFields (ReqHeaders request) remove @
         [hf ''Host'' authority, hf ''Via'' (''1.1 '' @ ViaName pc), hf requestIDHeader requestID] @
         forwardedFields request pc,
       ReqTrailers = filterHeaderFields (ReqTrailers request) remove,
       ReqBody = ReqBody request,
       ReqBodyMode = (if ReqBodyMode request = bodyModeCloseDelimited then bodyModeFixed
                      else ReqBodyMode request),
       ReqKeepAlive = True, RemoteAddr = []\<rparr>)"

definition sanitizeUpstreamResponse :: "httpResponse \<Rightarrow> string \<Rightarrow> httpResponse" where
  "sanitizeUpstreamResponse response viaName =
     (let remove = hopByHopFieldSet (connectionNominations (RespHeaders response)) @
            [ToLower requestIDHeader] in
      \<lparr>RespVersion = httpVersion11, StatusCode = StatusCode response, Reason = Reason response,
       RespHeaders = filterHeaderFields (RespHeaders response) remove @
         [hf ''Via'' (''1.1 '' @ viaName)],
       RespTrailers = filterHeaderFields (RespTrailers response) remove,
       RespBody = RespBody response,
       RespBodyMode = (if RespBodyMode response = bodyModeCloseDelimited then bodyModeFixed
                       else RespBodyMode response),
       RespKeepAlive = True, RespClose = False, CommitState = None\<rparr>)"

definition validRequestID :: "string \<Rightarrow> bool" where
  "validRequestID value \<longleftrightarrow> length value \<ge> 16 \<and> length value \<le> 64 \<and> validToken value"

text \<open>\<^verbatim>\<open>randomRequestID\<close> from the sixteen random octets it reads.\<close>

unbundle bit_operations_syntax

definition hexOctet :: "8 word \<Rightarrow> string" where
  "hexOctet w = [digitChar (unat w div 16), digitChar (unat w mod 16)]"

definition randomRequestID :: "8 word list \<Rightarrow> string" where
  "randomRequestID value =
     (let v6 = value[6 := (value ! 6 AND 0x0f) OR 0x40]; v8 = v6[8 := (v6 ! 8 AND 0x3f) OR 0x80] in
      concat (map hexOctet v8))"

subsection \<open>Failures\<close>

record proxyError =
  PKind :: proxyErrorKind
  PAlias :: string

definition proxyErr :: "proxyErrorKind \<Rightarrow> string \<Rightarrow> proxyError" where
  "proxyErr kind alias = \<lparr>PKind = kind, PAlias = alias\<rparr>"

definition classifyProxyWriteError :: "string \<Rightarrow> http_error \<Rightarrow> proxyError" where
  "classifyProxyWriteError alias err =
     proxyErr (if isTimeout err then proxyWriteTimeout else proxyWriteFailure) alias"

definition classifyProxyReadError :: "bool \<Rightarrow> string \<Rightarrow> http_error \<Rightarrow> proxyError" where
  "classifyProxyReadError ctxDone alias err =
     (if ctxDone then proxyErr proxyCanceled alias
      else if protocolKind err = Some protocolTimeout \<or> isTimeout err
        then proxyErr proxyUpstreamTimeout alias
      else if protocolKind err = Some protocolIncompleteMessage
        then proxyErr proxyUpstreamIncomplete alias
      else proxyErr proxyUpstreamProtocol alias)"

definition passiveOutcomeForError :: "proxyError \<Rightarrow> passiveOutcome" where
  "passiveOutcomeForError err = (if PKind err = proxyCanceled then passiveNeutral else passiveFailure)"

definition successfulProxyStatus :: "string \<Rightarrow> string \<Rightarrow> int \<Rightarrow> string" where
  "successfulProxyStatus proxyName alias status =
     proxyName @ ''; received-status='' @ Itoa (nat status) @ ''; next-hop='' @ alias"

fun errorToken :: "proxyErrorKind \<Rightarrow> string" where
  "errorToken proxyNoBackend = ''destination_unavailable''"
| "errorToken proxyAdmissionRejected = ''connection_limit_reached''"
| "errorToken proxyDialFailure = ''connection_refused''"
| "errorToken proxyDialTimeout = ''connection_timeout''"
| "errorToken proxyWriteFailure = ''connection_terminated''"
| "errorToken proxyWriteTimeout = ''connection_write_timeout''"
| "errorToken proxyUpstreamTimeout = ''connection_read_timeout''"
| "errorToken proxyUpstreamIncomplete = ''http_response_incomplete''"
| "errorToken proxyUpstreamProtocol = ''http_protocol_error''"
| "errorToken proxyCanceled = ''proxy_internal_response''"

text \<open>\<open>None\<close> is an error that is not a \<^verbatim>\<open>proxyError\<close>, or none at all.\<close>

definition failureProxyStatus :: "string \<Rightarrow> proxyError option \<Rightarrow> string" where
  "failureProxyStatus proxyName failure =
     (let (token, alias) =
        (case failure of None \<Rightarrow> (''proxy_internal_error'', [])
         | Some f \<Rightarrow> (errorToken (PKind f), PAlias f)) in
      proxyName @ ''; error='' @ token @ (if alias \<noteq> [] then ''; next-hop='' @ alias else []))"

fun failureStatus :: "proxyErrorKind \<Rightarrow> int \<times> string" where
  "failureStatus proxyNoBackend = (503, ''service unavailable'' @ [LF])"
| "failureStatus proxyAdmissionRejected = (503, ''service unavailable'' @ [LF])"
| "failureStatus proxyCanceled = (503, ''service unavailable'' @ [LF])"
| "failureStatus proxyDialTimeout = (504, ''gateway timeout'' @ [LF])"
| "failureStatus proxyWriteTimeout = (504, ''gateway timeout'' @ [LF])"
| "failureStatus proxyUpstreamTimeout = (504, ''gateway timeout'' @ [LF])"
| "failureStatus _ = (502, ''bad gateway'' @ [LF])"

definition proxyFailureResponse ::
    "proxyError option \<Rightarrow> string \<Rightarrow> responseCommitState \<Rightarrow> string \<Rightarrow> httpResponse" where
  "proxyFailureResponse failure requestID commitState proxyName =
     (let viaName = (if proxyName \<noteq> [] then proxyName else defaultViaName);
          (status, message) =
            (case failure of None \<Rightarrow> (502, ''bad gateway'' @ [LF]) | Some f \<Rightarrow> failureStatus (PKind f));
          response = textResponse status message in
      response\<lparr>RespHeaders := RespHeaders response @
          [hf requestIDHeader requestID, hf ''Proxy-Status'' (failureProxyStatus viaName failure)],
        CommitState := commitState\<rparr>)"

definition finalizeProxyResponse ::
    "httpResponse \<Rightarrow> string \<Rightarrow> string \<Rightarrow> responseCommitState \<Rightarrow> string \<Rightarrow> httpResponse" where
  "finalizeProxyResponse response requestID alias commitState proxyName =
     response\<lparr>CommitState := commitState,
       RespHeaders := replaceHeader (RespHeaders response) requestIDHeader requestID @
         [hf ''Proxy-Status'' (successfulProxyStatus proxyName alias (StatusCode response))]\<rparr>"

definition canRetryProxyRequest ::
    "httpRequest \<Rightarrow> int \<Rightarrow> int \<Rightarrow> responseCommitState \<Rightarrow> time \<Rightarrow> time \<Rightarrow> bool" where
  "canRetryProxyRequest request attempt maxAttempts commitState now deadline \<longleftrightarrow>
     \<not> (attempt \<ge> maxAttempts \<or> Committed commitState \<or> \<not> now < deadline) \<and>
     (Method request = ''GET'' \<or> Method request = ''HEAD'')"

subsection \<open>Addresses are visible text\<close>

lemma set_Join: "set (Join ps sep) \<subseteq> \<Union> (set ` set ps) \<union> set sep"
  by (induction ps sep rule: Join.induct) auto

lemma parseOctets_digits:
  "parseOctets ps = Some fs \<Longrightarrow> p \<in> set ps \<Longrightarrow> list_all isDecimal p"
  by (induction ps arbitrary: fs)
     (auto simp: parseOctet_def ParseUint_def split: option.splits if_splits)

lemma parseIPv4Fields_visible:
  assumes "parseIPv4Fields s = Some fs"
  shows "list_all visibleByte s"
proof -
  have "parseOctets (Split CHR ''.'' s) = Some fs"
    using assms by (auto simp: parseIPv4Fields_def Let_def split: if_splits)
  then have "\<forall>c \<in> \<Union> (set ` set (Split CHR ''.'' s)). isDecimal c"
    using parseOctets_digits by (auto simp: list_all_iff)
  then have "\<forall>c \<in> set s. isDecimal c \<or> c = CHR ''.''"
    using set_Join [of "Split CHR ''.'' s" "[CHR ''.'']"] by (auto simp: Split_Join)
  moreover have "visibleByte CHR ''.''" by (simp add: visibleByte_def)
  ultimately show ?thesis using isDecimal_visible by (metis list_all_iff)
qed

lemma hexPrefix_split: "s = hexPrefix s @ drop (length (hexPrefix s)) s"
  by (induction s) auto

lemma hexPrefix_visible: "list_all visibleByte (hexPrefix s)"
  by (induction s) (auto dest: hexDigit_visible)

lemma visible_colon [simp]: "visibleByte CHR '':''" "visibleByte CHR ''[''" "visibleByte CHR '']''"
  by (simp_all add: visibleByte_def)

lemma parseIPv6Loop_visible:
  "parseIPv6Loop s octets ellipsis = Some (octets', ellipsis', []) \<Longrightarrow> list_all visibleByte s"
proof (induction s octets ellipsis rule: parseIPv6Loop.induct)
  case (1 s octets ellipsis)
  define digits where "digits = hexPrefix s"
  define rest where "rest = drop (length digits) s"
  have s: "s = digits @ rest" using hexPrefix_split [of s] by (simp add: digits_def rest_def)
  have v: "list_all visibleByte digits" by (simp add: digits_def hexPrefix_visible)
  note unfolded = "1.prems" [unfolded parseIPv6Loop.simps [of s octets ellipsis] Let_def,
      folded digits_def, folded rest_def]
  show ?case
  proof (cases "16 \<le> length octets")
    case True
    then show ?thesis using unfolded by simp
  next
    case False
    have d: "\<not> (digits = [] \<or> 4 < length digits)" using unfolded False by (auto split: if_splits)
    consider (dot) "rest \<noteq> []" "hd rest = CHR ''.''" | (ended) "rest = []"
      | (colon) "rest \<noteq> []" "hd rest \<noteq> CHR ''.''" by blast
    then show ?thesis
    proof cases
      case dot
      then show ?thesis
        using unfolded False d parseIPv4Fields_visible by (auto split: if_splits option.splits)
    next
      case ended
      then show ?thesis using s v by simp
    next
      case colon
      then have "hd rest = CHR '':''" and c2: "tl rest \<noteq> []"
        using unfolded False d by (auto split: if_splits)
      then have c: "rest = CHR '':'' # tl rest" "tl rest \<noteq> []" using colon(1) by (metis list.collapse)+
      have "list_all visibleByte (tl rest)"
      proof (cases "hd (tl rest) = CHR '':''")
        case True
        then have t: "tl rest = CHR '':'' # tl (tl rest)" using c(2) by (metis list.collapse)
        have "list_all visibleByte (tl (tl rest))"
          using unfolded False d colon c True "1.IH"(1) [OF False digits_def rest_def]
          by (auto split: if_splits)
        then show ?thesis using t by (metis list.pred_inject(2) visible_colon(1))
      next
        case False2: False
        then show ?thesis
          using unfolded False d colon c "1.IH"(2) [OF False digits_def rest_def]
          by (auto split: if_splits)
      qed
      then have "list_all visibleByte rest" using c(1) by (metis list.pred_inject(2) visible_colon(1))
      then show ?thesis using s v by (metis list_all_append)
    qed
  qed
qed

lemma ParseIP_visible:
  assumes "ParseIP s \<noteq> None"
  shows "list_all visibleByte s"
proof (cases "hd (filter (\<lambda>c. c = CHR ''.'' \<or> c = CHR '':'') s) = CHR ''.''")
  case True
  then show ?thesis
    using assms parseIPv4Fields_visible
    by (auto simp: ParseIP_def Let_def split: if_splits list.splits)
next
  case False
  then have "parseIPv6 s \<noteq> None"
    using assms by (auto simp: ParseIP_def Let_def split: if_splits list.splits)
  then obtain octets ellipsis where p: "s = ''::'' \<or>
      parseIPv6Loop (if take 2 s = ''::'' then drop 2 s else s) [] (if take 2 s = ''::'' then Some 0 else None) =
        Some (octets, ellipsis, [])"
    by (auto simp: parseIPv6_def Let_def split: if_splits option.splits) (metis append_Nil2 append_take_drop_id)+
  then have "list_all visibleByte (if take 2 s = ''::'' then drop 2 s else s)"
    using parseIPv6Loop_visible by (cases "s = ''::''") auto
  moreover have "list_all visibleByte ''::''" by simp
  ultimately show ?thesis by (metis append_take_drop_id list_all_append)
qed

lemma visible_fieldValue: "list_all visibleByte s \<Longrightarrow> validFieldValue s"
  by (auto simp: validFieldValue_def list_all_iff visibleByte_def less_eq_char_def)

lemma ParseUint_decimal: "ParseUint bits s = Some v \<Longrightarrow> list_all isDecimal s"
  by (simp add: ParseUint_def split: if_splits)

lemma validHostPort_visible: "validHostPort v port \<Longrightarrow> list_all visibleByte port"
  by (cases "port = []")
     (auto simp: validHostPort_def list_all_iff split: option.splits
       dest!: ParseUint_decimal intro: isDecimal_visible)

lemma regName_visible_byte:
  assumes "(CHR ''0'' \<le> c \<and> c \<le> CHR ''9'') \<or> (CHR ''A'' \<le> c \<and> c \<le> CHR ''Z'') \<or>
    (CHR ''a'' \<le> c \<and> c \<le> CHR ''z'') \<or> c \<in> set ''-._~!$&()*+,;='' \<or> c = CHR 0x27"
  shows "visibleByte c"
  using assms by (auto simp: visibleByte_def less_eq_char_def)

lemma regNameBytes_visible: "regNameBytes s \<Longrightarrow> list_all visibleByte s"
proof (induction s rule: regNameBytes.induct)
  case (2 current rest)
  show ?case
  proof (cases "current = CHR ''%''")
    case True
    with "2.prems" obtain h1 h2 r where r: "rest = h1 # h2 # r"
      "hexadecimalValue h1 \<noteq> None" "hexadecimalValue h2 \<noteq> None" "regNameBytes r"
      by (simp split: list.splits if_splits)
    have "visibleByte current" by (simp add: True visibleByte_def)
    with True r "2.IH"(1) [of h1 "h2 # r" h2 r] show ?thesis
      by (simp add: hexadecimalValue_visible)
  next
    case False
    then have "regNameBytes rest" "visibleByte current"
      using "2.prems" by (auto split: if_splits intro!: regName_visible_byte simp del: set_simps)
    then show ?thesis using "2.IH"(2) False "2.prems" by (simp split: if_splits)
  qed
qed simp

lemma LastIndexByte_split:
  assumes "0 \<le> LastIndexByte s c"
  shows "s = take (nat (LastIndexByte s c)) s @ c # drop (nat (LastIndexByte s c) + 1) s"
proof -
  have i: "0 \<le> IndexByte (rev s) c" using assms by (auto simp: LastIndexByte_def Let_def split: if_splits)
  obtain p r where pr: "rev s = p @ c # r" "IndexByte (rev s) c = int (length p)"
    by (rule IndexByte_nonneg_split [OF i])
  then have s: "s = rev r @ c # rev p" by (metis rev_append rev_rev_ident rev.simps(2) append.assoc append_Cons append_Nil)
  have "nat (LastIndexByte s c) = length (rev r)"
    using i pr(2) s by (simp add: LastIndexByte_def Let_def)
  then show ?thesis using s by simp
qed

lemma validHost_visible:
  assumes "validHost host"
  shows "list_all visibleByte host"
proof (cases "hd host = CHR ''[''")
  case True
  have ne: "host \<noteq> []" using assms by (auto simp: validHost_def)
  define closing where "closing = IndexByte host CHR '']''"
  define remainder where "remainder = drop (nat closing + 1) host"
  have c: "1 < closing" "ParseIP (take (nat closing - 1) (drop 1 host)) \<noteq> None"
    "remainder = [] \<or> hd remainder = CHR '':''" "validHostPort host (drop 1 remainder)"
    using assms True ne by (auto simp: validHost_def Let_def closing_def remainder_def split: if_splits)
  have ge: "0 \<le> IndexByte host CHR '']''" using c(1) by (simp add: closing_def)
  obtain p r where "host = p @ CHR '']'' # r" "IndexByte host CHR '']'' = int (length p)"
    by (rule IndexByte_nonneg_split [OF ge])
  then have pr: "host = p @ CHR '']'' # r" "closing = int (length p)" by (simp_all add: closing_def)
  obtain addr where addr: "p = CHR ''['' # addr" using True pr c(1) by (cases p) auto
  have "list_all visibleByte addr" using ParseIP_visible [OF c(2)] pr addr by simp
  moreover have rem: "remainder = r" using pr by (simp add: remainder_def)
  moreover have "list_all visibleByte r"
    using c(3) validHostPort_visible [OF c(4)] rem by (cases r) auto
  ultimately show ?thesis using pr addr by simp
next
  case False
  define colon where "colon = LastIndexByte host CHR '':''"
  have v: "validRegName (if 0 \<le> colon then take (nat colon) host else host)"
    "validHostPort host (if 0 \<le> colon then drop (nat colon + 1) host else [])"
    using assms False by (auto simp: validHost_def Let_def colon_def split: if_splits)
  show ?thesis
  proof (cases "0 \<le> colon")
    case True
    have "host = take (nat colon) host @ CHR '':'' # drop (nat colon + 1) host"
      using LastIndexByte_split [of host "CHR '':''"] True unfolding colon_def by simp
    moreover have "list_all visibleByte (take (nat colon) host)"
      using v(1) True by (simp add: validRegName_def regNameBytes_visible)
    moreover have "list_all visibleByte (drop (nat colon + 1) host)"
      using validHostPort_visible [OF v(2)] True by simp
    ultimately show ?thesis by (metis list_all_append list.pred_inject(2) visible_colon(1))
  next
    case False
    then show ?thesis using v(1) by (simp add: validRegName_def regNameBytes_visible)
  qed
qed

lemma IP_String_fieldValue: "validFieldValue (IP_String octets)"
proof -
  have hex: "validFieldValue (formatUint 16 n)" for n
    using formatUint_16_hex [of n] hexDigit_visible
    by (intro visible_fieldValue) (auto simp: list_all_iff)
  have dec: "validFieldValue (Itoa n)" for n by (simp add: validToken_fieldValue)
  have join: "validFieldValue (Join ps sep)"
    if "\<forall>p \<in> set ps. validFieldValue p" "validFieldValue sep" for ps sep
    using that set_Join [of ps sep] by (fastforce simp: validFieldValue_def list_all_iff)
  have "validFieldValue ''.''" "validFieldValue '':''" by code_simp+
  moreover have "validFieldValue (CHR '':'' # s) = validFieldValue s" for s
    by (simp add: validFieldValue_def)
  ultimately show ?thesis
    using hex dec by (auto simp: IP_String_def formatGroups_def Let_def intro!: join)
qed

end
