(* ===== verification/Metrics.thy ===== *)
theory Metrics
  imports Resilience
begin

text \<open>
  \<^verbatim>\<open>src/src/metrics.go\<close>: the counters of the proxy and its latency histogram.

  Counters are 64-bit words; the numbers of active requests are integers, as they count requests
  that are being served. Every method is one atomic step: the compare-and-swap loop of
  \<open>beginRequest\<close> ends with the larger of the old peak and the new number of active requests. The
  percentile's target rank is computed in floating point by the source, so it is an argument here,
  and the estimate is the bound in microseconds before the division by 1000. Reading the Go
  runtime's own metrics is not modelled.
\<close>

text \<open>\<^verbatim>\<open>Duration.Microseconds\<close> truncates towards zero.\<close>

definition Microseconds :: "duration \<Rightarrow> int" where
  "Microseconds d = (if d < 0 then - ((- d) div 1000) else d div 1000)"

definition latencyUpperBoundsMicros :: "int list" where
  "latencyUpperBoundsMicros =
     [100, 250, 500, 1000, 2500, 5000, 10000, 25000, 50000, 100000, 250000, 500000, 1000000,
      2500000, 5000000, 10000000]"

type_synonym latencyHistogram = "u64 list"

definition emptyHistogram :: latencyHistogram where
  "emptyHistogram = replicate (length latencyUpperBoundsMicros + 1) 0"

text \<open>The loop that finds the first bound not below the duration, from a candidate on.\<close>

fun bucketIndex :: "int \<Rightarrow> nat \<Rightarrow> int list \<Rightarrow> nat" where
  "bucketIndex micros candidate [] = length latencyUpperBoundsMicros"
| "bucketIndex micros candidate (upper # uppers) =
     (if micros \<le> upper then candidate else bucketIndex micros (candidate + 1) uppers)"

definition bump :: "nat \<Rightarrow> u64 list \<Rightarrow> u64 list" where
  "bump i xs = xs[i := xs ! i + 1]"

definition observe :: "duration \<Rightarrow> latencyHistogram \<Rightarrow> latencyHistogram" where
  "observe d h = bump (bucketIndex (max (Microseconds d) 0) 0 latencyUpperBoundsMicros) h"

text \<open>The second loop of \<^verbatim>\<open>percentileEstimateMS\<close>: the bound of the first bucket that reaches the target.\<close>

fun percentileLoop :: "nat \<Rightarrow> u64 \<Rightarrow> u64 \<Rightarrow> u64 list \<Rightarrow> int" where
  "percentileLoop index cumulative target [] = 0"
| "percentileLoop index cumulative target (n # ns) =
     (if cumulative + n < target then percentileLoop (index + 1) (cumulative + n) target ns
      else if index < length latencyUpperBoundsMicros then latencyUpperBoundsMicros ! index
      else latencyUpperBoundsMicros ! (length latencyUpperBoundsMicros - 1))"

definition percentileEstimate :: "(u64 \<Rightarrow> u64) \<Rightarrow> u64 list \<Rightarrow> int" where
  "percentileEstimate targetOf counts =
     (let all = sum_list counts in
      if all = 0 then 0 else percentileLoop 0 0 (targetOf all) counts)"

record latencyBucketSnapshot =
  UpperBoundMicros :: int
  BucketCount :: u64
  Overflow :: bool

definition bucketSnapshots :: "latencyHistogram \<Rightarrow> latencyBucketSnapshot list" where
  "bucketSnapshots h =
     map (\<lambda>index.
       if index < length latencyUpperBoundsMicros
         then \<lparr>UpperBoundMicros = latencyUpperBoundsMicros ! index, BucketCount = h ! index,
               Overflow = False\<rparr>
       else \<lparr>UpperBoundMicros = 0, BucketCount = h ! index, Overflow = True\<rparr>) [0..<length h]"

definition proxyFailureKindCount :: nat where "proxyFailureKindCount = 11"

record proxyMetrics =
  requests :: u64
  completed :: u64
  attempts :: u64
  retries :: u64
  successes :: u64
  gatewayErrors :: u64
  requestBytes :: u64
  responseBytes :: u64
  activeRequests :: int
  peakActive :: int
  statusClasses :: "u64 list"
  failureKinds :: "u64 list"
  circuitTransitions :: u64
  healthTransitions :: u64
  latency :: latencyHistogram

definition newProxyMetrics :: proxyMetrics where
  "newProxyMetrics =
     \<lparr>requests = 0, completed = 0, attempts = 0, retries = 0, successes = 0, gatewayErrors = 0,
      requestBytes = 0, responseBytes = 0, activeRequests = 0, peakActive = 0,
      statusClasses = replicate 6 0, failureKinds = replicate proxyFailureKindCount 0,
      circuitTransitions = 0, healthTransitions = 0, latency = emptyHistogram\<rparr>"

definition beginRequest :: "int \<Rightarrow> proxyMetrics \<Rightarrow> proxyMetrics" where
  "beginRequest n m =
     m\<lparr>requests := requests m + 1,
       requestBytes := (if n > 0 then requestBytes m + word_of_int n else requestBytes m),
       activeRequests := activeRequests m + 1,
       peakActive := max (peakActive m) (activeRequests m + 1)\<rparr>"

definition recordAttempt :: "proxyMetrics \<Rightarrow> proxyMetrics" where
  "recordAttempt m = m\<lparr>attempts := attempts m + 1\<rparr>"

definition recordRetry :: "proxyMetrics \<Rightarrow> proxyMetrics" where
  "recordRetry m = m\<lparr>retries := retries m + 1\<rparr>"

fun proxyFailureMetricIndex :: "proxyErrorKind \<Rightarrow> nat" where
  "proxyFailureMetricIndex proxyNoBackend = 0"
| "proxyFailureMetricIndex proxyAdmissionRejected = 1"
| "proxyFailureMetricIndex proxyDialFailure = 2"
| "proxyFailureMetricIndex proxyDialTimeout = 3"
| "proxyFailureMetricIndex proxyWriteFailure = 4"
| "proxyFailureMetricIndex proxyWriteTimeout = 5"
| "proxyFailureMetricIndex proxyUpstreamTimeout = 6"
| "proxyFailureMetricIndex proxyUpstreamProtocol = 7"
| "proxyFailureMetricIndex proxyUpstreamIncomplete = 8"
| "proxyFailureMetricIndex proxyCanceled = 9"

definition recordFailure :: "proxyErrorKind \<Rightarrow> proxyMetrics \<Rightarrow> proxyMetrics" where
  "recordFailure kind m =
     m\<lparr>failureKinds := bump (proxyFailureMetricIndex kind) (failureKinds m)\<rparr>"

text \<open>Go's division truncates: a status between -99 and 99 has class 0.\<close>

definition statusClass :: "int \<Rightarrow> int" where
  "statusClass status = (if status < 0 then - ((- status) div 100) else status div 100)"

definition completeRequest :: "int \<Rightarrow> int \<Rightarrow> duration \<Rightarrow> bool \<Rightarrow> proxyMetrics \<Rightarrow> proxyMetrics" where
  "completeRequest status n d generated m =
     m\<lparr>completed := completed m + 1, activeRequests := activeRequests m - 1,
       responseBytes := (if n > 0 then responseBytes m + word_of_int n else responseBytes m),
       statusClasses :=
         (if statusClass status \<ge> 1 \<and> statusClass status \<le> 5
            then bump (nat (statusClass status)) (statusClasses m) else statusClasses m),
       successes := (if status \<ge> 200 \<and> status < 400 then successes m + 1 else successes m),
       gatewayErrors := (if generated then gatewayErrors m + 1 else gatewayErrors m),
       latency := observe d (latency m)\<rparr>"

record requestMetricSnapshot =
  Total :: u64
  CompletedCount :: u64
  Attempts :: u64
  Retries :: u64
  Successes :: u64
  GatewayErrors :: u64
  RequestBytes :: u64
  ResponseBytes :: u64
  Active :: int
  PeakActive :: int
  Status1xx :: u64
  Status2xx :: u64
  Status3xx :: u64
  Status4xx :: u64
  Status5xx :: u64
  CircuitChanges :: u64
  HealthChanges :: u64

definition requestSnapshot :: "proxyMetrics \<Rightarrow> requestMetricSnapshot" where
  "requestSnapshot m =
     \<lparr>Total = requests m, CompletedCount = completed m, Attempts = attempts m, Retries = retries m,
      Successes = successes m, GatewayErrors = gatewayErrors m, RequestBytes = requestBytes m,
      ResponseBytes = responseBytes m, Active = activeRequests m, PeakActive = peakActive m,
      Status1xx = statusClasses m ! 1, Status2xx = statusClasses m ! 2,
      Status3xx = statusClasses m ! 3, Status4xx = statusClasses m ! 4,
      Status5xx = statusClasses m ! 5, CircuitChanges = circuitTransitions m,
      HealthChanges = healthTransitions m\<rparr>"

record failureMetricSnapshot =
  NoBackend :: u64
  AdmissionRejected :: u64
  DialFailure :: u64
  DialTimeoutCount :: u64
  WriteFailure :: u64
  WriteTimeoutCount :: u64
  UpstreamTimeout :: u64
  UpstreamProtocol :: u64
  UpstreamIncomplete :: u64
  Canceled :: u64
  Other :: u64

definition failureSnapshot :: "proxyMetrics \<Rightarrow> failureMetricSnapshot" where
  "failureSnapshot m =
     \<lparr>NoBackend = failureKinds m ! 0, AdmissionRejected = failureKinds m ! 1,
      DialFailure = failureKinds m ! 2, DialTimeoutCount = failureKinds m ! 3,
      WriteFailure = failureKinds m ! 4, WriteTimeoutCount = failureKinds m ! 5,
      UpstreamTimeout = failureKinds m ! 6, UpstreamProtocol = failureKinds m ! 7,
      UpstreamIncomplete = failureKinds m ! 8, Canceled = failureKinds m ! 9,
      Other = failureKinds m ! 10\<rparr>"

subsection \<open>Buckets\<close>

lemma u64_less:
  "a < 2 ^ 64 \<Longrightarrow> b < 2 ^ 64 \<Longrightarrow> ((of_nat a :: u64) < of_nat b) = (a < b)"
  by (simp add: word_less_nat_alt unat_of_nat)

lemma u64_eq_0: "a < 2 ^ 64 \<Longrightarrow> ((of_nat a :: u64) = 0) = (a = 0)"
  by (simp add: unat_eq_0 [symmetric] unat_of_nat)

lemma bucketIndex_spec:
  assumes "candidate + length uppers = length latencyUpperBoundsMicros"
  shows "(bucketIndex micros candidate uppers = length latencyUpperBoundsMicros \<and>
      (\<forall>u \<in> set uppers. u < micros)) \<or>
    (\<exists>k < length uppers. bucketIndex micros candidate uppers = candidate + k \<and>
      micros \<le> uppers ! k \<and> (\<forall>i < k. uppers ! i < micros))"
  using assms
proof (induction uppers arbitrary: candidate)
  case Nil
  then show ?case by simp
next
  case (Cons u us)
  show ?case
  proof (cases "micros \<le> u")
    case True
    then show ?thesis by (intro disjI2 exI [of _ 0]) simp
  next
    case False
    from Cons.IH [of "candidate + 1"] Cons.prems
    consider "bucketIndex micros (candidate + 1) us = length latencyUpperBoundsMicros"
        "\<forall>u \<in> set us. u < micros"
      | k where "k < length us" "bucketIndex micros (candidate + 1) us = candidate + 1 + k"
        "micros \<le> us ! k" "\<forall>i < k. us ! i < micros" by auto
    then show ?thesis
    proof cases
      case 1
      then show ?thesis using False by auto
    next
      case 2
      then show ?thesis using False
        by (intro disjI2 exI [of _ "Suc k"]) (auto simp: nth_Cons split: nat.splits)
    qed
  qed
qed

lemma bucketIndex_le:
  assumes "candidate + length uppers = length latencyUpperBoundsMicros"
  shows "bucketIndex micros candidate uppers \<le> length latencyUpperBoundsMicros"
  using bucketIndex_spec [OF assms, of micros] assms by auto

lemma length_bump [simp]: "length (bump i xs) = length xs"
  by (simp add: bump_def)

lemma sum_list_bump:
  "i < length xs \<Longrightarrow> sum_list (bump i xs) = sum_list xs + 1"
proof (induction xs arbitrary: i)
  case Nil
  then show ?case by simp
next
  case (Cons x xs)
  then show ?case by (cases i) (simp_all add: bump_def algebra_simps)
qed

subsection \<open>The counters balance\<close>

inductive metricsReach :: "proxyMetrics \<Rightarrow> bool" where
  metrics_new: "metricsReach newProxyMetrics"
| metrics_begin: "metricsReach m \<Longrightarrow> metricsReach (beginRequest n m)"
| metrics_attempt: "metricsReach m \<Longrightarrow> metricsReach (recordAttempt m)"
| metrics_retry: "metricsReach m \<Longrightarrow> metricsReach (recordRetry m)"
| metrics_failure: "metricsReach m \<Longrightarrow> metricsReach (recordFailure kind m)"
| metrics_circuit: "metricsReach m \<Longrightarrow> metricsReach (m\<lparr>circuitTransitions := circuitTransitions m + 1\<rparr>)"
| metrics_health: "metricsReach m \<Longrightarrow> metricsReach (m\<lparr>healthTransitions := healthTransitions m + 1\<rparr>)"
| metrics_complete: "metricsReach m \<Longrightarrow> 100 \<le> status \<Longrightarrow> status \<le> 599 \<Longrightarrow>
    metricsReach (completeRequest status n d generated m)"

definition balanced :: "proxyMetrics \<Rightarrow> bool" where
  "balanced m \<longleftrightarrow>
     requests m = completed m + word_of_int (activeRequests m) \<and> activeRequests m \<le> peakActive m \<and>
     length (latency m) = length latencyUpperBoundsMicros + 1 \<and> sum_list (latency m) = completed m \<and>
     length (statusClasses m) = 6 \<and> statusClasses m ! 0 = 0 \<and> sum_list (statusClasses m) = completed m \<and>
     length (failureKinds m) = proxyFailureKindCount"

lemma observe_total:
  assumes "length h = length latencyUpperBoundsMicros + 1"
  shows "length (observe d h) = length h \<and> sum_list (observe d h) = sum_list h + 1"
  using assms bucketIndex_le [of 0 latencyUpperBoundsMicros "max (Microseconds d) 0"]
  by (simp add: observe_def sum_list_bump)

lemma balanced_begin: "balanced m \<Longrightarrow> balanced (beginRequest n m)"
  by (simp add: balanced_def beginRequest_def)

lemma balanced_complete:
  assumes "balanced m" "100 \<le> status" "status \<le> 599"
  shows "balanced (completeRequest status n d generated m)"
proof -
  have c: "1 \<le> statusClass status" "statusClass status \<le> 5" "nat (statusClass status) < 6"
    using assms(2,3) by (simp_all add: statusClass_def)
  show ?thesis
    using assms(1) c observe_total [of "latency m" d]
    by (simp add: balanced_def completeRequest_def sum_list_bump) (simp add: bump_def)
qed

lemma metricsReach_balanced: "metricsReach m \<Longrightarrow> balanced m"
proof (induction rule: metricsReach.induct)
  case metrics_new
  show ?case
    by (simp add: balanced_def newProxyMetrics_def emptyHistogram_def sum_list_replicate)
next
  case (metrics_begin m n)
  then show ?case by (intro balanced_begin)
next
  case (metrics_complete m status n d generated)
  then show ?case by (intro balanced_complete)
qed (simp_all add: balanced_def recordAttempt_def recordRetry_def recordFailure_def)

subsection \<open>The histogram counts durations, and percentiles bound them\<close>

definition micros :: "duration \<Rightarrow> int" where "micros d = max (Microseconds d) 0"

definition bucketOf :: "duration \<Rightarrow> nat" where
  "bucketOf d = bucketIndex (micros d) 0 latencyUpperBoundsMicros"

lemma bounds_length: "length latencyUpperBoundsMicros = 16"
  by (simp add: latencyUpperBoundsMicros_def)

lemma bounds_mono:
  assumes "i \<le> j" "j < length latencyUpperBoundsMicros"
  shows "latencyUpperBoundsMicros ! i \<le> latencyUpperBoundsMicros ! j"
proof -
  have "sorted latencyUpperBoundsMicros" by (simp add: latencyUpperBoundsMicros_def)
  then show ?thesis using assms by (simp add: sorted_iff_nth_mono)
qed

lemma bucketOf_le: "bucketOf d \<le> length latencyUpperBoundsMicros"
  by (simp add: bucketOf_def bucketIndex_le)

lemma bucketOf_iff:
  assumes "i < length latencyUpperBoundsMicros"
  shows "bucketOf d \<le> i \<longleftrightarrow> micros d \<le> latencyUpperBoundsMicros ! i"
proof -
  consider "bucketOf d = length latencyUpperBoundsMicros"
      "\<forall>u \<in> set latencyUpperBoundsMicros. u < micros d"
    | k where "k < length latencyUpperBoundsMicros" "bucketOf d = k"
      "micros d \<le> latencyUpperBoundsMicros ! k" "\<forall>i < k. latencyUpperBoundsMicros ! i < micros d"
    using bucketIndex_spec [of 0 latencyUpperBoundsMicros "micros d"] by (auto simp: bucketOf_def)
  then show ?thesis
  proof cases
    case 1
    then show ?thesis using assms nth_mem [OF assms] by fastforce
  next
    case 2
    show ?thesis
    proof (cases "k \<le> i")
      case True
      then show ?thesis using 2 bounds_mono [OF True assms] by simp
    next
      case False
      then have "latencyUpperBoundsMicros ! i < micros d" using 2(4) by simp
      then show ?thesis using 2(2) False by simp
    qed
  qed
qed

definition inBucket :: "nat \<Rightarrow> duration list \<Rightarrow> nat" where
  "inBucket i ds = length (filter (\<lambda>d. bucketOf d = i) ds)"

definition histogram :: "duration list \<Rightarrow> latencyHistogram" where
  "histogram ds = fold observe ds emptyHistogram"

lemma fold_observe:
  assumes "h = map (\<lambda>i. of_nat (f i)) [0..<length latencyUpperBoundsMicros + 1]"
  shows "fold observe ds h =
    map (\<lambda>i. of_nat (f i + inBucket i ds)) [0..<length latencyUpperBoundsMicros + 1]"
  using assms
proof (induction ds arbitrary: h f)
  case Nil
  then show ?case by (simp add: inBucket_def)
next
  case (Cons d ds)
  have step: "observe d h = map (\<lambda>i. of_nat (f i + (if bucketOf d = i then 1 else 0)))
      [0..<length latencyUpperBoundsMicros + 1]"
    using bucketOf_le [of d]
    by (intro nth_equalityI)
      (auto simp: Cons.prems observe_def bump_def bucketOf_def micros_def nth_list_update simp del: upt_Suc)
  show ?case
    using Cons.IH [OF step] by (simp add: inBucket_def cong: map_cong)
qed

lemma histogram_counts:
  "histogram ds = map (\<lambda>i. of_nat (inBucket i ds)) [0..<length latencyUpperBoundsMicros + 1]"
proof -
  have "emptyHistogram = map (\<lambda>i. of_nat ((\<lambda>_. 0) i)) [0..<length latencyUpperBoundsMicros + 1]"
    by (simp add: emptyHistogram_def map_replicate_const)
  from fold_observe [OF this, of ds] show ?thesis by (simp add: histogram_def)
qed

text \<open>The number of durations in the buckets below an index.\<close>

definition below :: "nat \<Rightarrow> duration list \<Rightarrow> nat" where
  "below i ds = length (filter (\<lambda>d. bucketOf d < i) ds)"

lemma below_Suc: "below (Suc i) ds = below i ds + inBucket i ds"
  by (induction ds) (auto simp: below_def inBucket_def)

lemma below_le: "below i ds \<le> length ds"
  by (simp add: below_def)

lemma below_all: "length latencyUpperBoundsMicros < i \<Longrightarrow> below i ds = length ds"
  unfolding below_def using bucketOf_le by (subst filter_True) (auto intro: le_less_trans)

lemma sum_histogram: "sum_list (histogram ds) = of_nat (length ds)"
proof -
  have "sum_list (map (\<lambda>i. of_nat (inBucket i ds)) [0..<n]) = (of_nat (below n ds) :: u64)" for n
    by (induction n) (simp_all add: below_Suc, simp add: below_def)
  then show ?thesis by (simp add: histogram_counts below_all del: upt_Suc)
qed

lemma percentileLoop_stops:
  assumes "length ds < 2 ^ 64" "t \<le> length ds" "index < length latencyUpperBoundsMicros + 1"
    and "below index ds < t"
  shows "\<exists>k. index \<le> k \<and> k < length latencyUpperBoundsMicros + 1 \<and> below k ds < t \<and>
    t \<le> below (Suc k) ds \<and>
    percentileLoop index (of_nat (below index ds)) (of_nat t)
      (map (\<lambda>i. of_nat (inBucket i ds)) [index..<length latencyUpperBoundsMicros + 1]) =
    latencyUpperBoundsMicros ! min k (length latencyUpperBoundsMicros - 1)"
  using assms(3,4)
proof (induction "length latencyUpperBoundsMicros - index" arbitrary: index)
  case 0
  then have i: "index = length latencyUpperBoundsMicros" by simp
  have "t \<le> below (Suc index) ds" using assms(2) by (simp add: i below_all)
  moreover from this have "\<not> (of_nat (below (Suc index) ds) :: u64) < of_nat t"
    using assms(1,2) below_le [of "Suc index" ds] by (simp add: u64_less)
  ultimately show ?case using 0(3) by (intro exI [of _ index]) (simp add: i below_Suc)
next
  case (Suc x)
  have cmp: "(of_nat (below (Suc index) ds) :: u64) < of_nat t \<longleftrightarrow> below (Suc index) ds < t"
    using assms(1,2) below_le [of "Suc index" ds] by (simp add: u64_less)
  have unfolded: "[index..<length latencyUpperBoundsMicros + 1] =
      index # [Suc index..<length latencyUpperBoundsMicros + 1]"
    using Suc.prems(1) by (simp add: upt_conv_Cons del: upt_Suc)
  show ?case
  proof (cases "below (Suc index) ds < t")
    case True
    have "Suc index < length latencyUpperBoundsMicros + 1" using Suc.hyps(2) by simp
    moreover have "x = length latencyUpperBoundsMicros - Suc index" using Suc.hyps(2) by simp
    ultimately obtain k where
      "Suc index \<le> k" "k < length latencyUpperBoundsMicros + 1" "below k ds < t" "t \<le> below (Suc k) ds"
      "percentileLoop (Suc index) (of_nat (below (Suc index) ds)) (of_nat t)
        (map (\<lambda>i. of_nat (inBucket i ds)) [Suc index..<length latencyUpperBoundsMicros + 1]) =
        latencyUpperBoundsMicros ! min k (length latencyUpperBoundsMicros - 1)"
      using Suc.hyps(1) [OF _ _ True] by blast
    moreover have "(of_nat (below index ds) :: u64) + of_nat (inBucket index ds) =
        of_nat (below (Suc index) ds)" by (simp add: below_Suc)
    ultimately show ?thesis
      using True cmp unfolding unfolded by (intro exI [of _ k]) (simp del: upt_Suc)
  next
    case False
    moreover have "(of_nat (below index ds) :: u64) + of_nat (inBucket index ds) =
        of_nat (below (Suc index) ds)" by (simp add: below_Suc)
    ultimately show ?thesis
      using Suc.prems Suc.hyps(2) cmp unfolding unfolded
      by (intro exI [of _ index]) (auto simp: min_def simp del: upt_Suc)
  qed
qed

definition atMost :: "int \<Rightarrow> duration list \<Rightarrow> nat" where
  "atMost bound ds = length (filter (\<lambda>d. micros d \<le> bound) ds)"

lemma below_bound:
  "i < length latencyUpperBoundsMicros \<Longrightarrow> below (Suc i) ds = atMost (latencyUpperBoundsMicros ! i) ds"
  by (simp add: below_def atMost_def less_Suc_eq_le bucketOf_iff)

subsection \<open>Properties\<close>

text \<open>
  In every interleaving of the proxy's metric updates, the requests begun are the completed
  plus the active ones, the peak is never below the active number, and the latency histogram and
  the status classes each count every completed request once (as 64-bit counters).
\<close>

lemma metrics_balance:
  assumes "metricsReach m"
  shows "requests m = completed m + word_of_int (activeRequests m) \<and>
    activeRequests m \<le> peakActive m \<and> sum_list (latency m) = completed m \<and>
    Status1xx (requestSnapshot m) + Status2xx (requestSnapshot m) + Status3xx (requestSnapshot m) +
      Status4xx (requestSnapshot m) + Status5xx (requestSnapshot m) = completed m"
proof -
  have b: "balanced m" using metricsReach_balanced [OF assms] .
  then have l: "length (statusClasses m) = 6" by (simp add: balanced_def)
  obtain c0 c1 c2 c3 c4 c5 where c: "statusClasses m = [c0, c1, c2, c3, c4, c5]"
    using l by (auto simp: numeral_eq_Suc length_Suc_conv)
  then have "c1 + c2 + c3 + c4 + c5 = completed m" using b by (auto simp: balanced_def add.assoc)
  then show ?thesis using b by (simp add: balanced_def requestSnapshot_def c)
qed

lemma metrics_balance_instance:
  "requests (completeRequest 204 0 5000 False (beginRequest 7 newProxyMetrics)) = 1 \<and>
   completed (completeRequest 204 0 5000 False (beginRequest 7 newProxyMetrics)) = 1"
  using metrics_balance [OF metrics_complete [OF metrics_begin [OF metrics_new], of 204 0 5000 False 7]]
  by (simp add: completeRequest_def beginRequest_def newProxyMetrics_def)

text \<open>
  A percentile estimate bounds what it claims to: with target rank \<open>t\<close>, at least \<open>t\<close> of the
  observed durations are at most the estimate and fewer than \<open>t\<close> are at most the bucket bound before
  it; only when the rank falls into the overflow bucket is the estimate the largest bound, exceeded
  by all but fewer than \<open>t\<close>.
\<close>

lemma percentile_bounds:
  assumes "length ds < 2 ^ 64" "1 \<le> t" "t \<le> length ds"
    and "b = percentileEstimate (\<lambda>_. of_nat t) (histogram ds)"
  shows "(\<exists>k < length latencyUpperBoundsMicros. b = latencyUpperBoundsMicros ! k \<and> t \<le> atMost b ds \<and>
      (0 < k \<longrightarrow> atMost (latencyUpperBoundsMicros ! (k - 1)) ds < t)) \<or>
    b = 10000000 \<and> atMost b ds < t"
proof -
  have "(of_nat (length ds) :: u64) \<noteq> 0"
    using assms(1-3) by (auto simp: u64_eq_0)
  then have b: "b = percentileLoop 0 (of_nat (below 0 ds)) (of_nat t)
      (map (\<lambda>i. of_nat (inBucket i ds)) [0..<length latencyUpperBoundsMicros + 1])"
    unfolding histogram_counts [symmetric]
    using assms(4) by (simp add: percentileEstimate_def sum_histogram Let_def below_def)
  obtain k where k: "k < length latencyUpperBoundsMicros + 1" "below k ds < t" "t \<le> below (Suc k) ds"
      "b = latencyUpperBoundsMicros ! min k (length latencyUpperBoundsMicros - 1)"
    using percentileLoop_stops [of ds t 0] assms(1-3) b by (auto simp: below_def)
  show ?thesis
  proof (cases "k < length latencyUpperBoundsMicros")
    case True
    then have "b = latencyUpperBoundsMicros ! k" using k(4) by (auto simp: min_def)
    moreover have "0 < k \<longrightarrow> atMost (latencyUpperBoundsMicros ! (k - 1)) ds < t"
      using k(2) True below_bound [of "k - 1" ds] by auto
    ultimately show ?thesis using True k(3) below_bound [OF True, of ds] by auto
  next
    case False
    then have "k = 16" "b = latencyUpperBoundsMicros ! 15" using k(1,4) by (simp_all add: bounds_length)
    then show ?thesis
      using k(2) below_bound [of 15 ds] by (simp add: bounds_length latencyUpperBoundsMicros_def)
  qed
qed

lemma percentile_bounds_instance:
  "percentileEstimate (\<lambda>_. of_nat 2) (histogram [90000, 240000, 700000]) = 250 \<and>
   ((\<exists>k < length latencyUpperBoundsMicros. 250 = latencyUpperBoundsMicros ! k \<and>
      2 \<le> atMost 250 [90000, 240000, 700000] \<and>
      (0 < k \<longrightarrow> atMost (latencyUpperBoundsMicros ! (k - 1)) [90000, 240000, 700000] < 2)) \<or>
    250 = (10000000 :: int) \<and> atMost 250 [90000, 240000, 700000] < 2)"
proof -
  have e: "percentileEstimate (\<lambda>_. of_nat 2) (histogram [90000, 240000, 700000]) = 250"
    by code_simp
  show ?thesis
    using percentile_bounds [of "[90000, 240000, 700000]" 2 250] e by simp
qed

end
