(* ===== verification/Observability.thy ===== *)
theory Observability
  imports Metrics "HOL-Library.Multiset" "HOL-Library.Sublist"
begin

text \<open>
  \<^verbatim>\<open>src/src/observability.go\<close>: the event ledger (a ring buffer), the hub that fans events out to
  bounded subscriber queues, and the ordered publication of events.

  The ledger refines the list of the most recent events; the hub's map of subscribers is an
  association list from identifiers to queued events. Sequence numbers are 64-bit words. The
  registry of servers (\<^verbatim>\<open>setServers\<close>, \<^verbatim>\<open>serverSnapshots\<close>) belongs to the TCP servers and is not
  modelled.
\<close>

definition maxLedgerCapacity :: int where "maxLedgerCapacity = 1000000"
definition maxSSESubscribers :: int where "maxSSESubscribers = 1024"
definition maxSubscriberQueue :: int where "maxSubscriberQueue = 4096"
definition maxQueuedSSEEvents :: int where "maxQueuedSSEEvents = 1000000"

datatype eventType =
    eventRequestStarted | eventBackendSelected | eventAttemptFailed | eventRetryScheduled
  | eventRequestCompleted | eventCircuitTransition | eventHealthTransition
  | eventFixtureTransition

record decisionEvent =
  Sequence :: u64
  ElapsedMicros :: int
  EventType :: eventType
  RequestID :: string
  RouteAlias :: string
  BackendAlias :: string
  EventReason :: string
  PreviousState :: string
  NewState :: string
  Attempt :: int
  Status :: int
  DurationMicros :: int

definition zeroEvent :: "eventType \<Rightarrow> decisionEvent" where
  "zeroEvent t =
     \<lparr>Sequence = 0, ElapsedMicros = 0, EventType = t, RequestID = [], RouteAlias = [],
      BackendAlias = [], EventReason = [], PreviousState = [], NewState = [], Attempt = 0,
      Status = 0, DurationMicros = 0\<rparr>"

subsection \<open>The ledger\<close>

record eventLedger =
  entries :: "decisionEvent list"
  start :: nat
  ledgerCount :: nat
  ledgerSequence :: u64

record ledgerSnapshot =
  Capacity :: int
  SnapCount :: int
  OldestSequence :: u64
  LatestSequence :: u64
  Gap :: bool
  Events :: "decisionEvent list"

definition newEventLedger :: "int \<Rightarrow> string + eventLedger" where
  "newEventLedger capacity =
     (if capacity \<le> 0 \<or> capacity > maxLedgerCapacity
        then Inl ''ledger capacity must be between 1 and %d''
      else Inr \<lparr>entries = replicate (nat capacity) (zeroEvent eventRequestStarted), start = 0,
                ledgerCount = 0, ledgerSequence = 0\<rparr>)"

definition ledgerAppend :: "decisionEvent \<Rightarrow> duration \<Rightarrow> eventLedger \<Rightarrow> decisionEvent \<times> eventLedger" where
  "ledgerAppend event elapsed l =
     (let sq = ledgerSequence l + 1;
          event' = event\<lparr>Sequence := sq, ElapsedMicros := max (Microseconds elapsed) 0\<rparr>;
          l1 = l\<lparr>ledgerSequence := sq\<rparr> in
      (event',
       if ledgerCount l < length (entries l) then
         (let index = (start l + ledgerCount l) mod length (entries l) in
          l1\<lparr>entries := (entries l)[index := event'], ledgerCount := ledgerCount l + 1\<rparr>)
       else
         l1\<lparr>entries := (entries l)[start l := event'],
            start := (start l + 1) mod length (entries l)\<rparr>))"

definition snapshotSince :: "u64 \<Rightarrow> eventLedger \<Rightarrow> ledgerSnapshot" where
  "snapshotSince after l =
     (let cap = length (entries l) in
      if ledgerCount l = 0 then
        \<lparr>Capacity = int cap, SnapCount = int (ledgerCount l), OldestSequence = 0,
         LatestSequence = 0, Gap = False, Events = []\<rparr>
      else
        (let oldest = Sequence (entries l ! start l);
             latest = Sequence (entries l ! ((start l + ledgerCount l - 1) mod cap));
             futureCursor = (after > latest);
             effectiveAfter = (if futureCursor then oldest - 1 else after) in
         \<lparr>Capacity = int cap, SnapCount = int (ledgerCount l), OldestSequence = oldest,
          LatestSequence = latest,
          Gap = (futureCursor \<or> (after \<noteq> 0 \<and> oldest > 1 \<and> after < oldest - 1)),
          Events = filter (\<lambda>event. Sequence event > effectiveAfter)
            (map (\<lambda>offset. entries l ! ((start l + offset) mod cap)) [0..<ledgerCount l])\<rparr>))"

subsection \<open>The hub\<close>

record sseHub =
  subscribers :: "(u64 \<times> decisionEvent list) list"
  nextSubscriber :: u64
  maxSubscribers :: int
  queueCapacity :: int
  dropped :: u64
  hubClosed :: bool

definition newSSEHub :: "int \<Rightarrow> int \<Rightarrow> string + sseHub" where
  "newSSEHub maxSubs queueCap =
     (if maxSubs \<le> 0 \<or> maxSubs > maxSSESubscribers \<or> queueCap \<le> 0 \<or> queueCap > maxSubscriberQueue \<or>
         maxSubs > maxQueuedSSEEvents div queueCap
        then Inl ''SSE subscriber and queue bounds exceed the %d-event aggregate limit''
      else Inr \<lparr>subscribers = [], nextSubscriber = 0, maxSubscribers = maxSubs,
                queueCapacity = queueCap, dropped = 0, hubClosed = False\<rparr>)"

datatype subscribeError = HubClosed | SubscriberLimit

definition subscribe :: "sseHub \<Rightarrow> (subscribeError + u64) \<times> sseHub" where
  "subscribe h =
     (if hubClosed h then (Inl HubClosed, h)
      else if int (length (subscribers h)) \<ge> maxSubscribers h then (Inl SubscriberLimit, h)
      else
        (let ident = nextSubscriber h + 1 in
         (Inr ident,
          h\<lparr>nextSubscriber := ident,
            subscribers := (ident, []) # filter (\<lambda>(i, _). i \<noteq> ident) (subscribers h)\<rparr>)))"

definition unsubscribe :: "u64 \<Rightarrow> sseHub \<Rightarrow> sseHub" where
  "unsubscribe ident h = h\<lparr>subscribers := filter (\<lambda>(i, _). i \<noteq> ident) (subscribers h)\<rparr>"

text \<open>The non-blocking send to one queue.\<close>

definition enqueue :: "int \<Rightarrow> decisionEvent \<Rightarrow> decisionEvent list \<Rightarrow> decisionEvent list" where
  "enqueue cap event q = (if int (length q) < cap then q @ [event] else q)"

definition hubPublish :: "decisionEvent \<Rightarrow> sseHub \<Rightarrow> sseHub" where
  "hubPublish event h =
     h\<lparr>subscribers := map (\<lambda>(i, q). (i, enqueue (queueCapacity h) event q)) (subscribers h),
       dropped := dropped h +
         of_nat (length (filter (\<lambda>(_, q). \<not> int (length q) < queueCapacity h) (subscribers h)))\<rparr>"

definition hubStats :: "sseHub \<Rightarrow> int \<times> u64" where
  "hubStats h = (int (length (subscribers h)), dropped h)"

definition hubClose :: "sseHub \<Rightarrow> sseHub" where
  "hubClose h = (if hubClosed h then h else h\<lparr>hubClosed := True, subscribers := []\<rparr>)"

text \<open>A subscriber takes the next event from its queue.\<close>

definition receiveEvent :: "u64 \<Rightarrow> sseHub \<Rightarrow> decisionEvent option \<times> sseHub" where
  "receiveEvent ident h =
     (case map_of (subscribers h) ident of
        Some (e # q) \<Rightarrow>
          (Some e, h\<lparr>subscribers := map (\<lambda>(i, q'). (i, if i = ident then tl q' else q')) (subscribers h)\<rparr>)
      | _ \<Rightarrow> (None, h))"

subsection \<open>The ledger as a list of recent events\<close>

definition ledgerOk :: "eventLedger \<Rightarrow> bool" where
  "ledgerOk l \<longleftrightarrow>
     0 < length (entries l) \<and> start l < length (entries l) \<and> ledgerCount l \<le> length (entries l) \<and>
     (ledgerCount l < length (entries l) \<longrightarrow> start l = 0)"

definition recent :: "eventLedger \<Rightarrow> decisionEvent list" where
  "recent l = map (\<lambda>offset. entries l ! ((start l + offset) mod length (entries l))) [0..<ledgerCount l]"

definition stamp :: "decisionEvent \<Rightarrow> duration \<Rightarrow> eventLedger \<Rightarrow> decisionEvent" where
  "stamp event elapsed l =
     event\<lparr>Sequence := ledgerSequence l + 1, ElapsedMicros := max (Microseconds elapsed) 0\<rparr>"

definition lastN :: "nat \<Rightarrow> 'a list \<Rightarrow> 'a list" where
  "lastN n xs = drop (length xs - n) xs"

lemma ledgerAppend_event: "fst (ledgerAppend event elapsed l) = stamp event elapsed l"
  by (simp add: ledgerAppend_def stamp_def Let_def)

lemma ledgerAppend_ok: "ledgerOk l \<Longrightarrow> ledgerOk (snd (ledgerAppend event elapsed l))"
  by (auto simp: ledgerOk_def ledgerAppend_def Let_def)

lemma ledgerAppend_capacity [simp]:
  "length (entries (snd (ledgerAppend event elapsed l))) = length (entries l)"
  by (simp add: ledgerAppend_def Let_def)

lemma map_ring:
  "map (\<lambda>offset. xs ! ((s + offset) mod length xs)) [0..<length xs] = rotate s xs"
  by (rule nth_equalityI) (simp_all add: nth_rotate)

lemma rotate_overwrite:
  assumes "s < length xs"
  shows "rotate ((s + 1) mod length xs) (xs[s := x]) = tl (rotate s xs) @ [x]"
proof -
  have "rotate ((s + 1) mod length xs) (xs[s := x]) = rotate (Suc s) (xs[s := x])"
    using rotate_conv_mod [of "Suc s" "xs[s := x]"] by simp
  also have "\<dots> = rotate1 (rotate s (xs[s := x]))" by simp
  also have "rotate s (xs[s := x]) = x # drop (Suc s) xs @ take s xs"
    using assms by (simp add: rotate_drop_take id_take_nth_drop Cons_nth_drop_Suc [symmetric])
  also have "rotate1 \<dots> = tl (rotate s xs) @ [x]"
    using assms by (simp add: rotate_drop_take drop_Suc [symmetric] tl_drop)
  finally show ?thesis .
qed

lemma recent_unfilled:
  assumes "ledgerOk l" "ledgerCount l < length (entries l)"
  shows "recent l = take (ledgerCount l) (entries l)"
  using assms by (intro nth_equalityI) (auto simp: recent_def ledgerOk_def)

lemma recent_full:
  assumes "ledgerOk l" "\<not> ledgerCount l < length (entries l)"
  shows "recent l = rotate (start l) (entries l)"
proof -
  have "ledgerCount l = length (entries l)" using assms by (simp add: ledgerOk_def)
  then show ?thesis by (simp add: recent_def map_ring)
qed

lemma length_recent [simp]: "length (recent l) = ledgerCount l"
  by (simp add: recent_def)

lemma recent_append:
  assumes "ledgerOk l"
  shows "recent (snd (ledgerAppend event elapsed l)) =
    lastN (length (entries l)) (recent l @ [stamp event elapsed l])"
proof (cases "ledgerCount l < length (entries l)")
  case True
  let ?l = "snd (ledgerAppend event elapsed l)"
  have "recent ?l = take (ledgerCount l) (entries l) @ [stamp event elapsed l]"
    using True assms
    by (intro nth_equalityI)
      (auto simp: recent_def ledgerAppend_def ledgerOk_def Let_def stamp_def nth_append less_Suc_eq)
  then show ?thesis
    using True by (simp add: recent_unfilled [OF assms True] lastN_def min_def)
next
  case False
  then have n: "ledgerCount l = length (entries l)" using assms by (simp add: ledgerOk_def)
  have "recent (snd (ledgerAppend event elapsed l)) =
      rotate ((start l + 1) mod length (entries l)) ((entries l)[start l := stamp event elapsed l])"
    using n by (simp add: recent_def ledgerAppend_def Let_def stamp_def map_ring [symmetric])
  also have "\<dots> = tl (rotate (start l) (entries l)) @ [stamp event elapsed l]"
    using assms by (intro rotate_overwrite) (simp add: ledgerOk_def)
  also have "\<dots> = lastN (length (entries l)) (recent l @ [stamp event elapsed l])"
    using assms by (simp add: recent_full [OF assms False] lastN_def ledgerOk_def drop_Suc
        Suc_diff_le)
  finally show ?thesis .
qed

subsection \<open>Bounded logs\<close>

text \<open>
  The contract of a bounded log: it shows the last \<open>cap\<close> of the items put into it, each stamped with
  the number the log gives it. The lemmas of the contract say what a sequence of insertions leaves.
\<close>

lemma lastN_lastN: "lastN n (lastN n xs @ ys) = lastN n (xs @ ys)"
proof (cases "length xs \<le> n")
  case True
  then show ?thesis by (simp add: lastN_def)
next
  case False
  then have "lastN n (lastN n xs @ ys) = drop (length ys) (drop (length xs - n) (xs @ ys))"
    by (simp add: lastN_def)
  also have "\<dots> = drop (length (xs @ ys) - n) (xs @ ys)"
    using False by (simp only: drop_drop length_append) (simp add: add.commute)
  finally show ?thesis by (simp add: lastN_def)
qed

lemma lastN_short: "length xs \<le> n \<Longrightarrow> lastN n xs = xs"
  by (simp add: lastN_def)

lemma length_lastN: "length (lastN n xs) = min n (length xs)"
  by (simp add: lastN_def)

locale bounded_log =
  fixes ok :: "'s \<Rightarrow> bool"
    and cap :: "'s \<Rightarrow> nat"
    and view :: "'s \<Rightarrow> 'e list"
    and number :: "'s \<Rightarrow> u64"
    and mark :: "u64 \<Rightarrow> 'x \<Rightarrow> 'e"
    and put :: "'x \<Rightarrow> 's \<Rightarrow> 's"
  assumes put_ok: "ok s \<Longrightarrow> ok (put x s)"
    and put_cap: "ok s \<Longrightarrow> cap (put x s) = cap s"
    and cap_positive: "ok s \<Longrightarrow> 0 < cap s"
    and put_number: "ok s \<Longrightarrow> number (put x s) = number s + 1"
    and put_view: "ok s \<Longrightarrow> view (put x s) = lastN (cap s) (view s @ [mark (number s + 1) x])"
begin

fun marked :: "u64 \<Rightarrow> 'x list \<Rightarrow> 'e list" where
  "marked n [] = []"
| "marked n (x # xs) = mark (n + 1) x # marked (n + 1) xs"

lemma puts_ok:
  "ok s \<Longrightarrow> ok (fold put xs s) \<and> cap (fold put xs s) = cap s \<and>
     number (fold put xs s) = number s + of_nat (length xs)"
proof (induction xs arbitrary: s)
  case Nil
  then show ?case by simp
next
  case (Cons x xs)
  then show ?case using Cons.IH [OF put_ok [OF Cons.prems, of x]]
    by (simp add: put_cap put_number algebra_simps)
qed

lemma puts_view:
  "ok s \<Longrightarrow> length (view s) \<le> cap s \<Longrightarrow> view (fold put xs s) = lastN (cap s) (view s @ marked (number s) xs)"
proof (induction xs arbitrary: s)
  case Nil
  then show ?case by (simp add: lastN_short)
next
  case (Cons x xs)
  have "view (fold put (x # xs) s) =
      lastN (cap s) (lastN (cap s) (view s @ [mark (number s + 1) x]) @ marked (number s + 1) xs)"
    using Cons.IH [OF put_ok [OF Cons.prems(1), of x]] Cons.prems(1)
    by (simp add: put_cap put_number put_view length_lastN)
  also have "\<dots> = lastN (cap s) ((view s @ [mark (number s + 1) x]) @ marked (number s + 1) xs)"
    by (rule lastN_lastN)
  finally show ?case by simp
qed

end

definition stamped :: "u64 \<Rightarrow> decisionEvent \<times> duration \<Rightarrow> decisionEvent" where
  "stamped n x = (fst x)\<lparr>Sequence := n, ElapsedMicros := max (Microseconds (snd x)) 0\<rparr>"

definition put :: "decisionEvent \<times> duration \<Rightarrow> eventLedger \<Rightarrow> eventLedger" where
  "put x l = snd (ledgerAppend (fst x) (snd x) l)"

interpretation ledger: bounded_log ledgerOk "\<lambda>l. length (entries l)" recent ledgerSequence stamped put
proof
  fix l :: eventLedger and x :: "decisionEvent \<times> duration"
  assume ok: "ledgerOk l"
  show "ledgerOk (put x l)" using ok by (simp add: put_def ledgerAppend_ok)
  show "length (entries (put x l)) = length (entries l)" by (simp add: put_def)
  show "0 < length (entries l)" using ok by (simp add: ledgerOk_def)
  show "ledgerSequence (put x l) = ledgerSequence l + 1"
    by (simp add: put_def ledgerAppend_def Let_def)
  show "recent (put x l) =
      lastN (length (entries l)) (recent l @ [stamped (ledgerSequence l + 1) x])"
    using recent_append [OF ok] by (simp add: put_def stamp_def stamped_def)
qed

text \<open>All events published so far, numbered from one.\<close>

definition numbered :: "(decisionEvent \<times> duration) list \<Rightarrow> decisionEvent list" where
  "numbered xs = map (\<lambda>i. stamped (of_nat (Suc i)) (xs ! i)) [0..<length xs]"

lemma marked_numbered:
  "ledger.marked (of_nat n) xs = map (\<lambda>i. stamped (of_nat (Suc (n + i))) (xs ! i)) [0..<length xs]"
proof (induction xs arbitrary: n)
  case Nil
  then show ?case by simp
next
  case (Cons x xs)
  have "[0..<length (x # xs)] = 0 # map Suc [0..<length xs]" by (simp add: map_Suc_upt upt_conv_Cons del: upt_Suc)
  then show ?case using Cons.IH [of "Suc n"] by (simp add: add.commute del: upt_Suc)
qed

lemma newEventLedger_Inr:
  assumes "newEventLedger capacity = Inr l"
  shows "ledgerOk l \<and> length (entries l) = nat capacity \<and> recent l = [] \<and> ledgerSequence l = 0 \<and>
    0 < capacity \<and> capacity \<le> maxLedgerCapacity"
  using assms by (auto simp: newEventLedger_def ledgerOk_def recent_def split: if_splits)

lemma ledger_holds:
  assumes "newEventLedger capacity = Inr l0" "l = fold put xs l0"
  shows "ledgerOk l \<and> length (entries l) = nat capacity \<and> recent l = lastN (nat capacity) (numbered xs)"
proof -
  note new = newEventLedger_Inr [OF assms(1)]
  have "ledger.marked 0 xs = numbered xs"
    using marked_numbered [of 0 xs] by (simp add: numbered_def)
  then show ?thesis
    using new ledger.puts_ok [of l0 xs] ledger.puts_view [of l0 xs] assms(2) by simp
qed

lemma length_numbered [simp]: "length (numbered xs) = length xs"
  by (simp add: numbered_def)

lemma Sequence_numbered: "i < length xs \<Longrightarrow> Sequence (numbered xs ! i) = of_nat (Suc i)"
  by (simp add: numbered_def stamped_def)

lemma filter_upt_ge: "filter (\<lambda>i. a \<le> i) [k..<n] = [max a k..<n]"
  by (induction n) (auto simp: max_def)

lemma filter_numbered:
  assumes "length xs < 2 ^ 64" "a < 2 ^ 64"
  shows "filter (\<lambda>e. Sequence e > of_nat a) (drop k (numbered xs)) = drop (max a k) (numbered xs)"
proof -
  have "(of_nat a < (of_nat (Suc i) :: u64)) = (a \<le> i)" if "i < length xs" for i
    using that assms u64_less [of a "Suc i"] by (simp add: less_Suc_eq_le)
  then have "filter (\<lambda>i. of_nat a < (of_nat (Suc i) :: u64)) [k..<length xs] =
      filter (\<lambda>i. a \<le> i) [k..<length xs]"
    by (intro filter_cong) auto
  then show ?thesis
    by (simp add: numbered_def drop_map filter_map o_def stamped_def filter_upt_ge)
qed

lemma snapshotSince_recent:
  assumes "ledgerOk l" "recent l \<noteq> []"
  shows "snapshotSince after l =
    (let oldest = Sequence (hd (recent l)); latest = Sequence (last (recent l)) in
     \<lparr>Capacity = int (length (entries l)), SnapCount = int (ledgerCount l), OldestSequence = oldest,
      LatestSequence = latest,
      Gap = (after > latest \<or> (after \<noteq> 0 \<and> oldest > 1 \<and> after < oldest - 1)),
      Events = filter (\<lambda>e. Sequence e > (if after > latest then oldest - 1 else after)) (recent l)\<rparr>)"
proof -
  have c: "ledgerCount l \<noteq> 0" using assms(2) by (auto simp: recent_def)
  have "hd (recent l) = entries l ! start l"
    using assms c by (simp add: hd_conv_nth) (simp add: recent_def ledgerOk_def)
  moreover have "last (recent l) = entries l ! ((start l + ledgerCount l - 1) mod length (entries l))"
    using assms c by (simp add: last_conv_nth) (simp add: recent_def)
  moreover have "map (\<lambda>offset. entries l ! ((start l + offset) mod length (entries l))) [0..<ledgerCount l] =
      recent l" by (simp add: recent_def)
  ultimately show ?thesis using c by (simp add: snapshotSince_def Let_def)
qed

subsection \<open>Properties of the ledger\<close>

text \<open>
  C31: the ring buffer refines the list of all published events, numbered from one: after any
  events it holds the last \<^verbatim>\<open>capacity\<close> of them, and a reader that resumes after a cursor gets
  exactly the events published since, unless the snapshot reports a gap; a gap is reported exactly
  when the cursor lies in the future or some event after it has been overwritten, and then the
  reader gets everything that is retained.
\<close>

theorem ledger_replay:
  assumes "newEventLedger capacity = Inr l0" "length xs < 2 ^ 64" "after < 2 ^ 64"
    and "s = snapshotSince (of_nat after) (fold put xs l0)"
  shows "Events s = (if Gap s \<or> after = 0 then lastN (nat capacity) (numbered xs)
                     else drop after (numbered xs)) \<and>
    (Gap s \<longleftrightarrow> xs \<noteq> [] \<and> (length xs < after \<or> 0 < after \<and> after + nat capacity < length xs)) \<and>
    int (length (Events s)) \<le> Capacity s \<and> Capacity s = capacity"
proof -
  let ?l = "fold put xs l0" and ?c = "nat capacity"
  define k where "k = length xs - ?c"
  note new = newEventLedger_Inr [OF assms(1)]
  have held: "ledgerOk ?l" "length (entries ?l) = ?c" "recent ?l = drop k (numbered xs)"
    using ledger_holds [OF assms(1) refl, of xs] by (simp_all add: lastN_def k_def)
  show ?thesis
  proof (cases "xs = []")
    case True
    then have "ledgerCount ?l = 0" using held(3) length_recent [of ?l] by simp
    then show ?thesis
      using True new held(2) assms(4) by (simp add: snapshotSince_def Let_def lastN_def numbered_def)
  next
    case False
    have k: "k < length xs" using False new by (simp add: k_def)
    have ne: "recent ?l \<noteq> []" using k held(3) by simp
    have oldest: "Sequence (hd (recent ?l)) = of_nat (Suc k)"
      using k by (simp add: held(3) hd_drop_conv_nth Sequence_numbered)
    have latest: "Sequence (last (recent ?l)) = of_nat (length xs)"
      using k False by (simp add: held(3) last_conv_nth Sequence_numbered del: of_nat_Suc)
    have future: "(of_nat after :: u64) > of_nat (length xs) \<longleftrightarrow> length xs < after"
      using assms(2,3) by (simp add: u64_less)
    have behind: "(of_nat after :: u64) \<noteq> 0 \<and> of_nat (Suc k) > (1 :: u64) \<and>
        (of_nat after :: u64) < of_nat (Suc k) - 1 \<longleftrightarrow> 0 < after \<and> after < k"
      using assms(2,3) k u64_less [of 1 "Suc k"] u64_less [of after k] by (auto simp: u64_eq_0)
    have gap: "Gap s \<longleftrightarrow> length xs < after \<or> 0 < after \<and> after < k"
      using future behind by (simp add: assms(4) snapshotSince_recent [OF held(1) ne] Let_def oldest latest)
    have "Events s = filter (\<lambda>e. Sequence e > of_nat (if length xs < after then k else after)) (recent ?l)"
      by (simp add: assms(4) snapshotSince_recent [OF held(1) ne] Let_def oldest latest future)
    then have events: "Events s = drop (max (if length xs < after then k else after) k) (numbered xs)"
      using k assms(2,3) by (simp add: held(3) filter_numbered)
    have "Capacity s = capacity"
      using new held(2) by (simp add: assms(4) snapshotSince_recent [OF held(1) ne] Let_def)
    then show ?thesis
      using False gap events k new by (auto simp: k_def lastN_def max_def)
  qed
qed

text \<open>Three events in a ledger of two: after the second, a reader gets the third and no gap.\<close>

theorem ledger_replay_witness:
  "let e = zeroEvent eventBackendSelected;
       xs = [(e, 1000), (e, 2000), (e, 3000)];
       s = (case newEventLedger 2 of Inr l \<Rightarrow> snapshotSince 2 (fold put xs l)) in
   Events s = [e\<lparr>Sequence := 3, ElapsedMicros := 3\<rparr>] \<and> \<not> Gap s"
proof -
  define e where "e = zeroEvent eventBackendSelected"
  obtain l0 where l0: "newEventLedger 2 = Inr l0"
    by (simp add: newEventLedger_def maxLedgerCapacity_def)
  define s where "s = snapshotSince (of_nat 2) (fold put [(e, 1000), (e, 2000), (e, 3000)] l0)"
  have "Events s = drop 2 (numbered [(e, 1000), (e, 2000), (e, 3000)]) \<and> \<not> Gap s"
    using ledger_replay [OF l0 _ _ s_def] by simp
  then show ?thesis
    by (simp add: l0 s_def e_def [symmetric] numbered_def stamped_def Microseconds_def
        numeral_eq_Suc upt_rec Let_def)
qed

subsection \<open>The hub in every interleaving\<close>

inductive hubStep :: "sseHub \<Rightarrow> sseHub \<Rightarrow> bool" where
  hub_subscribe: "hubStep h (snd (subscribe h))"
| hub_unsubscribe: "hubStep h (unsubscribe ident h)"
| hub_receive: "hubStep h (snd (receiveEvent ident h))"
| hub_close: "hubStep h (hubClose h)"

definition hubOk :: "sseHub \<Rightarrow> bool" where
  "hubOk h \<longleftrightarrow>
     int (length (subscribers h)) \<le> maxSubscribers h \<and> distinct (map fst (subscribers h)) \<and>
     (\<forall>(i, q) \<in> set (subscribers h). int (length q) \<le> queueCapacity h) \<and>
     maxSubscribers h * queueCapacity h \<le> maxQueuedSSEEvents \<and>
     0 < maxSubscribers h \<and> 0 < queueCapacity h \<and> (hubClosed h \<longrightarrow> subscribers h = [])"

lemma filter_other_ids:
  "map fst (filter (\<lambda>(i, _). i \<noteq> k) xs) = filter (\<lambda>i. i \<noteq> k) (map fst xs)"
  by (induction xs) auto

lemma map_queues_fst: "map fst (map (\<lambda>(i, q). (i, f i q)) xs) = map fst xs"
  by (induction xs) auto

lemma filtered_room:
  "int (length xs) \<le> m \<Longrightarrow> int (length (filter P xs)) \<le> m"
  "\<not> m \<le> int (length xs) \<Longrightarrow> 1 + int (length (filter P xs)) \<le> m"
  using length_filter_le [of P xs] by linarith+

lemma newSSEHub_ok:
  assumes "newSSEHub maxSubs queueCap = Inr h"
  shows "hubOk h"
proof -
  have b: "0 < maxSubs" "0 < queueCap" "maxSubs \<le> maxQueuedSSEEvents div queueCap"
    using assms by (auto simp: newSSEHub_def split: if_splits)
  have "maxSubs * queueCap \<le> (maxQueuedSSEEvents div queueCap) * queueCap"
    using b by (intro mult_right_mono) auto
  also have "\<dots> \<le> maxQueuedSSEEvents"
    using div_mult_mod_eq [of maxQueuedSSEEvents queueCap] pos_mod_sign [OF b(2), of maxQueuedSSEEvents]
    by linarith
  finally show ?thesis
    using assms b by (auto simp: newSSEHub_def hubOk_def split: if_splits)
qed

lemma subscribe_ok: "hubOk h \<Longrightarrow> hubOk (snd (subscribe h))"
  by (auto simp: subscribe_def hubOk_def Let_def filter_other_ids add.commute filtered_room)

lemma unsubscribe_ok: "hubOk h \<Longrightarrow> hubOk (unsubscribe ident h)"
  by (auto simp: unsubscribe_def hubOk_def filter_other_ids filtered_room)

lemma queues_ok:
  assumes "hubOk h" "\<And>i q. (i, q) \<in> set (subscribers h) \<Longrightarrow> int (length (f i q)) \<le> queueCapacity h"
    and "h' = h\<lparr>subscribers := map (\<lambda>(i, q). (i, f i q)) (subscribers h)\<rparr>"
  shows "hubOk h'"
proof -
  have d: "distinct (map fst (map (\<lambda>(i, q). (i, f i q)) (subscribers h)))"
    using assms(1) unfolding map_queues_fst hubOk_def by simp
  then show ?thesis using assms(1,2) unfolding hubOk_def assms(3) by auto
qed

lemma receiveEvent_ok:
  assumes "hubOk h"
  shows "hubOk (snd (receiveEvent ident h))"
proof -
  have "hubOk (h\<lparr>subscribers := map (\<lambda>(i, q). (i, if i = ident then tl q else q)) (subscribers h)\<rparr>)"
    using assms by (intro queues_ok [OF assms _ refl]) (auto simp: hubOk_def)
  then show ?thesis using assms by (auto simp: receiveEvent_def split: option.splits list.splits)
qed

lemma hubPublish_ok:
  assumes "hubOk h"
  shows "hubOk (hubPublish event h)"
proof -
  have "hubOk (h\<lparr>subscribers :=
      map (\<lambda>(i, q). (i, enqueue (queueCapacity h) event q)) (subscribers h)\<rparr>)"
    using assms by (intro queues_ok [OF assms _ refl]) (auto simp: hubOk_def enqueue_def)
  then show ?thesis by (simp add: hubPublish_def hubOk_def)
qed

lemma hubStep_ok: "hubStep h h' \<Longrightarrow> hubOk h \<Longrightarrow> hubOk h'"
proof (induction rule: hubStep.induct)
  case (hub_close h)
  then show ?case by (auto simp: hubClose_def hubOk_def)
qed (simp_all add: subscribe_ok unsubscribe_ok receiveEvent_ok)

lemma hub_queued:
  assumes "hubOk h"
  shows "int (sum_list (map (\<lambda>(_, q). length q) (subscribers h))) \<le> maxQueuedSSEEvents"
proof -
  have "int (sum_list (map (\<lambda>(_, q). length q) xs)) \<le> int (length xs) * c"
    if "\<forall>(i, q) \<in> set xs. int (length q) \<le> c" for xs :: "(u64 \<times> decisionEvent list) list" and c
    using that by (induction xs) (auto simp: algebra_simps)
  then have "int (sum_list (map (\<lambda>(_, q). length q) (subscribers h))) \<le>
      int (length (subscribers h)) * queueCapacity h"
    using assms by (simp add: hubOk_def)
  also have "\<dots> \<le> maxSubscribers h * queueCapacity h"
    using assms by (intro mult_right_mono) (simp_all add: hubOk_def)
  finally show ?thesis using assms by (simp add: hubOk_def)
qed

subsection \<open>Publication\<close>

record observabilityConfig =
  LedgerCapacity :: int
  MaxSubscribers :: int
  SubscriberQueue :: int

definition defaultObservabilityConfig :: observabilityConfig where
  "defaultObservabilityConfig =
     \<lparr>LedgerCapacity = 2048, MaxSubscribers = 32, SubscriberQueue = 64\<rparr>"

record observability =
  startedAt :: time
  oLedger :: eventLedger
  oHub :: sseHub
  oMetrics :: proxyMetrics
  nextDelivery :: u64

definition newObservability :: "observabilityConfig \<Rightarrow> time \<Rightarrow> string + observability" where
  "newObservability c now =
     andThen (newEventLedger (LedgerCapacity c)) (\<lambda>l.
     andThen (newSSEHub (MaxSubscribers c) (SubscriberQueue c)) (\<lambda>h.
     Inr \<lparr>startedAt = now, oLedger = l, oHub = h, oMetrics = newProxyMetrics, nextDelivery = 1\<rparr>))"

text \<open>
  \<^verbatim>\<open>publish\<close> runs in many goroutines. Between its synchronisations it makes four steps: it appends the
  event to the ledger, waits until the event's number is the next to deliver, fans the event out to
  the hub, and passes the turn on. \<open>publish\<close> is their composition in a goroutine that is not
  interrupted; \<open>None\<close> stands for waiting for another one.
\<close>

definition publishAppend :: "decisionEvent \<Rightarrow> time \<Rightarrow> observability \<Rightarrow> decisionEvent \<times> observability" where
  "publishAppend event now o' =
     (let (event', l) = ledgerAppend event (Sub now (startedAt o')) (oLedger o') in
      (event', o'\<lparr>oLedger := l\<rparr>))"

definition itsTurn :: "decisionEvent \<Rightarrow> observability \<Rightarrow> bool" where
  "itsTurn event o' \<longleftrightarrow> Sequence event = nextDelivery o'"

definition publishFan :: "decisionEvent \<Rightarrow> observability \<Rightarrow> observability" where
  "publishFan event o' = o'\<lparr>oHub := hubPublish event (oHub o')\<rparr>"

definition publishAdvance :: "observability \<Rightarrow> observability" where
  "publishAdvance o' = o'\<lparr>nextDelivery := nextDelivery o' + 1\<rparr>"

definition publish ::
    "decisionEvent \<Rightarrow> time \<Rightarrow> observability \<Rightarrow> (decisionEvent \<times> observability) option" where
  "publish event now o' =
     (let (event', o1) = publishAppend event now o' in
      if itsTurn event' o1 then Some (event', publishAdvance (publishFan event' o1)) else None)"

definition healthStateName :: "bool \<Rightarrow> string" where
  "healthStateName b = (if b then ''healthy'' else ''unhealthy'')"

fun circuitStateName :: "circuitState \<Rightarrow> string" where
  "circuitStateName circuitClosed = ''closed''"
| "circuitStateName circuitOpen = ''open''"
| "circuitStateName circuitHalfOpen = ''half-open''"

definition circuitEvent :: "circuitTransition \<Rightarrow> decisionEvent" where
  "circuitEvent t = (zeroEvent eventCircuitTransition)
     \<lparr>BackendAlias := TransitionAlias t, EventReason := TransitionReason t,
      PreviousState := circuitStateName (From t), NewState := circuitStateName (To t)\<rparr>"

definition healthEvent :: "healthTransition \<Rightarrow> decisionEvent" where
  "healthEvent t = (zeroEvent eventHealthTransition)
     \<lparr>BackendAlias := HealthAlias t, EventReason := HealthReason t,
      PreviousState := healthStateName (FromHealthy t), NewState := healthStateName (ToHealthy t)\<rparr>"

definition recordCircuitTransition ::
    "circuitTransition \<Rightarrow> time \<Rightarrow> observability \<Rightarrow> (decisionEvent \<times> observability) option" where
  "recordCircuitTransition t now o' =
     (let m = oMetrics o' in
      publish (circuitEvent t) now
        (o'\<lparr>oMetrics := m\<lparr>circuitTransitions := circuitTransitions m + 1\<rparr>\<rparr>))"

definition recordHealthTransition ::
    "healthTransition \<Rightarrow> time \<Rightarrow> observability \<Rightarrow> (decisionEvent \<times> observability) option" where
  "recordHealthTransition t now o' =
     (let m = oMetrics o' in
      publish (healthEvent t) now
        (o'\<lparr>oMetrics := m\<lparr>healthTransitions := healthTransitions m + 1\<rparr>\<rparr>))"

definition closeObservability :: "observability \<Rightarrow> observability" where
  "closeObservability o' = o'\<lparr>oHub := hubClose (oHub o')\<rparr>"

text \<open>
  The system of publishers: the events that wait for their turn, the one whose turn it is and that
  is not yet fanned out, and the one that is fanned out and has not yet passed the turn on.
  \<open>fanned\<close> records the calls of the hub's \<^verbatim>\<open>publish\<close> in their order, \<open>published\<close> counts the calls of
  \<^verbatim>\<open>publish\<close>.
\<close>

record publishers =
  obs :: observability
  waiting :: "decisionEvent multiset"
  ready :: "decisionEvent multiset"
  sent :: "decisionEvent multiset"
  fanned :: "decisionEvent list"
  published :: nat

inductive pstep :: "publishers \<Rightarrow> publishers \<Rightarrow> bool" where
  p_turn: "e \<in># waiting s \<Longrightarrow> itsTurn e (obs s) \<Longrightarrow>
    pstep s (s\<lparr>waiting := waiting s - {#e#}, ready := add_mset e (ready s)\<rparr>)"
| p_fan: "e \<in># ready s \<Longrightarrow>
    pstep s (s\<lparr>obs := publishFan e (obs s), ready := ready s - {#e#}, sent := add_mset e (sent s),
              fanned := fanned s @ [e]\<rparr>)"
| p_advance: "e \<in># sent s \<Longrightarrow>
    pstep s (s\<lparr>obs := publishAdvance (obs s), sent := sent s - {#e#}\<rparr>)"

inductive publishersReach :: "observabilityConfig \<Rightarrow> publishers \<Rightarrow> bool" for c where
  pr_start: "newObservability c now = Inr o' \<Longrightarrow>
    publishersReach c \<lparr>obs = o', waiting = {#}, ready = {#}, sent = {#}, fanned = [], published = 0\<rparr>"
| pr_call: "publishersReach c s \<Longrightarrow> publishAppend event now (obs s) = (e, o') \<Longrightarrow>
    publishersReach c (s\<lparr>obs := o', waiting := add_mset e (waiting s), published := Suc (published s)\<rparr>)"
| pr_step: "publishersReach c s \<Longrightarrow> pstep s s' \<Longrightarrow> publishersReach c s'"
| pr_hub: "publishersReach c s \<Longrightarrow> hubStep (oHub (obs s)) h \<Longrightarrow>
    publishersReach c (s\<lparr>obs := (obs s)\<lparr>oHub := h\<rparr>\<rparr>)"

definition inTurn :: "publishers \<Rightarrow> bool" where
  "inTurn s \<longleftrightarrow>
     (let k = length (fanned s); r = size (ready s); t = size (sent s) in
      r + t \<le> 1 \<and> t \<le> k \<and> k + r \<le> published s \<and>
      ledgerSequence (oLedger (obs s)) = of_nat (published s) \<and>
      nextDelivery (obs s) = of_nat (k + 1 - t) \<and>
      map Sequence (fanned s) = map of_nat [1..<k + 1] \<and>
      image_mset Sequence (ready s) = mset (map of_nat [k + 1..<k + 1 + r]) \<and>
      image_mset Sequence (waiting s) = mset (map of_nat [k + 1 + r..<published s + 1]))"

lemma inTurn_call:
  assumes "inTurn s" "publishAppend event now (obs s) = (e, o')"
  shows "inTurn (s\<lparr>obs := o', waiting := add_mset e (waiting s), published := Suc (published s)\<rparr>)"
proof -
  have e: "Sequence e = ledgerSequence (oLedger (obs s)) + 1"
    "ledgerSequence (oLedger o') = ledgerSequence (oLedger (obs s)) + 1"
    "nextDelivery o' = nextDelivery (obs s)"
    using assms(2) by (auto simp: publishAppend_def ledgerAppend_def Let_def)
  have "length (fanned s) + 1 + size (ready s) \<le> published s + 1" using assms(1) by (simp add: inTurn_def Let_def)
  then show ?thesis using assms(1) e by (simp add: inTurn_def Let_def add.commute)
qed

lemma u64_of_nat_inj: "a < 2 ^ 64 \<Longrightarrow> b < 2 ^ 64 \<Longrightarrow> (of_nat a :: u64) = of_nat b \<Longrightarrow> a = b"
  by (metis u64_less nat_neq_iff less_irrefl)

lemma inTurn_turn:
  assumes "inTurn s" "published s < 2 ^ 64 - 1" "e \<in># waiting s" "itsTurn e (obs s)"
  shows "inTurn (s\<lparr>waiting := waiting s - {#e#}, ready := add_mset e (ready s)\<rparr>)"
proof -
  let ?k = "length (fanned s)" and ?r = "size (ready s)" and ?t = "size (sent s)"
  have i: "?r + ?t \<le> 1" "?t \<le> ?k" "?k + ?r \<le> published s"
    "image_mset Sequence (ready s) = mset (map of_nat [?k + 1..<?k + 1 + ?r])"
    "image_mset Sequence (waiting s) = mset (map of_nat [?k + 1 + ?r..<published s + 1])"
    using assms(1) by (simp_all add: inTurn_def Let_def)
  have turn: "Sequence e = of_nat (?k + 1 - ?t)"
    using assms(1,4) by (simp add: inTurn_def itsTurn_def Let_def)
  have "Sequence e \<in># image_mset Sequence (waiting s)" using assms(3) by simp
  then obtain j where j: "Sequence e = of_nat j" "?k + 1 + ?r \<le> j" "j < published s + 1"
    unfolding i(5) by auto
  have "j = ?k + 1 - ?t" using u64_of_nat_inj [of j "?k + 1 - ?t"] j turn i assms(2) by simp
  then have rt: "?r = 0" "?t = 0" using j(2) i(2) by linarith+
  then have empty: "ready s = {#}" by simp
  have "[?k + 1..<published s + 1] = (?k + 1) # [?k + 2..<published s + 1]"
    using j \<open>j = ?k + 1 - ?t\<close> rt by (simp add: upt_conv_Cons del: upt_Suc)
  then have "image_mset Sequence (waiting s - {#e#}) = mset (map of_nat [?k + 2..<published s + 1])"
    using i(5) rt turn assms(3) by (simp add: image_mset_Diff del: upt_Suc)
  then show ?thesis
    using assms(1) rt turn empty j \<open>j = ?k + 1 - ?t\<close> by (simp add: inTurn_def Let_def del: upt_Suc)
qed

lemma inTurn_fan:
  assumes "inTurn s" "e \<in># ready s"
  shows "inTurn (s\<lparr>obs := publishFan e (obs s), ready := ready s - {#e#}, sent := add_mset e (sent s),
              fanned := fanned s @ [e]\<rparr>)"
proof -
  let ?k = "length (fanned s)"
  have "size (ready s) \<noteq> 0" using assms(2) by auto
  moreover have "size (ready s) + size (sent s) \<le> 1" using assms(1) by (simp add: inTurn_def Let_def)
  ultimately have r: "size (ready s) = 1" "size (sent s) = 0" by linarith+
  have one: "ready s = {#e#}" using assms(2) r(1)
    by (metis One_nat_def insert_DiffM size_add_mset nat.inject size_eq_0_iff_empty)
  then have "Sequence e = of_nat (?k + 1)" using assms(1) by (simp add: inTurn_def Let_def)
  then show ?thesis
    using assms(1) r one by (simp add: inTurn_def Let_def publishFan_def)
qed

lemma inTurn_advance:
  assumes "inTurn s" "e \<in># sent s"
  shows "inTurn (s\<lparr>obs := publishAdvance (obs s), sent := sent s - {#e#}\<rparr>)"
proof -
  have "size (sent s) \<noteq> 0" using assms(2) by auto
  moreover have sum: "size (ready s) + size (sent s) \<le> 1" using assms(1) by (simp add: inTurn_def Let_def)
  ultimately have "size (sent s) = 1" by linarith
  moreover from this have "sent s - {#e#} = {#}" using assms(2) by (metis size_Diff_singleton diff_self_eq_0 size_eq_0_iff_empty)
  moreover have "ready s = {#}" using sum calculation(1) by simp
  ultimately show ?thesis using assms(1) by (simp add: inTurn_def Let_def publishAdvance_def add.commute)
qed

lemma pstep_published: "pstep s s' \<Longrightarrow> published s' = published s"
  by (induction rule: pstep.induct) simp_all

lemma pstep_inTurn:
  "pstep s s' \<Longrightarrow> inTurn s \<Longrightarrow> published s < 2 ^ 64 - 1 \<Longrightarrow> inTurn s'"
  by (induction rule: pstep.induct) (blast intro: inTurn_turn inTurn_fan inTurn_advance)+

lemma newObservability_Inr:
  assumes "newObservability c now = Inr o'"
  shows "ledgerOk (oLedger o') \<and> ledgerSequence (oLedger o') = 0 \<and> hubOk (oHub o') \<and>
    nextDelivery o' = 1 \<and> subscribers (oHub o') = []"
proof -
  obtain l h where n: "newEventLedger (LedgerCapacity c) = Inr l"
      "newSSEHub (MaxSubscribers c) (SubscriberQueue c) = Inr h"
      "o' = \<lparr>startedAt = now, oLedger = l, oHub = h, oMetrics = newProxyMetrics, nextDelivery = 1\<rparr>"
    using assms by (auto simp: newObservability_def result_simps)
  then show ?thesis
    using newEventLedger_Inr [OF n(1)] newSSEHub_ok [OF n(2)]
    by (auto simp: newSSEHub_def split: if_splits)
qed

lemma reach_inTurn:
  "publishersReach c s \<Longrightarrow> published s < 2 ^ 64 - 1 \<Longrightarrow> inTurn s"
proof (induction rule: publishersReach.induct)
  case (pr_start now o')
  then show ?case using newObservability_Inr by (simp add: inTurn_def)
next
  case (pr_call s event now e o')
  then show ?case using inTurn_call by simp
next
  case (pr_step s s')
  then show ?case using pstep_inTurn pstep_published by simp
next
  case (pr_hub s h)
  then show ?case by (simp add: inTurn_def Let_def)
qed

text \<open>Every queue holds a subsequence of the events fanned out, and the hub keeps its bounds.\<close>

definition queuesFollow :: "publishers \<Rightarrow> bool" where
  "queuesFollow s \<longleftrightarrow> hubOk (oHub (obs s)) \<and>
     (\<forall>(i, q) \<in> set (subscribers (oHub (obs s))). subseq q (fanned s))"

lemma hubStep_queues:
  "hubStep h h' \<Longrightarrow> \<forall>(i, q) \<in> set (subscribers h). subseq q xs \<Longrightarrow>
   \<forall>(i, q) \<in> set (subscribers h'). subseq q xs"
proof (induction rule: hubStep.induct)
  case (hub_receive h ident)
  have "subseq (tl q) xs" if "subseq q xs" for q :: "decisionEvent list"
    using that by (metis list.sel(2) list.exhaust_sel subseq_Cons')
  then show ?case using hub_receive
    by (auto simp: receiveEvent_def split: option.splits list.splits)
qed (auto simp: subscribe_def unsubscribe_def hubClose_def Let_def)

lemma reach_queues: "publishersReach c s \<Longrightarrow> queuesFollow s"
proof (induction rule: publishersReach.induct)
  case (pr_start now o')
  then show ?case using newObservability_Inr by (simp add: queuesFollow_def)
next
  case (pr_call s event now e o')
  then show ?case by (auto simp: queuesFollow_def publishAppend_def Let_def split: prod.splits)
next
  case (pr_step s s')
  from pr_step.hyps(2) pr_step.IH show ?case
  proof (induction rule: pstep.induct)
    case (p_fan e s)
    then show ?case
      by (auto simp: queuesFollow_def publishFan_def hubPublish_ok)
        (fastforce simp: hubPublish_def enqueue_def intro: list_emb_prefix)
  qed (simp_all add: queuesFollow_def publishAdvance_def)
next
  case (pr_hub s h)
  then show ?case using hubStep_ok hubStep_queues by (simp add: queuesFollow_def)
qed

text \<open>Progress: while a call is pending some publisher can move, and every move brings the end nearer.\<close>

definition pending :: "publishers \<Rightarrow> nat" where
  "pending s = 3 * size (waiting s) + 2 * size (ready s) + size (sent s)"

lemma pstep_pending: "pstep s s' \<Longrightarrow> pending s' < pending s"
proof (induction rule: pstep.induct)
  case (p_turn e s)
  then show ?case by (cases "size (waiting s)") (simp_all add: pending_def size_Diff_singleton)
next
  case (p_fan e s)
  then show ?case by (cases "size (ready s)") (simp_all add: pending_def size_Diff_singleton)
next
  case (p_advance e s)
  then show ?case by (cases "size (sent s)") (simp_all add: pending_def size_Diff_singleton)
qed

lemma inTurn_progress:
  assumes "inTurn s" "0 < pending s"
  shows "\<exists>s'. pstep s s'"
proof (cases "ready s = {#} \<and> sent s = {#}")
  case False
  then show ?thesis using p_fan p_advance by (metis multiset_nonemptyE)
next
  case True
  let ?k = "length (fanned s)"
  have i: "image_mset Sequence (waiting s) = mset (map of_nat [?k + 1..<published s + 1])"
    "nextDelivery (obs s) = of_nat (?k + 1)"
    using assms(1) True by (simp_all add: inTurn_def Let_def del: upt_Suc)
  have "waiting s \<noteq> {#}" using assms(2) True by (auto simp: pending_def)
  then have "?k + 1 < published s + 1" using i(1) by (metis image_mset_is_empty_iff leI map_is_Nil_conv
      mset_zero_iff upt_conv_Nil)
  then have "of_nat (?k + 1) \<in># image_mset Sequence (waiting s)"
    unfolding i(1) by (simp del: of_nat_Suc upt_Suc)
  then obtain e where "e \<in># waiting s" "Sequence e = of_nat (?k + 1)" by auto
  then show ?thesis using i(2) by (metis p_turn itsTurn_def)
qed

lemma inTurn_drains:
  "inTurn s \<Longrightarrow> published s < 2 ^ 64 - 1 \<Longrightarrow> \<exists>s'. pstep\<^sup>*\<^sup>* s s' \<and> pending s' = 0 \<and> inTurn s' \<and> published s' = published s"
proof (induction "pending s" arbitrary: s rule: less_induct)
  case less
  show ?case
  proof (cases "pending s = 0")
    case True
    then show ?thesis using less.prems by blast
  next
    case False
    then obtain s1 where s1: "pstep s s1" using inTurn_progress [OF less.prems(1)] by blast
    have "inTurn s1" "published s1 = published s" "pending s1 < pending s"
      using s1 less.prems pstep_inTurn pstep_published pstep_pending by blast+
    then obtain s' where "pstep\<^sup>*\<^sup>* s1 s'" "pending s' = 0" "inTurn s'" "published s' = published s"
      using less.hyps less.prems(2) by metis
    then show ?thesis using s1 converse_rtranclp_into_rtranclp [of pstep] by blast
  qed
qed

lemma inTurn_done:
  assumes "inTurn s" "pending s = 0"
  shows "length (fanned s) = published s"
proof -
  have "waiting s = {#}" "ready s = {#}" using assms(2) by (simp_all add: pending_def)
  then show ?thesis using assms(1) by (simp add: inTurn_def Let_def split: if_splits)
qed

lemma newObservability_default: "\<exists>o'. newObservability defaultObservabilityConfig 0 = Inr o'"
  by (simp add: newObservability_def defaultObservabilityConfig_def newEventLedger_def newSSEHub_def
      maxLedgerCapacity_def maxSSESubscribers_def maxSubscriberQueue_def maxQueuedSSEEvents_def)

lemma reach_two_calls: "\<exists>s. publishersReach defaultObservabilityConfig s \<and> published s = 2"
proof -
  obtain o' where o': "newObservability defaultObservabilityConfig 0 = Inr o'"
    using newObservability_default by blast
  obtain e1 o1 where c1: "publishAppend (zeroEvent eventRequestStarted) 5 o' = (e1, o1)" by fastforce
  obtain e2 o2 where c2: "publishAppend (zeroEvent eventBackendSelected) 9 o1 = (e2, o2)" by fastforce
  note start = pr_start [OF o']
  from pr_call [OF start, of "zeroEvent eventRequestStarted" 5 e1 o1] c1
  have "publishersReach defaultObservabilityConfig
      \<lparr>obs = o1, waiting = {#e1#}, ready = {#}, sent = {#}, fanned = [], published = 1\<rparr>" by simp
  from pr_call [OF this, of "zeroEvent eventBackendSelected" 9 e2 o2] c2
  show ?thesis by (metis (no_types) publishers.ext_inject publishers.surjective publishers.update_convs
      publishers.select_convs Suc_1)
qed

lemma psteps_reach: "pstep\<^sup>*\<^sup>* s s' \<Longrightarrow> publishersReach c s \<Longrightarrow> publishersReach c s' \<and> published s' = published s"
proof (induction rule: rtranclp_induct)
  case base
  then show ?case by simp
next
  case (step y z)
  then show ?case using pr_step pstep_published by auto
qed

subsection \<open>Properties of the hub and of publication\<close>

text \<open>
  C7: in every interleaving of publishers and subscribers, events reach the hub in the order of
  their ledger numbers, each once and without a hole, and what a subscriber has queued is a
  subsequence of them; the hub never has more subscribers than configured, no queue exceeds its
  capacity, and all queues together stay within the aggregate limit.
\<close>

theorem delivery_in_order:
  assumes "publishersReach c s" "published s < 2 ^ 64 - 1"
  shows "map Sequence (fanned s) = map of_nat [1..<length (fanned s) + 1] \<and>
    (\<forall>i q. map_of (subscribers (oHub (obs s))) i = Some q \<longrightarrow> subseq q (fanned s)) \<and>
    int (length (subscribers (oHub (obs s)))) \<le> maxSubscribers (oHub (obs s)) \<and>
    int (sum_list (map (\<lambda>(_, q). length q) (subscribers (oHub (obs s))))) \<le> maxQueuedSSEEvents"
proof -
  have "map Sequence (fanned s) = map of_nat [1..<length (fanned s) + 1]"
    using reach_inTurn [OF assms] by (simp add: inTurn_def Let_def del: upt_Suc)
  moreover have q: "queuesFollow s" using reach_queues [OF assms(1)] .
  moreover from q have "int (sum_list (map (\<lambda>(_, q). length q) (subscribers (oHub (obs s))))) \<le>
      maxQueuedSSEEvents" using hub_queued by (simp add: queuesFollow_def)
  ultimately show ?thesis by (auto simp: queuesFollow_def hubOk_def dest: map_of_SomeD)
qed

theorem delivery_in_order_witness:
  "\<exists>s. publishersReach defaultObservabilityConfig s \<and> map Sequence (fanned s) = [1, 2]"
proof -
  obtain s where s: "publishersReach defaultObservabilityConfig s" "published s = 2"
    using reach_two_calls by blast
  obtain s' where s': "pstep\<^sup>*\<^sup>* s s'" "pending s' = 0" "inTurn s'"
    using inTurn_drains [OF reach_inTurn [OF s(1)]] s(2) by auto
  have r: "publishersReach defaultObservabilityConfig s'" "published s' = 2"
    using psteps_reach [OF s'(1) s(1)] s(2) by simp_all
  have "length (fanned s') = 2" using inTurn_done [OF s'(3,2)] r(2) by simp
  moreover have "map Sequence (fanned s') = map of_nat [1..<length (fanned s') + 1]"
    using delivery_in_order [OF r(1)] r(2) by simp
  ultimately show ?thesis using r(1) by (intro exI [of _ s']) (simp add: upt_rec)
qed



end
