(* ===== verification/Proxy.thy ===== *)
theory Proxy
  imports Proxy_Headers Observability
begin

text \<open>
  \<^verbatim>\<open>src/src/proxy.go\<close>: one attempt on a backend and the execution of a request with its retries.

  What the world answers is an environment: for an attempt the dialled connection, a writer and a
  reader on it, the errors of setting deadlines, whether the attempt's context is done when a read
  error is classified, and the clock; for a request the identifier, the clock, the environments of
  its attempts and what other requests do to the pool while an attempt runs (\<open>others\<close>). The state of
  a request collects the pool, the metrics, the events handed to \<^verbatim>\<open>publish\<close>, the circuit transitions
  published, the connections closed and the aliases attempted.
\<close>

subsection \<open>One attempt\<close>

datatype dialError = DialTimedOut | DialDeadlineExceeded | DialOther string

fun dialTimedOut :: "dialError acquireError \<Rightarrow> bool" where
  "dialTimedOut PoolClosed \<longleftrightarrow> False"
| "dialTimedOut (DialFailed err) \<longleftrightarrow> err = DialTimedOut \<or> err = DialDeadlineExceeded"

record ('c, 'w) attemptEnv =
  acquireAt :: time
  dialled :: "dialError + 'c"
  writeDeadlineErr :: "io_error option"
  upWriter :: "'w writer"
  upState :: 'w
  upFlush :: "'w \<Rightarrow> io_error option \<times> 'w"
  readDeadlineErr :: "io_error option"
  upReader :: reader
  ctxDone :: bool
  recycleAt :: time

record ('c, 'w) attemptResult =
  outcome :: "proxyError + httpResponse"
  closedConns :: "'c list"
  sentTo :: "'w option"

text \<open>
  The loop over informational responses, with the number that may still be skipped. \<open>Inl None\<close> is
  the error \<^verbatim>\<open>too many informational responses\<close>; the loop never ends without a result, so the error
  after it (\<^verbatim>\<open>missing final response\<close>) cannot occur.
\<close>

fun readFinalResponse ::
    "nat \<Rightarrow> reader \<Rightarrow> httpLimits \<Rightarrow> string \<Rightarrow> http_error option + httpResponse \<times> reader" where
  "readFinalResponse k reader limits requestMethod =
     (case readHTTPResponse reader limits requestMethod of
        Inl err \<Rightarrow> Inl (Some err)
      | Inr (response, reader') \<Rightarrow>
          if StatusCode response \<ge> 100 \<and> StatusCode response < 200 then
            (case k of 0 \<Rightarrow> Inl None | Suc k' \<Rightarrow> readFinalResponse k' reader' limits requestMethod)
          else Inr (response, reader'))"

declare readFinalResponse.simps [simp del]

text \<open>
  The deferred functions close the connection unless it was recycled; a refused recycling has closed
  it already, and closing it again has no effect.
\<close>

definition executeProxyAttempt ::
    "('c, 'w) attemptEnv \<Rightarrow> httpRequest \<Rightarrow> 'c proxyBackend \<Rightarrow> string \<Rightarrow> proxyConfig \<Rightarrow>
     ('c, 'w) attemptResult \<times> 'c proxyBackend" where
  "executeProxyAttempt env request backend requestID pc =
     (let alias = Alias (config backend) in
      case acquireConnection (acquireAt env) (dialled env) backend of
        (Inl err, closed, b) \<Rightarrow>
          (\<lparr>outcome = Inl (proxyErr (if dialTimedOut err then proxyDialTimeout else proxyDialFailure) alias),
            closedConns = closed, sentTo = None\<rparr>, b)
      | (Inr (conn, _), closed, b) \<Rightarrow>
          (let failed = (\<lambda>err w. (\<lparr>outcome = Inl err, closedConns = closed @ [conn], sentTo = w\<rparr>, b)) in
           if writeDeadlineErr env \<noteq> None then failed (proxyErr proxyWriteFailure alias) None
           else
             (case writeHTTPRequest (upWriter env) (upState env)
                     (buildUpstreamRequest request (Authority (config backend)) requestID pc) of
                (Some err, w) \<Rightarrow> failed (classifyProxyWriteError alias err) (Some w)
              | (None, w) \<Rightarrow>
                  (case upFlush env w of
                     (Some err, w') \<Rightarrow> failed (classifyProxyWriteError alias (RawError err)) (Some w')
                   | (None, w') \<Rightarrow>
                       if readDeadlineErr env \<noteq> None
                         then failed (proxyErr proxyUpstreamProtocol alias) (Some w')
                       else
                         (case readFinalResponse maxInformationalResponses (upReader env)
                                 (ProxyLimits pc) (Method request) of
                            Inl (Some err) \<Rightarrow>
                              failed (classifyProxyReadError (ctxDone env) alias err) (Some w')
                          | Inl None \<Rightarrow> failed (proxyErr proxyUpstreamProtocol alias) (Some w')
                          | Inr (response, _) \<Rightarrow>
                              (let sanitized = sanitizeUpstreamResponse response (ViaName pc) in
                               if RespKeepAlive response \<and>
                                  RespBodyMode response \<noteq> bodyModeCloseDelimited then
                                 (case recycleConnection (Some conn) (recycleAt env) b of
                                    (_, closed', b') \<Rightarrow>
                                      (\<lparr>outcome = Inr sanitized, closedConns = closed @ closed',
                                        sentTo = Some w'\<rparr>, b'))
                               else
                                 (\<lparr>outcome = Inr sanitized, closedConns = closed @ [conn],
                                   sentTo = Some w'\<rparr>, b)))))))"

subsection \<open>The state of a request\<close>

record ('c, 'w) requestEnv =
  newRequestID :: "string option"
  requestStartedAt :: time
  deadlineFrom :: time
  completedAt :: time
  reserveAt :: "int \<Rightarrow> time"
  attemptStartedAt :: "int \<Rightarrow> time"
  attemptFinishedAt :: "int \<Rightarrow> time"
  attemptWorld :: "int \<Rightarrow> ('c, 'w) attemptEnv"
  others :: "int \<Rightarrow> 'c backendPool \<Rightarrow> 'c backendPool"

record 'c proxyState =
  psPool :: "'c backendPool"
  psMetrics :: proxyMetrics
  psEvents :: "decisionEvent list"
  psTransitions :: "circuitTransition list"
  psClosed :: "'c list"
  psAttempted :: "string list"

definition emit :: "proxyConfig \<Rightarrow> decisionEvent \<Rightarrow> 'c proxyState \<Rightarrow> 'c proxyState" where
  "emit pc event st = (if Observed pc then st\<lparr>psEvents := psEvents st @ [event]\<rparr> else st)"

definition measured ::
    "proxyConfig \<Rightarrow> (proxyMetrics \<Rightarrow> proxyMetrics) \<Rightarrow> 'c proxyState \<Rightarrow> 'c proxyState" where
  "measured pc f st = (if Observed pc then st\<lparr>psMetrics := f (psMetrics st)\<rparr> else st)"

fun proxyErrorKindName :: "proxyErrorKind \<Rightarrow> string" where
  "proxyErrorKindName proxyNoBackend = ''no_backend''"
| "proxyErrorKindName proxyAdmissionRejected = ''admission_rejected''"
| "proxyErrorKindName proxyDialFailure = ''dial_failure''"
| "proxyErrorKindName proxyDialTimeout = ''dial_timeout''"
| "proxyErrorKindName proxyWriteFailure = ''write_failure''"
| "proxyErrorKindName proxyWriteTimeout = ''write_timeout''"
| "proxyErrorKindName proxyUpstreamTimeout = ''upstream_timeout''"
| "proxyErrorKindName proxyUpstreamProtocol = ''upstream_protocol''"
| "proxyErrorKindName proxyUpstreamIncomplete = ''upstream_incomplete''"
| "proxyErrorKindName proxyCanceled = ''canceled''"

definition recordProxyAttemptFailure ::
    "proxyConfig \<Rightarrow> string \<Rightarrow> string \<Rightarrow> int \<Rightarrow> proxyError \<Rightarrow> duration \<Rightarrow> 'c proxyState \<Rightarrow> 'c proxyState" where
  "recordProxyAttemptFailure pc requestID alias attempt err d st =
     emit pc ((zeroEvent eventAttemptFailed)
       \<lparr>RequestID := requestID, RouteAlias := ProxyRoute pc, BackendAlias := alias,
        EventReason := proxyErrorKindName (PKind err), Attempt := attempt,
        DurationMicros := max (Microseconds d) 0\<rparr>)
       (measured pc (recordFailure (PKind err)) st)"

definition recordProxyRetry ::
    "proxyConfig \<Rightarrow> string \<Rightarrow> string \<Rightarrow> int \<Rightarrow> string \<Rightarrow> 'c proxyState \<Rightarrow> 'c proxyState" where
  "recordProxyRetry pc requestID alias attempt reason st =
     emit pc ((zeroEvent eventRetryScheduled)
       \<lparr>RequestID := requestID, RouteAlias := ProxyRoute pc, BackendAlias := alias,
        EventReason := reason, Attempt := attempt + 1\<rparr>)
       (measured pc recordRetry st)"

text \<open>
  Reserving, running and completing one attempt. \<open>reserveAttempt\<close> also notes the alias and the
  selection event; \<open>runAttempt\<close> leaves the backend as the attempt left it; \<open>completeAttempt\<close> is
  \<^verbatim>\<open>reservation.Complete\<close>.
\<close>

definition reserveAttempt ::
    "('c, 'w) requestEnv \<Rightarrow> string \<Rightarrow> proxyConfig \<Rightarrow> int \<Rightarrow> 'c proxyState \<Rightarrow>
     (proxyErrorKind + reservedAt) \<times> string \<times> 'c proxyState" where
  "reserveAttempt env requestID pc n st =
     (case reserveNextExcluding (psAttempted st) (reserveAt env n) (psPool st) of
        (Inl kind, ts, pool) \<Rightarrow>
          (Inl kind, [], st\<lparr>psPool := pool, psTransitions := psTransitions st @ ts\<rparr>)
      | (Inr r, ts, pool) \<Rightarrow>
          (let alias = Alias (config (backends pool ! ReservedIndex r)) in
           (Inr r, alias,
            emit pc ((zeroEvent eventBackendSelected)
              \<lparr>RequestID := requestID, RouteAlias := ProxyRoute pc, BackendAlias := alias,
               EventReason := Selector (resilience pool), Attempt := n\<rparr>)
              (measured pc recordAttempt
                (st\<lparr>psPool := pool, psTransitions := psTransitions st @ ts,
                   psAttempted := ToLower alias # psAttempted st\<rparr>)))))"

definition runAttempt ::
    "('c, 'w) requestEnv \<Rightarrow> httpRequest \<Rightarrow> string \<Rightarrow> proxyConfig \<Rightarrow> int \<Rightarrow> nat \<Rightarrow> 'c proxyState \<Rightarrow>
     (proxyError + httpResponse) \<times> 'c proxyState" where
  "runAttempt env request requestID pc n index st =
     (let pool = others env n (psPool st);
          (result, backend) =
            executeProxyAttempt (attemptWorld env n) request (backends pool ! index) requestID pc in
      (outcome result,
       st\<lparr>psPool := pool\<lparr>backends := (backends pool)[index := backend]\<rparr>,
          psClosed := psClosed st @ closedConns result\<rparr>))"

definition completeAttempt ::
    "passiveOutcome \<Rightarrow> time \<Rightarrow> reservedAt \<Rightarrow> 'c proxyState \<Rightarrow> 'c proxyState" where
  "completeAttempt result now r st =
     (let pool = psPool st;
          (transition, _, backend) =
            Complete result now \<lparr>ResHalfOpen = ReservedHalfOpen r, Released = False\<rparr>
              (backends pool ! ReservedIndex r) in
      st\<lparr>psPool := pool\<lparr>backends := (backends pool)[ReservedIndex r := backend]\<rparr>,
         psTransitions := psTransitions st @ (case transition of None \<Rightarrow> [] | Some t \<Rightarrow> [t])\<rparr>)"

subsection \<open>The request with its retries\<close>

text \<open>
  The last retryable response is kept with its alias. The result is the response and
  \<^verbatim>\<open>finalBackendAlias\<close>. The commit state is a fresh, uncommitted one.
\<close>

definition proxyAnswer ::
    "string \<Rightarrow> proxyConfig \<Rightarrow> proxyError option \<Rightarrow> (httpResponse \<times> string) option \<Rightarrow> httpResponse \<times> string" where
  "proxyAnswer requestID pc failure retry =
     (case retry of
        Some (response, alias) \<Rightarrow>
          (finalizeProxyResponse response requestID alias (Some False) (ViaName pc), alias)
      | None \<Rightarrow> (proxyFailureResponse failure requestID (Some False) (ViaName pc), []))"

definition passiveOutcomeForResponse ::
    "proxyConfig \<Rightarrow> resilienceConfig \<Rightarrow> httpResponse \<Rightarrow> duration \<Rightarrow> passiveOutcome" where
  "passiveOutcomeForResponse pc res response d =
     (if StatusCode response \<in> set (RetryStatuses pc) \<or>
         (SlowLatencyThreshold res > 0 \<and> d \<ge> SlowLatencyThreshold res)
      then passiveFailure else passiveSuccess)"

text \<open>
  The body of the loop: it returns, or continues with the last failure and the last retryable
  response.
\<close>

datatype 'c attemptStep =
    Finished "httpResponse \<times> string" "'c proxyState"
  | Retry "proxyError option" "(httpResponse \<times> string) option" "'c proxyState"

definition attemptOnce ::
    "('c, 'w) requestEnv \<Rightarrow> httpRequest \<Rightarrow> string \<Rightarrow> proxyConfig \<Rightarrow> int \<Rightarrow> proxyError option \<Rightarrow>
     (httpResponse \<times> string) option \<Rightarrow> 'c proxyState \<Rightarrow> 'c attemptStep" where
  "attemptOnce env request requestID pc n lastFailure lastRetry st =
     (case reserveAttempt env requestID pc n st of
        (Inl kind, _, st1) \<Rightarrow>
          (let err = proxyErr kind [] in
           Finished (proxyAnswer requestID pc (if lastFailure = None then Some err else lastFailure) lastRetry)
             (recordProxyAttemptFailure pc requestID [] n err 0 st1))
      | (Inr r, alias, st1) \<Rightarrow>
          (let deadline = deadlineFrom env + RetryTimeout pc;
               startedAt = attemptStartedAt env n;
               finishedAt = attemptFinishedAt env n;
               canRetry = canRetryProxyRequest request n (MaxAttempts pc) (Some False) finishedAt deadline in
           case runAttempt env request requestID pc n (ReservedIndex r) st1 of
             (Inl err, st2) \<Rightarrow>
               (let st3 = completeAttempt (passiveOutcomeForError err) finishedAt r st2;
                    st4 = recordProxyAttemptFailure pc requestID alias n err (Sub finishedAt startedAt) st3 in
                if canRetry
                  then Retry (Some err) lastRetry
                         (recordProxyRetry pc requestID alias n ''transport_failure'' st4)
                else Finished (proxyAnswer requestID pc (Some err) None) st4)
           | (Inr response, st2) \<Rightarrow>
               (let st3 = completeAttempt
                      (passiveOutcomeForResponse pc (resilience (psPool st2)) response
                         (Sub finishedAt startedAt)) finishedAt r st2 in
                if StatusCode response \<in> set (RetryStatuses pc) \<and> canRetry
                  then
                    (let st4 = emit pc ((zeroEvent eventAttemptFailed)
                           \<lparr>RequestID := requestID, RouteAlias := ProxyRoute pc, BackendAlias := alias,
                            EventReason := ''status_'' @ Itoa (nat (StatusCode response)), Attempt := n,
                            Status := StatusCode response,
                            DurationMicros := max (Microseconds (Sub finishedAt startedAt)) 0\<rparr>) st3 in
                     Retry lastFailure (Some (response, alias))
                       (recordProxyRetry pc requestID alias n ''configured_status'' st4))
                else Finished (proxyAnswer requestID pc None (Some (response, alias))) st3)))"

function attemptLoop ::
    "('c, 'w) requestEnv \<Rightarrow> httpRequest \<Rightarrow> string \<Rightarrow> proxyConfig \<Rightarrow> int \<Rightarrow> proxyError option \<Rightarrow>
     (httpResponse \<times> string) option \<Rightarrow> 'c proxyState \<Rightarrow> (httpResponse \<times> string) \<times> 'c proxyState" where
  "attemptLoop env request requestID pc n lastFailure lastRetry st =
     (if n > MaxAttempts pc then (proxyAnswer requestID pc lastFailure lastRetry, st)
      else
        (case attemptOnce env request requestID pc n lastFailure lastRetry st of
           Finished answer st' \<Rightarrow> (answer, st')
         | Retry failure retry st' \<Rightarrow>
             attemptLoop env request requestID pc (n + 1) failure retry st'))"
  by pat_completeness auto
termination
  by (relation "measure (\<lambda>(env, request, requestID, pc, n, f, l, st). nat (MaxAttempts pc + 1 - n))") auto

declare attemptLoop.simps [simp del]

text \<open>The deferred function of \<^verbatim>\<open>executeProxyRequest\<close>, which runs whatever the response is.\<close>

definition generatedGatewayError :: "httpResponse \<Rightarrow> bool" where
  "generatedGatewayError response \<longleftrightarrow>
     Contains (fst (First (RespHeaders response) ''Proxy-Status'')) ''; error=''"

definition recordCompletion ::
    "string \<Rightarrow> proxyConfig \<Rightarrow> duration \<Rightarrow> httpResponse \<times> string \<Rightarrow> 'c proxyState \<Rightarrow> 'c proxyState" where
  "recordCompletion requestID pc d answer st =
     (let (response, alias) = answer in
      emit pc ((zeroEvent eventRequestCompleted)
        \<lparr>RequestID := requestID, RouteAlias := ProxyRoute pc, BackendAlias := alias,
         Status := StatusCode response, DurationMicros := max (Microseconds d) 0\<rparr>)
        (measured pc (completeRequest (StatusCode response) (int (length (RespBody response))) d
           (generatedGatewayError response)) st))"

definition executeProxyRequest ::
    "('c, 'w) requestEnv \<Rightarrow> httpRequest \<Rightarrow> proxyConfig \<Rightarrow> 'c proxyState \<Rightarrow> httpResponse \<times> 'c proxyState" where
  "executeProxyRequest env request raw st =
     (let pc = proxyConfig_setDefaults raw in
      case newRequestID env of
        None \<Rightarrow> (internalError, st)
      | Some requestID \<Rightarrow>
          if \<not> validRequestID requestID then (internalError, st)
          else
            (let st1 = emit pc ((zeroEvent eventRequestStarted)
                   \<lparr>RequestID := requestID, RouteAlias := ProxyRoute pc\<rparr>)
                   (measured pc (beginRequest (int (length (ReqBody request)))) st);
                 (answer, st2) = attemptLoop env request requestID pc 1 None None
                   (st1\<lparr>psAttempted := []\<rparr>) in
             (fst answer,
              recordCompletion requestID pc (Sub (completedAt env) (requestStartedAt env)) answer st2)))"

definition newProxyHandler ::
    "'c backendPool option \<Rightarrow> proxyConfig \<Rightarrow>
     string + (('c, 'w) requestEnv \<Rightarrow> httpRequest \<Rightarrow> 'c proxyState \<Rightarrow> httpResponse \<times> 'c proxyState)" where
  "newProxyHandler pool raw =
     (case pool of
        None \<Rightarrow> Inl ''backend pool is required''
      | Some p \<Rightarrow>
          if backends p = [] then Inl ''backend pool is required''
          else
            (let pc = proxyConfig_setDefaults raw in
             andThen (proxyConfig_validate pc) (\<lambda>_.
               Inr (\<lambda>env request st. executeProxyRequest env request pc st))))"

subsection \<open>Invariants of the loop\<close>

text \<open>A loop rule: what every step keeps holds at the end.\<close>

lemma attemptLoop_rule:
  assumes "P n f l st"
    and "\<And>n f l st a st'. P n f l st \<Longrightarrow> n \<le> MaxAttempts pc \<Longrightarrow>
      attemptOnce env request i pc n f l st = Finished a st' \<Longrightarrow> Q a st'"
    and "\<And>n f l st f' l' st'. P n f l st \<Longrightarrow> n \<le> MaxAttempts pc \<Longrightarrow>
      attemptOnce env request i pc n f l st = Retry f' l' st' \<Longrightarrow> P (n + 1) f' l' st'"
    and "\<And>n f l st. P n f l st \<Longrightarrow> n > MaxAttempts pc \<Longrightarrow> Q (proxyAnswer i pc f l) st"
  shows "Q (fst (attemptLoop env request i pc n f l st)) (snd (attemptLoop env request i pc n f l st))"
  using assms(1)
proof (induction "nat (MaxAttempts pc + 1 - n)" arbitrary: n f l st rule: less_induct)
  case less
  show ?case
  proof (cases "n > MaxAttempts pc")
    case True
    then show ?thesis using assms(4) [OF less.prems] by (simp add: attemptLoop.simps)
  next
    case False
    then have n: "n \<le> MaxAttempts pc" by simp
    show ?thesis
    proof (cases "attemptOnce env request i pc n f l st")
      case (Finished a st')
      then show ?thesis using assms(2) [OF less.prems n] False by (simp add: attemptLoop.simps [of _ _ _ _ n])
    next
      case (Retry f' l' st')
      have "nat (MaxAttempts pc + 1 - (n + 1)) < nat (MaxAttempts pc + 1 - n)" using n by simp
      from less.hyps [OF this assms(3) [OF less.prems n Retry]] show ?thesis
        using Retry False by (simp add: attemptLoop.simps [of _ _ _ _ n])
    qed
  qed
qed

text \<open>The observers leave the pool and the attempts alone.\<close>

lemma emit_keeps [simp]:
  "psPool (emit pc e st) = psPool st" "psAttempted (emit pc e st) = psAttempted st"
  "psClosed (emit pc e st) = psClosed st" "psMetrics (emit pc e st) = psMetrics st"
  by (simp_all add: emit_def)

lemma measured_keeps [simp]:
  "psPool (measured pc f st) = psPool st" "psAttempted (measured pc f st) = psAttempted st"
  "psClosed (measured pc f st) = psClosed st" "psEvents (measured pc f st) = psEvents st"
  by (simp_all add: measured_def)

lemma record_keeps [simp]:
  "psPool (recordProxyAttemptFailure pc i a n err d st) = psPool st"
  "psAttempted (recordProxyAttemptFailure pc i a n err d st) = psAttempted st"
  "psPool (recordProxyRetry pc i a n reason st) = psPool st"
  "psAttempted (recordProxyRetry pc i a n reason st) = psAttempted st"
  by (simp_all add: recordProxyAttemptFailure_def recordProxyRetry_def)

end
