(* ===== verification/Proxy_Rewriting.thy ===== *)
theory Proxy_Rewriting
  imports Proxy_Headers
begin

text \<open>
  What the proxy forwards is well formed: a request accepted from a client becomes a request every
  strict parser accepts, with the proxy's own routing fields and without the client's connection
  fields, and a response accepted from a backend becomes one the client can be sent.
\<close>

lemma Values_filterHeaderFields:
  "tokenNames hs \<Longrightarrow> Values (filterHeaderFields hs rm) n = (if ToLower n \<in> set rm then [] else Values hs n)"
  by (induction hs) (auto simp: filterHeaderFields_def EqualFold_token)

lemma set_filterHeaderFields:
  "f \<in> set (filterHeaderFields hs rm) \<longleftrightarrow> f \<in> set hs \<and> ToLower (Name f) \<notin> set rm"
  by (auto simp: filterHeaderFields_def)

lemma list_all_filterHeaderFields: "list_all P hs \<Longrightarrow> list_all P (filterHeaderFields hs rm)"
  by (auto simp: filterHeaderFields_def list_all_iff)

lemma Values_Cons_token:
  "validToken m \<Longrightarrow>
   Values (hf m v # hs) n = (if ToLower m = ToLower n then v # Values hs n else Values hs n)"
  by (simp add: EqualFold_token)

lemmas Values_literal = Values_Cons_token Values.simps(1) framing_names

lemma wfField_token: "list_all wfField hs \<Longrightarrow> tokenNames hs"
  by (auto simp: list_all_iff wfField_def)

lemma proxy_names:
  "ToLower ''Via'' = ''via''" "ToLower ''Forwarded'' = ''forwarded''"
  "ToLower ''X-Forwarded-For'' = ''x-forwarded-for''"
  "ToLower ''X-Forwarded-Host'' = ''x-forwarded-host''"
  "ToLower ''X-Forwarded-Proto'' = ''x-forwarded-proto''"
  "ToLower ''X-Anvil-Request-ID'' = ''x-anvil-request-id''"
  "ToLower ''Proxy-Status'' = ''proxy-status''"
  "ToLower ''Content-Type'' = ''content-type''"
  "map ToLower hopByHopNames =
     [''connection'', ''proxy-connection'', ''keep-alive'', ''proxy-authenticate'',
      ''proxy-authorization'', ''te'', ''trailer'', ''transfer-encoding'', ''upgrade'']"
  "map ToLower replacedNames =
     [''host'', ''forwarded'', ''x-forwarded-for'', ''x-forwarded-host'', ''x-forwarded-proto'',
      ''x-anvil-request-id'']"
  by code_simp+

lemma proxy_tokens [simp]:
  "validToken ''Host''" "validToken ''Via''" "validToken ''X-Anvil-Request-ID''"
  "validToken ''Forwarded''" "validToken ''X-Forwarded-For''" "validToken ''X-Forwarded-Host''"
  "validToken ''X-Forwarded-Proto''" "validToken ''Proxy-Status''" "validToken ''http''"
  "validToken ''Content-Type''"
  by code_simp+

lemma forwardedFields_tokens: "tokenNames (forwardedFields r pc)"
  by (auto simp: forwardedFields_def Let_def split: option.splits)

lemma forwardedValue_fieldValue:
  assumes "validFieldValue host"
  shows "validFieldValue (forwardedValue octets host)"
proof -
  have "validFieldValue ''for=''" "validFieldValue '';host=''" "validFieldValue '';proto=http''"
    "validFieldValue [CHR 0x22]" "validFieldValue [CHR 0x22, CHR ''['']"
    "validFieldValue [CHR '']'', CHR 0x22]" by code_simp+
  then show ?thesis
    using assms IP_String_fieldValue unfolding forwardedValue_def Let_def
    by (simp del: append_Cons append_Nil split: if_split)
qed

lemma First_fieldValue:
  assumes "list_all wfField hs"
  shows "validFieldValue (fst (First hs n))"
  using assms by (induction hs) (auto simp: wfField_def validFieldValue_def)

lemma forwardedFields_valid:
  assumes "list_all wfField (ReqHeaders r)"
  shows "list_all (\<lambda>f. validToken (Name f) \<and> validFieldValue (Value f)) (forwardedFields r pc)"
  using First_fieldValue [OF assms] IP_String_fieldValue
  by (auto simp: forwardedFields_def Let_def forwardedValue_fieldValue validToken_fieldValue
      split: option.splits)

text \<open>The fields the proxy adds to a request, and the values a backend sees.\<close>

definition addedFields :: "httpRequest \<Rightarrow> string \<Rightarrow> string \<Rightarrow> proxyConfig \<Rightarrow> headerFields" where
  "addedFields r authority requestID pc =
     [hf ''Host'' authority, hf ''Via'' (''1.1 '' @ ViaName pc), hf requestIDHeader requestID] @
     forwardedFields r pc"

lemma buildUpstreamRequest_sel:
  "Method (buildUpstreamRequest r a i pc) = Method r"
  "Target (buildUpstreamRequest r a i pc) = Target r"
  "ReqVersion (buildUpstreamRequest r a i pc) = httpVersion11"
  "ReqHeaders (buildUpstreamRequest r a i pc) =
     filterHeaderFields (ReqHeaders r) (upstreamRemove (ReqHeaders r)) @ addedFields r a i pc"
  "ReqTrailers (buildUpstreamRequest r a i pc) =
     filterHeaderFields (ReqTrailers r) (upstreamRemove (ReqHeaders r))"
  "ReqBody (buildUpstreamRequest r a i pc) = ReqBody r"
  by (simp_all add: buildUpstreamRequest_def addedFields_def Let_def)

lemma Values_addedFields:
  "ToLower n \<notin> {''host'', ''via'', ''x-anvil-request-id'', ''forwarded'', ''x-forwarded-for'',
     ''x-forwarded-host'', ''x-forwarded-proto''} \<Longrightarrow> Values (addedFields r a i pc) n = []"
  by (auto simp: addedFields_def forwardedFields_def Let_def requestIDHeader_def EqualFold_token
      proxy_names framing_names split: option.splits)

lemma Values_added:
  "Values (addedFields r a i pc) ''Host'' = [a]"
  "Values (addedFields r a i pc) requestIDHeader = [i]"
  "Values (addedFields r a i pc) ''X-Forwarded-For'' =
     (if AddXForwarded pc then map IP_String (case remoteIP (RemoteAddr r) of None \<Rightarrow> [] | Some p \<Rightarrow> [p])
      else [])"
  by (simp_all add: addedFields_def forwardedFields_def Let_def requestIDHeader_def Values_literal
      proxy_names del: Values.simps(2) split: option.splits)

lemma Values_upstream:
  assumes "tokenNames (ReqHeaders r)"
  shows "Values (ReqHeaders (buildUpstreamRequest r a i pc)) n =
    (if ToLower n \<in> set (upstreamRemove (ReqHeaders r)) then [] else Values (ReqHeaders r) n) @
    Values (addedFields r a i pc) n"
  using assms by (simp add: buildUpstreamRequest_sel Values_filterHeaderFields)

lemma upstreamRemove_names:
  "ToLower n \<in> set (map ToLower (hopByHopNames @ replacedNames)) \<Longrightarrow>
   ToLower n \<in> set (upstreamRemove hs)"
  by (auto simp: upstreamRemove_def hopByHopFieldSet_def)

lemma upstream_removed:
  "ToLower ''Connection'' \<in> set (upstreamRemove hs)" "ToLower ''Upgrade'' \<in> set (upstreamRemove hs)"
  "ToLower ''Host'' \<in> set (upstreamRemove hs)" "ToLower requestIDHeader \<in> set (upstreamRemove hs)"
  "ToLower ''X-Forwarded-For'' \<in> set (upstreamRemove hs)"
  by (rule upstreamRemove_names,
      simp add: proxy_names framing_names requestIDHeader_def del: set_map)+

lemma upstream_head:
  assumes read: "readHTTPRequest reader limits = Inr (r0, rest)" "r = r0\<lparr>RemoteAddr := addr\<rparr>"
    and host: "validHost a" and via: "validToken (ViaName pc)" and ident: "validToken i"
  shows "\<exists>x. requestHead (buildUpstreamRequest r a i pc) = Inr x"
proof -
  let ?u = "buildUpstreamRequest r a i pc"
  have s: "soundRequest limits r0" using readHTTPRequest_sound [OF read(1)] .
  have wf: "list_all wfField (ReqHeaders r)" "list_all wfField (ReqTrailers r)"
    using s read(2) by (simp_all add: soundRequest_def)
  obtain x where "requestHead r0 = Inr x"
    using readHTTPRequest_writable [OF read(1), of "[]"] by (auto simp: writeHTTPRequest_def split: sum.splits)
  then have "parseRequestLine (requestLine r0) = Inr (Method r0, Target r0, httpVersion11)"
    by (metis prod_cases3 requestHead_Inr(8))
  then have line: "parseRequestLine (Method ?u @ '' '' @ Target ?u @ '' '' @ httpVersion11) =
      Inr (Method ?u, Target ?u, httpVersion11)"
    using read(2) by (simp add: requestLine_def buildUpstreamRequest_sel)
  have one: "validFieldValue ''1.1 ''" by code_simp
  have "validateGeneratedFields (ReqHeaders ?u) ''request headers'' = None"
    using wf(1) forwardedFields_valid [OF wf(1)] visible_fieldValue [OF validHost_visible [OF host]] one
      validToken_fieldValue [OF via] validToken_fieldValue [OF ident]
    by (auto simp: validateGeneratedFields_None buildUpstreamRequest_sel addedFields_def list_all_iff
        set_filterHeaderFields wfField_def requestIDHeader_def simp del: append_Cons append_Nil)
  moreover have "validateRequestHeaders (Method ?u) (ReqHeaders ?u) = Inr ()"
  proof -
    have t: "tokenNames (ReqHeaders r)" using wfField_token [OF wf(1)] .
    have "Values (ReqHeaders ?u) ''Connection'' = []" "Values (ReqHeaders ?u) ''Upgrade'' = []"
      "Values (ReqHeaders ?u) ''Host'' = [a]"
      using upstream_removed by (simp_all add: Values_upstream [OF t] Values_addedFields Values_added framing_names)
    moreover have "Values (ReqHeaders r) ''Expect'' = []" using s read(2) by (simp add: soundRequest_def)
    then have "Values (ReqHeaders ?u) ''Expect'' = []"
      by (simp add: Values_upstream [OF t] Values_addedFields framing_names)
    ultimately show ?thesis
      using host by (simp add: validateRequestHeaders_def validateConnectionFields_def HasToken_no_values)
  qed
  moreover have "validateTrailers (ReqTrailers ?u) = Inr ()"
    using s read(2) by (auto simp: soundRequest_def validateTrailers_def list_ex_iff
        buildUpstreamRequest_sel set_filterHeaderFields)
  moreover have "ReqBodyMode ?u \<noteq> bodyModeCloseDelimited"
    by (simp add: buildUpstreamRequest_def Let_def)
  moreover have "ReqVersion ?u \<noteq> []" by (simp add: buildUpstreamRequest_sel httpVersion11_def)
  ultimately show ?thesis
    using line by (cases "ReqBodyMode ?u")
      (simp_all add: requestHead_def Let_def buildUpstreamRequest_sel(1-3))
qed

lemma upstream_values:
  assumes "tokenNames (ReqHeaders r)"
  shows "Values (ReqHeaders (buildUpstreamRequest r a i pc)) ''Host'' = [a]"
    "Values (ReqHeaders (buildUpstreamRequest r a i pc)) requestIDHeader = [i]"
    "Values (ReqHeaders (buildUpstreamRequest r a i pc)) ''X-Forwarded-For'' =
       (if AddXForwarded pc then map IP_String (case remoteIP (RemoteAddr r) of None \<Rightarrow> [] | Some p \<Rightarrow> [p])
        else [])"
  using upstream_removed by (simp_all add: Values_upstream [OF assms] Values_added)

lemma hop_names_not_added:
  "n \<in> set hopByHopNames \<Longrightarrow> ToLower n \<in> set (map ToLower hopByHopNames) \<and>
   Values (addedFields r a i pc) n = []"
proof -
  assume "n \<in> set hopByHopNames"
  then have "ToLower n \<in> set (map ToLower hopByHopNames)" by simp
  moreover from this have "ToLower n \<notin> {''host'', ''via'', ''x-anvil-request-id'', ''forwarded'',
      ''x-forwarded-for'', ''x-forwarded-host'', ''x-forwarded-proto''}"
    unfolding proxy_names by (auto simp del: ToLower_idem)
  ultimately show ?thesis using Values_addedFields by blast
qed

subsection \<open>Responses\<close>

lemma readResponseBody_trailers:
  assumes "readResponseBody r limits mode n = Inr ((b, ts, mode'), r')" "checkLimits limits = Inr ()"
  shows "list_all wfField ts \<and> validateTrailers ts = Inr ()"
proof -
  have empty: "validateTrailers [] = Inr ()" by (simp add: validateTrailers_def)
  note lim = checkLimits_Inr [OF assms(2)]
  show ?thesis
  proof (cases mode)
    case bodyModeChunked
    then have "readChunkedBodyLoop limits ''response body'' 1 [] r = Inr ((b, ts), r')"
      using assms(1) by (auto simp: readResponseBody_def readChunkedBody_def result_simps)
    then show ?thesis using readChunkedBodyLoop_sound [of limits "''response body''" 1 "[]" r b ts r'] lim by simp
  qed (use assms(1) empty in \<open>auto simp: readResponseBody_def result_simps\<close>)
qed

text \<open>What the parser guarantees of a response.\<close>

lemma readHTTPResponse_sound:
  assumes "readHTTPResponse reader limits m = Inr (p, rest)"
  shows "100 \<le> StatusCode p \<and> StatusCode p \<le> 599 \<and> StatusCode p \<noteq> 101 \<and>
    validReasonPhrase (Reason p) \<and> list_all wfField (RespHeaders p) \<and> list_all wfField (RespTrailers p) \<and>
    validateTrailers (RespTrailers p) = Inr () \<and> \<not> successfulConnectResponse m (StatusCode p)"
proof -
  obtain line reader1 reader2 version where lim: "checkLimits limits = Inr ()"
    and l: "parseStatusLine line = Inr (version, StatusCode p, Reason p)"
    and h: "readHeaderBlock reader1 (MaxHeaderBytes limits) (MaxHeaderFields limits) ''response headers'' =
       Inr (RespHeaders p, reader2)"
    and c: "\<not> successfulConnectResponse m (StatusCode p)" "StatusCode p \<noteq> 101"
    and b: "RespTrailers p = [] \<or>
      (\<exists>mode n body mode' r'. readResponseBody reader2 limits mode n = Inr ((body, RespTrailers p, mode'), r'))"
    using assms by (auto simp: readHTTPResponse_def result_simps Let_def split: if_splits) blast+
  have empty: "list_all wfField [] \<and> validateTrailers [] = Inr ()" by (simp add: validateTrailers_def)
  have "100 \<le> StatusCode p \<and> StatusCode p \<le> 599 \<and> validReasonPhrase (Reason p)"
    using l by (auto simp: parseStatusLine_def Let_def split: if_splits)
  moreover have "list_all wfField (RespHeaders p)"
    using readHeaderBlock_wf [OF h] checkLimits_Inr [OF lim] by simp
  moreover have "list_all wfField (RespTrailers p) \<and> validateTrailers (RespTrailers p) = Inr ()"
    using b readResponseBody_trailers [OF _ lim] empty by fastforce
  ultimately show ?thesis using c by simp
qed

lemma sanitized_headers:
  "RespHeaders (finalizeProxyResponse (sanitizeUpstreamResponse p via) i alias cs name) =
     filterHeaderFields (RespHeaders p)
       (hopByHopFieldSet (connectionNominations (RespHeaders p)) @ [ToLower requestIDHeader]) @
     [hf ''Via'' (''1.1 '' @ via), hf requestIDHeader i,
      hf ''Proxy-Status'' (successfulProxyStatus name alias (StatusCode p))]"
proof -
  have "ToLower ''Via'' \<noteq> ToLower requestIDHeader" by (simp add: requestIDHeader_def proxy_names)
  then show ?thesis
    by (simp add: finalizeProxyResponse_def sanitizeUpstreamResponse_def Let_def replaceHeader_def
        filterHeaderFields_def) (simp add: conj_commute)
qed

lemma sanitized_sel:
  "StatusCode (finalizeProxyResponse (sanitizeUpstreamResponse p via) i alias cs name) = StatusCode p"
  "Reason (finalizeProxyResponse (sanitizeUpstreamResponse p via) i alias cs name) = Reason p"
  "RespBody (finalizeProxyResponse (sanitizeUpstreamResponse p via) i alias cs name) = RespBody p"
  "RespVersion (finalizeProxyResponse (sanitizeUpstreamResponse p via) i alias cs name) = httpVersion11"
  "CommitState (finalizeProxyResponse (sanitizeUpstreamResponse p via) i alias cs name) = cs"
  by (simp_all add: finalizeProxyResponse_def sanitizeUpstreamResponse_def Let_def)

lemma Values_sanitized:
  assumes "tokenNames (RespHeaders p)"
    and "ToLower n \<in> set (map ToLower hopByHopNames) \<union> set (connectionNominations (RespHeaders p))"
    and "ToLower n \<notin> {''via'', ''x-anvil-request-id'', ''proxy-status''}"
  shows "Values (RespHeaders (finalizeProxyResponse (sanitizeUpstreamResponse p via) i alias cs name)) n = []"
proof -
  have "ToLower n \<in> set (hopByHopFieldSet (connectionNominations (RespHeaders p)))"
    using assms(2) by (auto simp: hopByHopFieldSet_def)
  then show ?thesis
    using assms(1,3)
    by (simp add: sanitized_headers Values_filterHeaderFields Values_literal requestIDHeader_def
        proxy_names del: Values.simps(2)) (auto simp: eq_commute)
qed

lemma successfulProxyStatus_fieldValue:
  assumes "validToken name" "validToken alias"
  shows "validFieldValue (successfulProxyStatus name alias status)"
proof -
  have "validFieldValue ''; received-status=''" "validFieldValue ''; next-hop=''" by code_simp+
  then show ?thesis
    using assms validToken_fieldValue [of "Itoa (nat status)"]
    by (simp add: successfulProxyStatus_def validToken_fieldValue del: append_Cons append_Nil)
qed

lemma sanitized_head:
  assumes "readHTTPResponse reader limits m = Inr (p, rest)"
    and "validToken via" "validToken alias" "validToken i"
  shows "\<exists>x. responseHead (finalizeProxyResponse (sanitizeUpstreamResponse p via) i alias cs via) m = Inr x"
proof -
  let ?r = "finalizeProxyResponse (sanitizeUpstreamResponse p via) i alias cs via"
  note s = readHTTPResponse_sound [OF assms(1)]
  have t: "tokenNames (RespHeaders p)" using s wfField_token by blast
  have one: "validFieldValue ''1.1 ''" by code_simp
  have "validReasonPhrase (defaultReasonPhrase (StatusCode p))"
    by (simp add: defaultReasonPhrase_def validReasonPhrase_def validFieldValue_def)
  moreover have "validateGeneratedFields (RespHeaders ?r) ''response headers'' = None"
    using s one assms(2-4) successfulProxyStatus_fieldValue [OF assms(2,3)]
    by (auto simp: validateGeneratedFields_None sanitized_headers list_all_iff set_filterHeaderFields
        wfField_def requestIDHeader_def validToken_fieldValue simp del: append_Cons append_Nil)
  moreover have gone: "Values (RespHeaders ?r) ''Connection'' = []" "Values (RespHeaders ?r) ''Upgrade'' = []"
    by (rule Values_sanitized [OF t], simp_all add: proxy_names framing_names del: set_map)+
  moreover have "validateTrailers (RespTrailers ?r) = Inr ()"
    using s by (auto simp: validateTrailers_def list_ex_iff finalizeProxyResponse_def
        sanitizeUpstreamResponse_def Let_def set_filterHeaderFields)
  moreover have "RespBodyMode ?r \<noteq> bodyModeCloseDelimited"
    by (simp add: finalizeProxyResponse_def sanitizeUpstreamResponse_def Let_def)
  ultimately show ?thesis
    using s by (cases "RespBodyMode ?r")
      (simp_all add: responseHead_def Let_def sanitized_sel httpVersion11_def validateConnectionFields_def
        HasToken_no_values)
qed

text \<open>What the client is sent of a backend's response.\<close>

lemma finalized_written:
  assumes "readHTTPResponse reader limits m = Inr (p, rest)"
    and "validToken via" "validToken alias" "validToken i"
    and "r = finalizeProxyResponse (sanitizeUpstreamResponse p via) i alias cs via"
  shows "\<exists>out. writeHTTPResponse bufferWriter [] r m = (None, out)"
    "Values (RespHeaders r) requestIDHeader = [i]"
    "StatusCode r = StatusCode p" "RespBody r = RespBody p"
proof -
  have t: "tokenNames (RespHeaders p)"
    using readHTTPResponse_sound [OF assms(1)] wfField_token by blast
  obtain a b d where head: "responseHead r m = Inr (a, b, d)"
    using sanitized_head [OF assms(1-4), of cs] assms(5) by (metis prod_cases3)
  have tr: "list_all wfField (RespTrailers r)"
    using readHTTPResponse_sound [OF assms(1)]
    by (simp add: assms(5) finalizeProxyResponse_def sanitizeUpstreamResponse_def Let_def
        list_all_filterHeaderFields)
  show "\<exists>out. writeHTTPResponse bufferWriter [] r m = (None, out)"
    using writeHTTPResponse_buffer [OF head tr] by blast
  show "Values (RespHeaders r) requestIDHeader = [i]"
    by (simp add: assms(5) sanitized_headers Values_filterHeaderFields [OF t] requestIDHeader_def
        Values_literal proxy_names del: Values.simps(2))
  show "StatusCode r = StatusCode p" "RespBody r = RespBody p"
    by (simp_all add: assms(5) sanitized_sel)
qed

lemma proxyConfig_validate_via: "proxyConfig_validate pc = Inr () \<Longrightarrow> validToken (ViaName pc)"
  by (auto simp: proxyConfig_validate_def result_simps split: if_splits)

lemma backendConfig_validate_host:
  "backendConfig_validate c = Inr () \<Longrightarrow> Authority c \<noteq> [] \<Longrightarrow> validHost (Authority c) \<and> validToken (Alias c)"
  by (auto simp: backendConfig_validate_def Let_def split: if_splits option.splits)

definition clientRequest :: httpRequest where
  "clientRequest =
     \<lparr>Method = ''GET'', Target = ''/'', ReqVersion = ''HTTP/1.1'',
      ReqHeaders = [hf ''Host'' ''a'', hf ''Connection'' ''X-Secret'', hf ''X-Secret'' ''1'',
        hf ''X-Forwarded-For'' ''9.9.9.9''],
      ReqTrailers = [], ReqBody = [], ReqBodyMode = bodyModeNone, ReqKeepAlive = True, RemoteAddr = []\<rparr>"

lemma clientRequest_read:
  "readHTTPRequest (snd (writeHTTPRequest bufferWriter [] clientRequest), IoEOF) defaultHTTPLimits =
     Inr (receivedRequest clientRequest, ([], IoEOF))"
proof -
  have w: "writableRequest defaultHTTPLimits clientRequest" by code_simp
  show ?thesis
    using request_codec.dec_enc [OF w, of "[]" IoEOF] writableRequest_encode [OF w, of "[]"] by simp
qed

definition oneBackend :: backendConfig where
  "oneBackend = \<lparr>Alias = ''b1'', Address = ''127.0.0.1:9001'', Authority = ''[::1]:9001'', MaxInFlight = 4,
     MaxIdleConnections = 2, IdleTimeout = second, HealthPath = ''/health''\<rparr>"

definition backendResponse :: httpResponse where
  "backendResponse =
     \<lparr>RespVersion = [], StatusCode = 200, Reason = ''OK'',
      RespHeaders = [hf ''Connection'' ''X-Hop'', hf ''X-Hop'' ''1'', hf ''X-Anvil-Request-ID'' ''forged''],
      RespTrailers = [], RespBody = ''ok'', RespBodyMode = bodyModeChunked, RespKeepAlive = True,
      RespClose = False, CommitState = None\<rparr>"

lemma backendResponse_read:
  "readHTTPResponse (snd (writeHTTPResponse bufferWriter [] backendResponse ''GET''), IoEOF)
     defaultHTTPLimits ''GET'' = Inr (receivedResponse backendResponse ''GET'', ([], IoEOF))"
proof -
  have w: "writableResponse defaultHTTPLimits ''GET'' backendResponse" by code_simp
  show ?thesis
    using response_codec.dec_enc [OF w, of "[]" IoEOF] writableResponse_encode [OF w, of "[]"] by simp
qed

subsection \<open>Properties\<close>

text \<open>
  C4: a request accepted from a client is forwarded to a validated backend as a request the writer
  accepts: exactly one Host, the backend's authority; exactly one request identifier, the proxy's;
  the X-Forwarded-For of the connection's peer alone, so that a client cannot forge it; no
  hop-by-hop field and no field the client nominated in Connection (unless the proxy adds one of
  that name itself); the body unchanged.
\<close>

theorem upstream_request_clean:
  assumes "readHTTPRequest reader limits = Inr (r0, rest)" "r = r0\<lparr>RemoteAddr := addr\<rparr>"
    and "backendConfig_validate c = Inr ()" "Authority c \<noteq> []"
    and "proxyConfig_validate pc = Inr ()" "validRequestID i"
    and "u = buildUpstreamRequest r (Authority c) i pc"
  shows "writeHTTPRequest bufferWriter [] u = (None, encodeRequest u) \<and>
    Values (ReqHeaders u) ''Host'' = [Authority c] \<and> Values (ReqHeaders u) requestIDHeader = [i] \<and>
    Values (ReqHeaders u) ''X-Forwarded-For'' =
      (if AddXForwarded pc then map IP_String (case remoteIP addr of None \<Rightarrow> [] | Some p \<Rightarrow> [p]) else []) \<and>
    (\<forall>n \<in> set hopByHopNames. Values (ReqHeaders u) n = []) \<and>
    (\<forall>n. ToLower n \<in> set (connectionNominations (ReqHeaders r)) \<longrightarrow>
       Values (ReqHeaders u) n = Values (addedFields r (Authority c) i pc) n) \<and>
    ReqBody u = ReqBody r"
proof -
  have wf: "list_all wfField (ReqHeaders r)"
    using readHTTPRequest_sound [OF assms(1)] assms(2) by (simp add: soundRequest_def)
  note t = wfField_token [OF wf]
  have host: "validHost (Authority c)" using backendConfig_validate_host [OF assms(3,4)] by simp
  have tr: "list_all wfField (ReqTrailers u)"
    using readHTTPRequest_sound [OF assms(1)] assms(2)
    by (simp add: soundRequest_def assms(7) buildUpstreamRequest_sel list_all_filterHeaderFields)
  obtain v mode hs where "requestHead u = Inr (v, mode, hs)"
    using upstream_head [OF assms(1,2) host proxyConfig_validate_via [OF assms(5)], of i] assms(6,7)
    by (auto simp: validRequestID_def)
  from writeHTTPRequest_buffer [OF this tr, of "[]"]
  have w: "writeHTTPRequest bufferWriter [] u = (None, encodeRequest u)" by simp
  have "\<forall>n \<in> set hopByHopNames. Values (ReqHeaders u) n = []"
    using hop_names_not_added upstreamRemove_names
    by (simp add: assms(7) Values_upstream [OF t] del: set_map)
  moreover have "ToLower n \<in> set (connectionNominations (ReqHeaders r)) \<Longrightarrow>
      Values (ReqHeaders u) n = Values (addedFields r (Authority c) i pc) n" for n
    by (simp add: assms(7) Values_upstream [OF t] upstreamRemove_def hopByHopFieldSet_def)
  ultimately show ?thesis
    using w upstream_values [OF t] assms(2) by (simp add: assms(7) buildUpstreamRequest_sel)
qed

theorem upstream_request_clean_witness:
  "Values (ReqHeaders (buildUpstreamRequest
      ((receivedRequest clientRequest)\<lparr>RemoteAddr := ''10.0.0.7:4321''\<rparr>)
      ''[::1]:9001'' ''0123456789abcdef'' defaultProxyConfig)) ''X-Forwarded-For'' = [''10.0.0.7'']"
proof -
  have "backendConfig_validate oneBackend = Inr ()" "Authority oneBackend \<noteq> []"
    "proxyConfig_validate defaultProxyConfig = Inr ()" "validRequestID ''0123456789abcdef''"
    by code_simp+
  moreover have "Authority oneBackend = ''[::1]:9001''" by (simp add: oneBackend_def)
  moreover have "remoteIP ''10.0.0.7:4321'' = Some (v4Prefix @ [10, 0, 0, 7])"
    "IP_String (v4Prefix @ [10, 0, 0, 7]) = ''10.0.0.7''" "AddXForwarded defaultProxyConfig"
    by code_simp+
  ultimately show ?thesis
    using upstream_request_clean [OF clientRequest_read refl, of oneBackend defaultProxyConfig
        "''0123456789abcdef''" _ "''10.0.0.7:4321''", OF _ _ _ _ refl] by simp
qed

text \<open>
  C17: a response accepted from a backend, made ready for the client, is one the writer accepts, with
  the backend's status and body; hop-by-hop fields and those the backend nominated in Connection are
  gone, and the request identifier is the proxy's, whatever the backend sent.
\<close>

theorem downstream_response_clean:
  assumes "readHTTPResponse reader limits m = Inr (p, rest)"
    and "backendConfig_validate c = Inr ()" "Authority c \<noteq> []"
    and "proxyConfig_validate pc = Inr ()" "validRequestID i"
    and "r = finalizeProxyResponse (sanitizeUpstreamResponse p (ViaName pc)) i (Alias c) cs (ViaName pc)"
  shows "(\<exists>out. writeHTTPResponse bufferWriter [] r m = (None, out)) \<and>
    StatusCode r = StatusCode p \<and> RespBody r = RespBody p \<and>
    Values (RespHeaders r) requestIDHeader = [i] \<and>
    (\<forall>n \<in> set hopByHopNames. Values (RespHeaders r) n = []) \<and>
    (\<forall>n. ToLower n \<in> set (connectionNominations (RespHeaders p)) \<longrightarrow>
       ToLower n \<in> {''via'', ''x-anvil-request-id'', ''proxy-status''} \<or> Values (RespHeaders r) n = [])"
proof -
  have t: "tokenNames (RespHeaders p)"
    using readHTTPResponse_sound [OF assms(1)] wfField_token by blast
  have tok: "validToken (ViaName pc)" "validToken (Alias c)" "validToken i"
    using proxyConfig_validate_via [OF assms(4)] backendConfig_validate_host [OF assms(2,3)] assms(5)
    by (simp_all add: validRequestID_def)
  note w = finalized_written [OF assms(1) tok assms(6)]
  have gone: "Values (RespHeaders r) n = []"
    if "ToLower n \<in> set (map ToLower hopByHopNames) \<union> set (connectionNominations (RespHeaders p))"
      "ToLower n \<notin> {''via'', ''x-anvil-request-id'', ''proxy-status''}" for n
    using Values_sanitized [OF t that] by (simp add: assms(6))
  moreover have "Values (RespHeaders r) n = []" if "n \<in> set hopByHopNames" for n
  proof (rule gone)
    have l: "ToLower n \<in> set (map ToLower hopByHopNames)" using that by simp
    then show "ToLower n \<in> set (map ToLower hopByHopNames) \<union> set (connectionNominations (RespHeaders p))"
      by blast
    show "ToLower n \<notin> {''via'', ''x-anvil-request-id'', ''proxy-status''}"
      using l unfolding proxy_names by auto
  qed
  ultimately show ?thesis using w by blast
qed

theorem downstream_response_clean_witness:
  "Values (RespHeaders (finalizeProxyResponse
      (sanitizeUpstreamResponse (receivedResponse backendResponse ''GET'') ''anvil'')
      ''0123456789abcdef'' ''b1'' (Some False) ''anvil'')) requestIDHeader = [''0123456789abcdef'']"
proof -
  have "backendConfig_validate oneBackend = Inr ()" "Authority oneBackend \<noteq> []"
    "proxyConfig_validate defaultProxyConfig = Inr ()" "validRequestID ''0123456789abcdef''"
    by code_simp+
  moreover have "Alias oneBackend = ''b1''" "ViaName defaultProxyConfig = ''anvil''"
    by (simp_all add: oneBackend_def defaultProxyConfig_def defaultViaName_def)
  ultimately show ?thesis
    using downstream_response_clean [OF backendResponse_read, of oneBackend defaultProxyConfig
        "''0123456789abcdef''" _ "Some False", OF _ _ _ _ refl] by simp
qed

end
