(* ===== verification/Pool_Contract.thy ===== *)
theory Pool_Contract
  imports Pool_Selection
begin

text \<open>
  The contract between the proxy and the pool of backends. A pool grants reservations for slots
  whose names are not excluded and counts them; releasing one takes it off again. The lemmas of
  the contract are what the proxy relies on; the pool's two counters, the requests in flight and
  the admission channel, both satisfy it.
\<close>

locale reservation_pool =
  fixes names :: "'p \<Rightarrow> string list"
    and load :: "'p \<Rightarrow> int list"
    and reserve :: "string list \<Rightarrow> time \<Rightarrow> 'p \<Rightarrow> ('e + 'r) \<times> 'p"
    and slot :: "'r \<Rightarrow> nat"
    and release :: "'o \<Rightarrow> time \<Rightarrow> 'r \<Rightarrow> 'p \<Rightarrow> 'p"
  assumes load_length: "length (load p) = length (names p)"
    and reserve_names: "names (snd (reserve excluded now p)) = names p"
    and reserve_refused: "fst (reserve excluded now p) = Inl e \<Longrightarrow> load (snd (reserve excluded now p)) = load p"
    and reserve_granted: "fst (reserve excluded now p) = Inr r \<Longrightarrow>
      slot r < length (names p) \<and> names p ! slot r \<notin> set excluded \<and>
      load (snd (reserve excluded now p)) = (load p)[slot r := load p ! slot r + 1]"
    and release_names: "names (release result now r p) = names p"
    and release_load: "slot r < length (names p) \<Longrightarrow>
      load (release result now r p) = (load p)[slot r := load p ! slot r - 1]"
begin

text \<open>Whatever happens to the pool in between, releasing a reservation undoes it.\<close>

lemma reserve_release:
  assumes "reserve excluded now p = (Inr r, p')" "names q = names p'" "load q = load p'"
  shows "load (release result later r q) = load p"
proof -
  have g: "slot r < length (names p)" "load p' = (load p)[slot r := load p ! slot r + 1]"
    "names p' = names p"
    using reserve_granted [of excluded now p r] reserve_names [of excluded now p] assms(1) by simp_all
  then have "load (release result later r q) = (load q)[slot r := load q ! slot r - 1]"
    using release_load [of r q] assms(2) by simp
  then show ?thesis using g assms(3) load_length [of p] by simp
qed

lemma reserve_fresh:
  assumes "reserve excluded now p = (Inr r, p')" "distinct excluded"
  shows "distinct (names p ! slot r # excluded) \<and> names p ! slot r \<in> set (names p)"
  using reserve_granted [of excluded now p r] assms by simp

end

subsection \<open>The pool keeps the contract\<close>

definition poolNames :: "'c backendPool \<Rightarrow> string list" where
  "poolNames p = map (\<lambda>b. ToLower (Alias (config b))) (backends p)"

definition poolReserve ::
    "string list \<Rightarrow> time \<Rightarrow> 'c backendPool \<Rightarrow> (proxyErrorKind + reservedAt) \<times> 'c backendPool" where
  "poolReserve excluded now p =
     (fst (reserveNextExcluding excluded now p), snd (snd (reserveNextExcluding excluded now p)))"

definition poolRelease :: "passiveOutcome \<Rightarrow> time \<Rightarrow> reservedAt \<Rightarrow> 'c backendPool \<Rightarrow> 'c backendPool" where
  "poolRelease result now r p =
     p\<lparr>backends := (backends p)[ReservedIndex r :=
        snd (snd (Complete result now \<lparr>ResHalfOpen = ReservedHalfOpen r, Released = False\<rparr>
          (backends p ! ReservedIndex r)))]\<rparr>"

lemma transition_load [simp]:
  "inFlight (snd (transitionLocked to now reason b)) = inFlight b"
  "admission (snd (transitionLocked to now reason b)) = admission b"
  "config (snd (transitionLocked to now reason b)) = config b"
  by (auto simp: transitionLocked_def Let_def)

lemma recordPassive_load [simp]:
  "inFlight (snd (recordPassive result h now b)) = inFlight b"
  "admission (snd (recordPassive result h now b)) = admission b"
  "config (snd (recordPassive result h now b)) = config b"
  by (simp_all add: recordPassive_def Let_def)

lemma advanceCooldown_load [simp]:
  "inFlight (snd (advanceCooldown now b)) = inFlight b"
  "admission (snd (advanceCooldown now b)) = admission b"
  by (simp_all add: advanceCooldown_def)

lemma tryReserve_load:
  assumes "tryReserve now b = (res, b')"
  shows "config b' = config b \<and>
    inFlight b' = inFlight b + (if Reserved res = None then 0 else 1) \<and>
    admission b' = admission b + (if Reserved res = None then 0 else 1)"
proof -
  obtain t b1 where a: "advanceCooldown now b = (t, b1)" by fastforce
  have "inFlight b1 = inFlight b" "admission b1 = admission b"
    using advanceCooldown_load [of now b] a by simp_all
  moreover have "config b' = config b" using tryReserve_config [of now b] assms by simp
  ultimately show ?thesis
    using assms a
    by (auto simp: tryReserve_def reserveState_def admit_def Let_def split: if_splits)
qed

lemma map_update_same:
  assumes "f b = f (bs ! i)"
  shows "map f (bs[i := b]) = map f bs"
proof -
  have "map f (bs[i := b]) = map f (bs[i := bs ! i])" using assms by (simp only: map_update)
  then show ?thesis by simp
qed

text \<open>The loop counts the reservation it returns, in the slot it returns, and nothing else.\<close>

lemma reserveInOrder_load:
  assumes "reserveInOrder excluded now order eligible bs = (r, ts, bs')" "\<forall>i \<in> set order. i < length bs"
  shows "map config bs' = map config bs \<and>
    (case r of
       Inl _ \<Rightarrow> map inFlight bs' = map inFlight bs \<and> map admission bs' = map admission bs
     | Inr x \<Rightarrow>
         ReservedIndex x < length bs \<and>
         ToLower (Alias (config (bs ! ReservedIndex x))) \<notin> set excluded \<and>
         map inFlight bs' = (map inFlight bs)[ReservedIndex x := inFlight (bs ! ReservedIndex x) + 1] \<and>
         map admission bs' = (map admission bs)[ReservedIndex x := admission (bs ! ReservedIndex x) + 1])"
  using assms
proof (induction order arbitrary: eligible bs ts)
  case Nil
  then show ?case by auto
next
  case (Cons index order)
  obtain res b' where tr: "tryReserve now (bs ! index) = (res, b')" by fastforce
  note load = tryReserve_load [OF tr]
  have ix: "index < length bs" using Cons.prems(2) by simp
  have same: "map config (bs[index := b']) = map config bs"
    using load by (intro map_update_same) simp
  show ?case
  proof (cases "ToLower (Alias (config (bs ! index))) \<in> set excluded")
    case True
    then show ?thesis using Cons.IH [of eligible bs] Cons.prems by simp
  next
    case False
    show ?thesis
    proof (cases "Reserved res")
      case (Some h)
      then have "r = Inr \<lparr>ReservedIndex = index, ReservedHalfOpen = h\<rparr>" "bs' = bs[index := b']"
        using Cons.prems(1) False tr by (auto simp: Let_def)
      then show ?thesis using False load Some ix same by (simp add: map_update)
    next
      case None
      obtain ts' where rest: "reserveInOrder excluded now order (eligible \<or> StateEligible res) (bs[index := b']) =
          (r, ts', bs')"
        using Cons.prems(1) False tr None by (auto simp: Let_def split: prod.splits)
      have l: "map inFlight (bs[index := b']) = map inFlight bs"
        "map admission (bs[index := b']) = map admission bs"
        using load None by (intro map_update_same, simp)+
      have n: "config (bs[index := b'] ! k) = config (bs ! k)" "inFlight (bs[index := b'] ! k) = inFlight (bs ! k)"
        "admission (bs[index := b'] ! k) = admission (bs ! k)" for k
        using load None ix by (cases "k = index", simp_all)+
      show ?thesis
        using Cons.IH [OF rest] Cons.prems(2) unfolding same l n by (simp split: sum.splits)
    qed
  qed
qed

lemma candidateOrder_set: "set (fst (candidateOrder p)) \<subseteq> {0..<length (backends p)}"
  using insertionLoop_sort by (simp add: candidateOrder_def Let_def rotation_set)

lemma reserveNextExcluding_load:
  assumes "reserveNextExcluding excluded now p = (r, ts, p')"
  shows "map config (backends p') = map config (backends p) \<and>
    (case r of
       Inl _ \<Rightarrow> map inFlight (backends p') = map inFlight (backends p) \<and>
         map admission (backends p') = map admission (backends p)
     | Inr x \<Rightarrow>
         ReservedIndex x < length (backends p) \<and>
         ToLower (Alias (config (backends p ! ReservedIndex x))) \<notin> set excluded \<and>
         map inFlight (backends p') =
           (map inFlight (backends p))[ReservedIndex x := inFlight (backends p ! ReservedIndex x) + 1] \<and>
         map admission (backends p') =
           (map admission (backends p))[ReservedIndex x := admission (backends p ! ReservedIndex x) + 1])"
proof (cases "backends p = []")
  case True
  then show ?thesis using assms by (auto simp: reserveNextExcluding_def)
next
  case False
  define order where "order =
      (if Selector (resilience p) = selectorRoundRobin
       then rotation (unat (sequence p) mod length (backends p)) (length (backends p))
       else fst (candidateOrder p))"
  have "\<forall>i \<in> set order. i < length (backends p)"
    using candidateOrder_set [of p] by (auto simp: order_def rotation_set)
  moreover have "reserveInOrder excluded now order False (backends p) = (r, ts, backends p')"
    using assms False
    by (auto simp: reserveNextExcluding_def candidateOrder_def order_def Let_def split: if_splits prod.splits)
  ultimately show ?thesis using reserveInOrder_load by blast
qed

lemma poolReserve_split:
  "poolReserve excluded now p = (r, p') \<longleftrightarrow> (\<exists>ts. reserveNextExcluding excluded now p = (r, ts, p'))"
  by (cases "reserveNextExcluding excluded now p") (simp add: poolReserve_def)

lemma poolNames_config: "map config (backends p) = map config (backends q) \<Longrightarrow> poolNames p = poolNames q"
proof -
  assume "map config (backends p) = map config (backends q)"
  then have "map (\<lambda>c. ToLower (Alias c)) (map config (backends p)) =
      map (\<lambda>c. ToLower (Alias c)) (map config (backends q))" by simp
  then show ?thesis by (simp add: poolNames_def o_def)
qed

lemma length_poolNames [simp]: "length (poolNames p) = length (backends p)"
  by (simp add: poolNames_def)

lemma poolReserve_contract:
  "poolNames (snd (poolReserve excluded now p)) = poolNames p"
  "fst (poolReserve excluded now p) = Inl e \<Longrightarrow>
     map inFlight (backends (snd (poolReserve excluded now p))) = map inFlight (backends p) \<and>
     map admission (backends (snd (poolReserve excluded now p))) = map admission (backends p)"
  "fst (poolReserve excluded now p) = Inr r \<Longrightarrow>
     ReservedIndex r < length (poolNames p) \<and> poolNames p ! ReservedIndex r \<notin> set excluded \<and>
     map inFlight (backends (snd (poolReserve excluded now p))) =
       (map inFlight (backends p))[ReservedIndex r := map inFlight (backends p) ! ReservedIndex r + 1] \<and>
     map admission (backends (snd (poolReserve excluded now p))) =
       (map admission (backends p))[ReservedIndex r := map admission (backends p) ! ReservedIndex r + 1]"
  using reserveNextExcluding_load [of excluded now p]
  by (cases "reserveNextExcluding excluded now p";
      auto simp: poolReserve_def poolNames_def intro: poolNames_config [unfolded poolNames_def]
        split: sum.splits)+

lemma Complete_load:
  "Complete result now \<lparr>ResHalfOpen = h, Released = False\<rparr> b = (t, r', b') \<Longrightarrow>
   config b' = config b \<and> inFlight b' = inFlight b - 1 \<and> admission b' = admission b - 1"
  using recordPassive_load [of result h now b]
  by (cases "recordPassive result h now b") (auto simp: Complete_def Let_def)

lemma poolRelease_contract:
  assumes "ReservedIndex r < length (backends p)"
  shows "map inFlight (backends (poolRelease result now r p)) =
      (map inFlight (backends p))[ReservedIndex r := map inFlight (backends p) ! ReservedIndex r - 1] \<and>
    map admission (backends (poolRelease result now r p)) =
      (map admission (backends p))[ReservedIndex r := map admission (backends p) ! ReservedIndex r - 1]"
proof -
  obtain t r' b where c: "Complete result now \<lparr>ResHalfOpen = ReservedHalfOpen r, Released = False\<rparr>
      (backends p ! ReservedIndex r) = (t, r', b)" by (metis prod_cases3)
  from Complete_load [OF c] c assms show ?thesis by (simp add: poolRelease_def map_update)
qed

lemma poolRelease_config: "map config (backends (poolRelease result now r p)) = map config (backends p)"
proof -
  obtain t r' b where c: "Complete result now \<lparr>ResHalfOpen = ReservedHalfOpen r, Released = False\<rparr>
      (backends p ! ReservedIndex r) = (t, r', b)" by (metis prod_cases3)
  from Complete_load [OF c] c show ?thesis by (simp add: poolRelease_def map_update_same)
qed

interpretation in_flight: reservation_pool poolNames "\<lambda>p. map inFlight (backends p)" poolReserve
  ReservedIndex poolRelease
  by unfold_locales
     (simp_all add: poolReserve_contract poolRelease_contract poolNames_config [OF poolRelease_config],
      use poolReserve_contract(3) in fastforce)

interpretation admissions: reservation_pool poolNames "\<lambda>p. map admission (backends p)" poolReserve
  ReservedIndex poolRelease
  by unfold_locales
     (simp_all add: poolReserve_contract poolRelease_contract poolNames_config [OF poolRelease_config],
      use poolReserve_contract(3) in fastforce)

end
