(* ===== verification/Proxy_Properties.thy ===== *)
theory Proxy_Properties
  imports Proxy Proxy_Rewriting Pool_Contract
begin

text \<open>
  The execution of a proxied request: its reservations and connections are settled, its attempts are
  bounded and on distinct backends, what it answers can be written, and it is recorded once.
\<close>

subsection \<open>An attempt\<close>

lemma executeProxyAttempt_cases:
  obtains (refused) err closed b where
      "acquireConnection (acquireAt env) (dialled env) backend = (Inl err, closed, b)"
      "executeProxyAttempt env request backend i pc =
        (\<lparr>outcome = Inl (proxyErr (if dialTimedOut err then proxyDialTimeout else proxyDialFailure)
            (Alias (config backend))), closedConns = closed, sentTo = None\<rparr>, b)"
  | (failed) conn reused closed b err w where
      "acquireConnection (acquireAt env) (dialled env) backend = (Inr (conn, reused), closed, b)"
      "executeProxyAttempt env request backend i pc =
        (\<lparr>outcome = Inl err, closedConns = closed @ [conn], sentTo = w\<rparr>, b)"
      "PAlias err = Alias (config backend)"
  | (answered) conn reused closed b response rest w closed' b' where
      "acquireConnection (acquireAt env) (dialled env) backend = (Inr (conn, reused), closed, b)"
      "readFinalResponse maxInformationalResponses (upReader env) (ProxyLimits pc) (Method request) =
        Inr (response, rest)"
      "executeProxyAttempt env request backend i pc =
        (\<lparr>outcome = Inr (sanitizeUpstreamResponse response (ViaName pc)), closedConns = closed @ closed',
          sentTo = w\<rparr>, b')"
      "(\<exists>ok. recycleConnection (Some conn) (recycleAt env) b = (ok, closed', b')) \<or>
       (closed' = [conn] \<and> b' = b)"
proof -
  obtain r closed b where acq: "acquireConnection (acquireAt env) (dialled env) backend = (r, closed, b)"
    by (metis prod_cases3)
  show ?thesis
  proof (cases r)
    case (Inl err)
    then show ?thesis using acq refused by (simp add: executeProxyAttempt_def Let_def)
  next
    case (Inr cr)
    obtain conn reused where cr: "cr = (conn, reused)" by fastforce
    note acq' = acq [unfolded Inr cr]
    let ?u = "buildUpstreamRequest request (Authority (config backend)) i pc"
    obtain e w where wr: "writeHTTPRequest (upWriter env) (upState env) ?u = (e, w)" by fastforce
    obtain e' w' where fl: "upFlush env w = (e', w')" by fastforce
    consider (bad) "writeDeadlineErr env \<noteq> None \<or> e \<noteq> None \<or> e' \<noteq> None \<or> readDeadlineErr env \<noteq> None \<or>
        (\<exists>x. readFinalResponse maxInformationalResponses (upReader env) (ProxyLimits pc) (Method request) = Inl x)"
      | (good) response rest where "writeDeadlineErr env = None" "e = None" "e' = None" "readDeadlineErr env = None"
        "readFinalResponse maxInformationalResponses (upReader env) (ProxyLimits pc) (Method request) =
          Inr (response, rest)"
      by (metis old.sum.exhaust surj_pair)
    then show ?thesis
    proof cases
      case bad
      then have "\<exists>err w. executeProxyAttempt env request backend i pc =
          (\<lparr>outcome = Inl err, closedConns = closed @ [conn], sentTo = w\<rparr>, b) \<and>
          PAlias err = Alias (config backend)"
        using acq' wr fl
        by (auto simp: executeProxyAttempt_def Let_def proxyErr_def classifyProxyWriteError_def
            classifyProxyReadError_def split: option.splits sum.splits)
      then show ?thesis using failed acq' by blast
    next
      case good
      obtain ok closed' b' where rec: "recycleConnection (Some conn) (recycleAt env) b = (ok, closed', b')"
        by (metis prod_cases3)
      show ?thesis
      proof (cases "RespKeepAlive response \<and> RespBodyMode response \<noteq> bodyModeCloseDelimited")
        case True
        then show ?thesis using answered [OF acq' good(5), of closed' "Some w'" b'] acq' wr fl good rec
          by (simp add: executeProxyAttempt_def Let_def)
      next
        case False
        then have "executeProxyAttempt env request backend i pc =
            (\<lparr>outcome = Inr (sanitizeUpstreamResponse response (ViaName pc)), closedConns = closed @ [conn],
              sentTo = Some w'\<rparr>, b)"
          using acq' wr fl good by (auto simp: executeProxyAttempt_def Let_def)
        then show ?thesis using answered [OF acq' good(5)] by blast
      qed
    qed
  qed
qed

lemma recycleConnection_idle:
  assumes "recycleConnection c now b = (ok, closed, b')"
  shows "b' = b\<lparr>idle := idle b'\<rparr>"
  using assms by (auto simp: recycleConnection_def split: option.splits if_splits)

lemma recycleConnection_accounts:
  assumes "recycleConnection (Some conn) now b = (ok, closed, b')"
  shows "mset (map connection (idle b)) + {#conn#} = mset (map connection (idle b')) + mset closed"
  using assms by (auto simp: recycleConnection_def split: if_splits)

lemma acquireConnection_idle:
  assumes "acquireConnection now dial b = (r, closed, b')"
  shows "b' = b\<lparr>idle := idle b'\<rparr>"
  using acquireConnection_stack [OF assms refl] by auto

text \<open>An attempt changes nothing of its backend but the idle connections.\<close>

lemma executeProxyAttempt_idle:
  "\<exists>xs. snd (executeProxyAttempt env request backend i pc) = backend\<lparr>idle := xs\<rparr>"
proof (cases rule: executeProxyAttempt_cases [of env backend request i pc])
  case (refused err closed b)
  then show ?thesis using acquireConnection_idle by fastforce
next
  case (failed conn reused closed b err w)
  then show ?thesis using acquireConnection_idle by fastforce
next
  case (answered conn reused closed b response rest w closed' b')
  have "b = backend\<lparr>idle := idle b\<rparr>" using acquireConnection_idle [OF answered(1)] .
  moreover have "b' = b\<lparr>idle := idle b'\<rparr>" using answered(4) recycleConnection_idle by auto
  ultimately have "b' = backend\<lparr>idle := idle b'\<rparr>" by (metis proxyBackend.update_convs(14) proxyBackend.surjective)
  then show ?thesis using answered(3) by fastforce
qed

lemma executeProxyAttempt_connections:
  assumes "executeProxyAttempt env request backend i pc = (result, backend')"
  shows "mset (map connection (idle backend)) +
      (case fst (acquireConnection (acquireAt env) (dialled env) backend) of
         Inr (c, False) \<Rightarrow> {#c#} | _ \<Rightarrow> {#}) =
    mset (map connection (idle backend')) + mset (closedConns result)"
proof -
  obtain r closed b where acq: "acquireConnection (acquireAt env) (dialled env) backend = (r, closed, b)"
    by (metis prod_cases3)
  have st: "mset (map connection (idle backend)) = mset (map connection (idle b)) + mset closed +
      (case r of Inr (c, True) \<Rightarrow> {#c#} | _ \<Rightarrow> {#})"
    using acquireConnection_stack [OF acq refl] by auto
  show ?thesis
  proof (cases rule: executeProxyAttempt_cases [of env backend request i pc])
    case (refused err closed2 b2)
    then show ?thesis using assms acq st by auto
  next
    case (failed conn reused closed2 b2 err w)
    then show ?thesis using assms acq st by (cases reused) auto
  next
    case (answered conn reused closed2 b2 response rest w closed' b')
    have "mset (map connection (idle b)) + {#conn#} = mset (map connection (idle b')) + mset closed'"
      using answered(1,4) acq recycleConnection_accounts by auto
    then show ?thesis using assms acq st answered(1,3) by (cases reused) (auto simp: ac_simps)
  qed
qed

subsection \<open>One turn of the loop\<close>

text \<open>
  What the theorems ask of the other requests while an attempt runs: they may change the state of
  circuits, health and idle connections as they like, but settle their own reservations.
\<close>

definition settled :: "'c backendPool \<Rightarrow> 'c backendPool \<Rightarrow> bool" where
  "settled p q \<longleftrightarrow> map config (backends q) = map config (backends p) \<and>
     map inFlight (backends q) = map inFlight (backends p) \<and>
     map admission (backends q) = map admission (backends p)"

definition quiet :: "('c, 'w) requestEnv \<Rightarrow> bool" where
  "quiet env \<longleftrightarrow> (\<forall>n p. settled p (others env n p))"

lemma settled_refl [simp]: "settled p p"
  by (simp add: settled_def)

lemma settled_trans: "settled p q \<Longrightarrow> settled q r \<Longrightarrow> settled p r"
  by (simp add: settled_def)

lemma settled_length: "settled p q \<Longrightarrow> length (backends q) = length (backends p)"
  by (auto simp: settled_def dest: map_eq_imp_length_eq)

lemma settled_names: "settled p q \<Longrightarrow> poolNames q = poolNames p"
  by (rule poolNames_config) (simp add: settled_def)

lemma completeAttempt_pool [simp]:
  "psPool (completeAttempt result now r st) = poolRelease result now r (psPool st)"
  "psAttempted (completeAttempt result now r st) = psAttempted st"
  "psEvents (completeAttempt result now r st) = psEvents st"
  "psMetrics (completeAttempt result now r st) = psMetrics st"
  by (simp_all add: completeAttempt_def poolRelease_def Let_def split: prod.split)

lemma reserveAttempt_pool:
  assumes "reserveAttempt env i pc n st = (res, alias, st1)"
  shows "poolReserve (psAttempted st) (reserveAt env n) (psPool st) = (res, psPool st1) \<and>
    (case res of
       Inl _ \<Rightarrow> psAttempted st1 = psAttempted st
     | Inr r \<Rightarrow> alias = Alias (config (backends (psPool st1) ! ReservedIndex r)) \<and>
         psAttempted st1 = ToLower alias # psAttempted st)"
  using assms
  by (auto simp: reserveAttempt_def poolReserve_split Let_def split: prod.splits sum.splits)

lemma runAttempt_pool:
  assumes "runAttempt env request i pc n index st = (res, st2)" "quiet env"
  shows "settled (psPool st) (psPool st2) \<and> psAttempted st2 = psAttempted st \<and>
    psEvents st2 = psEvents st \<and> psMetrics st2 = psMetrics st"
proof -
  let ?p = "others env n (psPool st)"
  obtain result b where ex: "executeProxyAttempt (attemptWorld env n) request (backends ?p ! index) i pc = (result, b)"
    by fastforce
  obtain xs where b: "b = (backends ?p ! index)\<lparr>idle := xs\<rparr>"
    using executeProxyAttempt_idle [of "attemptWorld env n" request "backends ?p ! index" i pc] ex by auto
  have "settled ?p (?p\<lparr>backends := (backends ?p)[index := b]\<rparr>)"
    unfolding settled_def by (simp add: b map_update_same)
  moreover have "settled (psPool st) ?p" using assms(2) by (simp add: quiet_def)
  ultimately show ?thesis using assms(1) ex settled_trans by (auto simp: runAttempt_def Let_def)
qed

text \<open>A reservation that is granted, run and released leaves the pool settled.\<close>

lemma attempt_settles:
  assumes "poolReserve excluded now p = (Inr r, p')" "settled p' q"
  shows "settled p (poolRelease result later r q)"
proof -
  have n: "poolNames q = poolNames p'" using settled_names [OF assms(2)] .
  have "map config (backends p') = map config (backends p)"
    using assms(1) reserveNextExcluding_load by (fastforce simp: poolReserve_split)
  then show ?thesis
    using in_flight.reserve_release [OF assms(1) n, of result later]
      admissions.reserve_release [OF assms(1) n, of result later] assms(2) poolRelease_config [of result later r q]
    by (simp add: settled_def)
qed

lemma attemptOnce_cases:
  obtains (unreserved) kind st1 where
      "reserveAttempt env i pc n st = (Inl kind, [], st1)"
      "attemptOnce env request i pc n f l st =
        Finished (proxyAnswer i pc (if f = None then Some (proxyErr kind []) else f) l)
          (recordProxyAttemptFailure pc i [] n (proxyErr kind []) 0 st1)"
  | (ended) r al st1 x st2 result st' where
      "reserveAttempt env i pc n st = (Inr r, al, st1)"
      "runAttempt env request i pc n (ReservedIndex r) st1 = (x, st2)"
      "attemptOnce env request i pc n f l st =
        Finished (case x of Inl err \<Rightarrow> proxyAnswer i pc (Some err) None
                  | Inr response \<Rightarrow> proxyAnswer i pc None (Some (response, al))) st'"
      "psPool st' = poolRelease result (attemptFinishedAt env n) r (psPool st2)"
      "psAttempted st' = psAttempted st2"
  | (again) r al st1 x st2 result st' where
      "reserveAttempt env i pc n st = (Inr r, al, st1)"
      "runAttempt env request i pc n (ReservedIndex r) st1 = (x, st2)"
      "attemptOnce env request i pc n f l st =
        Retry (case x of Inl err \<Rightarrow> Some err | Inr _ \<Rightarrow> f)
          (case x of Inl _ \<Rightarrow> l | Inr response \<Rightarrow> Some (response, al)) st'"
      "psPool st' = poolRelease result (attemptFinishedAt env n) r (psPool st2)"
      "psAttempted st' = psAttempted st2"
      "n < MaxAttempts pc" "Method request = ''GET'' \<or> Method request = ''HEAD''"
proof -
  obtain res al st1 where rs: "reserveAttempt env i pc n st = (res, al, st1)" by (metis prod_cases3)
  show ?thesis
  proof (cases res)
    case (Inl kind)
    have "al = []" using rs Inl by (auto simp: reserveAttempt_def Let_def split: prod.splits sum.splits)
    then show ?thesis using unreserved rs Inl by (simp add: attemptOnce_def Let_def)
  next
    case (Inr r)
    note rs' = rs [unfolded Inr]
    obtain x st2 where run: "runAttempt env request i pc n (ReservedIndex r) st1 = (x, st2)" by fastforce
    note step = attemptOnce_def [of env request i pc n f l st, unfolded rs' Let_def, simplified, unfolded run]
    show ?thesis
    proof (cases "attemptOnce env request i pc n f l st")
      case (Finished a st')
      show ?thesis
        by (cases x; rule ended [OF rs' run, of st'])
          (use Finished step in \<open>auto simp: split: if_splits\<close>)
    next
      case (Retry f' l' st')
      show ?thesis
        by (cases x; rule again [OF rs' run, of st'])
          (use Retry step in \<open>auto simp: canRetryProxyRequest_def split: if_splits\<close>)
    qed
  qed
qed

text \<open>
  An attempt that was reserved: its backend is one of the pool's that was not tried before, and
  completing the reservation leaves the pool settled.
\<close>

lemma attempt_reserved:
  assumes "reserveAttempt env i pc n st = (Inr r, al, st1)"
    and "runAttempt env request i pc n (ReservedIndex r) st1 = (x, st2)"
    and "quiet env" "distinct (psAttempted st)"
  shows "psAttempted st2 = ToLower al # psAttempted st" "distinct (psAttempted st2)"
    "ToLower al \<in> set (poolNames (psPool st))" "al \<in> Alias ` set (map config (backends (psPool st)))"
    "settled (psPool st) (poolRelease result later r (psPool st2))"
proof -
  note rs = reserveAttempt_pool [OF assms(1)]
  have pr: "poolReserve (psAttempted st) (reserveAt env n) (psPool st) = (Inr r, psPool st1)" using rs by simp
  note run = runAttempt_pool [OF assms(2,3)]
  have cfg: "map config (backends (psPool st1)) = map config (backends (psPool st))"
    and ix: "ReservedIndex r < length (backends (psPool st))"
    using pr reserveNextExcluding_load by (fastforce simp: poolReserve_split)+
  then have "config (backends (psPool st1) ! ReservedIndex r) = config (backends (psPool st) ! ReservedIndex r)"
    by (metis length_map nth_map)
  then have al: "al = Alias (config (backends (psPool st) ! ReservedIndex r))" using rs by simp
  then have nm: "ToLower al = poolNames (psPool st) ! ReservedIndex r" using ix by (simp add: poolNames_def)
  show at: "psAttempted st2 = ToLower al # psAttempted st" using rs run by simp
  show "distinct (psAttempted st2)" "ToLower al \<in> set (poolNames (psPool st))"
    using in_flight.reserve_fresh [OF pr assms(4)] nm at by simp_all
  show "al \<in> Alias ` set (map config (backends (psPool st)))" using al ix by simp
  show "settled (psPool st) (poolRelease result later r (psPool st2))"
    using attempt_settles [OF pr] run by blast
qed

lemma reserveAttempt_refused:
  assumes "reserveAttempt env i pc n st = (Inl kind, al, st1)"
  shows "psAttempted st1 = psAttempted st" "settled (psPool st) (psPool st1)"
proof -
  note rs = reserveAttempt_pool [OF assms]
  show "psAttempted st1 = psAttempted st" using rs by simp
  show "settled (psPool st) (psPool st1)"
    using rs reserveNextExcluding_load by (fastforce simp: poolReserve_split settled_def)
qed

text \<open>
  A response kept for a retry is discarded when the attempt after it fails without a further retry:
  the client is sent the gateway failure.
\<close>

lemma retry_discards_response:
  assumes "reserveAttempt env i pc n st = (Inr r, al, st1)"
    and "runAttempt env request i pc n (ReservedIndex r) st1 = (Inl err, st2)" "n \<ge> MaxAttempts pc"
  shows "\<exists>st'. attemptOnce env request i pc n f (Some kept) st =
    Finished (proxyFailureResponse (Some err) i (Some False) (ViaName pc), []) st'"
  using assms by (simp add: attemptOnce_def Let_def canRetryProxyRequest_def proxyAnswer_def)

subsection \<open>Attempts and reservations of a request\<close>

definition attempting :: "httpRequest \<Rightarrow> 'c backendPool \<Rightarrow> int \<Rightarrow> 'c proxyState \<Rightarrow> bool" where
  "attempting request p k st \<longleftrightarrow>
     settled p (psPool st) \<and> distinct (psAttempted st) \<and> set (psAttempted st) \<subseteq> set (poolNames p) \<and>
     int (length (psAttempted st)) \<le> k \<and>
     (Method request = ''GET'' \<or> Method request = ''HEAD'' \<or> length (psAttempted st) \<le> 1)"

lemma attempting_reserved:
  assumes "attempting request p k st"
    and "Method request = ''GET'' \<or> Method request = ''HEAD'' \<or> psAttempted st = []"
    and "reserveAttempt env i pc n st = (Inr r, al, st1)"
    and "runAttempt env request i pc n (ReservedIndex r) st1 = (x, st2)"
    and "quiet env" "psPool st' = poolRelease result later r (psPool st2)"
    and "psAttempted st' = psAttempted st2"
  shows "attempting request p (k + 1) st'"
proof -
  have d: "distinct (psAttempted st)" using assms(1) by (simp add: attempting_def)
  note a = attempt_reserved [OF assms(3,4,5) d]
  have "poolNames (psPool st) = poolNames p" using assms(1) settled_names by (auto simp: attempting_def)
  then show ?thesis
    using a(1,2,3) a(5) [of result later] assms(1,2,6,7) settled_trans
    by (auto simp: attempting_def)
qed

definition attemptsBefore :: "httpRequest \<Rightarrow> 'c backendPool \<Rightarrow> proxyConfig \<Rightarrow> int \<Rightarrow> 'c proxyState \<Rightarrow> bool" where
  "attemptsBefore request p pc n st \<longleftrightarrow>
     attempting request p (n - 1) st \<and> 1 \<le> n \<and> n \<le> MaxAttempts pc + 1 \<and>
     (Method request = ''GET'' \<or> Method request = ''HEAD'' \<or> psAttempted st = [])"

lemma attempting_step:
  assumes "attemptsBefore request p pc n st" "n \<le> MaxAttempts pc" "quiet env"
  shows "case attemptOnce env request i pc n f l st of
      Finished a st' \<Rightarrow> attempting request p (MaxAttempts pc) st'
    | Retry f' l' st' \<Rightarrow> attemptsBefore request p pc (n + 1) st'"
proof (cases rule: attemptOnce_cases [of env i pc n st request f l])
  case (unreserved kind st1)
  then show ?thesis
    using assms reserveAttempt_refused [OF unreserved(1)] settled_trans
    by (auto simp: attempting_def attemptsBefore_def)
next
  case (ended r al st1 x st2 result st')
  have "attempting request p (n - 1 + 1) st'"
    using attempting_reserved [OF _ _ ended(1,2) assms(3) ended(4,5)] assms(1) unfolding attemptsBefore_def by blast
  then show ?thesis using ended(3) assms(2) by (auto simp: attempting_def)
next
  case (again r al st1 x st2 result st')
  have "attempting request p (n - 1 + 1) st'"
    using attempting_reserved [OF _ _ again(1,2) assms(3) again(4,5)] assms(1) unfolding attemptsBefore_def by blast
  then show ?thesis using again(3,7) assms(1,2) by (auto simp: attemptsBefore_def)
qed

lemma attemptLoop_attempting:
  assumes "attempting request p 0 st" "quiet env" "MaxAttempts pc \<ge> 0"
  shows "attempting request p (MaxAttempts pc) (snd (attemptLoop env request i pc 1 f l st))"
proof (rule attemptLoop_rule [where P = "\<lambda>n f l st. attemptsBefore request p pc n st" and
      Q = "\<lambda>a st. attempting request p (MaxAttempts pc) st"])
  show "attemptsBefore request p pc 1 st" using assms by (auto simp: attempting_def attemptsBefore_def)
next
  fix n f l st a st'
  assume "attemptsBefore request p pc n st" "n \<le> MaxAttempts pc" "attemptOnce env request i pc n f l st = Finished a st'"
  then show "attempting request p (MaxAttempts pc) st'"
    using attempting_step [of request p pc n st env i f l] assms(2) by simp
next
  fix n f l st f' l' st'
  assume "attemptsBefore request p pc n st" "n \<le> MaxAttempts pc" "attemptOnce env request i pc n f l st = Retry f' l' st'"
  then show "attemptsBefore request p pc (n + 1) st'"
    using attempting_step [of request p pc n st env i f l] assms(2) by simp
next
  fix n st
  assume "attemptsBefore request p pc n st" "n > MaxAttempts pc"
  then show "attempting request p (MaxAttempts pc) st" by (simp add: attempting_def attemptsBefore_def)
qed

lemma executeProxyRequest_attempting:
  assumes "quiet env" "MaxAttempts raw \<ge> 0" "newRequestID env = Some i" "validRequestID i"
  shows "attempting request (psPool st) (MaxAttempts raw) (snd (executeProxyRequest env request raw st))"
proof -
  let ?pc = "proxyConfig_setDefaults raw"
  let ?st = "emit ?pc ((zeroEvent eventRequestStarted)\<lparr>RequestID := i, RouteAlias := ProxyRoute ?pc\<rparr>)
       (measured ?pc (beginRequest (int (length (ReqBody request)))) st)"
  have m: "MaxAttempts ?pc = MaxAttempts raw" by (simp add: proxyConfig_setDefaults_def)
  have "attempting request (psPool st) 0 (?st\<lparr>psAttempted := []\<rparr>)"
    by (simp add: attempting_def)
  from attemptLoop_attempting [OF this assms(1), of ?pc i None None]
  show ?thesis
    using assms(2-4) m
    by (auto simp: executeProxyRequest_def recordCompletion_def attempting_def Let_def split: prod.splits)
qed

subsection \<open>What a request answers\<close>

text \<open>The failure responses can be written, and carry the request identifier.\<close>

lemma failureProxyStatus_fieldValue:
  assumes "validToken via" "\<forall>e. f = Some e \<longrightarrow> PAlias e = [] \<or> validToken (PAlias e)"
  shows "validFieldValue (failureProxyStatus via f)"
proof -
  have "validFieldValue ''; error=''" "validFieldValue ''; next-hop=''" "validFieldValue ''proxy_internal_error''"
    "validFieldValue []" by code_simp+
  moreover have "validFieldValue (errorToken k)" for k
  proof -
    have "list_all (\<lambda>k. validFieldValue (errorToken k))
        [proxyNoBackend, proxyAdmissionRejected, proxyDialFailure, proxyDialTimeout, proxyWriteFailure,
         proxyWriteTimeout, proxyUpstreamTimeout, proxyUpstreamProtocol, proxyUpstreamIncomplete, proxyCanceled]"
      by code_simp
    then show ?thesis by (cases k) simp_all
  qed
  ultimately show ?thesis
    using assms
    by (auto simp: failureProxyStatus_def Let_def validToken_fieldValue simp del: append_Cons append_Nil
        split: option.splits)
qed

lemma failureStatus_values:
  "failureStatus k \<in> {(502, ''bad gateway'' @ [LF]), (503, ''service unavailable'' @ [LF]),
     (504, ''gateway timeout'' @ [LF])}"
  by (cases k) simp_all

lemma failure_written:
  assumes "validToken via" "validToken i" "\<forall>e. f = Some e \<longrightarrow> PAlias e = [] \<or> validToken (PAlias e)"
    and "r = proxyFailureResponse f i cs via"
  shows "\<exists>out. writeHTTPResponse bufferWriter [] r m = (None, out)"
    "Values (RespHeaders r) requestIDHeader = [i]"
    "StatusCode r \<in> {502, 503, 504}"
proof -
  have via: "via \<noteq> []" using assms(1) by (auto simp: validToken_def)
  obtain s b where sb: "(case f of None \<Rightarrow> (502, ''bad gateway'' @ [LF]) | Some e \<Rightarrow> failureStatus (PKind e)) = (s, b)"
    "s \<in> {502, 503, 504}"
  proof (cases f)
    case None
    then show ?thesis using that by auto
  next
    case (Some e)
    then show ?thesis using that failureStatus_values [of "PKind e"] by (cases "failureStatus (PKind e)") auto
  qed
  have r: "r = (textResponse s b)\<lparr>RespHeaders := RespHeaders (textResponse s b) @
      [hf requestIDHeader i, hf ''Proxy-Status'' (failureProxyStatus via f)], CommitState := cs\<rparr>"
    using sb(1) via by (simp add: assms(4) proxyFailureResponse_def Let_def)
  have ct: "validFieldValue ''text/plain; charset=utf-8''" by code_simp
  have hs: "validateGeneratedFields (RespHeaders r) ''response headers'' = None"
    using assms(2) failureProxyStatus_fieldValue [OF assms(1,3)] ct unfolding validateGeneratedFields_None
    by (simp add: r textResponse_def requestIDHeader_def validToken_fieldValue)
  show "Values (RespHeaders r) requestIDHeader = [i]"
    by (simp add: r textResponse_def requestIDHeader_def Values_literal proxy_names del: Values.simps(2))
  have v: "Values (RespHeaders r) ''Connection'' = []" "Values (RespHeaders r) ''Upgrade'' = []"
    by (simp_all add: r textResponse_def requestIDHeader_def Values_literal proxy_names framing_names
        del: Values.simps(2))
  have "validReasonPhrase (defaultReasonPhrase s)"
    by (simp add: defaultReasonPhrase_def validReasonPhrase_def validFieldValue_def)
  moreover have sel: "RespVersion r = httpVersion11" "StatusCode r = s" "Reason r = []" "RespTrailers r = []"
    "RespBodyMode r = bodyModeFixed" "RespClose r = False"
    by (simp_all add: r textResponse_def)
  moreover have "\<not> successfulConnectResponse m s" "s \<noteq> 101" "\<not> s < 100" "\<not> s > 599"
    using sb(2) by (auto simp: successfulConnectResponse_def)
  ultimately have "\<exists>x. responseHead r m = Inr x"
    using v hs
    by (simp add: responseHead_def Let_def validateConnectionFields_def HasToken_no_values validateTrailers_def)
  then obtain x y z where "responseHead r m = Inr (x, y, z)" by (metis prod_cases3)
  from writeHTTPResponse_buffer [OF this, of "[]"] show "\<exists>out. writeHTTPResponse bufferWriter [] r m = (None, out)"
    using sel(4) by simp
  show "StatusCode r \<in> {502, 503, 504}" using sb(2) sel(2) by simp
qed

lemma readFinalResponse_read:
  "readFinalResponse k reader limits m = Inr (p, rest) \<Longrightarrow>
   \<exists>reader'. readHTTPResponse reader' limits m = Inr (p, rest)"
proof (induction k reader limits m rule: readFinalResponse.induct)
  case (1 k reader limits m)
  obtain q reader' where q: "readHTTPResponse reader limits m = Inr (q, reader')"
    using "1.prems" by (subst (asm) readFinalResponse.simps) (auto split: sum.splits)
  show ?case
  proof (cases "100 \<le> StatusCode q \<and> StatusCode q < 200")
    case True
    then obtain k' where k': "k = Suc k'" "readFinalResponse k' reader' limits m = Inr (p, rest)"
      using "1.prems" q by (subst (asm) readFinalResponse.simps) (auto split: nat.splits)
    show ?thesis using "1.IH" [OF q refl True k'] .
  next
    case False
    then have "q = p \<and> reader' = rest"
      using "1.prems" q by (subst (asm) readFinalResponse.simps) auto
    then show ?thesis using q by blast
  qed
qed

definition received :: "('c, 'w) requestEnv \<Rightarrow> string \<Rightarrow> proxyConfig \<Rightarrow> int \<Rightarrow> httpResponse option" where
  "received env m pc n =
     (case readFinalResponse maxInformationalResponses (upReader (attemptWorld env n)) (ProxyLimits pc) m of
        Inl _ \<Rightarrow> None | Inr (p, _) \<Rightarrow> Some p)"

lemma attempt_outcome:
  assumes "reserveAttempt env i pc n st = (Inr r, al, st1)"
    and "runAttempt env request i pc n (ReservedIndex r) st1 = (x, st2)" "quiet env"
  shows "case x of Inl err \<Rightarrow> PAlias err = al
    | Inr response \<Rightarrow> \<exists>p. received env (Method request) pc n = Some p \<and>
        response = sanitizeUpstreamResponse p (ViaName pc)"
proof -
  note rs = reserveAttempt_pool [OF assms(1)]
  let ?q = "others env n (psPool st1)"
  let ?b = "backends ?q ! ReservedIndex r"
  have pr: "poolReserve (psAttempted st) (reserveAt env n) (psPool st) = (Inr r, psPool st1)" using rs by simp
  have len: "length (backends (psPool st1)) = length (backends (psPool st))"
    "ReservedIndex r < length (backends (psPool st))"
    using pr reserveNextExcluding_load by (fastforce simp: poolReserve_split dest: map_eq_imp_length_eq)+
  have q: "settled (psPool st1) ?q" using assms(3) by (simp add: quiet_def)
  then have "config ?b = config (backends (psPool st1) ! ReservedIndex r)"
    using len settled_length [OF q] unfolding settled_def by (metis nth_map)
  then have al: "Alias (config ?b) = al" using rs by simp
  show ?thesis
  proof (cases rule: executeProxyAttempt_cases [of "attemptWorld env n" ?b request i pc])
    case (refused err closed b)
    then show ?thesis using assms(2) al by (auto simp: runAttempt_def Let_def proxyErr_def)
  next
    case (failed conn reused closed b err w)
    then show ?thesis using assms(2) al by (auto simp: runAttempt_def Let_def)
  next
    case (answered conn reused closed b response rest w closed' b')
    then show ?thesis using assms(2) by (auto simp: runAttempt_def Let_def received_def)
  qed
qed

text \<open>The last failure names a backend of the pool, and the response kept is one that was received.\<close>

definition remembered ::
    "('c, 'w) requestEnv \<Rightarrow> string \<Rightarrow> proxyConfig \<Rightarrow> string set \<Rightarrow> proxyError option \<Rightarrow>
     (httpResponse \<times> string) option \<Rightarrow> bool" where
  "remembered env m pc names f l \<longleftrightarrow>
     (\<forall>err. f = Some err \<longrightarrow> PAlias err \<in> insert [] names) \<and>
     (\<forall>response al. l = Some (response, al) \<longrightarrow> al \<in> names \<and>
        (\<exists>k p. 1 \<le> k \<and> k \<le> MaxAttempts pc \<and> received env m pc k = Some p \<and>
           response = sanitizeUpstreamResponse p (ViaName pc)))"

definition answers ::
    "('c, 'w) requestEnv \<Rightarrow> string \<Rightarrow> proxyConfig \<Rightarrow> string \<Rightarrow> httpResponse \<Rightarrow> bool" where
  "answers env m pc i response \<longleftrightarrow>
     (\<exists>out. writeHTTPResponse bufferWriter [] response m = (None, out)) \<and>
     Values (RespHeaders response) requestIDHeader = [i] \<and>
     (StatusCode response \<in> {502, 503, 504} \<or>
      (\<exists>k p. 1 \<le> k \<and> k \<le> MaxAttempts pc \<and> received env m pc k = Some p \<and>
         StatusCode response = StatusCode p \<and> RespBody response = RespBody p))"

lemma proxyAnswer_answers:
  assumes "remembered env m pc names f l" "\<forall>al \<in> names. validToken al"
    and "validToken (ViaName pc)" "validToken i"
  shows "answers env m pc i (fst (proxyAnswer i pc f l))"
proof (cases l)
  case None
  have "\<forall>e. f = Some e \<longrightarrow> PAlias e = [] \<or> validToken (PAlias e)"
    using assms(1,2) by (auto simp: remembered_def)
  from failure_written [OF assms(3,4) this refl] show ?thesis
    using None by (simp add: answers_def proxyAnswer_def)
next
  case (Some ra)
  obtain response al where ra: "ra = (response, al)" by fastforce
  obtain k p where kp: "1 \<le> k" "k \<le> MaxAttempts pc" "received env m pc k = Some p"
    "response = sanitizeUpstreamResponse p (ViaName pc)" "al \<in> names"
    using assms(1) Some ra unfolding remembered_def by blast
  obtain rest where "readFinalResponse maxInformationalResponses (upReader (attemptWorld env k)) (ProxyLimits pc) m =
      Inr (p, rest)"
    using kp(3) by (auto simp: received_def split: sum.splits)
  then obtain reader where "readHTTPResponse reader (ProxyLimits pc) m = Inr (p, rest)"
    using readFinalResponse_read by blast
  from finalized_written [OF this assms(3) _ assms(4) refl, of al] kp assms(2) show ?thesis
    using Some ra by (auto simp: answers_def proxyAnswer_def)
qed

lemma attempt_remembered:
  assumes "attemptsBefore request p pc n st" "n \<le> MaxAttempts pc" "quiet env"
    and "names = Alias ` set (map config (backends p))"
    and "remembered env (Method request) pc names f l"
    and "reserveAttempt env i pc n st = (Inr r, al, st1)"
    and "runAttempt env request i pc n (ReservedIndex r) st1 = (x, st2)"
  shows "remembered env (Method request) pc names (case x of Inl err \<Rightarrow> Some err | Inr _ \<Rightarrow> f)
    (case x of Inl _ \<Rightarrow> l | Inr response \<Rightarrow> Some (response, al))"
proof -
  have st: "distinct (psAttempted st)" "settled p (psPool st)" "1 \<le> n"
    using assms(1) by (auto simp: attemptsBefore_def attempting_def)
  have "al \<in> names"
    using attempt_reserved(4) [OF assms(6,7,3) st(1)] st(2) assms(4) unfolding settled_def by metis
  then show ?thesis
    using attempt_outcome [OF assms(6,7,3)] assms(2,5) st(3)
    by (cases x) (auto simp: remembered_def)
qed

lemma attemptOnce_remembers:
  assumes "attemptsBefore request p pc n st" "n \<le> MaxAttempts pc" "quiet env"
    and "names = Alias ` set (map config (backends p))"
    and "remembered env (Method request) pc names f l"
  shows "case attemptOnce env request i pc n f l st of
      Finished a st' \<Rightarrow> \<exists>f' l'. remembered env (Method request) pc names f' l' \<and> a = proxyAnswer i pc f' l'
    | Retry f' l' st' \<Rightarrow> remembered env (Method request) pc names f' l'"
proof (cases rule: attemptOnce_cases [of env i pc n st request f l])
  case (unreserved kind st1)
  have "remembered env (Method request) pc names (if f = None then Some (proxyErr kind []) else f) l"
    using assms(5) by (auto simp: remembered_def proxyErr_def)
  then show ?thesis unfolding unreserved(2) attemptStep.case by blast
next
  case (ended r al st1 x st2 result st')
  note o = attempt_remembered [OF assms ended(1,2)]
  show ?thesis
  proof (cases x)
    case (Inl err)
    then have "remembered env (Method request) pc names (Some err) None"
      using o by (simp add: remembered_def)
    then show ?thesis unfolding ended(3) Inl attemptStep.case sum.case by blast
  next
    case (Inr response)
    then have "remembered env (Method request) pc names None (Some (response, al))"
      using o by (simp add: remembered_def)
    then show ?thesis unfolding ended(3) Inr attemptStep.case sum.case by blast
  qed
next
  case (again r al st1 x st2 result st')
  then show ?thesis using attempt_remembered [OF assms again(1,2)] by simp
qed

lemma attemptLoop_answers:
  assumes "attempting request p 0 st" "quiet env" "MaxAttempts pc \<ge> 0"
    and "\<forall>c \<in> set (map config (backends p)). validToken (Alias c)"
    and "validToken (ViaName pc)" "validToken i"
  shows "answers env (Method request) pc i (fst (fst (attemptLoop env request i pc 1 None None st)))"
proof -
  define names where names: "names = Alias ` set (map config (backends p))"
  let ?P = "\<lambda>n f l st. attemptsBefore request p pc n st \<and> remembered env (Method request) pc names f l"
  have ok: "answers env (Method request) pc i (fst (proxyAnswer i pc f l))"
    if "remembered env (Method request) pc names f l" for f l
    using proxyAnswer_answers [OF that _ assms(5,6)] assms(4) by (simp add: names)
  show ?thesis
  proof (rule attemptLoop_rule [where P = ?P and Q = "\<lambda>a st. answers env (Method request) pc i (fst a)"])
    show "?P 1 None None st"
      using assms(1,3) by (auto simp: attempting_def attemptsBefore_def remembered_def)
  next
    fix n f l st a st'
    assume P: "?P n f l st" "n \<le> MaxAttempts pc" "attemptOnce env request i pc n f l st = Finished a st'"
    then show "answers env (Method request) pc i (fst a)"
      using attemptOnce_remembers [of request p pc n st env names f l i] assms(2) names ok by auto
  next
    fix n f l st f' l' st'
    assume P: "?P n f l st" "n \<le> MaxAttempts pc" "attemptOnce env request i pc n f l st = Retry f' l' st'"
    then show "?P (n + 1) f' l' st'"
      using attemptOnce_remembers [of request p pc n st env names f l i]
        attempting_step [of request p pc n st env i f l] assms(2) names by simp
  next
    fix n f l and st :: "'a proxyState"
    assume "?P n f l st"
    then show "answers env (Method request) pc i (fst (proxyAnswer i pc f l))" using ok by blast
  qed
qed

subsection \<open>What a request records\<close>

text \<open>
  Between its first and last event a request publishes only events of its own attempts, and counts
  in the metrics exactly the attempts and retries it publishes.
\<close>

definition ofType :: "eventType \<Rightarrow> decisionEvent list \<Rightarrow> nat" where
  "ofType t es = length (filter (\<lambda>e. EventType e = t) es)"

lemma ofType_simps [simp]:
  "ofType t [] = 0" "ofType t (es @ es') = ofType t es + ofType t es'"
  "ofType t (e # es) = (if EventType e = t then 1 else 0) + ofType t es"
  by (simp_all add: ofType_def)

definition records :: "string \<Rightarrow> decisionEvent list \<Rightarrow> 'c proxyState \<Rightarrow> 'c proxyState \<Rightarrow> bool" where
  "records i es st st' \<longleftrightarrow>
     psEvents st' = psEvents st @ es \<and>
     list_all (\<lambda>e. RequestID e = i \<and>
       EventType e \<in> {eventBackendSelected, eventAttemptFailed, eventRetryScheduled}) es \<and>
     requests (psMetrics st') = requests (psMetrics st) \<and>
     completed (psMetrics st') = completed (psMetrics st) \<and>
     activeRequests (psMetrics st') = activeRequests (psMetrics st) \<and>
     attempts (psMetrics st') = attempts (psMetrics st) + of_nat (ofType eventBackendSelected es) \<and>
     retries (psMetrics st') = retries (psMetrics st) + of_nat (ofType eventRetryScheduled es)"

lemma records_trans: "records i es st st' \<Longrightarrow> records i es' st' st'' \<Longrightarrow> records i (es @ es') st st''"
  by (simp add: records_def algebra_simps)

definition recorded :: "string \<Rightarrow> 'c proxyState \<Rightarrow> 'c proxyState \<Rightarrow> bool" where
  "recorded i st st' \<longleftrightarrow> (\<exists>es. records i es st st')"

lemma recorded_refl: "recorded i st st"
  unfolding recorded_def by (rule exI [of _ "[]"]) (simp add: records_def)

lemma recorded_keeps:
  "recorded i st st' \<Longrightarrow> psEvents st'' = psEvents st' \<Longrightarrow> psMetrics st'' = psMetrics st' \<Longrightarrow> recorded i st st''"
  by (simp add: recorded_def records_def)

lemma recorded_step: "recorded i st st' \<Longrightarrow> \<exists>es. records i es st' st'' \<Longrightarrow> recorded i st st''"
  using records_trans unfolding recorded_def by blast

lemma recorded_failure:
  "recorded i st st' \<Longrightarrow> Observed pc \<Longrightarrow> recorded i st (recordProxyAttemptFailure pc i al n err d st')"
  by (erule recorded_step) (simp add: records_def recordProxyAttemptFailure_def emit_def measured_def recordFailure_def zeroEvent_def)

lemma recorded_retry:
  "recorded i st st' \<Longrightarrow> Observed pc \<Longrightarrow> recorded i st (recordProxyRetry pc i al n reason st')"
  by (erule recorded_step) (simp add: records_def recordProxyRetry_def emit_def measured_def recordRetry_def zeroEvent_def)

lemma recorded_failed_status:
  "recorded i st st' \<Longrightarrow> Observed pc \<Longrightarrow> RequestID e = i \<Longrightarrow> EventType e = eventAttemptFailed \<Longrightarrow>
   recorded i st (emit pc e st')"
  by (erule recorded_step) (simp add: records_def emit_def)

lemma recorded_reserve:
  assumes "recorded i st st0" "reserveAttempt env i pc n st0 = (res, al, st1)" "Observed pc"
  shows "recorded i st st1"
proof -
  have "\<exists>es. records i es st0 st1"
    using assms(2,3)
    by (auto simp: records_def reserveAttempt_def emit_def measured_def recordAttempt_def zeroEvent_def Let_def
        split: prod.splits sum.splits)
  then show ?thesis by (rule recorded_step [OF assms(1)])
qed

lemma recorded_run:
  "recorded i st st1 \<Longrightarrow> runAttempt env request i pc n index st1 = (x, st2) \<Longrightarrow> recorded i st st2"
  by (erule recorded_keeps) (auto simp: runAttempt_def Let_def split: prod.splits)

lemma recorded_complete: "recorded i st st2 \<Longrightarrow> recorded i st (completeAttempt result now r st2)"
  by (erule recorded_keeps) simp_all

lemmas recorded_steps = recorded_failure recorded_retry recorded_failed_status recorded_complete

lemma attemptOnce_recorded:
  assumes "recorded i st0 st" "Observed pc"
  shows "recorded i st0 (case attemptOnce env request i pc n f l st of
      Finished a st' \<Rightarrow> st' | Retry f' l' st' \<Rightarrow> st')"
proof -
  obtain res al st1 where rs: "reserveAttempt env i pc n st = (res, al, st1)" by (metis prod_cases3)
  note st1 = recorded_reserve [OF assms(1) rs assms(2)]
  show ?thesis
  proof (cases res)
    case (Inl kind)
    then show ?thesis using rs recorded_failure [OF st1 assms(2)] by (simp add: attemptOnce_def Let_def)
  next
    case (Inr r)
    obtain x st2 where run: "runAttempt env request i pc n (ReservedIndex r) st1 = (x, st2)" by fastforce
    note st2 = recorded_run [OF st1 run]
    show ?thesis
      using rs Inr run st2 assms(2)
      by (cases x) (auto simp: attemptOnce_def Let_def zeroEvent_def intro!: recorded_steps)
  qed
qed

lemma attemptLoop_recorded:
  assumes "recorded i st0 st" "Observed pc"
  shows "recorded i st0 (snd (attemptLoop env request i pc n f l st))"
proof (rule attemptLoop_rule [where P = "\<lambda>n f l st. recorded i st0 st" and Q = "\<lambda>a st. recorded i st0 st"])
  show "recorded i st0 st" by fact
  show "recorded i st0 st'" if "recorded i st0 st" "attemptOnce env request i pc n f l st = Finished a st'"
    for n f l st a st'
    using attemptOnce_recorded [OF that(1) assms(2), of env request n f l] that(2) by simp
  show "recorded i st0 st'" if "recorded i st0 st" "attemptOnce env request i pc n f l st = Retry f' l' st'"
    for n f l st f' l' st'
    using attemptOnce_recorded [OF that(1) assms(2), of env request n f l] that(2) by simp
qed

subsection \<open>A sample request\<close>

text \<open>Two backends; the first attempt cannot dial, the second one is answered.\<close>

definition proxyPool :: "nat backendPool" where
  "proxyPool =
     \<lparr>backends = map (newBackend defaultResilienceConfig)
        [oneBackend, oneBackend\<lparr>Alias := ''b2'', Address := ''127.0.0.1:9002''\<rparr>],
      sequence = 0, resilience = defaultResilienceConfig\<rparr>"

definition answering :: "httpResponse \<Rightarrow> (nat, string) attemptEnv" where
  "answering response =
     \<lparr>acquireAt = 10, dialled = Inr 7, writeDeadlineErr = None, upWriter = bufferWriter, upState = [],
      upFlush = (\<lambda>w. (None, w)), readDeadlineErr = None,
      upReader = (snd (writeHTTPResponse bufferWriter [] response ''GET''), IoEOF), ctxDone = False, recycleAt = 30\<rparr>"

definition proxyEnv :: "(int \<Rightarrow> (nat, string) attemptEnv) \<Rightarrow> (nat, string) requestEnv" where
  "proxyEnv worlds =
     \<lparr>newRequestID = Some ''0123456789abcdef'', requestStartedAt = 0, deadlineFrom = 0, completedAt = 50,
      reserveAt = (\<lambda>n. 10), attemptStartedAt = (\<lambda>n. 20), attemptFinishedAt = (\<lambda>n. 40),
      attemptWorld = worlds, others = (\<lambda>n p. p)\<rparr>"

definition sampleEnv :: "(nat, string) requestEnv" where
  "sampleEnv = proxyEnv (\<lambda>n. if n = 1 then (answering backendResponse)\<lparr>dialled := Inl (DialOther ''refused'')\<rparr>
     else answering backendResponse)"

definition sampleState :: "nat proxyState" where
  "sampleState = \<lparr>psPool = proxyPool, psMetrics = newProxyMetrics, psEvents = [], psTransitions = [],
     psClosed = [], psAttempted = []\<rparr>"

definition observedConfig :: proxyConfig where
  "observedConfig = defaultProxyConfig\<lparr>Observed := True\<rparr>"

lemma sampleEnv_ok:
  "quiet sampleEnv" "newRequestID sampleEnv = Some ''0123456789abcdef''"
  "validRequestID ''0123456789abcdef''" "proxyConfig_validate observedConfig = Inr ()"
  "list_all (\<lambda>b. backendConfig_validate (config b) = Inr () \<and> Authority (config b) \<noteq> []) (backends (psPool sampleState))"
  "MaxAttempts observedConfig = 2" "Observed observedConfig"
  by (simp add: quiet_def sampleEnv_def proxyEnv_def, simp add: sampleEnv_def proxyEnv_def, code_simp+)

subsection \<open>Properties\<close>

lemma setDefaults_keeps [simp]:
  "MaxAttempts (proxyConfig_setDefaults pc) = MaxAttempts pc" "ViaName (proxyConfig_setDefaults pc) = ViaName pc"
  "ProxyLimits (proxyConfig_setDefaults pc) = ProxyLimits pc" "Observed (proxyConfig_setDefaults pc) = Observed pc"
  by (simp_all add: proxyConfig_setDefaults_def)

lemma proxyConfig_validate_attempts: "proxyConfig_validate pc = Inr () \<Longrightarrow> MaxAttempts pc > 0"
  by (auto simp: proxyConfig_validate_def split: if_splits)

lemma executeProxyRequest_loop:
  assumes "newRequestID env = Some i" "validRequestID i"
  shows "\<exists>st1. psPool st1 = psPool st \<and> psAttempted st1 = [] \<and>
    fst (executeProxyRequest env request pc st) =
      fst (fst (attemptLoop env request i (proxyConfig_setDefaults pc) 1 None None st1))"
  using assms
  by (intro exI [of _ "(emit (proxyConfig_setDefaults pc) ((zeroEvent eventRequestStarted)
        \<lparr>RequestID := i, RouteAlias := ProxyRoute (proxyConfig_setDefaults pc)\<rparr>)
        (measured (proxyConfig_setDefaults pc) (beginRequest (int (length (ReqBody request)))) st))
          \<lparr>psAttempted := []\<rparr>"])
     (simp add: executeProxyRequest_def Let_def case_prod_beta)

text \<open>
  C2: whatever the backends, the network and concurrent requests do, a request with an identifier is
  answered by a response the writer accepts, carrying that identifier once: the status and body of a
  final response one of its attempts read, or a gateway failure of the proxy.
\<close>

theorem proxy_answers:
  fixes st :: "'c proxyState"
  assumes "quiet env" "newRequestID env = Some i" "validRequestID i" "proxyConfig_validate pc = Inr ()"
    and "list_all (\<lambda>b. backendConfig_validate (config b) = Inr () \<and> Authority (config b) \<noteq> [])
      (backends (psPool st))"
    and "response = fst (executeProxyRequest env request pc st)"
  shows "(\<exists>out. writeHTTPResponse bufferWriter [] response (Method request) = (None, out)) \<and>
    Values (RespHeaders response) requestIDHeader = [i] \<and>
    (StatusCode response \<in> {502, 503, 504} \<or>
     (\<exists>k p rest. 1 \<le> k \<and> k \<le> MaxAttempts pc \<and>
        readFinalResponse maxInformationalResponses (upReader (attemptWorld env k)) (ProxyLimits pc)
          (Method request) = Inr (p, rest) \<and>
        StatusCode response = StatusCode p \<and> RespBody response = RespBody p))"
proof -
  let ?pc = "proxyConfig_setDefaults pc"
  have tok: "\<forall>c \<in> set (map config (backends (psPool st))). validToken (Alias c)"
    "validToken (ViaName ?pc)" "validToken i"
    using assms(3-5) backendConfig_validate_host proxyConfig_validate_via
    by (auto simp: list_all_iff validRequestID_def)
  obtain st1 where st1: "psPool st1 = psPool st" "psAttempted st1 = []"
    "response = fst (fst (attemptLoop env request i ?pc 1 None None st1))"
    using executeProxyRequest_loop [OF assms(2,3), of st request pc] assms(6) by metis
  then have "answers env (Method request) ?pc i response"
    using attemptLoop_answers [OF _ assms(1) _ tok, of request st1] proxyConfig_validate_attempts [OF assms(4)]
    by (simp add: attempting_def)
  then show ?thesis
    unfolding answers_def received_def by (fastforce split: sum.splits)
qed

theorem proxy_answers_witness:
  "Values (RespHeaders (fst (executeProxyRequest sampleEnv clientRequest observedConfig sampleState)))
     requestIDHeader = [''0123456789abcdef'']"
  using proxy_answers [OF sampleEnv_ok(1-5) refl] by blast



text \<open>
  C3: when a request has been answered, on every path (refusals, failed attempts, retries), each
  backend has the requests in flight and the admissions it had before.
\<close>

theorem reservations_settled:
  assumes "quiet env" "MaxAttempts pc \<ge> 0" "newRequestID env = Some i" "validRequestID i"
    and "st' = snd (executeProxyRequest env request pc st)"
  shows "map inFlight (backends (psPool st')) = map inFlight (backends (psPool st)) \<and>
    map admission (backends (psPool st')) = map admission (backends (psPool st))"
  using executeProxyRequest_attempting [OF assms(1-4)] assms(5) by (simp add: attempting_def settled_def)

theorem reservations_settled_witness:
  "map inFlight (backends (psPool (snd (executeProxyRequest sampleEnv clientRequest observedConfig sampleState)))) =
   [0, 0]"
  using reservations_settled [OF sampleEnv_ok(1) _ sampleEnv_ok(2,3) refl, of observedConfig clientRequest sampleState]
    sampleEnv_ok(6)
  by (simp add: sampleState_def proxyPool_def newBackend_def)

text \<open>What a request adds to the events and to the metrics.\<close>

lemma request_publishes:
  assumes "Observed pc" "newRequestID env = Some i" "validRequestID i"
    and "(response, st') = executeProxyRequest env request pc st"
  shows "\<exists>s es c. psEvents st' = psEvents st @ s # es @ [c] \<and>
    EventType s = eventRequestStarted \<and> EventType c = eventRequestCompleted \<and> Status c = StatusCode response \<and>
    list_all (\<lambda>e. RequestID e = i) (s # es @ [c]) \<and>
    ofType eventRequestStarted es = 0 \<and> ofType eventRequestCompleted es = 0 \<and>
    requests (psMetrics st') = requests (psMetrics st) + 1 \<and>
    completed (psMetrics st') = completed (psMetrics st) + 1 \<and>
    activeRequests (psMetrics st') = activeRequests (psMetrics st) \<and>
    attempts (psMetrics st') = attempts (psMetrics st) + of_nat (ofType eventBackendSelected es) \<and>
    retries (psMetrics st') = retries (psMetrics st) + of_nat (ofType eventRetryScheduled es)"
proof -
  let ?pc = "proxyConfig_setDefaults pc"
  define s where "s = (zeroEvent eventRequestStarted)\<lparr>RequestID := i, RouteAlias := ProxyRoute ?pc\<rparr>"
  define st1 where "st1 = (emit ?pc s (measured ?pc (beginRequest (int (length (ReqBody request)))) st))
      \<lparr>psAttempted := []\<rparr>"
  obtain answer st2 where loop: "attemptLoop env request i ?pc 1 None None st1 = (answer, st2)" by fastforce
  obtain es where es: "records i es st1 st2"
    using attemptLoop_recorded [OF recorded_refl, of ?pc i st1 env request 1 None None] assms(1) loop
    by (auto simp: recorded_def)
  have none: "list_all (\<lambda>e. RequestID e = i) es" "ofType eventRequestStarted es = 0"
    "ofType eventRequestCompleted es = 0"
    using es by (auto simp: records_def list_all_iff ofType_def filter_empty_conv)
  have ex: "response = fst answer"
    "st' = recordCompletion i ?pc (Sub (completedAt env) (requestStartedAt env)) answer st2"
    using assms(2-4) loop by (auto simp: executeProxyRequest_def Let_def s_def st1_def)
  define c where "c = (zeroEvent eventRequestCompleted)\<lparr>RequestID := i, RouteAlias := ProxyRoute ?pc,
      BackendAlias := snd answer, Status := StatusCode response,
      DurationMicros := max (Microseconds (Sub (completedAt env) (requestStartedAt env))) 0\<rparr>"
  have "psEvents st' = psEvents st2 @ [c]"
    using assms(1) by (simp add: ex recordCompletion_def emit_def measured_def c_def split: prod.split)
  moreover have "psEvents st1 = psEvents st @ [s]" using assms(1) by (simp add: st1_def emit_def)
  moreover have "requests (psMetrics st') = requests (psMetrics st2)"
    "completed (psMetrics st') = completed (psMetrics st2) + 1"
    "activeRequests (psMetrics st') = activeRequests (psMetrics st2) - 1"
    "attempts (psMetrics st') = attempts (psMetrics st2)" "retries (psMetrics st') = retries (psMetrics st2)"
    using assms(1) by (simp_all add: ex recordCompletion_def measured_def completeRequest_def split: prod.split)
  moreover have "requests (psMetrics st1) = requests (psMetrics st) + 1"
    "completed (psMetrics st1) = completed (psMetrics st)"
    "activeRequests (psMetrics st1) = activeRequests (psMetrics st) + 1"
    "attempts (psMetrics st1) = attempts (psMetrics st)" "retries (psMetrics st1) = retries (psMetrics st)"
    using assms(1) by (simp_all add: st1_def measured_def beginRequest_def)
  ultimately show ?thesis
    using es none by (intro exI [of _ s] exI [of _ es] exI [of _ c])
      (simp add: records_def s_def c_def zeroEvent_def)
qed



text \<open>
  An attempt accounts for every connection: those idle before and the one it may have dialled are
  those idle after and those it closed; nothing else of the backend changes.
\<close>

lemma attempt_connections:
  "mset (map connection (idle backend)) +
     (case fst (acquireConnection (acquireAt env) (dialled env) backend) of
        Inr (c, False) \<Rightarrow> {#c#} | _ \<Rightarrow> {#}) =
   mset (map connection (idle (snd (executeProxyAttempt env request backend i pc)))) +
     mset (closedConns (fst (executeProxyAttempt env request backend i pc))) \<and>
   snd (executeProxyAttempt env request backend i pc) =
     backend\<lparr>idle := idle (snd (executeProxyAttempt env request backend i pc))\<rparr>"
  using executeProxyAttempt_connections [of env request backend i pc, OF surjective_pairing]
    executeProxyAttempt_idle [of env request backend i pc] by auto

end
