(* ===== verification/Health.thy ===== *)
theory Health
  imports Proxy_Rewriting Proxy
begin

text \<open>
  \<^verbatim>\<open>src/src/health.go\<close>: active health checks. A probe dials a backend, sends a GET for its health path
  and reads the final response; its result is recorded with the backend, and it may hold a half-open
  permit of the circuit meanwhile. The network is an environment, what other goroutines do to the
  backend during the probe a function.
\<close>

subsection \<open>Configuration and lifecycle\<close>

record activeHealthConfig =
  Interval :: duration
  HealthTimeout :: duration

definition defaultActiveHealthConfig :: activeHealthConfig where
  "defaultActiveHealthConfig = \<lparr>Interval = 2 * second, HealthTimeout = 750 * (second div 1000)\<rparr>"

definition activeHealthConfig_validate :: "activeHealthConfig \<Rightarrow> string + unit" where
  "activeHealthConfig_validate c =
     (if Interval c \<le> 0 \<or> HealthTimeout c \<le> 0
      then Inl ''health interval and timeout must be greater than zero'' else Inr ())"

text \<open>The checker, with the number of probing goroutines its wait group counts.\<close>

record activeHealthChecker =
  hcProxy :: proxyConfig
  hcConfig :: activeHealthConfig
  running :: bool
  probers :: nat

definition newActiveHealthChecker ::
    "'c backendPool option \<Rightarrow> proxyConfig \<Rightarrow> activeHealthConfig \<Rightarrow> string + activeHealthChecker" where
  "newActiveHealthChecker pool raw c =
     (case pool of
        None \<Rightarrow> Inl ''health checker requires a backend pool''
      | Some p \<Rightarrow>
          if backends p = [] then Inl ''health checker requires a backend pool''
          else
            (let pc = proxyConfig_setDefaults raw in
             andThen (proxyConfig_validate pc) (\<lambda>_.
             andThen (activeHealthConfig_validate c) (\<lambda>_.
               Inr \<lparr>hcProxy = pc, hcConfig = c, running = False, probers = 0\<rparr>))))"

definition healthStart ::
    "bool \<Rightarrow> 'c backendPool \<Rightarrow> activeHealthChecker \<Rightarrow> string option \<times> activeHealthChecker" where
  "healthStart hasContext pool h =
     (if \<not> hasContext then (Some ''health checker context is required'', h)
      else if running h then (Some ''health checker is already running'', h)
      else (None, h\<lparr>running := True, probers := probers h + length (backends pool)\<rparr>))"

text \<open>\<^verbatim>\<open>Stop\<close> returns when every prober has returned.\<close>

definition healthStop :: "activeHealthChecker \<Rightarrow> activeHealthChecker" where
  "healthStop h = (if \<not> running h then h else h\<lparr>running := False, probers := 0\<rparr>)"

subsection \<open>A probe\<close>

record 'w probeEnv =
  probeDialled :: bool
  probeDeadlineErr :: "io_error option"
  probeWriter :: "'w writer"
  probeState :: 'w
  probeFlush :: "'w \<Rightarrow> io_error option \<times> 'w"
  probeReader :: reader

definition probeRequest :: "proxyConfig \<Rightarrow> backendConfig \<Rightarrow> httpRequest" where
  "probeRequest pc c =
     \<lparr>Method = ''GET'', Target = HealthPath c, ReqVersion = httpVersion11,
      ReqHeaders = [hf ''Host'' (Authority c), hf ''Connection'' ''close'', hf ''Via'' (''1.1 '' @ ViaName pc)],
      ReqTrailers = [], ReqBody = [], ReqBodyMode = bodyModeNone, ReqKeepAlive = False, RemoteAddr = []\<rparr>"

fun readFinalHealthResponse :: "nat \<Rightarrow> reader \<Rightarrow> httpLimits \<Rightarrow> http_error option + httpResponse" where
  "readFinalHealthResponse k reader limits =
     (case readHTTPResponse reader limits ''GET'' of
        Inl err \<Rightarrow> Inl (Some err)
      | Inr (response, reader') \<Rightarrow>
          if StatusCode response \<ge> 100 \<and> StatusCode response < 200 then
            (case k of 0 \<Rightarrow> Inl None | Suc k' \<Rightarrow> readFinalHealthResponse k' reader' limits)
          else Inr response)"

declare readFinalHealthResponse.simps [simp del]

definition probe :: "'w probeEnv \<Rightarrow> proxyConfig \<Rightarrow> backendConfig \<Rightarrow> bool" where
  "probe env pc c =
     (if \<not> probeDialled env then False
      else if probeDeadlineErr env \<noteq> None then False
      else
        (case writeHTTPRequest (probeWriter env) (probeState env) (probeRequest pc c) of
           (Some err, w) \<Rightarrow> False
         | (None, w) \<Rightarrow>
             (case fst (probeFlush env w) of
                Some err \<Rightarrow> False
              | None \<Rightarrow>
                  (case readFinalHealthResponse maxInformationalResponses (probeReader env) (ProxyLimits pc) of
                     Inl err \<Rightarrow> False
                   | Inr response \<Rightarrow> StatusCode response \<ge> 200 \<and> StatusCode response < 400))))"

record probeClock =
  probeAt :: time
  recordAt :: time
  completeAt :: time

definition runProbe ::
    "'w probeEnv \<Rightarrow> probeClock \<Rightarrow> ('c proxyBackend \<Rightarrow> 'c proxyBackend) \<Rightarrow> proxyConfig \<Rightarrow> 'c proxyBackend \<Rightarrow>
     bool \<times> circuitTransition list \<times> healthTransition option \<times> 'c proxyBackend" where
  "runProbe env clock meanwhile pc b =
     (let ((circuitProbe, transition), b1) = beginCircuitProbe (probeAt clock) b;
          success = probe env pc (config b);
          (health, b2) = recordActive success (recordAt clock) (meanwhile b1);
          (transition', b3) = completeCircuitProbe success circuitProbe (completeAt clock) b2 in
      (success,
       (case transition of None \<Rightarrow> [] | Some t \<Rightarrow> [t]) @ (case transition' of None \<Rightarrow> [] | Some t \<Rightarrow> [t]),
       health, b3))"

text \<open>
  The goroutine of a backend: a probe, then one for each tick until the context is done. The list is
  what the select statement finds, in order.
\<close>

datatype 'p selected = ContextDone | Tick 'p

fun runBackend ::
    "('w probeEnv \<times> probeClock) \<Rightarrow> ('w probeEnv \<times> probeClock) selected list \<Rightarrow> proxyConfig \<Rightarrow>
     'c proxyBackend \<Rightarrow> bool list \<times> 'c proxyBackend" where
  "runBackend (env, clock) found pc b =
     (let (success, _, _, b') = runProbe env clock (\<lambda>x. x) pc b in
      case found of
        Tick next # found' \<Rightarrow> (let (rs, b'') = runBackend next found' pc b' in (success # rs, b''))
      | _ \<Rightarrow> ([success], b'))"

subsection \<open>The request a probe sends\<close>

lemma readFinalHealthResponse_eq:
  "readFinalHealthResponse k reader limits = map_sum id fst (readFinalResponse k reader limits ''GET'')"
proof (induction k arbitrary: reader)
  case 0
  show ?case
    by (subst readFinalHealthResponse.simps, subst readFinalResponse.simps) (auto split: sum.split)
next
  case (Suc k)
  show ?case
    by (subst readFinalHealthResponse.simps, subst readFinalResponse.simps) (auto simp: Suc id_def split: sum.split)
qed

lemma probeRequest_line:
  assumes "validRequestTarget ''GET'' t"
  shows "parseRequestLine (''GET'' @ '' '' @ t @ '' '' @ httpVersion11) = Inr (''GET'', t, httpVersion11)"
proof -
  have "CHR '' '' \<notin> set t" "t \<noteq> []"
    using validRequestTarget_visible [OF assms] visible_notin(1) by blast+
  then have "Split CHR '' '' (''GET'' @ '' '' @ t @ '' '' @ httpVersion11) = [''GET'', t, httpVersion11]"
    using Split_append_hit [of "CHR '' ''" "''GET''" "t @ '' '' @ httpVersion11"]
      Split_append_hit [of "CHR '' ''" t httpVersion11] Split_notin [of "CHR '' ''" httpVersion11]
    by (simp add: httpVersion11_def)
  moreover have "validToken ''GET''" "\<not> EqualFold ''GET'' ''CONNECT''" "httpVersion11 \<noteq> []" by code_simp+
  ultimately show ?thesis using assms \<open>t \<noteq> []\<close> by (simp add: parseRequestLine_def)
qed

lemma probeRequest_head:
  assumes "validRequestTarget ''GET'' (HealthPath c)" "validHost (Authority c)" "validToken (ViaName pc)"
  shows "\<exists>x. requestHead (probeRequest pc c) = Inr x"
proof -
  let ?r = "probeRequest pc c"
  have one: "validFieldValue ''1.1 ''" "validFieldValue ''close''" by code_simp+
  have "validateGeneratedFields (ReqHeaders ?r) ''request headers'' = None"
    using visible_fieldValue [OF validHost_visible [OF assms(2)]] one validToken_fieldValue [OF assms(3)]
    unfolding validateGeneratedFields_None
    by (simp add: probeRequest_def del: append_Cons append_Nil)
  moreover have v: "Values (ReqHeaders ?r) ''Host'' = [Authority c]" "Values (ReqHeaders ?r) ''Connection'' = [''close'']"
    "Values (ReqHeaders ?r) ''Upgrade'' = []" "Values (ReqHeaders ?r) ''Expect'' = []"
    by (simp_all add: probeRequest_def Values_literal proxy_names framing_names del: Values.simps(2))
  have h: "\<not> HasToken [hf ''Connection'' ''close''] ''Connection'' ''upgrade''"
    "validateConnectionFields [hf ''Connection'' ''close''] ''request headers'' = Inr ()"
    "Values [hf ''Connection'' ''close''] ''Connection'' = [''close'']" by code_simp+
  have "validateRequestHeaders ''GET'' (ReqHeaders ?r) = Inr ()"
    using v h assms(2) by (simp add: validateRequestHeaders_def validateConnectionFields_def HasToken_def)
  moreover have "validateTrailers [] = Inr ()" by (simp add: validateTrailers_def)
  moreover have "httpVersion11 \<noteq> []" by code_simp
  ultimately show ?thesis
    using probeRequest_line [OF assms(1)]
    by (simp add: requestHead_def Let_def probeRequest_def)
qed

subsection \<open>Thresholds\<close>

text \<open>A backend after probe results (with their times), and the length of the run of equal results at the end.\<close>

definition probed :: "(bool \<times> time) list \<Rightarrow> 'c proxyBackend \<Rightarrow> 'c proxyBackend" where
  "probed rs b = fold (\<lambda>(r, t) b. snd (recordActive r t b)) rs b"

definition trailing :: "bool \<Rightarrow> (bool \<times> time) list \<Rightarrow> nat" where
  "trailing r rs = length (takeWhile (\<lambda>(x, _). x = r) (rev rs))"

lemma trailing_simps [simp]:
  "trailing r [] = 0" "trailing r (rs @ [(x, t)]) = (if x = r then Suc (trailing r rs) else 0)"
  by (simp_all add: trailing_def)

lemma probed_snoc: "probed (rs @ [(r, t)]) b = snd (recordActive r t (probed rs b))"
  by (simp add: probed_def)

lemma recordActive_sel:
  "activeSuccesses (snd (recordActive r t b)) = (if r then activeSuccesses b + 1 else 0)"
  "activeFailures (snd (recordActive r t b)) = (if r then 0 else activeFailures b + 1)"
  "policy (snd (recordActive r t b)) = policy b"
  "healthy (snd (recordActive r t b)) =
     (if r then activeSuccesses b + 1 \<ge> ActiveSuccessThreshold (policy b) \<or> healthy b
      else activeFailures b + 1 < ActiveFailureThreshold (policy b) \<and> healthy b)"
  by (auto simp: recordActive_def Let_def)

lemma probed_counts:
  assumes "activeFailures b = 0" "activeSuccesses b = 0"
  shows "activeSuccesses (probed rs b) = int (trailing True rs) \<and>
    activeFailures (probed rs b) = int (trailing False rs) \<and> policy (probed rs b) = policy b"
proof (induction rs rule: rev_induct)
  case Nil
  then show ?case using assms by (simp add: probed_def)
next
  case (snoc x rs)
  then show ?case by (cases x) (simp add: probed_snoc recordActive_sel)
qed

text \<open>
  What a prober leaves of the health of its backend is what its results leave: the circuit's part of
  a probe does not touch it.
\<close>

definition health :: "'c proxyBackend \<Rightarrow> bool \<times> int \<times> int \<times> resilienceConfig" where
  "health b = (healthy b, activeFailures b, activeSuccesses b, policy b)"

lemma health_circuit [simp]:
  "health (snd (beginCircuitProbe now b)) = health b"
  "health (snd (completeCircuitProbe success permitted now b)) = health b"
  by (auto simp: health_def beginCircuitProbe_def completeCircuitProbe_def recordPassive_def transitionLocked_def
      Let_def split: prod.split)

lemma health_recordActive: "health b = health b' \<Longrightarrow> health (snd (recordActive r t b)) = health (snd (recordActive r t b'))"
  by (simp add: health_def recordActive_sel)

lemma runProbe_health:
  assumes "runProbe env clock (\<lambda>x. x) pc b = (r, ts, h, b')"
  shows "health b' = health (snd (recordActive r (recordAt clock) b))"
proof -
  obtain p t b1 where 1: "beginCircuitProbe (probeAt clock) b = ((p, t), b1)" by (metis prod.exhaust)
  obtain h2 b2 where 2: "recordActive (probe env pc (config b)) (recordAt clock) b1 = (h2, b2)" by fastforce
  obtain t3 b3 where 3: "completeCircuitProbe (probe env pc (config b)) p (completeAt clock) b2 = (t3, b3)" by fastforce
  have "b' = b3" "r = probe env pc (config b)" using assms 1 2 3 by (simp_all add: runProbe_def)
  moreover have "health b3 = health b2" using health_circuit(2) 3 by (metis snd_conv)
  moreover have "health b2 = health (snd (recordActive (probe env pc (config b)) (recordAt clock) b))"
    using health_recordActive [of b1 b] health_circuit(1) [of "probeAt clock" b] 1 2 by (metis snd_conv)
  ultimately show ?thesis by simp
qed

lemma probed_health: "health b = health b' \<Longrightarrow> health (probed rs b) = health (probed rs b')"
  by (induction rs arbitrary: b b') (auto simp: probed_def dest: health_recordActive)

lemma runBackend_health:
  "runBackend p found pc b = (rs, b') \<Longrightarrow>
   \<exists>ts. length ts = length rs \<and> health b' = health (probed (zip rs ts) b)"
proof (induction p found pc b arbitrary: rs b' rule: runBackend.induct)
  case (1 env clock found pc b)
  obtain r ts h b1 where run: "runProbe env clock (\<lambda>x. x) pc b = (r, ts, h, b1)" by (metis prod_cases4)
  note h = runProbe_health [OF run]
  consider (more) q found' where "found = Tick q # found'" | (last) "rs = [r]" "b' = b1"
    using "1.prems" run by (auto split: list.splits selected.splits)
  then show ?case
  proof cases
    case more
    obtain rs' where rec: "runBackend q found' pc b1 = (rs', b')" "rs = r # rs'"
      using "1.prems" run more by (auto split: prod.splits)
    from "1.IH" [OF run [symmetric] refl refl refl more refl rec(1)] obtain ts' where
      "length ts' = length rs'" "health b' = health (probed (zip rs' ts') b1)" by blast
    then show ?thesis
      using rec(2) probed_health [OF h, of "zip rs' ts'"]
      by (intro exI [of _ "recordAt clock # ts'"]) (simp add: probed_def)
  next
    case last
    then show ?thesis using h by (intro exI [of _ "[recordAt clock]"]) (simp add: probed_def)
  qed
qed

subsection \<open>Properties\<close>

text \<open>
  A probe of a validated backend whose health path is a request target, on a connection that
  works, succeeds exactly when the final response it reads has a status from 200 to 399.
\<close>

lemma probe_decides:
  assumes "backendConfig_validate c = Inr ()" "Authority c \<noteq> []" "proxyConfig_validate pc = Inr ()"
    and "validRequestTarget ''GET'' (HealthPath c)"
    and "probeDialled env" "probeDeadlineErr env = None" "probeWriter env = bufferWriter"
    and "\<forall>w. fst (probeFlush env w) = None"
  shows "probe env pc c \<longleftrightarrow>
    (\<exists>p rest. readFinalResponse maxInformationalResponses (probeReader env) (ProxyLimits pc) ''GET'' =
       Inr (p, rest) \<and> 200 \<le> StatusCode p \<and> StatusCode p < 400)"
proof -
  have "validHost (Authority c)" "validToken (ViaName pc)"
    using backendConfig_validate_host [OF assms(1,2)] proxyConfig_validate_via [OF assms(3)] by simp_all
  then obtain v m hs where "requestHead (probeRequest pc c) = Inr (v, m, hs)"
    using probeRequest_head [OF assms(4)] by (metis prod_cases3)
  moreover have "list_all wfField (ReqTrailers (probeRequest pc c))" by (simp add: probeRequest_def)
  ultimately have "\<exists>w. writeHTTPRequest bufferWriter (probeState env) (probeRequest pc c) = (None, w)"
    using writeHTTPRequest_buffer by blast
  then show ?thesis
    using assms(5-8)
    by (cases "readFinalResponse maxInformationalResponses (probeReader env) (ProxyLimits pc) ''GET''")
       (auto simp: probe_def readFinalHealthResponse_eq)
qed

definition healthyEnv :: "string probeEnv" where
  "healthyEnv = \<lparr>probeDialled = True, probeDeadlineErr = None, probeWriter = bufferWriter, probeState = [],
     probeFlush = (\<lambda>w. (None, w)),
     probeReader = (snd (writeHTTPResponse bufferWriter [] backendResponse ''GET''), IoEOF)\<rparr>"

lemma probe_decides_instance: "probe healthyEnv defaultProxyConfig oneBackend"
proof -
  have "backendConfig_validate oneBackend = Inr ()" "Authority oneBackend \<noteq> []"
    "proxyConfig_validate defaultProxyConfig = Inr ()" "validRequestTarget ''GET'' (HealthPath oneBackend)"
    by code_simp+
  moreover have "readFinalResponse maxInformationalResponses (probeReader healthyEnv)
      (ProxyLimits defaultProxyConfig) ''GET'' = Inr (receivedResponse backendResponse ''GET'', ([], IoEOF))"
    by (subst readFinalResponse.simps)
       (simp add: healthyEnv_def defaultProxyConfig_def backendResponse_read, simp add: receivedResponse_def backendResponse_def)
  moreover have "StatusCode (receivedResponse backendResponse ''GET'') = 200"
    by (simp add: receivedResponse_def backendResponse_def)
  ultimately show ?thesis
    using probe_decides [of oneBackend defaultProxyConfig healthyEnv] by (simp add: healthyEnv_def)
qed

text \<open>
  A backend is taken out of selection exactly by a run of \<^verbatim>\<open>ActiveFailureThreshold\<close> failed probes
  and brought back exactly by a run of \<^verbatim>\<open>ActiveSuccessThreshold\<close> successes; any other probe leaves its
  health as it was.
\<close>

lemma health_thresholds:
  assumes "activeFailures b = 0" "activeSuccesses b = 0"
  shows "healthy (probed (rs @ [(r, t)]) b) =
    (if r \<and> int (trailing True (rs @ [(r, t)])) \<ge> ActiveSuccessThreshold (policy b) then True
     else if \<not> r \<and> int (trailing False (rs @ [(r, t)])) \<ge> ActiveFailureThreshold (policy b) then False
     else healthy (probed rs b))"
  using probed_counts [OF assms, of rs] by (auto simp: probed_snoc recordActive_sel)

lemma health_thresholds_instance:
  "\<not> healthy (probed ([(True, 1), (False, 2)] @ [(False, 3)])
      (newBackend defaultResilienceConfig oneBackend :: nat proxyBackend))"
  using health_thresholds [of "newBackend defaultResilienceConfig oneBackend :: nat proxyBackend"
      "[(True, 1), (False, 2)]" False 3]
  by (simp add: newBackend_def defaultResilienceConfig_def trailing_def)

text \<open>
  A health path may pass the validation of a backend (it starts with a slash and has no line
  break and no fragment) and yet not be a request target: then no request is ever sent, every probe
  fails whatever the backend does, and the backend is taken for unhealthy.
\<close>

lemma health_path_unprobeable:
  "backendConfig_validate (oneBackend\<lparr>HealthPath := ''/health check''\<rparr>) = Inr () \<and>
   \<not> probe env pc (oneBackend\<lparr>HealthPath := ''/health check''\<rparr>)"
proof -
  have "backendConfig_validate (oneBackend\<lparr>HealthPath := ''/health check''\<rparr>) = Inr ()" by code_simp
  moreover have "isl (parseRequestLine (''GET'' @ '' '' @ ''/health check'' @ '' '' @ httpVersion11))"
    by code_simp
  then obtain e where "parseRequestLine (''GET'' @ '' '' @ ''/health check'' @ '' '' @ httpVersion11) = Inl e"
    by (auto simp: isl_def)
  then obtain err where "requestHead (probeRequest pc (oneBackend\<lparr>HealthPath := ''/health check''\<rparr>)) = Inl err"
    by (auto simp: requestHead_def Let_def probeRequest_def httpVersion11_def)
  then have "\<exists>err w. writeHTTPRequest (probeWriter env) (probeState env)
      (probeRequest pc (oneBackend\<lparr>HealthPath := ''/health check''\<rparr>)) = (Some err, w)"
    by (simp add: writeHTTPRequest_def)
  ultimately show ?thesis by (auto simp: probe_def)
qed

end
