(* ===== verification/Tcp_Server.thy ===== *)
theory Tcp_Server
  imports Resilience
begin

text \<open>
  \<^verbatim>\<open>src/src/tcp_server.go\<close>: the server that accepts connections, admits a bounded number of them,
  runs a handler for each and shuts down.

  A \<open>tcpServer\<close> is the shared state. The \<open>admission\<close> channel is its number of tokens, the wait group its
  counter, \<open>activeConns\<close> the keys of the map \<open>active\<close>; a connection is the address of its
  \<open>clientConn\<close>. Each operation is one atomic step on that state; a sequence of steps on variables only
  one goroutine changes is one operation. The goroutines (Serve, its watcher, one worker per
  connection) are a step relation that interleaves these operations in any order.
\<close>

subsection \<open>Configuration\<close>

definition maxServerConnections :: int where "maxServerConnections = 65536"

record tcpServerConfig =
  MaxConnections :: int
  TcpReadTimeout :: duration
  TcpWriteTimeout :: duration
  TcpIdleTimeout :: duration
  ShutdownTimeout :: duration
  ForceCloseWait :: duration

definition tcpServerConfig_validate :: "tcpServerConfig \<Rightarrow> string + unit" where
  "tcpServerConfig_validate c =
     (if MaxConnections c \<le> 0 \<or> MaxConnections c > maxServerConnections
        then Inl ''max connections must be between 1 and %d''
      else if TcpReadTimeout c \<le> 0 \<or> TcpReadTimeout c > maxConfiguredTimeout
        then Inl ''read timeout must be between zero and %s''
      else if TcpWriteTimeout c \<le> 0 \<or> TcpWriteTimeout c > maxConfiguredTimeout
        then Inl ''write timeout must be between zero and %s''
      else if TcpIdleTimeout c \<le> 0 \<or> TcpIdleTimeout c > maxConfiguredTimeout
        then Inl ''idle timeout must be between zero and %s''
      else if ShutdownTimeout c \<le> 0 \<or> ShutdownTimeout c > maxConfiguredTimeout
        then Inl ''shutdown timeout must be between zero and %s''
      else if ForceCloseWait c \<le> 0 \<or> ForceCloseWait c > maxConfiguredTimeout
        then Inl ''force-close wait must be between zero and %s''
      else Inr ())"

subsection \<open>Connections\<close>

record clientConn =
  connID :: u64
  acceptedAt :: time
  lastActivity :: time
  connReadTimeout :: duration
  connWriteTimeout :: duration
  connIdleTimeout :: duration

definition connDeadline :: "time \<Rightarrow> duration \<Rightarrow> clientConn \<Rightarrow> time" where
  "connDeadline now operationTimeout c =
     (let operationDeadline = now + operationTimeout;
          idleDeadline = lastActivity c + connIdleTimeout c in
      if idleDeadline < operationDeadline then idleDeadline else operationDeadline)"

text \<open>
  \<^verbatim>\<open>Read\<close> and \<^verbatim>\<open>Write\<close>: setting the deadline may fail; otherwise the socket is used until that deadline,
  and the activity is noted when a byte was transferred.
\<close>

definition connTransfer ::
    "duration \<Rightarrow> time \<Rightarrow> (time \<Rightarrow> io_error option) \<Rightarrow> (time \<Rightarrow> int \<times> io_error option) \<Rightarrow> time \<Rightarrow> clientConn \<Rightarrow>
     (int \<times> io_error option) \<times> clientConn" where
  "connTransfer operationTimeout now setDeadline transfer later c =
     (let d = connDeadline now operationTimeout c in
      case setDeadline d of
        Some err \<Rightarrow> ((0, Some err), c)
      | None \<Rightarrow> (transfer d, if fst (transfer d) > 0 then c\<lparr>lastActivity := later\<rparr> else c))"

definition connRead ::
    "time \<Rightarrow> (time \<Rightarrow> io_error option) \<Rightarrow> (time \<Rightarrow> int \<times> io_error option) \<Rightarrow> time \<Rightarrow> clientConn \<Rightarrow>
     (int \<times> io_error option) \<times> clientConn" where
  "connRead now setDeadline transfer later c = connTransfer (connReadTimeout c) now setDeadline transfer later c"

definition connWrite ::
    "time \<Rightarrow> (time \<Rightarrow> io_error option) \<Rightarrow> (time \<Rightarrow> int \<times> io_error option) \<Rightarrow> time \<Rightarrow> clientConn \<Rightarrow>
     (int \<times> io_error option) \<times> clientConn" where
  "connWrite now setDeadline transfer later c = connTransfer (connWriteTimeout c) now setDeadline transfer later c"

subsection \<open>The server\<close>

datatype serverState = serverStateNew | serverStateServing | serverStateDraining | serverStateClosed

fun serverStateName :: "serverState \<Rightarrow> string" where
  "serverStateName serverStateNew = ''new''"
| "serverStateName serverStateServing = ''serving''"
| "serverStateName serverStateDraining = ''draining''"
| "serverStateName serverStateClosed = ''closed''"

record tcpServer =
  tcpConfig :: tcpServerConfig
  srvState :: serverState
  connectionSequence :: u64
  accepted :: u64
  admitted :: u64
  rejected :: u64
  activeCount :: int
  srvPeakActive :: int
  srvCompleted :: u64
  handlerErrors :: u64
  forcedClosed :: u64
  permits :: int
  workers :: int
  activeConns :: "nat list"
  handlersCancelled :: bool
  listenerClosed :: bool

definition newTCPServer :: "bool \<Rightarrow> bool \<Rightarrow> tcpServerConfig \<Rightarrow> string + tcpServer" where
  "newTCPServer hasListener hasHandler c =
     (if \<not> hasListener then Inl ''listener is required''
      else if \<not> hasHandler then Inl ''connection handler is required''
      else andThen (tcpServerConfig_validate c) (\<lambda>_.
        Inr \<lparr>tcpConfig = c, srvState = serverStateNew, connectionSequence = 0, accepted = 0, admitted = 0,
          rejected = 0, activeCount = 0, srvPeakActive = 0, srvCompleted = 0, handlerErrors = 0,
          forcedClosed = 0, permits = 0, workers = 0, activeConns = [], handlersCancelled = False,
          listenerClosed = False\<rparr>))"

definition startServing :: "tcpServer \<Rightarrow> tcpServer option" where
  "startServing s =
     (if srvState s = serverStateNew then Some (s\<lparr>srvState := serverStateServing\<rparr>) else None)"

text \<open>\<^verbatim>\<open>beginShutdown\<close> swaps the state and, when it was serving, closes the listener.\<close>

definition swapDraining :: "tcpServer \<Rightarrow> bool \<times> tcpServer" where
  "swapDraining s =
     (if srvState s = serverStateServing then (True, s\<lparr>srvState := serverStateDraining\<rparr>) else (False, s))"

definition closeListener :: "tcpServer \<Rightarrow> tcpServer" where
  "closeListener s = s\<lparr>listenerClosed := True\<rparr>"

definition beginShutdown :: "tcpServer \<Rightarrow> tcpServer" where
  "beginShutdown s = (case swapDraining s of (swapped, t) \<Rightarrow> if swapped then closeListener t else t)"

definition countAccepted :: "tcpServer \<Rightarrow> tcpServer" where
  "countAccepted s = s\<lparr>accepted := accepted s + 1\<rparr>"

definition rejectConn :: "tcpServer \<Rightarrow> tcpServer" where
  "rejectConn s = s\<lparr>rejected := rejected s + 1\<rparr>"

text \<open>
  The steps of \<^verbatim>\<open>admit\<close>: the non-blocking send on the channel, entering the connection in the map with
  its number, the counters, and starting the worker.
\<close>

definition takePermit :: "tcpServer \<Rightarrow> tcpServer option" where
  "takePermit s =
     (if permits s < MaxConnections (tcpConfig s) then Some (s\<lparr>permits := permits s + 1\<rparr>) else None)"

definition register :: "nat \<Rightarrow> tcpServer \<Rightarrow> tcpServer" where
  "register conn s =
     s\<lparr>connectionSequence := connectionSequence s + 1, activeConns := conn # activeConns s\<rparr>"

definition recordPeak :: "int \<Rightarrow> tcpServer \<Rightarrow> tcpServer" where
  "recordPeak active s = (if active \<le> srvPeakActive s then s else s\<lparr>srvPeakActive := active\<rparr>)"

definition countAdmitted :: "tcpServer \<Rightarrow> tcpServer" where
  "countAdmitted s =
     recordPeak (activeCount s + 1) (s\<lparr>admitted := admitted s + 1, activeCount := activeCount s + 1\<rparr>)"

definition startWorker :: "tcpServer \<Rightarrow> tcpServer" where
  "startWorker s = s\<lparr>workers := workers s + 1\<rparr>"

definition admitConn :: "nat \<Rightarrow> tcpServer \<Rightarrow> bool \<times> tcpServer" where
  "admitConn conn s =
     (case takePermit s of
        None \<Rightarrow> (False, s)
      | Some s1 \<Rightarrow> (True, startWorker (countAdmitted (register conn s1))))"

text \<open>
  A worker: the handler returns or panics; its error is counted unless handlers were cancelled; then
  the deferred functions run in reverse order.
\<close>

datatype connOutcome = ConnReturned "string option" | ConnPanicked string

fun callHandler :: "connOutcome \<Rightarrow> string option" where
  "callHandler (ConnReturned err) = err"
| "callHandler (ConnPanicked v) = Some (''connection handler panic: '' @ v)"

definition handlerReturned :: "connOutcome \<Rightarrow> tcpServer \<Rightarrow> tcpServer" where
  "handlerReturned result s =
     (if callHandler result \<noteq> None \<and> \<not> handlersCancelled s
      then s\<lparr>handlerErrors := handlerErrors s + 1\<rparr> else s)"

definition unregister :: "nat \<Rightarrow> tcpServer \<Rightarrow> tcpServer" where
  "unregister conn s = s\<lparr>activeConns := filter (\<lambda>c. c \<noteq> conn) (activeConns s)\<rparr>"

definition uncount :: "tcpServer \<Rightarrow> tcpServer" where
  "uncount s = s\<lparr>activeCount := activeCount s - 1\<rparr>"

definition countCompleted :: "tcpServer \<Rightarrow> tcpServer" where
  "countCompleted s = s\<lparr>srvCompleted := srvCompleted s + 1\<rparr>"

definition returnPermit :: "tcpServer \<Rightarrow> tcpServer" where
  "returnPermit s = s\<lparr>permits := permits s - 1\<rparr>"

definition workerDone :: "tcpServer \<Rightarrow> tcpServer" where
  "workerDone s = s\<lparr>workers := workers s - 1\<rparr>"

definition runConnection :: "connOutcome \<Rightarrow> nat \<Rightarrow> tcpServer \<Rightarrow> tcpServer" where
  "runConnection result conn s =
     workerDone (returnPermit (countCompleted (uncount (unregister conn (handlerReturned result s)))))"

definition cancelHandlers :: "tcpServer \<Rightarrow> tcpServer" where
  "cancelHandlers s = s\<lparr>handlersCancelled := True\<rparr>"

definition forceCloseActive :: "tcpServer \<Rightarrow> nat list \<times> tcpServer" where
  "forceCloseActive s =
     (activeConns s, s\<lparr>forcedClosed := forcedClosed s + of_nat (length (activeConns s))\<rparr>)"

record serverStats =
  StatsState :: string
  StatsAccepted :: u64
  StatsAdmitted :: u64
  StatsRejected :: u64
  StatsActive :: int
  StatsPeakActive :: int
  StatsCompleted :: u64
  StatsHandlerErrors :: u64
  StatsForcedClosed :: u64

definition Stats :: "tcpServer \<Rightarrow> serverStats" where
  "Stats s =
     \<lparr>StatsState = serverStateName (srvState s), StatsAccepted = accepted s, StatsAdmitted = admitted s,
      StatsRejected = rejected s, StatsActive = activeCount s, StatsPeakActive = srvPeakActive s,
      StatsCompleted = srvCompleted s, StatsHandlerErrors = handlerErrors s,
      StatsForcedClosed = forcedClosed s\<rparr>"

subsection \<open>The goroutines\<close>

text \<open>
  Where the goroutine of \<^verbatim>\<open>Serve\<close> stands: before the call, waiting in Accept, holding an accepted
  connection, holding one with the state found serving, with a permit, entered in the map, counted;
  after the loop joining the watcher, waiting for the workers with the grace timer, past it with the
  handlers cancelled, waiting with the second timer, with drain's result, with the state closed, and
  returned. A worker's phases follow its deferred functions.
\<close>

datatype serveResult = ServeOk | AcceptFailed | ShutdownDeadline

datatype servePhase =
    NotStarted | Accepting | HasConn | Checked | Permitted | Registered nat | Counted nat
  | LoopLeft | DrainGrace | DrainCancelled | DrainForced | Drained serveResult | StateClosed serveResult
  | Returned serveResult

datatype watcherPhase = NoWatcher | Watching | ClosingListener

datatype workerPhase = Handling | Unregistering | Uncounting | Completing | Releasing | Finishing

record tcpSys =
  srv :: tcpServer
  phase :: servePhase
  acceptError :: bool
  watcher :: watcherPhase
  conns :: "(nat \<times> workerPhase) list"
  nextConn :: nat

definition tcpStart :: "tcpServer \<Rightarrow> tcpSys" where
  "tcpStart s = \<lparr>srv = s, phase = NotStarted, acceptError = False, watcher = NoWatcher, conns = [], nextConn = 0\<rparr>"

text \<open>The steps of \<^verbatim>\<open>Serve\<close> and its watcher. A timer may fire whenever it is waited for.\<close>

inductive serveStep :: "tcpSys \<Rightarrow> tcpSys \<Rightarrow> bool" where
  accept_conn: "phase s = Accepting \<Longrightarrow> \<not> listenerClosed (srv s) \<Longrightarrow>
    serveStep s (s\<lparr>srv := countAccepted (srv s), phase := HasConn\<rparr>)"
| accept_error: "phase s = Accepting \<Longrightarrow>
    serveStep s (s\<lparr>srv := beginShutdown (srv s), acceptError := srvState (srv s) = serverStateServing,
      phase := LoopLeft\<rparr>)"
| not_serving: "phase s = HasConn \<Longrightarrow> srvState (srv s) \<noteq> serverStateServing \<Longrightarrow>
    serveStep s (s\<lparr>srv := rejectConn (srv s), phase := Accepting\<rparr>)"
| serving: "phase s = HasConn \<Longrightarrow> srvState (srv s) = serverStateServing \<Longrightarrow>
    serveStep s (s\<lparr>phase := Checked\<rparr>)"
| no_permit: "phase s = Checked \<Longrightarrow> takePermit (srv s) = None \<Longrightarrow>
    serveStep s (s\<lparr>srv := rejectConn (srv s), phase := Accepting\<rparr>)"
| permit: "phase s = Checked \<Longrightarrow> takePermit (srv s) = Some t \<Longrightarrow>
    serveStep s (s\<lparr>srv := t, phase := Permitted\<rparr>)"
| registering: "phase s = Permitted \<Longrightarrow>
    serveStep s (s\<lparr>srv := register (nextConn s) (srv s), phase := Registered (nextConn s),
      nextConn := Suc (nextConn s)\<rparr>)"
| counting: "phase s = Registered c \<Longrightarrow>
    serveStep s (s\<lparr>srv := countAdmitted (srv s), phase := Counted c\<rparr>)"
| spawning: "phase s = Counted c \<Longrightarrow>
    serveStep s (s\<lparr>srv := startWorker (srv s), phase := Accepting, conns := (c, Handling) # conns s\<rparr>)"
| watcher_stopped: "phase s = LoopLeft \<Longrightarrow> watcher s = Watching \<Longrightarrow>
    serveStep s (s\<lparr>watcher := NoWatcher\<rparr>)"
| watcher_closes: "watcher s = ClosingListener \<Longrightarrow>
    serveStep s (s\<lparr>srv := closeListener (srv s), watcher := NoWatcher\<rparr>)"
| joined: "phase s = LoopLeft \<Longrightarrow> watcher s = NoWatcher \<Longrightarrow> serveStep s (s\<lparr>phase := DrainGrace\<rparr>)"
| drained: "phase s = DrainGrace \<or> phase s = DrainForced \<Longrightarrow> workers (srv s) = 0 \<Longrightarrow>
    serveStep s (s\<lparr>phase := Drained ServeOk\<rparr>)"
| grace_over: "phase s = DrainGrace \<Longrightarrow>
    serveStep s (s\<lparr>srv := cancelHandlers (srv s), phase := DrainCancelled\<rparr>)"
| forcing: "phase s = DrainCancelled \<Longrightarrow>
    serveStep s (s\<lparr>srv := snd (forceCloseActive (srv s)), phase := DrainForced\<rparr>)"
| force_over: "phase s = DrainForced \<Longrightarrow> serveStep s (s\<lparr>phase := Drained ShutdownDeadline\<rparr>)"
| closing: "phase s = Drained r \<Longrightarrow>
    serveStep s (s\<lparr>srv := (srv s)\<lparr>srvState := serverStateClosed\<rparr>, phase := StateClosed r\<rparr>)"
| returning: "phase s = StateClosed r \<Longrightarrow>
    serveStep s (s\<lparr>srv := cancelHandlers (srv s),
      phase := Returned (if acceptError s then AcceptFailed else r)\<rparr>)"

text \<open>The steps of the others: the start, the context of Serve done, and the workers.\<close>

inductive otherStep :: "tcpSys \<Rightarrow> tcpSys \<Rightarrow> bool" where
  starting: "phase s = NotStarted \<Longrightarrow> startServing (srv s) = Some t \<Longrightarrow>
    otherStep s (s\<lparr>srv := t, phase := Accepting, watcher := Watching\<rparr>)"
| context_done: "watcher s = Watching \<Longrightarrow> swapDraining (srv s) = (swapped, t) \<Longrightarrow>
    otherStep s (s\<lparr>srv := t, watcher := if swapped then ClosingListener else NoWatcher\<rparr>)"
| handled: "conns s = xs @ (c, Handling) # ys \<Longrightarrow>
    otherStep s (s\<lparr>srv := handlerReturned result (srv s), conns := xs @ (c, Unregistering) # ys\<rparr>)"
| unregistered: "conns s = xs @ (c, Unregistering) # ys \<Longrightarrow>
    otherStep s (s\<lparr>srv := unregister c (srv s), conns := xs @ (c, Uncounting) # ys\<rparr>)"
| uncounted: "conns s = xs @ (c, Uncounting) # ys \<Longrightarrow>
    otherStep s (s\<lparr>srv := uncount (srv s), conns := xs @ (c, Completing) # ys\<rparr>)"
| counted: "conns s = xs @ (c, Completing) # ys \<Longrightarrow>
    otherStep s (s\<lparr>srv := countCompleted (srv s), conns := xs @ (c, Releasing) # ys\<rparr>)"
| released: "conns s = xs @ (c, Releasing) # ys \<Longrightarrow>
    otherStep s (s\<lparr>srv := returnPermit (srv s), conns := xs @ (c, Finishing) # ys\<rparr>)"
| finished: "conns s = xs @ (c, Finishing) # ys \<Longrightarrow>
    otherStep s (s\<lparr>srv := workerDone (srv s), conns := xs @ ys\<rparr>)"

inductive tcpReach :: "tcpServerConfig \<Rightarrow> tcpSys \<Rightarrow> bool" for c where
  tcp_new: "newTCPServer True True c = Inr s \<Longrightarrow> tcpReach c (tcpStart s)"
| tcp_serve: "tcpReach c s \<Longrightarrow> serveStep s s' \<Longrightarrow> tcpReach c s'"
| tcp_other: "tcpReach c s \<Longrightarrow> otherStep s s' \<Longrightarrow> tcpReach c s'"

lemmas tcp_ops = startServing_def swapDraining_def closeListener_def beginShutdown_def countAccepted_def
  rejectConn_def takePermit_def register_def recordPeak_def countAdmitted_def startWorker_def
  handlerReturned_def unregister_def uncount_def countCompleted_def returnPermit_def workerDone_def
  cancelHandlers_def forceCloseActive_def

subsection \<open>The invariant\<close>

definition tally :: "workerPhase set \<Rightarrow> (nat \<times> workerPhase) list \<Rightarrow> nat" where
  "tally ps cs = length (filter (\<lambda>(c, ph). ph \<in> ps) cs)"

lemma tally_simps [simp]:
  "tally ps [] = 0" "tally ps (cs @ cs') = tally ps cs + tally ps cs'"
  "tally ps ((c, ph) # cs) = of_bool (ph \<in> ps) + tally ps cs"
  by (simp_all add: tally_def)

lemma tally_mono: "ps \<subseteq> qs \<Longrightarrow> tally ps cs \<le> tally qs cs"
  by (induction cs) auto

abbreviation inPhase :: "workerPhase set \<Rightarrow> tcpSys \<Rightarrow> nat" where
  "inPhase ps s \<equiv> tally ps (conns s)"

fun pendingConn :: "servePhase \<Rightarrow> bool" where
  "pendingConn HasConn = True"
| "pendingConn Checked = True"
| "pendingConn Permitted = True"
| "pendingConn (Registered _) = True"
| "pendingConn _ = False"

fun holdsPermit :: "servePhase \<Rightarrow> bool" where
  "holdsPermit Permitted = True"
| "holdsPermit (Registered _) = True"
| "holdsPermit (Counted _) = True"
| "holdsPermit _ = False"

fun holdsConn :: "servePhase \<Rightarrow> nat list" where
  "holdsConn (Registered c) = [c]"
| "holdsConn (Counted c) = [c]"
| "holdsConn _ = []"

fun isCounted :: "servePhase \<Rightarrow> bool" where
  "isCounted (Counted _) = True"
| "isCounted _ = False"

definition counters :: "tcpSys \<Rightarrow> bool" where
  "counters s \<longleftrightarrow>
     permits (srv s) = int (inPhase {Handling, Unregistering, Uncounting, Completing, Releasing} s) +
       of_bool (holdsPermit (phase s)) \<and>
     permits (srv s) \<le> MaxConnections (tcpConfig (srv s)) \<and>
     workers (srv s) = int (length (conns s)) \<and>
     activeCount (srv s) = int (inPhase {Handling, Unregistering, Uncounting} s) + of_bool (isCounted (phase s)) \<and>
     activeCount (srv s) \<le> srvPeakActive (srv s) \<and>
     0 \<le> srvPeakActive (srv s) \<and> srvPeakActive (srv s) \<le> MaxConnections (tcpConfig (srv s)) \<and>
     accepted (srv s) = admitted (srv s) + rejected (srv s) + of_bool (pendingConn (phase s)) \<and>
     admitted (srv s) = srvCompleted (srv s) +
       of_nat (inPhase {Handling, Unregistering, Uncounting, Completing} s) + of_bool (isCounted (phase s))"

lemma counters_serve:
  assumes "counters s" "serveStep s s'"
  shows "counters s'"
  using assms(2,1) tally_mono [of "{Handling, Unregistering, Uncounting}"
      "{Handling, Unregistering, Uncounting, Completing, Releasing}" "conns s"]
  by cases (auto simp: counters_def tcp_ops Let_def split: if_splits)

lemma counters_other:
  assumes "counters s" "otherStep s s'"
  shows "counters s'"
  using assms(2,1)
  by cases (auto simp: counters_def tcp_ops Let_def split: if_splits)

text \<open>The map holds the connections whose worker has not left yet, each once.\<close>

definition registry :: "tcpSys \<Rightarrow> bool" where
  "registry s \<longleftrightarrow>
     distinct (map fst (conns s) @ holdsConn (phase s)) \<and>
     (\<forall>c \<in> set (map fst (conns s) @ holdsConn (phase s)). c < nextConn s) \<and>
     distinct (activeConns (srv s)) \<and>
     set (activeConns (srv s)) =
       {c. (c, Handling) \<in> set (conns s) \<or> (c, Unregistering) \<in> set (conns s)} \<union> set (holdsConn (phase s))"

lemma in_fst: "(c, ph) \<in> set cs \<Longrightarrow> c \<in> fst ` set cs"
  by force

lemma registry_serve:
  assumes "registry s" "serveStep s s'"
  shows "registry s'"
  using assms(2,1) by cases (auto simp: registry_def tcp_ops Let_def split: if_splits)

lemma registry_other:
  assumes "registry s" "otherStep s s'"
  shows "registry s'"
  using assms(2,1) by cases (auto simp: registry_def tcp_ops Let_def dest: in_fst split: if_splits)

text \<open>
  Where Serve stands and the state agree; a server that has left serving has closed its listener or
  its watcher is about to; and a result without error means that no worker was left.
\<close>

fun stateAt :: "servePhase \<Rightarrow> serverState set" where
  "stateAt NotStarted = {serverStateNew}"
| "stateAt LoopLeft = {serverStateDraining}"
| "stateAt DrainGrace = {serverStateDraining}"
| "stateAt DrainCancelled = {serverStateDraining}"
| "stateAt DrainForced = {serverStateDraining}"
| "stateAt (Drained _) = {serverStateDraining}"
| "stateAt (StateClosed _) = {serverStateClosed}"
| "stateAt (Returned _) = {serverStateClosed}"
| "stateAt _ = {serverStateServing, serverStateDraining}"

fun leftLoop :: "servePhase \<Rightarrow> bool" where
  "leftLoop DrainGrace = True"
| "leftLoop DrainCancelled = True"
| "leftLoop DrainForced = True"
| "leftLoop (Drained _) = True"
| "leftLoop (StateClosed _) = True"
| "leftLoop (Returned _) = True"
| "leftLoop _ = False"

fun resultOf :: "servePhase \<Rightarrow> serveResult option" where
  "resultOf (Drained r) = Some r"
| "resultOf (StateClosed r) = Some r"
| "resultOf (Returned r) = Some r"
| "resultOf _ = None"

definition control :: "tcpSys \<Rightarrow> bool" where
  "control s \<longleftrightarrow>
     srvState (srv s) \<in> stateAt (phase s) \<and>
     (phase s = NotStarted \<longrightarrow> watcher s = NoWatcher \<and> conns s = []) \<and>
     (leftLoop (phase s) \<longrightarrow> watcher s = NoWatcher) \<and>
     (watcher s = ClosingListener \<longrightarrow> srvState (srv s) = serverStateDraining) \<and>
     (listenerClosed (srv s) \<longleftrightarrow>
        srvState (srv s) \<in> {serverStateDraining, serverStateClosed} \<and> watcher s \<noteq> ClosingListener) \<and>
     (resultOf (phase s) = Some ServeOk \<longrightarrow> conns s = [])"

lemma control_serve:
  assumes "control s" "counters s" "serveStep s s'"
  shows "control s'"
  using assms(3,1,2) by cases (auto simp: control_def counters_def tcp_ops Let_def split: if_splits)

lemma stateAt_serving: "serverStateServing \<in> stateAt p \<Longrightarrow> serverStateDraining \<in> stateAt p"
  by (cases p) auto

lemma control_other:
  assumes "control s" "otherStep s s'"
  shows "control s'"
  using assms(2,1) by cases (auto simp: control_def tcp_ops Let_def dest: stateAt_serving split: if_splits)

lemma config_kept:
  "serveStep s s' \<Longrightarrow> tcpConfig (srv s') = tcpConfig (srv s)"
  "otherStep s s' \<Longrightarrow> tcpConfig (srv s') = tcpConfig (srv s)"
  by (auto elim!: serveStep.cases otherStep.cases simp: tcp_ops Let_def split: if_splits)

lemma newTCPServer_Inr:
  assumes "newTCPServer True True c = Inr s"
  shows "counters (tcpStart s)" "registry (tcpStart s)" "control (tcpStart s)" "tcpConfig s = c"
    "0 < MaxConnections c"
proof -
  have v: "tcpServerConfig_validate c = Inr ()"
    using assms by (cases "tcpServerConfig_validate c") (auto simp: newTCPServer_def)
  then show "0 < MaxConnections c" by (simp add: tcpServerConfig_validate_def split: if_splits)
  with v show "counters (tcpStart s)" "registry (tcpStart s)" "control (tcpStart s)" "tcpConfig s = c"
    using assms by (auto simp: newTCPServer_def tcpStart_def counters_def registry_def control_def)
qed

lemma tcpReach_inv:
  "tcpReach c s \<Longrightarrow> counters s \<and> registry s \<and> control s \<and> tcpConfig (srv s) = c"
proof (induction rule: tcpReach.induct)
  case (tcp_new s)
  then show ?case using newTCPServer_Inr [OF tcp_new] by (simp add: tcpStart_def)
next
  case (tcp_serve s s')
  then show ?case
    using counters_serve registry_serve control_serve config_kept(1) by metis
next
  case (tcp_other s s')
  then show ?case
    using counters_other registry_other control_other config_kept(2) by metis
qed

text \<open>\<^verbatim>\<open>admit\<close> and \<^verbatim>\<open>runConnection\<close> undisturbed are runs of the steps.\<close>

lemma admitConn_steps:
  assumes "phase s = Checked" "admitConn (nextConn s) (srv s) = (True, t)"
  shows "serveStep\<^sup>*\<^sup>* s (s\<lparr>srv := t, phase := Accepting, conns := (nextConn s, Handling) # conns s,
    nextConn := Suc (nextConn s)\<rparr>)"
proof -
  obtain s1 where p: "takePermit (srv s) = Some s1" "t = startWorker (countAdmitted (register (nextConn s) s1))"
    using assms(2) by (auto simp: admitConn_def split: option.splits)
  let ?a = "s\<lparr>srv := s1, phase := Permitted\<rparr>"
  let ?b = "?a\<lparr>srv := register (nextConn s) s1, phase := Registered (nextConn s), nextConn := Suc (nextConn s)\<rparr>"
  let ?d = "?b\<lparr>srv := countAdmitted (srv ?b), phase := Counted (nextConn s)\<rparr>"
  have "serveStep s ?a" "serveStep ?a ?b" "serveStep ?b ?d"
    using permit [OF assms(1) p(1)] registering [of ?a] counting [of ?b "nextConn s"] by simp_all
  moreover have "serveStep ?d (s\<lparr>srv := t, phase := Accepting, conns := (nextConn s, Handling) # conns s,
      nextConn := Suc (nextConn s)\<rparr>)"
    using spawning [of ?d "nextConn s"] p(2) by (cases s) simp
  ultimately show ?thesis by (meson converse_rtranclp_into_rtranclp rtranclp.rtrancl_refl)
qed

lemma runConnection_steps:
  assumes "conns s = xs @ (c, Handling) # ys"
  shows "otherStep\<^sup>*\<^sup>* s (s\<lparr>srv := runConnection result c (srv s), conns := xs @ ys\<rparr>)"
proof -
  let ?a = "s\<lparr>srv := handlerReturned result (srv s), conns := xs @ (c, Unregistering) # ys\<rparr>"
  let ?b = "?a\<lparr>srv := unregister c (srv ?a), conns := xs @ (c, Uncounting) # ys\<rparr>"
  let ?d = "?b\<lparr>srv := uncount (srv ?b), conns := xs @ (c, Completing) # ys\<rparr>"
  let ?e = "?d\<lparr>srv := countCompleted (srv ?d), conns := xs @ (c, Releasing) # ys\<rparr>"
  let ?f = "?e\<lparr>srv := returnPermit (srv ?e), conns := xs @ (c, Finishing) # ys\<rparr>"
  have "otherStep s ?a" by (rule handled [OF assms])
  moreover have "otherStep ?a ?b" by (rule unregistered) simp
  moreover have "otherStep ?b ?d" by (rule uncounted) simp
  moreover have "otherStep ?d ?e" by (rule counted) simp
  moreover have "otherStep ?e ?f" by (rule released) simp
  moreover have "otherStep ?f (s\<lparr>srv := runConnection result c (srv s), conns := xs @ ys\<rparr>)"
    using finished [of ?f xs c ys] by (simp add: runConnection_def)
  ultimately show ?thesis by (meson converse_rtranclp_into_rtranclp rtranclp.rtrancl_refl)
qed

text \<open>An operation on a connection is over by its own timeout and by the end of the idle time.\<close>

lemma connDeadline_min: "connDeadline now d c = min (now + d) (lastActivity c + connIdleTimeout c)"
  by (simp add: connDeadline_def Let_def)

subsection \<open>Serve returns\<close>

text \<open>What is left to do for Serve and its watcher once the listener is closed.\<close>

fun phaseRank :: "servePhase \<Rightarrow> nat" where
  "phaseRank HasConn = 12"
| "phaseRank Checked = 11"
| "phaseRank Permitted = 10"
| "phaseRank (Registered _) = 9"
| "phaseRank (Counted _) = 8"
| "phaseRank Accepting = 7"
| "phaseRank LoopLeft = 6"
| "phaseRank DrainGrace = 5"
| "phaseRank DrainCancelled = 4"
| "phaseRank DrainForced = 3"
| "phaseRank (Drained _) = 2"
| "phaseRank (StateClosed _) = 1"
| "phaseRank (Returned _) = 0"
| "phaseRank NotStarted = 0"

fun watcherRank :: "watcherPhase \<Rightarrow> nat" where
  "watcherRank Watching = 2"
| "watcherRank ClosingListener = 1"
| "watcherRank NoWatcher = 0"

definition rank :: "tcpSys \<Rightarrow> nat" where
  "rank s = phaseRank (phase s) + watcherRank (watcher s)"

lemma rank_bound: "rank s \<le> 14"
  unfolding rank_def by (cases "phase s"; cases "watcher s") simp_all

lemma serveStep_rank:
  "serveStep s s' \<Longrightarrow> listenerClosed (srv s) \<Longrightarrow> rank s' < rank s \<and> listenerClosed (srv s')"
  by (erule serveStep.cases) (auto simp: rank_def tcp_ops Let_def split: if_splits)

lemma otherStep_rank:
  "otherStep s s' \<Longrightarrow> listenerClosed (srv s) \<Longrightarrow> control s \<Longrightarrow> rank s' \<le> rank s \<and> listenerClosed (srv s')"
  by (erule otherStep.cases) (auto simp: rank_def control_def tcp_ops Let_def split: if_splits)

lemma serveStep_enabled:
  assumes "control s" "listenerClosed (srv s)"
  shows "(\<exists>r. phase s = Returned r) \<or> (\<exists>s'. serveStep s s')"
proof (cases "phase s")
  case NotStarted
  then show ?thesis using assms by (auto simp: control_def)
next
  case LoopLeft
  then show ?thesis by (cases "watcher s") (blast intro: serveStep.intros)+
next
  case Checked
  then show ?thesis by (cases "takePermit (srv s)") (blast intro: serveStep.intros)+
qed (blast intro: serveStep.intros)+

lemma serve_finishes:
  assumes "tcpReach c s" "listenerClosed (srv s)"
  shows "\<exists>s'. serveStep\<^sup>*\<^sup>* s s' \<and> (\<exists>r. phase s' = Returned r)"
  using assms
proof (induction "rank s" arbitrary: s rule: less_induct)
  case less
  have "control s" using tcpReach_inv [OF less.prems(1)] by simp
  from serveStep_enabled [OF this less.prems(2)] show ?case
  proof
    assume "\<exists>s'. serveStep s s'"
    then obtain t where t: "serveStep s t" by blast
    from serveStep_rank [OF t less.prems(2)] have "rank t < rank s" "listenerClosed (srv t)" by simp_all
    from less.hyps [OF this(1) tcp_serve [OF less.prems(1) t] this(2)] t show ?thesis
      by (meson converse_rtranclp_into_rtranclp)
  qed blast
qed

subsection \<open>A sample run\<close>

definition smallServer :: tcpServerConfig where
  "smallServer = \<lparr>MaxConnections = 1, TcpReadTimeout = second, TcpWriteTimeout = second,
     TcpIdleTimeout = second, ShutdownTimeout = second, ForceCloseWait = second\<rparr>"

definition smallStart :: tcpServer where
  "smallStart = (case newTCPServer True True smallServer of Inr s \<Rightarrow> s)"

lemma smallStart_new: "newTCPServer True True smallServer = Inr smallStart"
proof -
  have "tcpServerConfig_validate smallServer = Inr ()" by code_simp
  then show ?thesis by (simp add: smallStart_def newTCPServer_def)
qed

lemma smallStart_sel:
  "srvState smallStart = serverStateNew" "workers smallStart = 0" "accepted smallStart = 0"
  "\<not> listenerClosed smallStart"
proof -
  have "tcpServerConfig_validate smallServer = Inr ()" by code_simp
  then show "srvState smallStart = serverStateNew" "workers smallStart = 0" "accepted smallStart = 0"
    "\<not> listenerClosed smallStart"
    by (simp_all add: smallStart_def newTCPServer_def)
qed

text \<open>Once started, it accepts.\<close>

definition servingSys :: tcpSys where
  "servingSys = (tcpStart smallStart)\<lparr>srv := smallStart\<lparr>srvState := serverStateServing\<rparr>, phase := Accepting,
     watcher := Watching\<rparr>"

lemma serving_reached: "tcpReach smallServer servingSys"
  using tcp_other [OF tcp_new [OF smallStart_new] starting [of _ "smallStart\<lparr>srvState := serverStateServing\<rparr>"]]
  by (simp add: tcpStart_def startServing_def servingSys_def smallStart_sel)

text \<open>A server whose context is done before it accepts anything.\<close>

lemma stopped_server:
  obtains s where "tcpReach smallServer s" "listenerClosed (srv s)" "phase s = Accepting" "watcher s = NoWatcher"
    "workers (srv s) = 0" "\<not> acceptError s" "srvState (srv s) = serverStateDraining" "accepted (srv s) = 0"
proof -
  let ?s1 = servingSys
  let ?s2 = "?s1\<lparr>srv := (srv ?s1)\<lparr>srvState := serverStateDraining\<rparr>, watcher := ClosingListener\<rparr>"
  let ?s3 = "?s2\<lparr>srv := closeListener (srv ?s2), watcher := NoWatcher\<rparr>"
  have "tcpReach smallServer ?s2"
    using tcp_other [OF serving_reached context_done [of ?s1 True "(srv ?s1)\<lparr>srvState := serverStateDraining\<rparr>"]]
    by (simp add: swapDraining_def servingSys_def)
  then have "tcpReach smallServer ?s3"
    using tcp_serve [OF _ watcher_closes [of ?s2]] by simp
  then show thesis
    using that [of ?s3] by (simp add: closeListener_def tcpStart_def servingSys_def smallStart_sel)
qed

subsection \<open>Properties\<close>



text \<open>
  When Serve returns without an error, the shutdown was complete: no worker is left, no connection
  is in the map, all permits are back, every accepted connection was rejected or completed, the
  listener is closed and the state is closed.
\<close>

lemma serve_clean_return:
  assumes "tcpReach c s" "phase s = Returned ServeOk"
  shows "conns s = [] \<and> workers (srv s) = 0 \<and> activeConns (srv s) = [] \<and> permits (srv s) = 0 \<and>
    activeCount (srv s) = 0 \<and> accepted (srv s) = srvCompleted (srv s) + rejected (srv s) \<and>
    listenerClosed (srv s) \<and> srvState (srv s) = serverStateClosed"
  using tcpReach_inv [OF assms(1)] assms(2) by (auto simp: counters_def registry_def control_def)

lemma serve_clean_return_instance:
  "\<exists>s. tcpReach smallServer s \<and> permits (srv s) = 0 \<and> srvState (srv s) = serverStateClosed"
proof -
  obtain s where s: "tcpReach smallServer s" "listenerClosed (srv s)" "phase s = Accepting" "watcher s = NoWatcher"
    "workers (srv s) = 0" "\<not> acceptError s" "srvState (srv s) = serverStateDraining" by (rule stopped_server)
  note r1 = tcp_serve [OF s(1) accept_error [OF s(3)]]
  note r2 = tcp_serve [OF r1 joined]
  note r3 = tcp_serve [OF r2 drained]
  note r4 = tcp_serve [OF r3 closing [of _ ServeOk]]
  note r5 = tcp_serve [OF r4 returning [of _ ServeOk]]
  have r: "tcpReach smallServer (s\<lparr>acceptError := False, srv := cancelHandlers ((srv s)\<lparr>srvState := serverStateClosed\<rparr>),
      phase := Returned ServeOk\<rparr>)"
    using r5 s by (simp add: beginShutdown_def swapDraining_def)
  from serve_clean_return [OF this] r show ?thesis by auto
qed

text \<open>
  C19: once the listener is closed Serve returns, even if handlers never do: it is never stuck, each of
  its steps (at most fourteen) brings it nearer to returning and no step of a worker or of the context
  sets it back.
\<close>

theorem serve_returns:
  assumes "tcpReach c s" "listenerClosed (srv s)"
  shows "(\<exists>s'. serveStep\<^sup>*\<^sup>* s s' \<and> (\<exists>r. phase s' = Returned r)) \<and>
    ((\<exists>r. phase s = Returned r) \<or> (\<exists>s'. serveStep s s')) \<and> rank s \<le> 14 \<and>
    (\<forall>s'. serveStep s s' \<longrightarrow> rank s' < rank s \<and> listenerClosed (srv s')) \<and>
    (\<forall>s'. otherStep s s' \<longrightarrow> rank s' \<le> rank s \<and> listenerClosed (srv s'))"
proof -
  have c: "control s" using tcpReach_inv [OF assms(1)] by simp
  show ?thesis
    using serve_finishes [OF assms] serveStep_enabled [OF c assms(2)] rank_bound [of s]
      serveStep_rank [OF _ assms(2)] otherStep_rank [OF _ assms(2) c] by blast
qed

theorem serve_returns_witness:
  "\<exists>s s'. tcpReach smallServer s \<and> phase s = Accepting \<and> serveStep\<^sup>*\<^sup>* s s' \<and> (\<exists>r. phase s' = Returned r)"
  using serve_returns stopped_server by metis

end
