(* ===== verification/Server_Config.thy ===== *)
theory Server_Config
  imports Tcp_Server Http_Server
begin

text \<open>
  \<^verbatim>\<open>src/src/config.go\<close>: the configuration of a command and the configurations of the servers it
  builds. Go's \<^verbatim>\<open>int\<close> has 64 bits; durations are nanoseconds in 64 bits.
\<close>

definition millisecond :: duration where "millisecond = 1000000"

definition defaultMaxRequestsPerConnection :: int where "defaultMaxRequestsPerConnection = 1000"

record Config =
  Listen :: string
  CfgMaxConnections :: int
  ReadTimeoutMS :: int
  WriteTimeoutMS :: int
  IdleTimeoutMS :: int
  ShutdownMS :: int
  ForceCloseMS :: int
  MaxRequests :: int

definition DefaultConfig :: Config where
  "DefaultConfig =
     \<lparr>Listen = ''127.0.0.1:8080'', CfgMaxConnections = 256, ReadTimeoutMS = 10000, WriteTimeoutMS = 10000,
      IdleTimeoutMS = 30000, ShutdownMS = 5000, ForceCloseMS = 1000,
      MaxRequests = defaultMaxRequestsPerConnection\<rparr>"

definition validMilliseconds :: "int \<Rightarrow> duration \<Rightarrow> bool" where
  "validMilliseconds v maximum \<longleftrightarrow> v > 0 \<and> v \<le> maximum div millisecond"

definition Config_Validate :: "Config \<Rightarrow> string + unit" where
  "Config_Validate c =
     (if int (length (Listen c)) > maxBackendAddressBytes then Inl ''listen address exceeds %d bytes''
      else
        (case SplitHostPort (Listen c) of
           None \<Rightarrow> Inl ''listen address %q must be host:port''
         | Some (_, portText) \<Rightarrow>
             if (case Atoi portText of None \<Rightarrow> True | Some port \<Rightarrow> port < 0 \<or> port > 65535)
               then Inl ''listen port %q must be numeric and between 0 and 65535''
             else if CfgMaxConnections c \<le> 0 \<or> CfgMaxConnections c > maxServerConnections
               then Inl ''max_connections must be between 1 and %d''
             else if \<not> validMilliseconds (ReadTimeoutMS c) maxConfiguredTimeout
               then Inl ''read_timeout_ms must be between 1 and %d''
             else if \<not> validMilliseconds (WriteTimeoutMS c) maxConfiguredTimeout
               then Inl ''write_timeout_ms must be between 1 and %d''
             else if \<not> validMilliseconds (IdleTimeoutMS c) maxConfiguredTimeout
               then Inl ''idle_timeout_ms must be between 1 and %d''
             else if \<not> validMilliseconds (ShutdownMS c) maxConfiguredTimeout
               then Inl ''shutdown_timeout_ms must be between 1 and %d''
             else if \<not> validMilliseconds (ForceCloseMS c) maxConfiguredTimeout
               then Inl ''force_close_timeout_ms must be between 1 and %d''
             else if MaxRequests c \<le> 0 \<or> MaxRequests c > maxRequestsPerClient
               then Inl ''max_requests_per_connection must be between 1 and %d''
             else Inr ()))"

definition Config_httpServerConfig :: "Config \<Rightarrow> httpServerConfig" where
  "Config_httpServerConfig c = \<lparr>Limits = defaultHTTPLimits, MaxRequestsPerConnection = MaxRequests c\<rparr>"

text \<open>The multiplication of a number of milliseconds wraps like Go's.\<close>

definition Config_tcpServerConfig :: "Config \<Rightarrow> tcpServerConfig" where
  "Config_tcpServerConfig c =
     \<lparr>MaxConnections = CfgMaxConnections c, TcpReadTimeout = wrap64 (ReadTimeoutMS c * millisecond),
      TcpWriteTimeout = wrap64 (WriteTimeoutMS c * millisecond),
      TcpIdleTimeout = wrap64 (IdleTimeoutMS c * millisecond),
      ShutdownTimeout = wrap64 (ShutdownMS c * millisecond),
      ForceCloseWait = wrap64 (ForceCloseMS c * millisecond)\<rparr>"

lemma validMilliseconds_duration:
  assumes "validMilliseconds v maxConfiguredTimeout"
  shows "wrap64 (v * millisecond) = v * millisecond" "0 < v * millisecond" "v * millisecond \<le> maxConfiguredTimeout"
proof -
  have v: "0 < v" "v \<le> 86400000"
    using assms by (simp_all add: validMilliseconds_def maxConfiguredTimeout_def second_def millisecond_def)
  then show "0 < v * millisecond" "v * millisecond \<le> maxConfiguredTimeout"
    by (simp_all add: maxConfiguredTimeout_def second_def millisecond_def)
  then show "wrap64 (v * millisecond) = v * millisecond"
    by (intro wrap64_id) (simp_all add: maxConfiguredTimeout_def second_def)
qed

lemma Config_Validate_Inr:
  assumes "Config_Validate c = Inr ()"
  shows "0 < CfgMaxConnections c" "CfgMaxConnections c \<le> maxServerConnections"
    "list_all (\<lambda>v. validMilliseconds v maxConfiguredTimeout)
      [ReadTimeoutMS c, WriteTimeoutMS c, IdleTimeoutMS c, ShutdownMS c, ForceCloseMS c]"
    "0 < MaxRequests c" "MaxRequests c \<le> maxRequestsPerClient"
  using assms by (auto simp: Config_Validate_def split: if_splits option.splits)

text \<open>
  A configuration that validates builds servers that validate, with the configured times: no
  multiplication overflows and no later check can refuse what the first has accepted.
\<close>

lemma config_builds_servers:
  assumes "Config_Validate c = Inr ()"
  shows "(\<exists>s. newTCPServer True True (Config_tcpServerConfig c) = Inr s) \<and>
    httpServerConfig_validate (Config_httpServerConfig c) = Inr () \<and>
    TcpReadTimeout (Config_tcpServerConfig c) = ReadTimeoutMS c * millisecond \<and>
    ShutdownTimeout (Config_tcpServerConfig c) = ShutdownMS c * millisecond"
proof -
  note v = Config_Validate_Inr [OF assms]
  have d: "validMilliseconds (ReadTimeoutMS c) maxConfiguredTimeout"
    "validMilliseconds (WriteTimeoutMS c) maxConfiguredTimeout"
    "validMilliseconds (IdleTimeoutMS c) maxConfiguredTimeout"
    "validMilliseconds (ShutdownMS c) maxConfiguredTimeout"
    "validMilliseconds (ForceCloseMS c) maxConfiguredTimeout"
    using v(3) by simp_all
  have "tcpServerConfig_validate (Config_tcpServerConfig c) = Inr ()"
    using v(1,2) d [THEN validMilliseconds_duration(1)] d [THEN validMilliseconds_duration(2)]
      d [THEN validMilliseconds_duration(3)]
    by (simp add: tcpServerConfig_validate_def Config_tcpServerConfig_def)
  then have "\<exists>s. newTCPServer True True (Config_tcpServerConfig c) = Inr s" by (simp add: newTCPServer_def)
  moreover have "httpLimits_validate defaultHTTPLimits = Inr ()" by code_simp
  then have "httpServerConfig_validate (Config_httpServerConfig c) = Inr ()"
    using v(4,5) by (simp add: httpServerConfig_validate_def Config_httpServerConfig_def)
  ultimately show ?thesis
    using d [THEN validMilliseconds_duration(1)] by (simp add: Config_tcpServerConfig_def)
qed

lemma config_builds_servers_instance:
  "\<exists>s. newTCPServer True True (Config_tcpServerConfig DefaultConfig) = Inr s"
proof -
  have "Config_Validate DefaultConfig = Inr ()" by code_simp
  from config_builds_servers [OF this] show ?thesis by blast
qed

end
