(* ===== verification/Composition.thy ===== *)
theory Composition
  imports Proxy_Properties
begin

text \<open>
  The proxy behind the connection server, as \<^verbatim>\<open>src/src/proxy_cli.go\<close> and \<^verbatim>\<open>src/src/experiment.go\<close>
  put the two together: the proxy's handler is registered for every method under the root and
  under a wildcard, and \<open>serveHTTPConnection\<close> serves with the frozen tree. The state of the handler
  is that of the proxy and the number of requests it has executed, which says in which environment
  the next one runs.
\<close>

definition proxyRoute ::
    "(nat \<Rightarrow> ('c, 'w) requestEnv) \<Rightarrow> proxyConfig \<Rightarrow> (nat \<times> 'c proxyState) routeHandler" where
  "proxyRoute worlds pc x request params =
     (let (response, st) = executeProxyRequest (worlds (fst x)) request pc (snd x) in
      (HandlerReturn (Some response) None, (Suc (fst x), st)))"

definition proxyRouter ::
    "(nat \<Rightarrow> ('c, 'w) requestEnv) \<Rightarrow> proxyConfig \<Rightarrow> httpServerConfig \<Rightarrow>
     string + (nat \<times> 'c proxyState) routeHandler routeTree" where
  "proxyRouter worlds pc cfg =
     andThen (Register newRouteTree anyMethod ''/'' (Some (proxyRoute worlds pc))) (\<lambda>router.
     andThen (Register router anyMethod ''/*path'' (Some (proxyRoute worlds pc))) (\<lambda>router.
     newHTTPConnectionHandler (Some router) cfg))"

subsection \<open>Every request reaches the proxy\<close>

lemma proxyPatterns:
  "parseRoutePattern ''/'' = Inr ([], [], [])"
  "parseRoutePattern ''/*path'' = Inr ([''*path''], [''path''], [routeSegmentWildcard])"
  by code_simp+

lemma proxyRouter_Inr:
  "proxyRouter worlds pc cfg = Inr router \<longleftrightarrow>
     httpServerConfig_validate cfg = Inr () \<and>
     router = \<lparr>methods = [(anyMethod, RouteNode (\<lambda>_. None) None
         (Some (RouteNode (\<lambda>_. None) None None
           (Some \<lparr>handler = proxyRoute worlds pc, paramNames = [''path'']\<rparr>)))
         (Some \<lparr>handler = proxyRoute worlds pc, paramNames = []\<rparr>))], frozen = True\<rparr>"
  by (cases "httpServerConfig_validate cfg")
     (auto simp: proxyRouter_def Register_def newRouteTree_def proxyPatterns result_simps orEmpty_def
       emptyNode_def newHTTPConnectionHandler_def Freeze_def)

lemma proxyRouter_Lookup:
  assumes "proxyRouter worlds pc cfg = Inr router"
  shows "Handler (Lookup router m t) = Some (proxyRoute worlds pc)"
  using assms
  by (cases "splitRoutePath (requestPath t)"; cases "m = anyMethod")
     (simp_all add: proxyRouter_Inr Lookup_def resolved_def)

lemma dispatch_proxy:
  assumes "proxyRouter worlds pc cfg = Inr router"
  shows "dispatchHTTPRequest router request x =
    (fst (executeProxyRequest (worlds (fst x)) request pc (snd x)),
     Suc (fst x), snd (executeProxyRequest (worlds (fst x)) request pc (snd x)))"
  using proxyRouter_Lookup [OF assms, of "Method request" "Target request"]
  by (simp add: dispatchHTTPRequest_def proxyRoute_def Let_def split: prod.split)

subsection \<open>What every request keeps, a connection keeps\<close>

text \<open>
  \<open>P n x\<close> is to hold of the handler's state before the request \<open>n\<close> of the connection.
\<close>

lemma serveLoop_keeps:
  "\<forall>n request x. P n x \<longrightarrow> P (n + 1) (snd (dispatchHTTPRequest router request x)) \<Longrightarrow> P n x \<Longrightarrow>
   \<exists>k. n \<le> k \<and> k \<le> max n (MaxRequestsPerConnection cfg + 1) \<and>
     P k (snd (snd (serveLoop wr flush env router cfg n reader w x)))"
proof (induction wr flush env router cfg n reader w x rule: serveLoop.induct)
  case (1 wr flush env router cfg n reader w x)
  show ?case
  proof (cases "n > MaxRequestsPerConnection cfg \<or> cancelledBefore env n")
    case True
    then have "serveLoop wr flush env router cfg n reader w x = (None, w, x)"
      by (subst serveLoop.simps) auto
    then show ?thesis using "1.prems"(2) by (intro exI [of _ n]) simp
  next
    case False
    show ?thesis
    proof (cases "readHTTPRequest reader (Limits cfg)")
      case (Inl err)
      then have "snd (snd (serveLoop wr flush env router cfg n reader w x)) = x"
        using False by (subst serveLoop.simps) (simp split: prod.split)
      then show ?thesis using "1.prems"(2) by (intro exI [of _ n]) simp
    next
      case (Inr pr)
      obtain parsed reader' where pr: "pr = (parsed, reader')" by (cases pr)
      define request where "request = parsed\<lparr>RemoteAddr := remoteAddress env\<rparr>"
      obtain response x' where d: "dispatchHTTPRequest router request x = (response, x')" by fastforce
      have x': "P (n + 1) x'" using "1.prems"(1) [rule_format, OF "1.prems"(2), of request] d by simp
      define closing where "closing = closeAfterResponse cfg n request response"
      obtain fb werr w' cs where wr: "writeBufferedHTTPResponse wr flush w
          (response\<lparr>RespClose := closing, RespKeepAlive := \<not> closing\<rparr>) (Method request) = (fb, werr, w', cs)"
        by (metis prod_cases4)
      have step: "serveLoop wr flush env router cfg n reader w x =
          (case werr of Some err \<Rightarrow> (Some err, w', x')
           | None \<Rightarrow> if closing \<or> fb then (None, w', x')
               else serveLoop wr flush env router cfg (n + 1) reader' w' x')"
        using False Inr pr d wr by (subst serveLoop.simps) (simp add: request_def closing_def Let_def split: option.split)
      show ?thesis
      proof (cases "werr = None \<and> \<not> closing \<and> \<not> fb")
        case True
        obtain k where "n + 1 \<le> k" "k \<le> max (n + 1) (MaxRequestsPerConnection cfg + 1)"
            "P k (snd (snd (serveLoop wr flush env router cfg (n + 1) reader' w' x')))"
          by (rule exE [OF "1.IH" [OF _ _ Inr pr [symmetric] request_def d [symmetric] refl closing_def wr [symmetric] refl _ refl]])
             (use False True x' "1.prems"(1) in auto)
        then show ?thesis using step True False by (intro exI [of _ k]) simp
      next
        case other: False
        then show ?thesis using step x' False by (intro exI [of _ "n + 1"]) (cases werr; auto)
      qed
    qed
  qed
qed

lemma executeProxyRequest_settled:
  assumes "quiet env" "MaxAttempts pc \<ge> 0"
  shows "settled (psPool st) (psPool (snd (executeProxyRequest env request pc st)))"
proof (cases "\<exists>i. newRequestID env = Some i \<and> validRequestID i")
  case True
  then show ?thesis using executeProxyRequest_attempting [OF assms] by (fastforce simp: attempting_def)
next
  case False
  then show ?thesis by (cases "newRequestID env") (auto simp: executeProxyRequest_def Let_def)
qed


subsection \<open>Properties\<close>

text \<open>
  C6: whatever bytes a client sends and whatever becomes of what is written to it, once its
  connection is served every backend of the proxy has the requests in flight and the admissions it
  had before, and the proxy has executed at most the configured number of requests.
\<close>

theorem connection_settles:
  assumes "proxyRouter worlds pc cfg = Inr router" "\<forall>n. quiet (worlds n)" "MaxAttempts pc \<ge> 0"
    and "serveHTTPConnection wr flush env router cfg reader w (0, st) = (err, w', n, st')"
  shows "map inFlight (backends (psPool st')) = map inFlight (backends (psPool st)) \<and>
    map admission (backends (psPool st')) = map admission (backends (psPool st)) \<and>
    int n \<le> MaxRequestsPerConnection cfg"
proof -
  let ?P = "\<lambda>k x. int (fst x) = k - 1 \<and> settled (psPool st) (psPool (snd x))"
  have "1 \<le> MaxRequestsPerConnection cfg"
    using assms(1) by (auto simp: proxyRouter_Inr httpServerConfig_validate_def result_simps split: if_splits)
  moreover have "\<forall>k request x. ?P k x \<longrightarrow> ?P (k + 1) (snd (dispatchHTTPRequest router request x))"
    using assms(2) settled_trans executeProxyRequest_settled [OF _ assms(3)]
    by (fastforce simp: dispatch_proxy [OF assms(1)])
  ultimately obtain k where "k \<le> MaxRequestsPerConnection cfg + 1" "?P k (n, st')"
    using serveLoop_keeps [of ?P router 1 "(0, st)" cfg wr flush env reader w] assms(4)
    by (auto simp: serveHTTPConnection_def)
  then show ?thesis by (simp add: settled_def)
qed

definition sampleRouter :: "(nat \<times> nat proxyState) routeHandler routeTree" where
  "sampleRouter = (case proxyRouter (\<lambda>_. sampleEnv) observedConfig echoConfig of Inr r \<Rightarrow> r | Inl _ \<Rightarrow> newRouteTree)"

theorem connection_settles_witness:
  "\<exists>err w n st. serveHTTPConnection bufferWriter (\<lambda>w. (None, w)) echoEnv sampleRouter echoConfig
       (encodeRequest clientRequest @ ''rest'', IoEOF) [] (0, sampleState) = (err, w, n, st) \<and>
     map inFlight (backends (psPool st)) = [0, 0] \<and> n \<le> 2"
proof -
  have "httpServerConfig_validate echoConfig = Inr ()" by code_simp
  then obtain r where r: "proxyRouter (\<lambda>_. sampleEnv) observedConfig echoConfig = Inr r"
    using proxyRouter_Inr by blast
  then have tree: "proxyRouter (\<lambda>_. sampleEnv) observedConfig echoConfig = Inr sampleRouter"
    by (simp add: sampleRouter_def)
  obtain err w n st where served: "serveHTTPConnection bufferWriter (\<lambda>w. (None, w)) echoEnv sampleRouter echoConfig
       (encodeRequest clientRequest @ ''rest'', IoEOF) [] (0, sampleState) = (err, w, n, st)"
    by (metis prod_cases4)
  then show ?thesis
    using connection_settles [OF tree _ _ served] sampleEnv_ok(1,6)
    by (simp add: sampleState_def proxyPool_def newBackend_def echoConfig_def)
qed

end
