(* ===== verification/Scenario.thy ===== *)
theory Scenario
  imports Complex_Main Observability
begin

text \<open>
  \<^verbatim>\<open>src/src/scenario.go\<close>, with the fixture profiles of \<^verbatim>\<open>src/src/fixture.go\<close>: the description of an
  experiment, its validation and its schedule. JSON and hashing are in \<open>Scenario_Json\<close>. A
  \<^verbatim>\<open>float64\<close> read from JSON is finite, hence a rational, and comparing it is exact. The random numbers
  of the schedule are a function of the number of the draw, since every schedule starts from the same
  seed.
\<close>

subsection \<open>Fixture profiles\<close>

type_synonym fixtureMode = string

definition fixtureHealthy :: fixtureMode where "fixtureHealthy = ''healthy''"
definition fixtureDelayed :: fixtureMode where "fixtureDelayed = ''delayed''"
definition fixtureFailure :: fixtureMode where "fixtureFailure = ''failure''"
definition fixtureTruncated :: fixtureMode where "fixtureTruncated = ''truncated''"
definition fixtureUnavailable :: fixtureMode where "fixtureUnavailable = ''unavailable''"
definition fixtureRecovered :: fixtureMode where "fixtureRecovered = ''recovered''"

lemmas fixture_modes = fixtureHealthy_def fixtureDelayed_def fixtureFailure_def fixtureTruncated_def
  fixtureUnavailable_def fixtureRecovered_def

definition isFaultMode :: "fixtureMode \<Rightarrow> bool" where
  "isFaultMode m \<longleftrightarrow>
     m = fixtureDelayed \<or> m = fixtureFailure \<or> m = fixtureTruncated \<or> m = fixtureUnavailable"

definition validateFixtureProfile :: "fixtureMode \<Rightarrow> int \<Rightarrow> int \<Rightarrow> string + unit" where
  "validateFixtureProfile mode delayMS status =
     (if mode \<in> {fixtureHealthy, fixtureRecovered, fixtureTruncated, fixtureUnavailable} then
        (if delayMS \<noteq> 0 \<or> status \<noteq> 0
         then Inl ''mode %q does not accept delay_ms or failure_status'' else Inr ())
      else if mode = fixtureDelayed then
        (if delayMS \<le> 0 \<or> delayMS > 60000 \<or> status \<noteq> 0
         then Inl ''delayed mode requires delay_ms between 1 and 60000 and no failure_status''
         else Inr ())
      else if mode = fixtureFailure then
        (if status < 400 \<or> status > 599 \<or> delayMS \<noteq> 0
         then Inl ''failure mode requires failure_status between 400 and 599 and no delay_ms''
         else Inr ())
      else Inl ''unsupported fixture mode %q'')"

subsection \<open>Scenarios\<close>

definition scenarioVersion :: int where "scenarioVersion = 1"
definition maxScenarioFixtures :: int where "maxScenarioFixtures = 8"
definition maxScenarioSteps :: int where "maxScenarioSteps = 128"
definition maxExperimentWorkers :: int where "maxExperimentWorkers = 64"
definition maxExperimentRequests :: int where "maxExperimentRequests = 100000"
definition maxExperimentDuration :: duration where "maxExperimentDuration = 10 * 60 * second"
definition maxScenarioPathBytes :: int where "maxScenarioPathBytes = 4 * 1024"

record fixtureSpec =
  SpecAlias :: string
  InitialMode :: fixtureMode
  SpecDelayMS :: int
  SpecFailureStatus :: int

record scenarioStep =
  AtMS :: int
  JitterMS :: int
  StepFixture :: string
  StepMode :: fixtureMode
  StepDelayMS :: int
  StepFailureStatus :: int

record scenarioLoad =
  Workers :: int
  LoadRequests :: int
  RatePerSecond :: int
  LoadPath :: string
  TimeoutMS :: int

record scenarioResilience =
  ScMaxAttempts :: int
  RetryTimeoutMS :: int
  PassiveFailures :: int
  PassiveIntervalMS :: int
  CircuitCooldownMS :: int
  ScHalfOpenSuccesses :: int
  HealthIntervalMS :: int
  HealthTimeoutMS :: int
  HealthFailures :: int
  HealthSuccesses :: int

record scenarioAssertions =
  MinimumSuccessRate :: rat
  MaximumFailureRun :: int
  MaximumFailoverMS :: int
  RequireRecovery :: bool

record scenario =
  ScVersion :: int
  ScName :: string
  Seed :: int
  DurationMS :: int
  Fixtures :: "fixtureSpec list"
  Steps :: "scenarioStep list"
  Load :: scenarioLoad
  ScResilience :: scenarioResilience
  Assertions :: scenarioAssertions
  ScLedgerCapacity :: int

record scheduledStep =
  StepIndex :: nat
  StepAt :: duration
  Configured :: scenarioStep

definition millis :: "int \<Rightarrow> duration" where "millis n = n * (second div 1000)"

text \<open>
  The loop of \<^verbatim>\<open>schedule\<close> over the steps, with the index and the number of draws made; then the stable
  sort by time and index, as two stable sorts.
\<close>

fun resolveSteps :: "(nat \<Rightarrow> int \<Rightarrow> int) \<Rightarrow> nat \<Rightarrow> nat \<Rightarrow> scenarioStep list \<Rightarrow> scheduledStep list" where
  "resolveSteps intn index draws [] = []"
| "resolveSteps intn index draws (step # steps) =
     (let (resolved, draws') =
        (if JitterMS step > 0
         then (AtMS step + (intn draws (JitterMS step * 2 + 1) - JitterMS step), draws + 1)
         else (AtMS step, draws)) in
      \<lparr>StepIndex = index, StepAt = millis resolved, Configured = step\<rparr> #
        resolveSteps intn (index + 1) draws' steps)"

definition schedule :: "(nat \<Rightarrow> int \<Rightarrow> int) \<Rightarrow> scenario \<Rightarrow> scheduledStep list" where
  "schedule intn s = sort_key StepAt (sort_key StepIndex (resolveSteps intn 0 0 (Steps s)))"

text \<open>The checks of \<^verbatim>\<open>validate\<close>, in order; the loops over fixtures, steps and the schedule.\<close>

fun checkFixtures :: "string list \<Rightarrow> fixtureSpec list \<Rightarrow> string + string list" where
  "checkFixtures aliases [] = Inr aliases"
| "checkFixtures aliases (f # fs) =
     (if \<not> validToken (SpecAlias f) \<or> int (length (SpecAlias f)) > maxBackendAliasBytes
        then Inl ''fixture %d alias must be an HTTP token''
      else if ToLower (SpecAlias f) \<in> set aliases then Inl ''fixture alias %q is duplicated''
      else
        andThen (validateFixtureProfile (InitialMode f) (SpecDelayMS f) (SpecFailureStatus f)) (\<lambda>_.
        if InitialMode f = fixtureRecovered then Inl ''fixture %q cannot start in recovered mode''
        else checkFixtures (ToLower (SpecAlias f) # aliases) fs))"

fun checkSteps :: "string list \<Rightarrow> int \<Rightarrow> scenarioStep list \<Rightarrow> string + unit" where
  "checkSteps aliases durationMS [] = Inr ()"
| "checkSteps aliases durationMS (step # steps) =
     (if AtMS step < 0 \<or> AtMS step \<ge> durationMS \<or> JitterMS step < 0 \<or> JitterMS step > AtMS step \<or>
         JitterMS step \<ge> durationMS - AtMS step
        then Inl ''step %d must resolve within the scenario duration''
      else if ToLower (StepFixture step) \<notin> set aliases
        then Inl ''step %d references unknown fixture %q''
      else
        andThen (validateFixtureProfile (StepMode step) (StepDelayMS step) (StepFailureStatus step)) (\<lambda>_.
          checkSteps aliases durationMS steps))"

text \<open>The modes the fixtures have, as a map; an absent key reads as the empty mode.\<close>

definition initialModes :: "fixtureSpec list \<Rightarrow> string \<Rightarrow> fixtureMode" where
  "initialModes fs = fold (\<lambda>f modes. modes(ToLower (SpecAlias f) := InitialMode f)) fs (\<lambda>_. [])"

fun checkSchedule ::
    "(string \<Rightarrow> fixtureMode) \<Rightarrow> bool \<Rightarrow> bool \<Rightarrow> scheduledStep list \<Rightarrow> string + bool \<times> bool" where
  "checkSchedule modes hasFault hasRecovery [] = Inr (hasFault, hasRecovery)"
| "checkSchedule modes hasFault hasRecovery (s # ss) =
     (let key = ToLower (StepFixture (Configured s));
          mode = StepMode (Configured s) in
      if mode = fixtureRecovered \<and> \<not> isFaultMode (modes key)
        then Inl ''step %d recovers fixture %q before a fault''
      else checkSchedule (modes(key := mode)) (hasFault \<or> isFaultMode mode)
             (hasRecovery \<or> mode = fixtureRecovered) ss)"

definition validScenarioPath :: "string \<Rightarrow> bool" where
  "validScenarioPath path \<longleftrightarrow>
     path \<noteq> [] \<and> int (length path) \<le> maxScenarioPathBytes \<and> hd path = CHR ''/'' \<and>
     CR \<notin> set path \<and> LF \<notin> set path \<and> CHR ''#'' \<notin> set path \<and> CHR '' '' \<notin> set path"

definition requiredLedgerCapacity :: "scenario \<Rightarrow> int" where
  "requiredLedgerCapacity s =
     (let r = ScResilience s in
      if HealthIntervalMS r \<le> 0 \<or> CircuitCooldownMS r \<le> 0
        then max (LoadRequests (Load s) * (2 + ScMaxAttempts r * 3) + int (length (Steps s)) + 32) 1
      else LoadRequests (Load s) * (2 + ScMaxAttempts r * 3) + int (length (Steps s)) +
        int (length (Fixtures s)) *
          (DurationMS s div HealthIntervalMS r + DurationMS s div CircuitCooldownMS r + 4))"

definition scenario_validate :: "(nat \<Rightarrow> int \<Rightarrow> int) \<Rightarrow> scenario \<Rightarrow> string + unit" where
  "scenario_validate intn s =
     (if ScVersion s \<noteq> scenarioVersion then Inl ''scenario version must be %d''
      else if TrimSpace (ScName s) = [] \<or> length (ScName s) > 128
        then Inl ''scenario name must contain 1 to 128 characters''
      else if DurationMS s < 100 \<or> DurationMS s > maxExperimentDuration div (second div 1000)
        then Inl ''scenario duration must be between 100ms and %s''
      else if length (Fixtures s) < 2 \<or> int (length (Fixtures s)) > maxScenarioFixtures
        then Inl ''scenario requires 2 to %d fixtures''
      else
        andThen (checkFixtures [] (Fixtures s)) (\<lambda>aliases.
        if Steps s = [] \<or> int (length (Steps s)) > maxScenarioSteps
          then Inl ''scenario requires 1 to %d steps''
        else
        andThen (checkSteps aliases (DurationMS s) (Steps s)) (\<lambda>_.
        andThen (checkSchedule (initialModes (Fixtures s)) False False (schedule intn s)) (\<lambda>(hasFault, hasRecovery).
        if \<not> hasFault \<or> (RequireRecovery (Assertions s) \<and> \<not> hasRecovery)
          then Inl ''scenario must contain a fault and every required recovery''
        else if Workers (Load s) \<le> 0 \<or> Workers (Load s) > maxExperimentWorkers
          then Inl ''load workers must be between 1 and %d''
        else if LoadRequests (Load s) \<le> 0 \<or> LoadRequests (Load s) > maxExperimentRequests
          then Inl ''load requests must be between 1 and %d''
        else if RatePerSecond (Load s) < 0 \<or> RatePerSecond (Load s) > 10000
          then Inl ''load rate must be between 0 and 10000 requests per second''
        else if \<not> validScenarioPath (LoadPath (Load s)) \<or> TimeoutMS (Load s) \<le> 0 \<or> TimeoutMS (Load s) > 60000
          then Inl ''load path and timeout are invalid''
        else
          (let r = ScResilience s; a = Assertions s in
           if ScMaxAttempts r \<le> 0 \<or> ScMaxAttempts r > int (length (Fixtures s)) \<or> RetryTimeoutMS r \<le> 0 \<or>
              PassiveFailures r \<le> 0 \<or> PassiveIntervalMS r \<le> 0 \<or> CircuitCooldownMS r \<le> 0 \<or>
              ScHalfOpenSuccesses r \<le> 0 \<or> HealthIntervalMS r \<le> 0 \<or> HealthTimeoutMS r \<le> 0 \<or>
              HealthTimeoutMS r \<ge> HealthIntervalMS r \<or> HealthFailures r \<le> 0 \<or> HealthSuccesses r \<le> 0
             then Inl ''resilience values must be positive, bounded by fixtures, and health timeout must be below interval''
           else if MinimumSuccessRate a < 0 \<or> MinimumSuccessRate a > 1 \<or> MaximumFailureRun a < 0 \<or>
                   MaximumFailoverMS a \<le> 0
             then Inl ''assertion thresholds are invalid''
           else if ScLedgerCapacity s < requiredLedgerCapacity s \<or> ScLedgerCapacity s > maxLedgerCapacity
             then Inl ''ledger_capacity must be at least %d and at most %d''
           else Inr ())))))"

definition defaultDemoScenario :: scenario where
  "defaultDemoScenario =
     \<lparr>ScVersion = scenarioVersion, ScName = ''anvil-offline-failure-recovery'', Seed = 4107, DurationMS = 6000,
      Fixtures =
        [\<lparr>SpecAlias = ''forge-a'', InitialMode = fixtureHealthy, SpecDelayMS = 0, SpecFailureStatus = 0\<rparr>,
         \<lparr>SpecAlias = ''forge-b'', InitialMode = fixtureHealthy, SpecDelayMS = 0, SpecFailureStatus = 0\<rparr>],
      Steps =
        [\<lparr>AtMS = 1500, JitterMS = 0, StepFixture = ''forge-a'', StepMode = fixtureUnavailable,
          StepDelayMS = 0, StepFailureStatus = 0\<rparr>,
         \<lparr>AtMS = 3500, JitterMS = 0, StepFixture = ''forge-a'', StepMode = fixtureRecovered,
          StepDelayMS = 0, StepFailureStatus = 0\<rparr>],
      Load = \<lparr>Workers = 4, LoadRequests = 120, RatePerSecond = 20, LoadPath = ''/work'', TimeoutMS = 1000\<rparr>,
      ScResilience =
        \<lparr>ScMaxAttempts = 2, RetryTimeoutMS = 750, PassiveFailures = 1, PassiveIntervalMS = 5000,
         CircuitCooldownMS = 500, ScHalfOpenSuccesses = 1, HealthIntervalMS = 200, HealthTimeoutMS = 100,
         HealthFailures = 1, HealthSuccesses = 1\<rparr>,
      Assertions = \<lparr>MinimumSuccessRate = 8556839292003942 / 2 ^ 53, MaximumFailureRun = 2, MaximumFailoverMS = 1000,
        RequireRecovery = True\<rparr>,
      ScLedgerCapacity = 2048\<rparr>"

subsection \<open>The schedule\<close>

text \<open>What \<^verbatim>\<open>rand.Intn\<close> promises.\<close>

definition drawsBelow :: "(nat \<Rightarrow> int \<Rightarrow> int) \<Rightarrow> bool" where
  "drawsBelow intn \<longleftrightarrow> (\<forall>k n. 0 < n \<longrightarrow> 0 \<le> intn k n \<and> intn k n < n)"

lemma map_Configured_resolve: "map Configured (resolveSteps intn index draws steps) = steps"
  by (induction steps arbitrary: index draws) (simp_all add: Let_def split: prod.split)

lemma millis_mono: "0 \<le> a \<Longrightarrow> a < b \<Longrightarrow> 0 \<le> millis a \<and> millis a < millis b"
  by (simp add: millis_def second_def)

lemma resolve_within:
  assumes "drawsBelow intn" "checkSteps aliases durationMS steps = Inr ()"
    and "x \<in> set (resolveSteps intn index draws steps)"
  shows "0 \<le> StepAt x \<and> StepAt x < millis durationMS"
  using assms(2,3)
proof (induction steps arbitrary: index draws)
  case Nil
  then show ?case by simp
next
  case (Cons step steps)
  have here: "0 \<le> AtMS step" "AtMS step < durationMS" "0 \<le> JitterMS step" "JitterMS step \<le> AtMS step"
      "JitterMS step < durationMS - AtMS step"
    and rest: "checkSteps aliases durationMS steps = Inr ()"
    using Cons.prems(1) by (auto simp: result_simps split: if_splits)
  have draw: "0 \<le> AtMS step + (intn draws (JitterMS step * 2 + 1) - JitterMS step) \<and>
      AtMS step + (intn draws (JitterMS step * 2 + 1) - JitterMS step) < durationMS"
  proof -
    have "0 \<le> intn draws (JitterMS step * 2 + 1)" "intn draws (JitterMS step * 2 + 1) < JitterMS step * 2 + 1"
      using assms(1) [unfolded drawsBelow_def, rule_format, of "JitterMS step * 2 + 1" draws] here(3) by linarith+
    then show ?thesis using here by linarith
  qed
  from Cons.prems(2) consider (first) "StepAt x = millis (AtMS step) \<or>
        StepAt x = millis (AtMS step + (intn draws (JitterMS step * 2 + 1) - JitterMS step))"
      | (later) draws' where "x \<in> set (resolveSteps intn (index + 1) draws' steps)"
    by (auto simp: Let_def split: if_splits)
  then show ?case
  proof cases
    case first
    then show ?thesis using millis_mono here draw by metis
  next
    case later
    then show ?thesis using Cons.IH [OF rest] by blast
  qed
qed

lemma schedule_mset: "mset (map Configured (schedule intn s)) = mset (Steps s)"
proof -
  have "mset (map Configured (schedule intn s)) = mset (map Configured (resolveSteps intn 0 0 (Steps s)))"
    by (simp add: schedule_def)
  then show ?thesis by (simp only: map_Configured_resolve)
qed

text \<open>The mode of a fixture after scheduled steps.\<close>

definition modeAfter :: "(string \<Rightarrow> fixtureMode) \<Rightarrow> scheduledStep list \<Rightarrow> string \<Rightarrow> fixtureMode" where
  "modeAfter modes xs key =
     (let before = filter (\<lambda>y. ToLower (StepFixture (Configured y)) = key) xs in
      if before = [] then modes key else StepMode (Configured (last before)))"

lemma modeAfter_Cons:
  "modeAfter modes (y # xs) key =
   modeAfter (modes(ToLower (StepFixture (Configured y)) := StepMode (Configured y))) xs key"
  by (simp add: modeAfter_def Let_def)

lemma checkSchedule_recovers:
  assumes "checkSchedule modes fault rec (xs @ x # ys) = Inr r" "StepMode (Configured x) = fixtureRecovered"
  shows "isFaultMode (modeAfter modes xs (ToLower (StepFixture (Configured x))))"
  using assms
proof (induction xs arbitrary: modes fault rec)
  case Nil
  then show ?case by (simp add: modeAfter_def Let_def split: if_splits)
next
  case (Cons y xs)
  then show ?case by (simp add: modeAfter_Cons Let_def split: if_splits)
qed

lemma scenario_validate_steps:
  assumes "scenario_validate intn s = Inr ()"
  obtains aliases r where "checkSteps aliases (DurationMS s) (Steps s) = Inr ()"
    "checkSchedule (initialModes (Fixtures s)) False False (schedule intn s) = Inr r"
  using assms by (auto simp: scenario_validate_def result_simps split: if_splits prod.splits)

text \<open>
  The schedule of a valid scenario, whatever jitter is drawn, has exactly the configured steps in
  the order of their times, all of them within the duration of the scenario, and a fixture recovers
  only from a fault: the last mode given to it before, or else its initial one.
\<close>

lemma schedule_sound:
  assumes "scenario_validate intn s = Inr ()" "drawsBelow intn"
  shows "mset (map Configured (schedule intn s)) = mset (Steps s) \<and>
    sorted (map StepAt (schedule intn s)) \<and>
    (\<forall>x \<in> set (schedule intn s). 0 \<le> StepAt x \<and> StepAt x < millis (DurationMS s)) \<and>
    (\<forall>xs x ys. schedule intn s = xs @ x # ys \<longrightarrow> StepMode (Configured x) = fixtureRecovered \<longrightarrow>
      isFaultMode (modeAfter (initialModes (Fixtures s)) xs (ToLower (StepFixture (Configured x)))))"
proof -
  obtain aliases r where c: "checkSteps aliases (DurationMS s) (Steps s) = Inr ()"
    "checkSchedule (initialModes (Fixtures s)) False False (schedule intn s) = Inr r"
    by (rule scenario_validate_steps [OF assms(1)])
  have "sorted (map StepAt (schedule intn s))" by (simp add: schedule_def)
  moreover have "\<forall>x \<in> set (schedule intn s). 0 \<le> StepAt x \<and> StepAt x < millis (DurationMS s)"
    using resolve_within [OF assms(2) c(1)] by (auto simp: schedule_def)
  ultimately show ?thesis
    using schedule_mset [of intn s] checkSchedule_recovers c(2) by metis
qed

lemma schedule_sound_instance:
  "sorted (map StepAt (schedule (\<lambda>k n. 0) defaultDemoScenario)) \<and>
   mset (map Configured (schedule (\<lambda>k n. 0) defaultDemoScenario)) = mset (Steps defaultDemoScenario)"
proof -
  have "scenario_validate (\<lambda>k n. 0) defaultDemoScenario = Inr ()" by code_simp
  moreover have "drawsBelow (\<lambda>k n. 0)" by (simp add: drawsBelow_def)
  ultimately show ?thesis using schedule_sound by blast
qed

end
