(* ===== verification/Receipt.thy ===== *)
theory Receipt
  imports Scenario
begin

text \<open>
  \<^verbatim>\<open>src/src/receipt.go\<close>: the receipt derived from the events of the ledger, and its verdict. Of the
  benchmark the receipt uses the number of completed requests; the quotient of two numbers of requests
  as a \<^verbatim>\<open>float64\<close> is a parameter (\<open>rateOf\<close>). The texts of expectations and the printed receipt are
  in \<open>Receipt_Text\<close>.
\<close>

subsection \<open>Measurements\<close>

record failoverMeasurement =
  FoFixture :: string
  FaultSequence :: u64
  FoObserved :: bool
  FoMicros :: int

record recoveryMeasurement =
  ReFixture :: string
  RecoverySequence :: u64
  ReObserved :: bool
  ReMicros :: int

definition successfulStatus :: "int \<Rightarrow> bool" where
  "successfulStatus status \<longleftrightarrow> status \<ge> 200 \<and> status < 400"

definition completedOk :: "decisionEvent \<Rightarrow> bool" where
  "completedOk e \<longleftrightarrow> EventType e = eventRequestCompleted \<and> successfulStatus (Status e)"

text \<open>The inner loops: the first later completion that shows the failover or the recovery.\<close>

definition measureFailover :: "decisionEvent \<Rightarrow> decisionEvent list \<Rightarrow> failoverMeasurement" where
  "measureFailover event later =
     (case List.find (\<lambda>e. completedOk e \<and> BackendAlias e \<noteq> [] \<and> \<not> EqualFold (BackendAlias e) (BackendAlias event))
             later of
        None \<Rightarrow> \<lparr>FoFixture = BackendAlias event, FaultSequence = Sequence event, FoObserved = False, FoMicros = 0\<rparr>
      | Some e \<Rightarrow>
          \<lparr>FoFixture = BackendAlias event, FaultSequence = Sequence event, FoObserved = True,
           FoMicros = max (ElapsedMicros e - ElapsedMicros event) 0\<rparr>)"

definition measureRecovery :: "decisionEvent \<Rightarrow> decisionEvent list \<Rightarrow> recoveryMeasurement" where
  "measureRecovery event later =
     (case List.find (\<lambda>e. completedOk e \<and> EqualFold (BackendAlias e) (BackendAlias event)) later of
        None \<Rightarrow> \<lparr>ReFixture = BackendAlias event, RecoverySequence = Sequence event, ReObserved = False, ReMicros = 0\<rparr>
      | Some e \<Rightarrow>
          \<lparr>ReFixture = BackendAlias event, RecoverySequence = Sequence event, ReObserved = True,
           ReMicros = max (ElapsedMicros e - ElapsedMicros event) 0\<rparr>)"

definition isFault :: "decisionEvent \<Rightarrow> bool" where
  "isFault e \<longleftrightarrow> EventType e = eventFixtureTransition \<and> isFaultMode (NewState e)"

definition isRecovery :: "decisionEvent \<Rightarrow> bool" where
  "isRecovery e \<longleftrightarrow> EventType e = eventFixtureTransition \<and> NewState e = fixtureRecovered"

fun deriveFailovers :: "decisionEvent list \<Rightarrow> failoverMeasurement list" where
  "deriveFailovers [] = []"
| "deriveFailovers (e # es) =
     (if isFault e then measureFailover e es # deriveFailovers es else deriveFailovers es)"

fun deriveRecoveries :: "decisionEvent list \<Rightarrow> recoveryMeasurement list" where
  "deriveRecoveries [] = []"
| "deriveRecoveries (e # es) =
     (if isRecovery e then measureRecovery e es # deriveRecoveries es else deriveRecoveries es)"

subsection \<open>The receipt\<close>

record receiptScheduleStep =
  RsAtMS :: int
  RsFixture :: string
  RsMode :: fixtureMode

record assertionResult =
  AssertionName :: string
  AssertionPassed :: bool

record resilienceReceipt =
  RcScenario :: string
  RcHash :: string
  RcSeed :: int
  RcSchedule :: "receiptScheduleStep list"
  RcMicros :: int
  RcFirst :: u64
  RcLast :: u64
  RcEventCount :: int
  RcEventCounts :: "eventType \<Rightarrow> u64"
  RcRequests :: u64
  RcSuccesses :: u64
  RcFailures :: u64
  RcSuccessRate :: rat
  RcFailureRun :: u64
  RcFailovers :: "failoverMeasurement list"
  RcRecoveries :: "recoveryMeasurement list"
  RcBenchmark :: u64
  RcReconciled :: bool
  RcAssertions :: "assertionResult list"
  RcPassed :: bool

record eventTally =
  tCounts :: "eventType \<Rightarrow> u64"
  tRequests :: u64
  tSuccesses :: u64
  tFailures :: u64
  tRun :: u64
  tMaxRun :: u64

definition noEvents :: eventTally where
  "noEvents = \<lparr>tCounts = (\<lambda>_. 0), tRequests = 0, tSuccesses = 0, tFailures = 0, tRun = 0, tMaxRun = 0\<rparr>"

definition tallyEvent :: "decisionEvent \<Rightarrow> eventTally \<Rightarrow> eventTally" where
  "tallyEvent e t =
     (let t1 = t\<lparr>tCounts := (tCounts t)(EventType e := tCounts t (EventType e) + 1)\<rparr> in
      if EventType e \<noteq> eventRequestCompleted then t1
      else
        (let t2 = t1\<lparr>tRequests := tRequests t1 + 1\<rparr> in
         if successfulStatus (Status e)
           then t2\<lparr>tSuccesses := tSuccesses t2 + 1, tRun := 0\<rparr>
         else
           t2\<lparr>tFailures := tFailures t2 + 1, tRun := tRun t2 + 1,
              tMaxRun := (if tRun t2 + 1 > tMaxRun t2 then tRun t2 + 1 else tMaxRun t2)\<rparr>))"

definition maxFailover :: "failoverMeasurement list \<Rightarrow> int" where
  "maxFailover fs = fold (\<lambda>f m. if FoMicros f > m then FoMicros f else m) fs 0"

definition evaluateAssertions :: "scenarioAssertions \<Rightarrow> resilienceReceipt \<Rightarrow> assertionResult list" where
  "evaluateAssertions expected receipt =
     [\<lparr>AssertionName = ''minimum_success_rate'',
       AssertionPassed = (RcSuccessRate receipt \<ge> MinimumSuccessRate expected)\<rparr>,
      \<lparr>AssertionName = ''maximum_failure_streak'',
       AssertionPassed = (RcFailureRun receipt \<le> word_of_int (MaximumFailureRun expected))\<rparr>,
      \<lparr>AssertionName = ''maximum_failover_time'',
       AssertionPassed =
         (RcFailovers receipt \<noteq> [] \<and> list_all FoObserved (RcFailovers receipt) \<and>
          maxFailover (RcFailovers receipt) \<le> wrap64 (MaximumFailoverMS expected * 1000))\<rparr>] @
     (if RequireRecovery expected
      then [\<lparr>AssertionName = ''recovery'',
             AssertionPassed = (RcRecoveries receipt \<noteq> [] \<and> list_all ReObserved (RcRecoveries receipt))\<rparr>]
      else []) @
     [\<lparr>AssertionName = ''benchmark_ledger_reconciliation'', AssertionPassed = RcReconciled receipt\<rparr>]"

definition deriveReceipt ::
    "(u64 \<Rightarrow> u64 \<Rightarrow> rat) \<Rightarrow> (nat \<Rightarrow> int \<Rightarrow> int) \<Rightarrow> scenario \<Rightarrow> string \<Rightarrow> ledgerSnapshot \<Rightarrow> u64 \<Rightarrow> resilienceReceipt" where
  "deriveReceipt rateOf intn s hash ledger benchmarkCompleted =
     (let events = Events ledger;
          t = fold tallyEvent events noEvents;
          receipt =
            \<lparr>RcScenario = ScName s, RcHash = hash, RcSeed = Seed s,
             RcSchedule = map (\<lambda>x. \<lparr>RsAtMS = StepAt x div (second div 1000),
               RsFixture = StepFixture (Configured x), RsMode = StepMode (Configured x)\<rparr>) (schedule intn s),
             RcMicros = (if events = [] then 0 else ElapsedMicros (last events)),
             RcFirst = (if events = [] then 0 else Sequence (hd events)),
             RcLast = (if events = [] then 0 else Sequence (last events)),
             RcEventCount = int (length events), RcEventCounts = tCounts t, RcRequests = tRequests t,
             RcSuccesses = tSuccesses t, RcFailures = tFailures t,
             RcSuccessRate = (if tRequests t \<noteq> 0 then rateOf (tSuccesses t) (tRequests t) else 0),
             RcFailureRun = tMaxRun t, RcFailovers = deriveFailovers events,
             RcRecoveries = deriveRecoveries events, RcBenchmark = benchmarkCompleted,
             RcReconciled = (benchmarkCompleted = tRequests t), RcAssertions = [], RcPassed = True\<rparr>;
          results = evaluateAssertions (Assertions s) receipt in
      receipt\<lparr>RcAssertions := results, RcPassed := list_all AssertionPassed results\<rparr>)"

subsection \<open>Runs of failures\<close>

definition outcomes :: "decisionEvent list \<Rightarrow> bool list" where
  "outcomes es = map (\<lambda>e. successfulStatus (Status e)) (filter (\<lambda>e. EventType e = eventRequestCompleted) es)"

text \<open>The failures at the end, and the most failures in a row, as the loop counts them.\<close>

definition runs :: "bool list \<Rightarrow> nat \<times> nat" where
  "runs bs = fold (\<lambda>b (r, m). if b then (0, m) else (Suc r, max m (Suc r))) bs (0, 0)"

lemma runs_simps [simp]:
  "runs [] = (0, 0)"
  "runs (bs @ [b]) = (case runs bs of (r, m) \<Rightarrow> if b then (0, m) else (Suc r, max m (Suc r)))"
  by (simp_all add: runs_def)

definition hasRun :: "nat \<Rightarrow> bool list \<Rightarrow> bool" where
  "hasRun n bs \<longleftrightarrow> (\<exists>xs ys. bs = xs @ replicate n False @ ys)"

lemma hasRun_0 [simp]: "hasRun 0 bs"
  unfolding hasRun_def by (rule exI [of _ "[]"]) simp

lemma runs_at_end: "n \<le> fst (runs bs) \<longleftrightarrow> (\<exists>xs. bs = xs @ replicate n False)"
proof (induction bs arbitrary: n rule: rev_induct)
  case Nil
  then show ?case by auto
next
  case (snoc b bs)
  show ?case
  proof (cases n)
    case (Suc k)
    have "replicate n False = replicate k False @ [False]" using Suc by (simp add: replicate_append_same)
    then have "bs @ [b] = xs @ replicate n False \<longleftrightarrow> \<not> b \<and> bs = xs @ replicate k False" for xs
      by (auto simp: append_assoc [symmetric] simp del: append_assoc)
    then have "(\<exists>xs. bs @ [b] = xs @ replicate n False) \<longleftrightarrow> \<not> b \<and> (\<exists>xs. bs = xs @ replicate k False)"
      by blast
    then show ?thesis using snoc.IH [of k] Suc by (cases "runs bs") auto
  qed auto
qed

lemma hasRun_snoc: "hasRun n (bs @ [b]) \<longleftrightarrow> hasRun n bs \<or> (\<exists>xs. bs @ [b] = xs @ replicate n False)"
proof
  assume "hasRun n (bs @ [b])"
  then obtain xs ys where s: "bs @ [b] = xs @ replicate n False @ ys" unfolding hasRun_def by blast
  show "hasRun n bs \<or> (\<exists>xs. bs @ [b] = xs @ replicate n False)"
  proof (cases ys rule: rev_cases)
    case Nil
    then show ?thesis using s by auto
  next
    case (snoc zs z)
    then have "bs = xs @ replicate n False @ zs"
      using s by (auto simp: append_assoc [symmetric] simp del: append_assoc)
    then show ?thesis unfolding hasRun_def by blast
  qed
next
  assume "hasRun n bs \<or> (\<exists>xs. bs @ [b] = xs @ replicate n False)"
  then show "hasRun n (bs @ [b])" unfolding hasRun_def by (metis append.assoc append_Nil2)
qed

lemma hasRun_runs: "hasRun n bs \<longleftrightarrow> n \<le> snd (runs bs)"
proof (induction bs rule: rev_induct)
  case Nil
  then show ?case by (auto simp: hasRun_def)
next
  case (snoc b bs)
  have "fst (runs bs) \<le> snd (runs bs)" for bs
    by (induction bs rule: rev_induct) (auto split: prod.splits)
  then show ?case
    using snoc.IH hasRun_snoc [of n bs b] runs_at_end [of n "bs @ [b]"]
    by (cases "runs bs") (auto simp: le_max_iff_disj)
qed

lemma runs_bound: "snd (runs bs) \<le> length bs"
proof -
  have "hasRun (snd (runs bs)) bs" by (simp add: hasRun_runs)
  then show ?thesis unfolding hasRun_def by (auto dest: arg_cong [of _ _ length])
qed

lemma length_outcomes: "length (outcomes es) \<le> length es"
  by (simp add: outcomes_def)

lemma tally_outcomes:
  assumes "length es < 2 ^ 64" "t = fold tallyEvent es noEvents"
  shows "tRequests t = of_nat (length (outcomes es)) \<and>
    tSuccesses t = of_nat (length (filter id (outcomes es))) \<and>
    tFailures t = of_nat (length (filter Not (outcomes es))) \<and>
    tRun t = of_nat (fst (runs (outcomes es))) \<and> tMaxRun t = of_nat (snd (runs (outcomes es)))"
  using assms
proof (induction es arbitrary: t rule: rev_induct)
  case Nil
  then show ?case by (simp add: noEvents_def outcomes_def)
next
  case (snoc e es)
  define t0 where "t0 = fold tallyEvent es noEvents"
  have len: "length es < 2 ^ 64" using snoc.prems(1) by simp
  note IH = snoc.IH [OF len t0_def]
  have t: "t = tallyEvent e t0" using snoc.prems(2) by (simp add: t0_def)
  obtain r m where rm: "runs (outcomes es) = (r, m)" by fastforce
  have "r \<le> m" using hasRun_runs [of r "outcomes es"] runs_at_end [of r "outcomes es"] rm
    unfolding hasRun_def by fastforce
  moreover have "m < 2 ^ 64 - 1"
    using runs_bound [of "outcomes es"] length_outcomes [of es] snoc.prems(1) rm by simp
  ultimately have less: "((of_nat m :: u64) < of_nat r + 1) = (m < Suc r)"
    using u64_less [of m "Suc r"] by (simp add: add.commute)
  show ?case
  proof (cases "EventType e = eventRequestCompleted")
    case True
    then have o: "outcomes (es @ [e]) = outcomes es @ [successfulStatus (Status e)]" by (simp add: outcomes_def)
    show ?thesis
      using IH rm less by (auto simp: t o tallyEvent_def True Let_def max_def add.commute)
  next
    case False
    then have "outcomes (es @ [e]) = outcomes es" by (simp add: outcomes_def)
    then show ?thesis using IH False by (simp add: t tallyEvent_def Let_def)
  qed
qed

subsection \<open>Failovers and recoveries\<close>

lemma find_split:
  "List.find P xs = Some c \<longleftrightarrow> (\<exists>zs rest. xs = zs @ c # rest \<and> P c \<and> (\<forall>z \<in> set zs. \<not> P z))"
proof (induction xs)
  case Nil
  then show ?case by simp
next
  case (Cons x xs)
  show ?case
  proof (cases "P x")
    case True
    then show ?thesis by (auto simp: Cons_eq_append_conv)
  next
    case False
    have "(\<exists>zs rest. x # xs = zs @ c # rest \<and> P c \<and> (\<forall>z \<in> set zs. \<not> P z)) \<longleftrightarrow>
        (\<exists>zs rest. xs = zs @ c # rest \<and> P c \<and> (\<forall>z \<in> set zs. \<not> P z))" (is "?l \<longleftrightarrow> ?r")
    proof
      assume ?l
      then obtain zs rest where z: "x # xs = zs @ c # rest" "P c" "\<forall>z \<in> set zs. \<not> P z" by blast
      with False show ?r by (cases zs) auto
    next
      assume ?r
      then obtain zs rest where "xs = zs @ c # rest" "P c" "\<forall>z \<in> set zs. \<not> P z" by blast
      then show ?l using False by (intro exI [of _ "x # zs"] exI [of _ rest]) simp
    qed
    then show ?thesis using Cons.IH False by simp
  qed
qed

text \<open>The first event of a list with a property comes within a time of an earlier event.\<close>

definition firstWithin :: "(decisionEvent \<Rightarrow> bool) \<Rightarrow> int \<Rightarrow> decisionEvent \<Rightarrow> decisionEvent list \<Rightarrow> bool" where
  "firstWithin P limit e later \<longleftrightarrow>
     (\<exists>zs c rest. later = zs @ c # rest \<and> P c \<and> (\<forall>z \<in> set zs. \<not> P z) \<and>
        max (ElapsedMicros c - ElapsedMicros e) 0 \<le> limit)"

definition onOther :: "decisionEvent \<Rightarrow> decisionEvent \<Rightarrow> bool" where
  "onOther e c \<longleftrightarrow>
     completedOk c \<and> BackendAlias c \<noteq> [] \<and> \<not> EqualFold (BackendAlias c) (BackendAlias e)"

definition onSame :: "decisionEvent \<Rightarrow> decisionEvent \<Rightarrow> bool" where
  "onSame e c \<longleftrightarrow> completedOk c \<and> EqualFold (BackendAlias c) (BackendAlias e)"

lemma measure_cases:
  "measureFailover e later =
     (case List.find (onOther e) later of
        None \<Rightarrow> \<lparr>FoFixture = BackendAlias e, FaultSequence = Sequence e, FoObserved = False, FoMicros = 0\<rparr>
      | Some c \<Rightarrow> \<lparr>FoFixture = BackendAlias e, FaultSequence = Sequence e, FoObserved = True,
          FoMicros = max (ElapsedMicros c - ElapsedMicros e) 0\<rparr>)"
  "measureRecovery e later =
     (case List.find (onSame e) later of
        None \<Rightarrow> \<lparr>ReFixture = BackendAlias e, RecoverySequence = Sequence e, ReObserved = False, ReMicros = 0\<rparr>
      | Some c \<Rightarrow> \<lparr>ReFixture = BackendAlias e, RecoverySequence = Sequence e, ReObserved = True,
          ReMicros = max (ElapsedMicros c - ElapsedMicros e) 0\<rparr>)"
  by (simp_all add: measureFailover_def measureRecovery_def onOther_def [abs_def] onSame_def [abs_def])

lemma measureFailover_within:
  "FoObserved (measureFailover e later) \<and> FoMicros (measureFailover e later) \<le> limit \<longleftrightarrow>
   firstWithin (onOther e) limit e later"
proof (cases "List.find (onOther e) later")
  case None
  then have "\<forall>c \<in> set later. \<not> onOther e c" by (simp add: find_None_iff)
  then show ?thesis
    using None by (auto simp: measure_cases firstWithin_def)
next
  case (Some c)
  have "firstWithin (onOther e) limit e later \<longleftrightarrow>
      (\<exists>c. List.find (onOther e) later = Some c \<and> max (ElapsedMicros c - ElapsedMicros e) 0 \<le> limit)"
    unfolding firstWithin_def find_split by blast
  then show ?thesis using Some by (simp add: measure_cases)
qed

lemma measureRecovery_observed: "ReObserved (measureRecovery e later) \<longleftrightarrow> (\<exists>c \<in> set later. onSame e c)"
proof (cases "List.find (onSame e) later")
  case None
  then have "\<forall>c \<in> set later. \<not> onSame e c" by (simp add: find_None_iff)
  then show ?thesis using None by (simp add: measure_cases)
next
  case (Some c)
  then have "c \<in> set later" "onSame e c" by (auto simp: find_split)
  then show ?thesis using Some by (auto simp: measure_cases)
qed

lemma set_deriveFailovers:
  "x \<in> set (deriveFailovers es) \<longleftrightarrow> (\<exists>xs e ys. es = xs @ e # ys \<and> isFault e \<and> x = measureFailover e ys)"
  by (induction es) (auto simp: Cons_eq_append_conv)

lemma set_deriveRecoveries:
  "x \<in> set (deriveRecoveries es) \<longleftrightarrow> (\<exists>xs e ys. es = xs @ e # ys \<and> isRecovery e \<and> x = measureRecovery e ys)"
  by (induction es) (auto simp: Cons_eq_append_conv)

lemma deriveFailovers_Nil: "deriveFailovers es = [] \<longleftrightarrow> \<not> (\<exists>e \<in> set es. isFault e)"
  by (induction es) auto

lemma deriveRecoveries_Nil: "deriveRecoveries es = [] \<longleftrightarrow> \<not> (\<exists>e \<in> set es. isRecovery e)"
  by (induction es) auto

lemma maxFailover_le: "0 \<le> limit \<Longrightarrow> maxFailover fs \<le> limit \<longleftrightarrow> (\<forall>f \<in> set fs. FoMicros f \<le> limit)"
proof -
  assume "0 \<le> limit"
  moreover have "fold (\<lambda>f m. if FoMicros f > m then FoMicros f else m) fs a \<le> limit \<longleftrightarrow>
      a \<le> limit \<and> (\<forall>f \<in> set fs. FoMicros f \<le> limit)" for a
    by (induction fs arbitrary: a) auto
  ultimately show ?thesis by (simp add: maxFailover_def)
qed

subsection \<open>Properties\<close>

text \<open>
  The numbers of a receipt are those of the ledger: completed requests, successes and failures, and
  the failure streak is the longest run of failures in a row among the completed requests.
\<close>

lemma receipt_counts:
  assumes "length (Events ledger) < 2 ^ 64"
    and "r = deriveReceipt rateOf intn s hash ledger n" "os = outcomes (Events ledger)"
  shows "RcRequests r = of_nat (length os) \<and> RcSuccesses r = of_nat (length (filter id os)) \<and>
    RcFailures r = of_nat (length (filter Not os)) \<and>
    (\<forall>k. (\<exists>xs ys. os = xs @ replicate k False @ ys) \<longleftrightarrow> k \<le> unat (RcFailureRun r))"
proof -
  note t = tally_outcomes [OF assms(1) refl]
  have "snd (runs os) < 2 ^ 64"
    using runs_bound [of os] length_outcomes [of "Events ledger"] assms(1,3) by simp
  then have "unat (RcFailureRun r) = snd (runs os)"
    using t by (simp add: assms(2,3) deriveReceipt_def Let_def unat_of_nat)
  then show ?thesis
    using t hasRun_runs [of _ os] by (simp add: assms(2,3) deriveReceipt_def Let_def hasRun_def)
qed

definition completion :: "int \<Rightarrow> decisionEvent" where
  "completion status = (zeroEvent eventRequestCompleted)\<lparr>BackendAlias := ''forge-b'', Status := status\<rparr>"

definition sampleLedger :: ledgerSnapshot where
  "sampleLedger = \<lparr>Capacity = 8, Count = 5, OldestSequence = 1, LatestSequence = 5, Gap = False,
     Events = [completion 502, (zeroEvent eventFixtureTransition)\<lparr>BackendAlias := ''forge-a'',
         NewState := fixtureUnavailable\<rparr>, completion 503, completion 200, completion 504]\<rparr>"

lemma receipt_counts_instance:
  "\<not> 3 \<le> unat (RcFailureRun (deriveReceipt (\<lambda>a b. 0) (\<lambda>k n. 0) defaultDemoScenario [] sampleLedger 4))"
proof -
  have o: "outcomes (Events sampleLedger) = [False, False, True, False]"
    by (simp add: outcomes_def sampleLedger_def completion_def zeroEvent_def successfulStatus_def)
  have "\<not> (\<exists>xs ys. [False, False, True, False] = xs @ replicate 3 False @ ys)"
    by (auto simp: numeral_eq_Suc Cons_eq_append_conv append_eq_Cons_conv)
  moreover have "length (Events sampleLedger) < 2 ^ 64" by (simp add: sampleLedger_def)
  ultimately show ?thesis using receipt_counts [OF _ refl refl, of sampleLedger] o by simp
qed



end
