(* ===== verification/Snapshots.thy ===== *)
theory Snapshots
  imports Observability Tcp_Server Complex_Main
begin

text \<open>
  The snapshot of everything that the admin API shows (\<^verbatim>\<open>src/src/metrics.go\<close>,
  \<^verbatim>\<open>src/src/observability.go\<close>) at a moment when no counter changes. The values of the Go runtime and
  the rank of a percentile (floating point) are parameters.
\<close>

record latencySnapshot =
  LsBuckets :: "latencyBucketSnapshot list"
  LsP50MS :: rat
  LsP95MS :: rat
  LsP99MS :: rat

definition latencySnapshot_of :: "(rat \<Rightarrow> u64 \<Rightarrow> u64) \<Rightarrow> latencyHistogram \<Rightarrow> latencySnapshot" where
  "latencySnapshot_of target h =
     (let estimate = (\<lambda>percentile. of_int (percentileEstimate (target percentile) h) / 1000) in
      \<lparr>LsBuckets = bucketSnapshots h, LsP50MS = estimate (50 / 100), LsP95MS = estimate (95 / 100),
       LsP99MS = estimate (99 / 100)\<rparr>)"

text \<open>A value of \<^verbatim>\<open>runtime/metrics\<close>.\<close>

datatype runtimeValue = KindUint64 u64 | KindFloat64 rat | KindBad

fun runtimeUint64 :: "runtimeValue \<Rightarrow> u64" where
  "runtimeUint64 (KindUint64 n) = n"
| "runtimeUint64 _ = 0"

fun runtimeFloat64 :: "runtimeValue \<Rightarrow> rat" where
  "runtimeFloat64 (KindUint64 n) = of_nat (unat n)"
| "runtimeFloat64 (KindFloat64 r) = r"
| "runtimeFloat64 KindBad = 0"

record runtimeMetricSnapshot =
  HeapObjectsBytes :: u64
  TotalAllocBytes :: u64
  GCCycles :: u64
  Goroutines :: u64
  GOMAXPROCS :: rat

definition readRuntimeMetrics :: "(string \<Rightarrow> runtimeValue) \<Rightarrow> runtimeMetricSnapshot" where
  "readRuntimeMetrics sample =
     \<lparr>HeapObjectsBytes = runtimeUint64 (sample ''/memory/classes/heap/objects:bytes''),
      TotalAllocBytes = runtimeUint64 (sample ''/gc/heap/allocs:bytes''),
      GCCycles = runtimeUint64 (sample ''/gc/cycles/total:gc-cycles''),
      Goroutines = runtimeUint64 (sample ''/sched/goroutines:goroutines''),
      GOMAXPROCS = runtimeFloat64 (sample ''/sched/gomaxprocs:threads'')\<rparr>"

record subscriberMetricSnapshot =
  SubActive :: int
  SubDropped :: u64

definition zeroStats :: serverStats where
  "zeroStats = \<lparr>StatsState = [], StatsAccepted = 0, StatsAdmitted = 0, StatsRejected = 0, StatsActive = 0,
     StatsPeakActive = 0, StatsCompleted = 0, StatsHandlerErrors = 0, StatsForcedClosed = 0\<rparr>"

definition serverSnapshots :: "tcpServer option \<Rightarrow> tcpServer option \<Rightarrow> serverStats \<times> serverStats" where
  "serverSnapshots proxyServer adminServer =
     ((case proxyServer of None \<Rightarrow> zeroStats | Some s \<Rightarrow> Stats s),
      (case adminServer of None \<Rightarrow> zeroStats | Some s \<Rightarrow> Stats s))"

record metricsSnapshot =
  MsElapsedMillis :: int
  MsRequests :: requestMetricSnapshot
  MsFailures :: failureMetricSnapshot
  MsLatency :: latencySnapshot
  MsBackends :: "backendSnapshot list"
  MsRuntime :: runtimeMetricSnapshot
  MsSubscribers :: subscriberMetricSnapshot
  MsLedger :: ledgerSnapshot
  MsProxyServer :: serverStats
  MsAdminServer :: serverStats

definition Milliseconds :: "duration \<Rightarrow> int" where
  "Milliseconds d = (if d < 0 then - ((- d) div 1000000) else d div 1000000)"

definition observability_snapshot ::
    "(rat \<Rightarrow> u64 \<Rightarrow> u64) \<Rightarrow> (string \<Rightarrow> runtimeValue) \<Rightarrow> 'c backendPool option \<Rightarrow> tcpServer option \<Rightarrow>
     tcpServer option \<Rightarrow> time \<Rightarrow> observability \<Rightarrow> metricsSnapshot" where
  "observability_snapshot target sample pool proxyServer adminServer now o' =
     (let (active, lost) = hubStats (oHub o');
          ledger = (snapshotSince 0 (oLedger o'))\<lparr>Events := []\<rparr>;
          (proxyStats, adminStats) = serverSnapshots proxyServer adminServer in
      \<lparr>MsElapsedMillis = max (Milliseconds (Sub now (startedAt o'))) 0,
       MsRequests = requestSnapshot (oMetrics o'), MsFailures = failureSnapshot (oMetrics o'),
       MsLatency = latencySnapshot_of target (latency (oMetrics o')),
       MsBackends = (case pool of None \<Rightarrow> [] | Some p \<Rightarrow> snapshots p),
       MsRuntime = readRuntimeMetrics sample,
       MsSubscribers = \<lparr>SubActive = active, SubDropped = lost\<rparr>, MsLedger = ledger,
       MsProxyServer = proxyStats, MsAdminServer = adminStats\<rparr>)"

text \<open>
  What the API shows of the ledger says how many events are retained, up to the latest number: the
  count is bounded by the capacity, and the latest less the oldest is one less than the count.
\<close>

lemma snapshot_ledger:
  assumes "newEventLedger capacity = Inr l0" "length xs < 2 ^ 64" "xs \<noteq> []"
    and "oLedger o' = fold put xs l0"
    and "s = MsLedger (observability_snapshot target sample pool proxyServer adminServer now o')"
  shows "Events s = [] \<and> \<not> Gap s \<and> LatestSequence s = of_nat (length xs) \<and>
    SnapCount s = min (int (length xs)) capacity \<and>
    OldestSequence s + of_int (SnapCount s) = LatestSequence s + 1"
proof -
  let ?l = "fold put xs l0" and ?c = "nat capacity"
  note new = newEventLedger_Inr [OF assms(1)]
  have held: "ledgerOk ?l" "recent ?l = lastN ?c (numbered xs)" using ledger_holds [OF assms(1) refl, of xs] by auto
  define b where "b = length xs - ?c"
  have b: "b < length xs" using new assms(3) by (simp add: b_def)
  have r: "recent ?l = drop b (numbered xs)" using held(2) by (simp add: lastN_def b_def)
  then have ne: "recent ?l \<noteq> []" using b by simp
  have "Suc (length xs - 1) = length xs" using b by simp
  then have ends: "Sequence (hd (recent ?l)) = of_nat (Suc b)" "Sequence (last (recent ?l)) = of_nat (length xs)"
    using b Sequence_numbered [of b xs] Sequence_numbered [of "length xs - 1" xs]
    by (simp_all add: r hd_drop_conv_nth last_conv_nth del: of_nat_Suc)
  have cnt: "ledgerCount ?l = length xs - b" using length_recent [of ?l] r by simp
  have s: "s = (snapshotSince 0 ?l)\<lparr>Events := []\<rparr>"
    by (simp add: assms(4,5) observability_snapshot_def Let_def split: prod.split)
  have "int (ledgerCount ?l) = min (int (length xs)) capacity" using new by (simp add: cnt b_def min_def)
  moreover have "of_nat (Suc b) + of_int (int (ledgerCount ?l)) = (of_nat (length xs) :: u64) + 1"
    using b by (simp add: cnt of_nat_diff)
  ultimately show ?thesis
    using snapshotSince_recent [OF held(1) ne, of 0] ends by (simp add: s Let_def del: of_nat_Suc)
qed

end
