(* ===== verification/Http_Responses.thy ===== *)
theory Http_Responses
  imports Http_Server
begin

text \<open>
  Responses the program makes itself: one without framing or connection fields and with a body of
  fixed length is written, and read back by a client with the default limits.
\<close>

lemma length_Itoa: "1 \<le> k \<Longrightarrow> n < 10 ^ k \<Longrightarrow> length (Itoa n) \<le> k"
  unfolding Itoa_def
proof (induction k arbitrary: n)
  case (Suc k)
  show ?case
  proof (cases "n < 10")
    case True
    then show ?thesis by (subst formatUint.simps) simp
  next
    case False
    then have "1 \<le> k" using Suc.prems by (cases k) auto
    moreover have "n div 10 < 10 ^ k" using Suc.prems(2) by (simp add: less_mult_imp_div_less)
    ultimately have "length (formatUint 10 (n div 10)) \<le> k" by (rule Suc.IH)
    with False show ?thesis by (subst formatUint.simps) simp
  qed
qed simp

text \<open>A response made from a status, fields and a body.\<close>

definition plain :: "httpResponse \<Rightarrow> bool" where
  "plain r \<longleftrightarrow> RespVersion r = httpVersion11 \<and> Reason r = [] \<and> RespTrailers r = [] \<and>
     RespBodyMode r = bodyModeFixed \<and>
     200 \<le> StatusCode r \<and> StatusCode r \<le> 599 \<and> StatusCode r \<noteq> 204 \<and> StatusCode r \<noteq> 304 \<and>
     list_all wfField (RespHeaders r) \<and> Values (RespHeaders r) ''Connection'' = [] \<and>
     Values (RespHeaders r) ''Upgrade'' = [] \<and>
     length (encodeHeaders (RespHeaders r)) \<le> 2 ^ 14 \<and> length (RespHeaders r) \<le> 50 \<and>
     length (RespBody r) \<le> 8 * 1024 * 1024"

lemma plain_head:
  assumes "plain r" "\<not> EqualFold m ''CONNECT''"
  shows "\<exists>x. responseHead r m = Inr x"
proof -
  have "validReasonPhrase (defaultReasonPhrase (StatusCode r))"
    by (simp add: defaultReasonPhrase_def validReasonPhrase_def validFieldValue_def)
  moreover have "validateTrailers [] = Inr ()" by code_simp
  ultimately show ?thesis
    using assms wfField_generatedFields [of "RespHeaders r" "''response headers''"]
    by (simp add: plain_def responseHead_def Let_def httpVersion11_def validateConnectionFields_def
        HasToken_no_values successfulConnectResponse_def)
qed

lemma encodeHeaders_append: "length (encodeHeaders (h @ h')) = length (encodeHeaders h) + length (encodeHeaders h') - 2"
  by (simp add: encodeHeaders_def)

lemma length_encode_filter: "length (encodeHeaders (filter P hs)) \<le> length (encodeHeaders hs)"
  by (induction hs) simp_all

lemma plain_writable:
  assumes "plain r" "\<not> EqualFold m ''CONNECT''"
  shows "writableResponse defaultHTTPLimits m r"
proof -
  obtain a b c where head: "responseHead r m = Inr (a, b, c)"
    using plain_head [OF assms] by (metis prod_cases3)
  have tr: "list_all wfField (RespTrailers r)" using assms(1) by (simp add: plain_def)
  have reason: "length (defaultReasonPhrase (StatusCode r)) \<le> 100" by (simp add: defaultReasonPhrase_def)
  have "length (Itoa (nat (StatusCode r))) \<le> 3" using assms(1) by (intro length_Itoa) (auto simp: plain_def)
  then have line: "length (statusLine r) \<le> 200"
    using reason assms(1)
    by (simp add: statusLine_def responseReason_def plain_def format03d_def httpVersion11_def)
  have len: "length (Itoa (length (RespBody r))) \<le> 7" using assms(1) by (intro length_Itoa) (auto simp: plain_def)
  have mode: "responseMode r m \<in> {bodyModeNone, bodyModeFixed}" "declaredMode r m = bodyModeFixed"
    using assms(1) by (auto simp: responseMode_def declaredMode_def responseMustNotHaveBody_def plain_def)
  have "\<not> framingField (hf ''Connection'' ''close'')" by code_simp
  then have fields: "responseFields r m = filter (\<lambda>f. \<not> framingField f) (RespHeaders r) @
      (if RespClose r then [hf ''Connection'' ''close''] else []) @
      [hf ''Content-Length'' (Itoa (length (RespBody r)))]"
    using assms(1) mode(2)
    by (simp add: responseFields_def responseBase_def withoutFramingHeaders_def plain_def HasToken_no_values
        framing_names)
  have "length (encodeHeaders (responseFields r m)) \<le> 32 * 1024"
    using length_encode_filter [of "\<lambda>f. \<not> framingField f" "RespHeaders r"] len assms(1)
    by (simp add: fields encodeHeaders_append plain_def encodeField_def)
  moreover have "length (filter (\<lambda>f. \<not> framingField f) (RespHeaders r)) \<le> 50"
    using assms(1) by (intro order_trans [OF length_filter_le]) (simp add: plain_def)
  then have "length (responseFields r m) \<le> 100" by (simp add: fields)
  moreover have "checkLimits defaultHTTPLimits = Inr ()" by code_simp
  ultimately have "responseFits defaultHTTPLimits r m"
    using assms(1) line mode(1) tr
    by (auto simp: responseFits_def messageFits_def plain_def defaultHTTPLimits_def)
  moreover have "fst (writeHTTPResponse bufferWriter [] r m) = None"
    using writeHTTPResponse_buffer [OF head tr] by simp
  ultimately show ?thesis using assms(1) by (simp add: writableResponse_def framedHeadResponse_def plain_def)
qed

text \<open>What is put on the connection, and what a client reads of it.\<close>

lemma plain_exchange:
  assumes "plain r" "\<not> EqualFold m ''CONNECT''"
  shows "writeBufferedHTTPResponse bufferWriter (\<lambda>w. (None, w)) w r m =
      (False, None, w @ encodeResponse r m, MarkCommitted (CommitState r))"
    and "readHTTPResponse (encodeResponse r m @ rest, e) defaultHTTPLimits m =
      Inr (receivedResponse r m, (rest, e))"
    and "Values (RespHeaders (receivedResponse r m)) n = Values (responseFields r m) n"
proof -
  note w = plain_writable [OF assms]
  show "writeBufferedHTTPResponse bufferWriter (\<lambda>w. (None, w)) w r m =
      (False, None, w @ encodeResponse r m, MarkCommitted (CommitState r))"
    using writableResponse_encode [OF w, of "[]"] by (simp add: writeBuffered_buffer wireBytes_def)
  show "readHTTPResponse (encodeResponse r m @ rest, e) defaultHTTPLimits m =
      Inr (receivedResponse r m, (rest, e))"
    by (rule response_codec.dec_enc [OF w])
  show "Values (RespHeaders (receivedResponse r m)) n = Values (responseFields r m) n"
    by (simp add: receivedResponse_def)
qed

end
