(* ===== verification/Fixture.thy ===== *)
theory Fixture
  imports Scenario Server_Config Http_Responses
begin

text \<open>
  \<^verbatim>\<open>src/src/fixture.go\<close>: a backend of an experiment, whose mode decides how it answers. A fixture is
  shared by its connections and by the schedule; what they do while a connection reads its request
  \<open>n\<close>, and while it answers it, are functions on the fixture. The listener is a parameter.
\<close>

record fixtureProfile =
  FxMode :: fixtureMode
  FxDelay :: duration
  FxFailureStatus :: int

record fixtureSnapshot =
  FsAlias :: string
  FsAddress :: string
  FsMode :: fixtureMode
  FsRequests :: u64
  FsResponses :: u64
  FsActive :: int
  FsPeakActive :: int

record fixtureBackend =
  fxAlias :: string
  fxAddress :: string
  fxProfile :: fixtureProfile
  fxRequests :: u64
  fxResponses :: u64
  fxActive :: int
  fxPeak :: int

definition profileFromFixtureSpec :: "fixtureSpec \<Rightarrow> fixtureProfile" where
  "profileFromFixtureSpec spec =
     \<lparr>FxMode = InitialMode spec, FxDelay = millis (SpecDelayMS spec), FxFailureStatus = SpecFailureStatus spec\<rparr>"

definition profileFromScenarioStep :: "scenarioStep \<Rightarrow> fixtureProfile" where
  "profileFromScenarioStep step =
     \<lparr>FxMode = StepMode step, FxDelay = millis (StepDelayMS step), FxFailureStatus = StepFailureStatus step\<rparr>"

text \<open>The fixture, the configuration its connection handler is made with, and its server.\<close>

definition newFixtureBackend ::
    "string + string \<Rightarrow> fixtureSpec \<Rightarrow> string + fixtureBackend \<times> httpServerConfig \<times> tcpServer" where
  "newFixtureBackend listened spec =
     (if \<not> validToken (SpecAlias spec) \<or> int (length (SpecAlias spec)) > maxBackendAliasBytes
        then Inl ''fixture alias must be an HTTP token''
      else
        andThen (validateFixtureProfile (InitialMode spec) (SpecDelayMS spec) (SpecFailureStatus spec)) (\<lambda>_.
        andThen listened (\<lambda>address.
        (let fixture = \<lparr>fxAlias = SpecAlias spec, fxAddress = address, fxProfile = profileFromFixtureSpec spec,
               fxRequests = 0, fxResponses = 0, fxActive = 0, fxPeak = 0\<rparr>;
             c = DefaultConfig\<lparr>Listen := address, CfgMaxConnections := 128, MaxRequests := 1000\<rparr> in
         andThen (newTCPServer True True (Config_tcpServerConfig c)) (\<lambda>server.
         Inr (fixture, Config_httpServerConfig c, server))))))"

definition fixturePeak :: "int \<Rightarrow> fixtureBackend \<Rightarrow> fixtureBackend" where
  "fixturePeak active f = f\<lparr>fxPeak := max (fxPeak f) active\<rparr>"

definition fixtureApply :: "fixtureProfile \<Rightarrow> fixtureBackend \<Rightarrow> fixtureProfile \<times> fixtureBackend" where
  "fixtureApply profile f = (fxProfile f, f\<lparr>fxProfile := profile\<rparr>)"

definition fixtureMode_of :: "fixtureBackend \<Rightarrow> fixtureMode" where
  "fixtureMode_of f = FxMode (fxProfile f)"

definition fixtureSnapshot_of :: "fixtureBackend \<Rightarrow> fixtureSnapshot" where
  "fixtureSnapshot_of f =
     \<lparr>FsAlias = fxAlias f, FsAddress = fxAddress f, FsMode = fixtureMode_of f, FsRequests = fxRequests f,
      FsResponses = fxResponses f, FsActive = fxActive f, FsPeakActive = fxPeak f\<rparr>"

subsection \<open>The connection handler\<close>

record fixtureEnv =
  fxMeanwhile :: "int \<Rightarrow> fixtureBackend \<Rightarrow> fixtureBackend"
  fxDuring :: "int \<Rightarrow> fixtureBackend \<Rightarrow> fixtureBackend"
  fxCancelled :: "int \<Rightarrow> bool"
  fxTimerCancelled :: "int \<Rightarrow> bool"

definition fixtureArrive :: "fixtureBackend \<Rightarrow> fixtureBackend" where
  "fixtureArrive f =
     (let f1 = f\<lparr>fxRequests := fxRequests f + 1, fxActive := fxActive f + 1\<rparr> in fixturePeak (fxActive f1) f1)"

definition fixtureLeave :: "fixtureBackend \<Rightarrow> fixtureBackend" where
  "fixtureLeave f = f\<lparr>fxActive := fxActive f - 1\<rparr>"

definition fixtureAnswered :: "fixtureBackend \<Rightarrow> fixtureBackend" where
  "fixtureAnswered f = f\<lparr>fxResponses := fxResponses f + 1, fxActive := fxActive f - 1\<rparr>"

definition truncatedMessage :: bytes where
  "truncatedMessage =
     ''HTTP/1.1 200 OK'' @ CRLF @ ''Content-Type: text/plain'' @ CRLF @ ''Content-Length: 64'' @ CRLF @
     ''Connection: close'' @ CRLF @ CRLF @ ''truncated''"

definition fixtureResponse :: "string \<Rightarrow> fixtureProfile \<Rightarrow> bool \<Rightarrow> httpResponse" where
  "fixtureResponse alias profile closeAfter =
     (let status = (if FxMode profile = fixtureFailure then FxFailureStatus profile else 200);
          response = textResponse status (''fixture='' @ alias @ '' mode='' @ FxMode profile @ [LF]) in
      response\<lparr>RespHeaders := RespHeaders response @
         [hf ''X-Anvil-Fixture'' alias, hf ''X-Anvil-Fixture-Mode'' (FxMode profile)],
        RespClose := closeAfter, RespKeepAlive := \<not> closeAfter\<rparr>)"

function fixtureLoop ::
    "'w writer \<Rightarrow> ('w \<Rightarrow> io_error option \<times> 'w) \<Rightarrow> fixtureEnv \<Rightarrow> httpServerConfig \<Rightarrow> int \<Rightarrow> reader \<Rightarrow> 'w \<Rightarrow>
     fixtureBackend \<Rightarrow> http_error option \<times> 'w \<times> fixtureBackend" where
  "fixtureLoop wr flush env cfg requestNumber reader w f0 =
     (if requestNumber > MaxRequestsPerConnection cfg then (None, w, f0)
      else
        (let f1 = fxMeanwhile env requestNumber f0 in
         case readHTTPRequest reader (Limits cfg) of
           Inl err \<Rightarrow>
             (if err = RawError IoEOF \<or> fxCancelled env requestNumber then (None, w, f1)
              else
                (case writeBufferedHTTPResponse wr flush w (protocolFailureResponse err) [] of
                   (_, writeErr, w', _) \<Rightarrow> (writeErr, w', f1)))
         | Inr (request, reader') \<Rightarrow>
             (let f2 = fixtureArrive f1; profile = fxProfile f2; f3 = fxDuring env requestNumber f2 in
              if FxMode profile = fixtureUnavailable then (None, w, fixtureLeave f3)
              else if FxMode profile = fixtureDelayed \<and> fxTimerCancelled env requestNumber
                then (None, w, fixtureLeave f3)
              else if FxMode profile = fixtureTruncated then
                (case writeAll wr w truncatedMessage of
                   (Some err, w') \<Rightarrow> (Some err, w', fixtureAnswered f3)
                 | (None, w') \<Rightarrow>
                     (case flush w' of (ferr, w'') \<Rightarrow> (map_option RawError ferr, w'', fixtureAnswered f3)))
              else
                (let closeAfter = \<not> ReqKeepAlive request \<or> requestNumber = MaxRequestsPerConnection cfg in
                 case writeBufferedHTTPResponse wr flush w (fixtureResponse (fxAlias f2) profile closeAfter)
                        (Method request) of
                   (_, writeErr, w', _) \<Rightarrow>
                     (if writeErr \<noteq> None \<or> closeAfter then (writeErr, w', fixtureAnswered f3)
                      else fixtureLoop wr flush env cfg (requestNumber + 1) reader' w' (fixtureAnswered f3))))))"
  by pat_completeness auto
termination
  by (relation "measure (\<lambda>(wr, flush, env, cfg, n, r, w, f). nat (MaxRequestsPerConnection cfg + 1 - n))") auto

declare fixtureLoop.simps [simp del]

definition fixtureConnectionHandler ::
    "'w writer \<Rightarrow> ('w \<Rightarrow> io_error option \<times> 'w) \<Rightarrow> fixtureEnv \<Rightarrow> httpServerConfig \<Rightarrow> reader \<Rightarrow> 'w \<Rightarrow>
     fixtureBackend \<Rightarrow> http_error option \<times> 'w \<times> fixtureBackend" where
  "fixtureConnectionHandler wr flush env cfg reader w f = fixtureLoop wr flush env cfg 1 reader w f"

subsection \<open>What a client sees of a mode\<close>

lemma fixtureLoop_extends:
  "\<exists>more. fst (snd (fixtureLoop bufferWriter (\<lambda>w. (None, w)) env cfg n reader w f)) = w @ more"
proof (induction "nat (MaxRequestsPerConnection cfg + 1 - n)" arbitrary: n reader w f rule: less_induct)
  case less
  show ?case
  proof (cases "n > MaxRequestsPerConnection cfg")
    case True
    then show ?thesis by (subst fixtureLoop.simps) simp
  next
    case False
    have IH: "\<exists>more. fst (snd (fixtureLoop bufferWriter (\<lambda>w. (None, w)) env cfg (n + 1) r (w @ x) g)) = w @ more" for r x g
      using less [of "n + 1" r "w @ x" g] False by force
    show ?thesis
      using False IH
      by (subst fixtureLoop.simps)
         (auto simp: Let_def writeBuffered_buffer split: sum.split)
  qed
qed

lemma fixtureResponse_plain:
  assumes "validToken alias" "int (length alias) \<le> maxBackendAliasBytes"
    and "validateFixtureProfile (FxMode p) delayMS (FxFailureStatus p) = Inr ()"
  shows "plain (fixtureResponse alias p c)"
proof -
  have mode: "FxMode p \<in> {fixtureHealthy, fixtureRecovered, fixtureTruncated, fixtureUnavailable, fixtureDelayed, fixtureFailure}"
    using assms(3) by (auto simp: validateFixtureProfile_def split: if_splits)
  have "list_all (\<lambda>m. validToken m \<and> length m \<le> 11)
      [fixtureHealthy, fixtureRecovered, fixtureTruncated, fixtureUnavailable, fixtureDelayed, fixtureFailure]"
    by code_simp
  then have m: "validToken (FxMode p)" "length (FxMode p) \<le> 11" using mode by auto
  have names: "validToken ''X-Anvil-Fixture''" "validToken ''X-Anvil-Fixture-Mode''"
    "wfField (hf ''Content-Type'' ''text/plain; charset=utf-8'')"
    "\<not> EqualFold ''X-Anvil-Fixture'' ''Connection''" "\<not> EqualFold ''X-Anvil-Fixture-Mode'' ''Connection''"
    "\<not> EqualFold ''Content-Type'' ''Connection''"
    "\<not> EqualFold ''X-Anvil-Fixture'' ''Upgrade''" "\<not> EqualFold ''X-Anvil-Fixture-Mode'' ''Upgrade''"
    "\<not> EqualFold ''Content-Type'' ''Upgrade''"
    by code_simp+
  have "list_all wfField [hf ''Content-Type'' ''text/plain; charset=utf-8'', hf ''X-Anvil-Fixture'' alias,
      hf ''X-Anvil-Fixture-Mode'' (FxMode p)]"
    using names assms(1) m by (simp add: wfField_generated del: append_Cons)
  moreover have "200 \<le> StatusCode (fixtureResponse alias p c)" "StatusCode (fixtureResponse alias p c) \<le> 599"
    "StatusCode (fixtureResponse alias p c) \<notin> {204, 304}"
    using assms(3) mode
    by (auto simp: fixtureResponse_def textResponse_def validateFixtureProfile_def fixture_modes Let_def split: if_splits)
  ultimately show ?thesis
    using names m assms(2)
    by (simp add: plain_def fixtureResponse_def textResponse_def Let_def encodeField_def
        maxBackendAliasBytes_def hf_def)
qed

lemma readHTTPResponse_method:
  assumes "\<And>c. responseMustNotHaveBody m c = responseMustNotHaveBody m' c"
    and "\<And>c. successfulConnectResponse m c = successfulConnectResponse m' c"
  shows "readHTTPResponse reader limits m = readHTTPResponse reader limits m'"
  unfolding readHTTPResponse_def assms ..

lemma truncated_unreadable:
  assumes "\<not> EqualFold m ''HEAD''" "\<not> EqualFold m ''CONNECT''"
  shows "readHTTPResponse (truncatedMessage, IoEOF) defaultHTTPLimits m =
    Inl (protocolErrorFromRead ''response body'' IoUnexpectedEOF True)"
proof -
  have g: "\<not> EqualFold ''GET'' ''HEAD''" "\<not> EqualFold ''GET'' ''CONNECT''" by code_simp+
  have "readHTTPResponse (truncatedMessage, IoEOF) defaultHTTPLimits m =
      readHTTPResponse (truncatedMessage, IoEOF) defaultHTTPLimits ''GET''"
    by (rule readHTTPResponse_method) (simp_all add: responseMustNotHaveBody_def successfulConnectResponse_def assms g)
  also have "\<dots> = Inl (protocolErrorFromRead ''response body'' IoUnexpectedEOF True)" by code_simp
  finally show ?thesis .
qed

lemma fixtureResponse_seen:
  assumes "plain (fixtureResponse alias p c)" "r = receivedResponse (fixtureResponse alias p c) m"
  shows "StatusCode r = (if FxMode p = fixtureFailure then FxFailureStatus p else 200)"
    and "Values (RespHeaders r) ''X-Anvil-Fixture'' = [alias]"
    and "Values (RespHeaders r) ''X-Anvil-Fixture-Mode'' = [FxMode p]"
proof -
  let ?q = "fixtureResponse alias p c"
  have t: "tokenNames (RespHeaders ?q)" using assms(1) by (auto simp: plain_def wfField_def list_all_iff)
  have names: "\<not> EqualFold ''Content-Type'' ''X-Anvil-Fixture''" "\<not> EqualFold ''Content-Type'' ''X-Anvil-Fixture-Mode''"
    "\<not> EqualFold ''X-Anvil-Fixture-Mode'' ''X-Anvil-Fixture''" "\<not> EqualFold ''X-Anvil-Fixture'' ''X-Anvil-Fixture-Mode''"
    "EqualFold ''X-Anvil-Fixture'' ''X-Anvil-Fixture''" "EqualFold ''X-Anvil-Fixture-Mode'' ''X-Anvil-Fixture-Mode''"
    "\<not> EqualFold ''Connection'' ''X-Anvil-Fixture''" "\<not> EqualFold ''Connection'' ''X-Anvil-Fixture-Mode''"
    "ToLower ''X-Anvil-Fixture'' \<notin> {''content-length'', ''transfer-encoding'', ''trailer''}"
    "ToLower ''X-Anvil-Fixture-Mode'' \<notin> {''content-length'', ''transfer-encoding'', ''trailer''}"
    by code_simp+
  have h: "RespHeaders ?q = [hf ''Content-Type'' ''text/plain; charset=utf-8'', hf ''X-Anvil-Fixture'' alias,
      hf ''X-Anvil-Fixture-Mode'' (FxMode p)]"
    by (simp add: fixtureResponse_def textResponse_def Let_def)
  show "Values (RespHeaders r) ''X-Anvil-Fixture'' = [alias]"
    "Values (RespHeaders r) ''X-Anvil-Fixture-Mode'' = [FxMode p]"
    using Values_responseFields [OF t] names
    by (simp_all add: assms(2) receivedResponse_def responseBase_def h)
  show "StatusCode r = (if FxMode p = fixtureFailure then FxFailureStatus p else 200)"
    by (simp add: assms(2) receivedResponse_def fixtureResponse_def textResponse_def Let_def)
qed

lemma fixtureLoop_first:
  fixes env :: fixtureEnv and f :: fixtureBackend
  defines "f2 \<equiv> fixtureArrive (fxMeanwhile env 1 f)"
  assumes "fxProfile (fxMeanwhile env 1 f) = p" "fxAlias (fxMeanwhile env 1 f) = alias"
    and "validToken alias" "int (length alias) \<le> maxBackendAliasBytes"
    and "validateFixtureProfile (FxMode p) delayMS (FxFailureStatus p) = Inr ()"
    and "writableRequest (Limits cfg) q" "1 \<le> MaxRequestsPerConnection cfg"
    and "\<not> EqualFold (Method q) ''CONNECT''"
    and "FxMode p = fixtureDelayed \<longrightarrow> \<not> fxTimerCancelled env 1"
    and "c \<longleftrightarrow> \<not> ReqKeepAlive (receivedRequest q) \<or> 1 = MaxRequestsPerConnection cfg"
  shows "fixtureLoop bufferWriter (\<lambda>w. (None, w)) env cfg 1 (encodeRequest q @ rest, e) [] f =
      (if FxMode p = fixtureUnavailable then (None, [], fixtureLeave (fxDuring env 1 f2))
       else if FxMode p = fixtureTruncated then (None, truncatedMessage, fixtureAnswered (fxDuring env 1 f2))
       else if c then (None, encodeResponse (fixtureResponse alias p c) (Method q), fixtureAnswered (fxDuring env 1 f2))
       else fixtureLoop bufferWriter (\<lambda>w. (None, w)) env cfg 2 (rest, e)
         (encodeResponse (fixtureResponse alias p c) (Method q)) (fixtureAnswered (fxDuring env 1 f2)))"
proof -
  have f2: "fxProfile f2 = p" "fxAlias f2 = alias"
    using assms(2,3) by (simp_all add: f2_def fixtureArrive_def fixturePeak_def Let_def)
  note ex = plain_exchange [OF fixtureResponse_plain [OF assms(4-6)] assms(9)]
  have facts: "\<not> (FxMode p = fixtureDelayed \<and> fxTimerCancelled env 1)" "\<not> 1 > MaxRequestsPerConnection cfg"
      "Method (receivedRequest q) = Method q"
    using assms(8,10) by (simp_all add: receivedRequest_def)
  show ?thesis
    by (subst fixtureLoop.simps, cases c)
       (simp_all only: facts request_codec.dec_enc [OF assms(7)] ex(1) if_False if_True Let_def
         f2_def [symmetric] f2 assms(11) [symmetric] prod.case sum.case option.case
         simp_thms writeAll_buffer append_Nil one_add_one option.map)
qed

text \<open>
  What a client that sends a request to a fixture sees is what the fixture's mode says: nothing
  when it is unavailable, a response that ends too early when it is truncated, and otherwise a
  response with the failure status or 200 that names the fixture and its mode.
\<close>

lemma fixture_mode_observed:
  assumes "fxProfile (fxMeanwhile env 1 f) = p" "fxAlias (fxMeanwhile env 1 f) = alias"
    and "validToken alias" "int (length alias) \<le> maxBackendAliasBytes"
    and "validateFixtureProfile (FxMode p) delayMS (FxFailureStatus p) = Inr ()"
    and "writableRequest (Limits cfg) q" "1 \<le> MaxRequestsPerConnection cfg"
    and "\<not> EqualFold (Method q) ''HEAD''" "\<not> EqualFold (Method q) ''CONNECT''"
    and "FxMode p = fixtureDelayed \<longrightarrow> \<not> fxTimerCancelled env 1"
    and "fixtureConnectionHandler bufferWriter (\<lambda>w. (None, w)) env cfg (encodeRequest q @ rest, e) [] f = (err, out, f')"
  shows "if FxMode p = fixtureUnavailable then out = []
    else if FxMode p = fixtureTruncated
    then \<exists>e. readHTTPResponse (out, IoEOF) defaultHTTPLimits (Method q) = Inl e \<and>
      protocolKind e = Some protocolIncompleteMessage
    else \<exists>seen more. readHTTPResponse (out, IoEOF) defaultHTTPLimits (Method q) = Inr (seen, (more, IoEOF)) \<and>
      StatusCode seen = (if FxMode p = fixtureFailure then FxFailureStatus p else 200) \<and>
      Values (RespHeaders seen) ''X-Anvil-Fixture'' = [alias] \<and>
      Values (RespHeaders seen) ''X-Anvil-Fixture-Mode'' = [FxMode p]"
proof -
  define c where "c \<longleftrightarrow> \<not> ReqKeepAlive (receivedRequest q) \<or> 1 = MaxRequestsPerConnection cfg"
  note pl = fixtureResponse_plain [OF assms(3-5), of c]
  note ex = plain_exchange [OF fixtureResponse_plain [OF assms(3-5)] assms(9)]
  note step = fixtureLoop_first [OF assms(1-7,9,10) c_def]
  note run = assms(11) [unfolded fixtureConnectionHandler_def step]
  consider "FxMode p = fixtureUnavailable" | "FxMode p = fixtureTruncated"
    | "FxMode p \<noteq> fixtureUnavailable" "FxMode p \<noteq> fixtureTruncated" by blast
  then show ?thesis
  proof cases
    case 1
    then show ?thesis using run by simp
  next
    case 2
    then have "out = truncatedMessage" using run by (simp add: fixture_modes)
    then show ?thesis
      using 2 truncated_unreadable [OF assms(8,9)]
      by (simp add: fixture_modes protocolErrorFromRead_def)
  next
    case 3
    obtain more where out: "out = encodeResponse (fixtureResponse alias p c) (Method q) @ more"
    proof (cases c)
      case True
      then show ?thesis using run 3 that [of "[]"] by simp
    next
      case False
      then show ?thesis
        using run 3 fixtureLoop_extends [of env cfg 2 "(rest, e)" "encodeResponse (fixtureResponse alias p c) (Method q)"] that
        by (metis fst_conv snd_conv)
    qed
    show ?thesis
      using 3 ex(2) [of c more IoEOF] fixtureResponse_seen [OF pl refl, of "Method q"] by (auto simp: out)
  qed
qed

definition sampleFixture :: fixtureBackend where
  "sampleFixture = \<lparr>fxAlias = ''forge-a'', fxAddress = ''127.0.0.1:9001'',
     fxProfile = \<lparr>FxMode = fixtureFailure, FxDelay = 0, FxFailureStatus = 503\<rparr>,
     fxRequests = 0, fxResponses = 0, fxActive = 0, fxPeak = 0\<rparr>"

definition aloneEnv :: fixtureEnv where
  "aloneEnv = \<lparr>fxMeanwhile = (\<lambda>_ f. f), fxDuring = (\<lambda>_ f. f), fxCancelled = (\<lambda>_. False), fxTimerCancelled = (\<lambda>_. False)\<rparr>"

lemma fixture_mode_observed_instance:
  "\<exists>err out f seen more.
     fixtureConnectionHandler bufferWriter (\<lambda>w. (None, w)) aloneEnv echoConfig
       (encodeRequest echoRequest @ ''rest'', IoEOF) [] sampleFixture = (err, out, f) \<and>
     readHTTPResponse (out, IoEOF) defaultHTTPLimits ''GET'' = Inr (seen, (more, IoEOF)) \<and>
     StatusCode seen = 503 \<and> Values (RespHeaders seen) ''X-Anvil-Fixture'' = [''forge-a'']"
proof -
  obtain err out f where run: "fixtureConnectionHandler bufferWriter (\<lambda>w. (None, w)) aloneEnv echoConfig
      (encodeRequest echoRequest @ ''rest'', IoEOF) [] sampleFixture = (err, out, f)"
    by (metis prod_cases3)
  have facts: "validToken ''forge-a''" "int (length ''forge-a'') \<le> maxBackendAliasBytes"
    "validateFixtureProfile fixtureFailure 0 503 = Inr ()" "writableRequest (Limits echoConfig) echoRequest"
    "1 \<le> MaxRequestsPerConnection echoConfig" "\<not> EqualFold (Method echoRequest) ''HEAD''"
    "\<not> EqualFold (Method echoRequest) ''CONNECT''" "Method echoRequest = ''GET''"
    "fixtureFailure \<notin> {fixtureUnavailable, fixtureTruncated, fixtureDelayed}"
    by code_simp+
  have "fxProfile (fxMeanwhile aloneEnv 1 sampleFixture) = \<lparr>FxMode = fixtureFailure, FxDelay = 0, FxFailureStatus = 503\<rparr>"
    "fxAlias (fxMeanwhile aloneEnv 1 sampleFixture) = ''forge-a''"
    by (simp_all add: aloneEnv_def sampleFixture_def)
  from fixture_mode_observed [OF this facts(1,2) _ facts(4-7) _ run, of 0] facts(3,9)
  obtain seen more where "readHTTPResponse (out, IoEOF) defaultHTTPLimits (Method echoRequest) = Inr (seen, (more, IoEOF))"
      "StatusCode seen = 503" "Values (RespHeaders seen) ''X-Anvil-Fixture'' = [''forge-a'']"
    by auto
  then show ?thesis using run unfolding facts(8) by blast
qed

end
