(* ===== verification/Admin.thy ===== *)
theory Admin
  imports Observability Tcp_Server Go_Net Http_Responses
begin

text \<open>
  \<^verbatim>\<open>src/src/admin.go\<close>: the read-only API beside the proxy, and its stream of server-sent events. The
  page of the dashboard, the JSON of a metrics snapshot and the JSON of an event
  (\<^verbatim>\<open>encoding/json\<close>) are parameters. What other goroutines do to the ledger and the hub is a function
  on \<open>observability\<close>. The \<^verbatim>\<open>select\<close> of a stream takes its inputs from a list, in the order in which it
  picks them; the list is what has happened so far, so a stream may still be open at its end.
\<close>

subsection \<open>Configuration\<close>

definition defaultSSEHeartbeat :: duration where "defaultSSEHeartbeat = 5 * second"
definition defaultAdminConnections :: int where "defaultAdminConnections = 64"
definition defaultAdminMaxRequests :: int where "defaultAdminMaxRequests = 100"

record adminConfig =
  Heartbeat :: duration
  AdminHTTP :: httpServerConfig
  AdminTCP :: tcpServerConfig

definition defaultAdminConfig :: adminConfig where
  "defaultAdminConfig =
     \<lparr>Heartbeat = defaultSSEHeartbeat,
      AdminHTTP = \<lparr>Limits = defaultHTTPLimits, MaxRequestsPerConnection = defaultAdminMaxRequests\<rparr>,
      AdminTCP = \<lparr>MaxConnections = defaultAdminConnections, TcpReadTimeout = 10 * second,
        TcpWriteTimeout = 10 * second, TcpIdleTimeout = 30 * second, ShutdownTimeout = 3 * second,
        ForceCloseWait = second\<rparr>\<rparr>"

definition adminConfig_validate :: "adminConfig \<Rightarrow> string + unit" where
  "adminConfig_validate c =
     (if Heartbeat c \<le> 0 then Inl ''SSE heartbeat must be greater than zero''
      else
        andThen (httpServerConfig_validate (AdminHTTP c)) (\<lambda>_.
        andThen (tcpServerConfig_validate (AdminTCP c)) (\<lambda>_.
        if TcpIdleTimeout (AdminTCP c) \<le> Heartbeat c
          then Inl ''admin idle timeout must exceed the SSE heartbeat interval''
        else Inr ())))"

definition validateAdminListen :: "string \<Rightarrow> string + unit" where
  "validateAdminListen address =
     (case SplitHostPort address of
        None \<Rightarrow> Inl ''admin listen address must be host:port: %w''
      | Some (host, port) \<Rightarrow>
          (if (case ParseIP host of None \<Rightarrow> True | Some ip \<Rightarrow> \<not> IsLoopback ip)
             then Inl ''admin listener must use an explicit loopback IP''
           else
             (case Atoi port of
                None \<Rightarrow> Inl ''admin listener port must be between 0 and 65535''
              | Some n \<Rightarrow>
                  if n < 0 \<or> n > 65535 then Inl ''admin listener port must be between 0 and 65535''
                  else Inr ())))"

definition newAdminServer :: "bool \<Rightarrow> bool \<Rightarrow> adminConfig \<Rightarrow> string + tcpServer" where
  "newAdminServer hasListener hasObservability c =
     (if \<not> hasListener then Inl ''admin listener is required''
      else if \<not> hasObservability then Inl ''observability is required''
      else andThen (adminConfig_validate c) (\<lambda>_. newTCPServer hasListener True (AdminTCP c)))"

subsection \<open>Responses\<close>

definition hardenAdminResponse :: "httpResponse \<Rightarrow> httpResponse" where
  "hardenAdminResponse response =
     response\<lparr>RespHeaders := RespHeaders response @
       [hf ''X-Content-Type-Options'' ''nosniff'', hf ''Referrer-Policy'' ''no-referrer'']\<rparr>"

definition contentSecurityPolicy :: string where
  "contentSecurityPolicy =
     ''default-src 'none'; connect-src 'self'; script-src 'unsafe-inline'; style-src 'unsafe-inline'; img-src 'self' data:; base-uri 'none'; frame-ancestors 'none'' @ [CHR 0x27]"

definition okResponse :: "headerFields \<Rightarrow> bytes \<Rightarrow> httpResponse" where
  "okResponse headers body =
     \<lparr>RespVersion = httpVersion11, StatusCode = 200, Reason = [], RespHeaders = headers, RespTrailers = [],
      RespBody = body, RespBodyMode = bodyModeFixed, RespKeepAlive = True, RespClose = False,
      CommitState = None\<rparr>"

definition adminResponse :: "bytes \<Rightarrow> string + bytes \<Rightarrow> httpRequest \<Rightarrow> httpResponse" where
  "adminResponse html metrics request =
     (let path = requestPath (Target request) in
      if Method request \<noteq> ''GET''
        then (let response = textResponse 405 (''method not allowed'' @ [LF]) in
          hardenAdminResponse (response\<lparr>RespHeaders := RespHeaders response @ [hf ''Allow'' ''GET'']\<rparr>))
      else if path = ''/'' \<or> path = ''/index.html''
        then hardenAdminResponse (okResponse
          [hf ''Content-Type'' ''text/html; charset=utf-8'', hf ''Cache-Control'' ''no-store'',
           hf ''Content-Security-Policy'' contentSecurityPolicy] html)
      else if path = ''/api/metrics''
        then (case metrics of
            Inl _ \<Rightarrow> hardenAdminResponse (textResponse 500 (''metrics encoding failed'' @ [LF]))
          | Inr body \<Rightarrow> hardenAdminResponse (okResponse
              [hf ''Content-Type'' ''application/json; charset=utf-8'', hf ''Cache-Control'' ''no-store''] body))
      else if path = ''/healthz'' then hardenAdminResponse (textResponse 200 (''ok'' @ [LF]))
      else hardenAdminResponse (textResponse 404 (''route not found'' @ [LF])))"

subsection \<open>The stream of events\<close>

definition parseLastEventID :: "headerFields \<Rightarrow> string + u64" where
  "parseLastEventID headers =
     (case Values headers ''Last-Event-ID'' of
        [] \<Rightarrow> Inr 0
      | [v] \<Rightarrow>
          (let value = TrimSpace v in
           if value = [] then Inr 0
           else (case ParseUint 64 value of
                   None \<Rightarrow> Inl ''strconv.ParseUint'' | Some n \<Rightarrow> Inr (of_nat n)))
      | _ \<Rightarrow> Inl ''Last-Event-ID must occur once'')"

fun eventTypeName :: "eventType \<Rightarrow> string" where
  "eventTypeName eventRequestStarted = ''request_started''"
| "eventTypeName eventBackendSelected = ''backend_selected''"
| "eventTypeName eventAttemptFailed = ''attempt_failed''"
| "eventTypeName eventRetryScheduled = ''retry_scheduled''"
| "eventTypeName eventRequestCompleted = ''request_completed''"
| "eventTypeName eventCircuitTransition = ''circuit_transition''"
| "eventTypeName eventHealthTransition = ''health_transition''"
| "eventTypeName eventFixtureTransition = ''fixture_transition''"

definition sseHeaders :: headerFields where
  "sseHeaders =
     [hf ''Content-Type'' ''text/event-stream; charset=utf-8'', hf ''Cache-Control'' ''no-cache'',
      hf ''Connection'' ''close'', hf ''Transfer-Encoding'' ''chunked'', hf ''X-Accel-Buffering'' ''no'',
      hf ''X-Content-Type-Options'' ''nosniff'']"

definition flushing :: "('w \<Rightarrow> io_error option \<times> 'w) \<Rightarrow> 'w \<Rightarrow> 'w written" where
  "flushing flush w = (case flush w of (e, w') \<Rightarrow> (map_option RawError e, w'))"

definition writeSSEHead :: "'w writer \<Rightarrow> ('w \<Rightarrow> io_error option \<times> 'w) \<Rightarrow> 'w \<Rightarrow> 'w written" where
  "writeSSEHead wr flush w =
     (case validateGeneratedFields sseHeaders ''SSE headers'' of
        Some err \<Rightarrow> (Some err, w)
      | None \<Rightarrow>
          thenWrite (writeAll wr w (''HTTP/1.1 200 OK'' @ CRLF)) (\<lambda>w1.
          thenWrite (writeHeaderBlock wr w1 sseHeaders) (\<lambda>w2. flushing flush w2)))"

definition writeSSEPayload ::
    "'w writer \<Rightarrow> ('w \<Rightarrow> io_error option \<times> 'w) \<Rightarrow> chunkedBodyWriter \<Rightarrow> 'w \<Rightarrow> bytes \<Rightarrow> 'w written" where
  "writeSSEPayload wr flush cw w payload =
     thenWrite (chunkedWrite wr w cw payload) (\<lambda>w1. flushing flush w1)"

definition eventPayload :: "decisionEvent \<Rightarrow> bytes \<Rightarrow> bytes" where
  "eventPayload event data =
     ''id: '' @ Itoa (unat (Sequence event)) @ [LF] @ ''event: '' @ eventTypeName (EventType event) @ [LF] @
     ''data: '' @ data @ [LF, LF]"

definition writeSSEEvent ::
    "'w writer \<Rightarrow> ('w \<Rightarrow> io_error option \<times> 'w) \<Rightarrow> (decisionEvent \<Rightarrow> string + bytes) \<Rightarrow> chunkedBodyWriter \<Rightarrow>
     'w \<Rightarrow> decisionEvent \<Rightarrow> 'w written" where
  "writeSSEEvent wr flush marshal cw w event =
     (case marshal event of
        Inl err \<Rightarrow> (Some (RawError (IoOther err)), w)
      | Inr data \<Rightarrow> writeSSEPayload wr flush cw w (eventPayload event data))"

definition gapPayload :: "ledgerSnapshot \<Rightarrow> bytes" where
  "gapPayload replay =
     ''event: gap'' @ [LF] @ ''data: '' @ ''{\"oldest_sequence\":'' @ Itoa (unat (OldestSequence replay)) @
     '',\"latest_sequence\":'' @ Itoa (unat (LatestSequence replay)) @ ''}'' @ [LF, LF]"

definition streamReady :: bytes where "streamReady = '': anvil stream ready'' @ [LF, LF]"
definition heartbeat :: bytes where "heartbeat = '': heartbeat'' @ [LF, LF]"

text \<open>The loop over the replayed events, and the loop of the \<^verbatim>\<open>select\<close>.\<close>

fun replayLoop ::
    "'w writer \<Rightarrow> ('w \<Rightarrow> io_error option \<times> 'w) \<Rightarrow> (decisionEvent \<Rightarrow> string + bytes) \<Rightarrow> chunkedBodyWriter \<Rightarrow>
     decisionEvent list \<Rightarrow> u64 \<Rightarrow> 'w \<Rightarrow> http_error option \<times> 'w \<times> u64" where
  "replayLoop wr flush marshal cw [] lastSent w = (None, w, lastSent)"
| "replayLoop wr flush marshal cw (event # events) lastSent w =
     (if Sequence event \<le> lastSent then replayLoop wr flush marshal cw events lastSent w
      else
        (case writeSSEEvent wr flush marshal cw w event of
           (Some err, w') \<Rightarrow> (Some err, w', lastSent)
         | (None, w') \<Rightarrow> replayLoop wr flush marshal cw events (Sequence event) w'))"

datatype sseInput = CtxDone | PickEvent decisionEvent | SubDone | Tick

datatype sseEnd = Streaming | Ended "http_error option"

fun streamLoop ::
    "'w writer \<Rightarrow> ('w \<Rightarrow> io_error option \<times> 'w) \<Rightarrow> (decisionEvent \<Rightarrow> string + bytes) \<Rightarrow> chunkedBodyWriter \<Rightarrow>
     sseInput list \<Rightarrow> u64 \<Rightarrow> 'w \<Rightarrow> sseEnd \<times> 'w" where
  "streamLoop wr flush marshal cw [] lastSent w = (Streaming, w)"
| "streamLoop wr flush marshal cw (CtxDone # picks) lastSent w = (Ended None, w)"
| "streamLoop wr flush marshal cw (PickEvent event # picks) lastSent w =
     (if Sequence event \<le> lastSent then streamLoop wr flush marshal cw picks lastSent w
      else
        (case writeSSEEvent wr flush marshal cw w event of
           (Some err, w') \<Rightarrow> (Ended (Some err), w')
         | (None, w') \<Rightarrow> streamLoop wr flush marshal cw picks (Sequence event) w'))"
| "streamLoop wr flush marshal cw (SubDone # picks) lastSent w = (Ended None, w)"
| "streamLoop wr flush marshal cw (Tick # picks) lastSent w =
     (case writeSSEPayload wr flush cw w heartbeat of
        (Some err, w') \<Rightarrow> (Ended (Some err), w')
      | (None, w') \<Rightarrow> streamLoop wr flush marshal cw picks lastSent w')"

text \<open>
  What other goroutines do between the subscription and the snapshot and while the stream is open,
  the JSON of an event, and what the \<^verbatim>\<open>select\<close> has picked.
\<close>

record sseWorld =
  swMarshal :: "decisionEvent \<Rightarrow> string + bytes"
  swBetween :: "observability \<Rightarrow> observability"
  swMeanwhile :: "observability \<Rightarrow> observability"
  swPicks :: "sseInput list"

definition sseBody ::
    "'w writer \<Rightarrow> ('w \<Rightarrow> io_error option \<times> 'w) \<Rightarrow> sseWorld \<Rightarrow> chunkedBodyWriter \<Rightarrow> u64 \<Rightarrow> ledgerSnapshot \<Rightarrow>
     'w \<Rightarrow> sseEnd \<times> 'w" where
  "sseBody wr flush world cw after replay w =
     (case writeSSEPayload wr flush cw w streamReady of
        (Some err, w1) \<Rightarrow> (Ended (Some err), w1)
      | (None, w1) \<Rightarrow>
          (case (if Gap replay then writeSSEPayload wr flush cw w1 (gapPayload replay) else (None, w1)) of
             (Some err, w2) \<Rightarrow> (Ended (Some err), w2)
           | (None, w2) \<Rightarrow>
               (let lastSent = (if Gap replay \<and> after > LatestSequence replay
                                then OldestSequence replay - 1 else after) in
                case replayLoop wr flush (swMarshal world) cw (Events replay) lastSent w2 of
                  (Some err, w3, _) \<Rightarrow> (Ended (Some err), w3)
                | (None, w3, lastId) \<Rightarrow> streamLoop wr flush (swMarshal world) cw (swPicks world) lastId w3)))"

text \<open>The deferred calls: the body is closed and flushed, errors are dropped.\<close>

definition finishSSE ::
    "'w writer \<Rightarrow> ('w \<Rightarrow> io_error option \<times> 'w) \<Rightarrow> chunkedBodyWriter \<Rightarrow> 'w \<Rightarrow> 'w" where
  "finishSSE wr flush cw w = snd (flush (snd (fst (chunkedClose wr w cw))))"

definition refuseSSE ::
    "'w writer \<Rightarrow> ('w \<Rightarrow> io_error option \<times> 'w) \<Rightarrow> 'w \<Rightarrow> int \<Rightarrow> string \<Rightarrow> httpRequest \<Rightarrow> sseEnd \<times> 'w" where
  "refuseSSE wr flush w status text request =
     (case writeBufferedHTTPResponse wr flush w
             ((hardenAdminResponse (textResponse status text))\<lparr>RespClose := True\<rparr>) (Method request) of
        (_, writeErr, w', _) \<Rightarrow> (Ended writeErr, w'))"

definition serveSSE ::
    "'w writer \<Rightarrow> ('w \<Rightarrow> io_error option \<times> 'w) \<Rightarrow> sseWorld \<Rightarrow> 'w \<Rightarrow> httpRequest \<Rightarrow> observability \<Rightarrow>
     sseEnd \<times> 'w \<times> observability" where
  "serveSSE wr flush world w request o0 =
     (case parseLastEventID (ReqHeaders request) of
        Inl _ \<Rightarrow>
          (case refuseSSE wr flush w 400 (''invalid Last-Event-ID'' @ [LF]) request of (e, w') \<Rightarrow> (e, w', o0))
      | Inr after \<Rightarrow>
          (case subscribe (oHub o0) of
             (Inl _, h) \<Rightarrow>
               (case refuseSSE wr flush w 503 (''event subscriber limit reached'' @ [LF]) request of
                  (e, w') \<Rightarrow> (e, w', o0))
           | (Inr ident, h) \<Rightarrow>
               (let o1 = swBetween world (o0\<lparr>oHub := h\<rparr>);
                    replay = snapshotSince after (oLedger o1);
                    o2 = swMeanwhile world o1;
                    o3 = o2\<lparr>oHub := unsubscribe ident (oHub o2)\<rparr> in
                case writeSSEHead wr flush w of
                  (Some err, w1) \<Rightarrow> (Ended (Some err), w1, o3)
                | (None, w1) \<Rightarrow>
                    (case newChunkedBodyWriter [] of
                       Inl err \<Rightarrow> (Ended (Some err), w1, o3)
                     | Inr cw \<Rightarrow>
                         (case sseBody wr flush world cw after replay w1 of
                            (Streaming, w2) \<Rightarrow> (Streaming, w2, o2)
                          | (Ended e, w2) \<Rightarrow> (Ended e, finishSSE wr flush cw w2, o3))))))"

subsection \<open>The connection\<close>

record adminEnv = connectionEnv +
  adPage :: bytes
  adMetrics :: "int \<Rightarrow> observability \<Rightarrow> string + bytes"
  adOthers :: "int \<Rightarrow> observability \<Rightarrow> observability"
  adStream :: "int \<Rightarrow> sseWorld"

definition adminClosing :: "adminConfig \<Rightarrow> int \<Rightarrow> httpRequest \<Rightarrow> httpResponse \<Rightarrow> bool" where
  "adminClosing c requestNumber request response \<longleftrightarrow>
     \<not> ReqKeepAlive request \<or> RespClose response \<or> requestNumber = MaxRequestsPerConnection (AdminHTTP c)"

function adminLoop ::
    "'w writer \<Rightarrow> ('w \<Rightarrow> io_error option \<times> 'w) \<Rightarrow> adminEnv \<Rightarrow> adminConfig \<Rightarrow> int \<Rightarrow> reader \<Rightarrow> 'w \<Rightarrow>
     observability \<Rightarrow> sseEnd \<times> 'w \<times> observability" where
  "adminLoop wr flush env c requestNumber reader w o0 =
     (if requestNumber > MaxRequestsPerConnection (AdminHTTP c) then (Ended None, w, o0)
      else if cancelledBefore env requestNumber then (Ended None, w, o0)
      else
        (let o1 = adOthers env requestNumber o0 in
         case readHTTPRequest reader (Limits (AdminHTTP c)) of
           Inl err \<Rightarrow>
             (if isEOF err \<or> protocolKind err = Some protocolTimeout \<or> cancelledAfter env requestNumber
                then (Ended None, w, o1)
              else
                (case writeBufferedHTTPResponse wr flush w (protocolFailureResponse err) [] of
                   (_, writeErr, w', _) \<Rightarrow> (Ended writeErr, w', o1)))
         | Inr (parsed, reader') \<Rightarrow>
             (let request = parsed\<lparr>RemoteAddr := remoteAddress env\<rparr> in
              if requestPath (Target request) = ''/api/events'' \<and> Method request = ''GET''
                then serveSSE wr flush (adStream env requestNumber) w request o1
              else
                (let response = adminResponse (adPage env) (adMetrics env requestNumber o1) request;
                     closing = adminClosing c requestNumber request response in
                 case writeBufferedHTTPResponse wr flush w
                        (response\<lparr>RespClose := closing, RespKeepAlive := \<not> closing\<rparr>) (Method request) of
                   (_, Some err, w', _) \<Rightarrow> (Ended (Some err), w', o1)
                 | (fallback, None, w', _) \<Rightarrow>
                     (if closing \<or> fallback then (Ended None, w', o1)
                      else adminLoop wr flush env c (requestNumber + 1) reader' w' o1)))))"
  by pat_completeness auto
termination
  by (relation "measure (\<lambda>(wr, flush, env, c, n, r, w, x).
        nat (MaxRequestsPerConnection (AdminHTTP c) + 1 - n))") auto

declare adminLoop.simps [simp del]

definition serveAdminConnection ::
    "'w writer \<Rightarrow> ('w \<Rightarrow> io_error option \<times> 'w) \<Rightarrow> adminEnv \<Rightarrow> adminConfig \<Rightarrow> reader \<Rightarrow> 'w \<Rightarrow>
     observability \<Rightarrow> sseEnd \<times> 'w \<times> observability" where
  "serveAdminConnection wr flush env c reader w o0 = adminLoop wr flush env c 1 reader w o0"

subsection \<open>What a stream writes\<close>

text \<open>The events sent after a last identifier: those that increase it.\<close>

fun sentEvents :: "u64 \<Rightarrow> decisionEvent list \<Rightarrow> decisionEvent list" where
  "sentEvents lastId [] = []"
| "sentEvents lastId (e # es) =
     (if Sequence e \<le> lastId then sentEvents lastId es else e # sentEvents (Sequence e) es)"

fun lastSent :: "u64 \<Rightarrow> decisionEvent list \<Rightarrow> u64" where
  "lastSent lastId [] = lastId"
| "lastSent lastId (e # es) = lastSent (if Sequence e \<le> lastId then lastId else Sequence e) es"

lemma sentEvents_append: "sentEvents a (xs @ ys) = sentEvents a xs @ sentEvents (lastSent a xs) ys"
  by (induction xs arbitrary: a) simp_all

lemma sentEvents_increasing:
  "sorted_wrt (\<lambda>x y. Sequence x < Sequence y) es \<Longrightarrow> sentEvents a es = filter (\<lambda>e. Sequence e > a) es"
proof (induction es arbitrary: a)
  case (Cons e es)
  have "filter (\<lambda>x. Sequence e < Sequence x) es = es" using Cons.prems by (simp add: filter_id_conv)
  moreover have "a < Sequence e \<Longrightarrow> filter (\<lambda>x. a < Sequence x) es = es"
    using Cons.prems by (auto simp: filter_id_conv)
  ultimately show ?case using Cons by (auto simp: not_le)
qed simp

lemma lastSent_increasing:
  "sorted_wrt (\<lambda>x y. Sequence x < Sequence y) es \<Longrightarrow> es \<noteq> [] \<Longrightarrow> lastSent a es = max a (Sequence (last es))"
proof (induction es arbitrary: a)
  case (Cons e es)
  show ?case
  proof (cases "es = []")
    case False
    then have "Sequence e < Sequence (last es)" using Cons.prems by simp
    then have "max (Sequence e) (Sequence (last es)) = Sequence (last es)"
      "a < Sequence e \<Longrightarrow> max a (Sequence (last es)) = Sequence (last es)" by (auto simp: max_def)
    with False Cons show ?thesis by (cases "Sequence e \<le> a") (simp_all add: not_le max_absorb1)
  qed (auto simp: max_def)
qed simp

lemma numbered_increasing:
  assumes "length xs < 2 ^ 64"
  shows "sorted_wrt (\<lambda>x y. Sequence x < Sequence y) (numbered xs)"
  unfolding sorted_wrt_iff_nth_less
proof (intro allI impI)
  fix i j
  assume "i < j" "j < length (numbered xs)"
  then show "Sequence (numbered xs ! i) < Sequence (numbered xs ! j)"
    using assms u64_less [of "Suc i" "Suc j"] by (simp add: Sequence_numbered del: of_nat_Suc)
qed

lemma sentEvents_numbered:
  assumes "length xs < 2 ^ 64" "a < 2 ^ 64"
  shows "sentEvents (of_nat a) (drop j (numbered xs)) = drop (max a j) (numbered xs)"
  using numbered_increasing [OF assms(1)] filter_numbered [OF assms, of j]
  by (simp add: sentEvents_increasing sorted_wrt_drop)

lemma lastSent_numbered:
  assumes "length xs < 2 ^ 64" "a < 2 ^ 64" "j < length xs"
  shows "lastSent (of_nat a) (drop j (numbered xs)) = of_nat (max a (length xs))"
proof -
  have "Sequence (last (drop j (numbered xs))) = of_nat (length xs)"
    using assms(3) Sequence_numbered [of "length xs - 1" xs] by (simp add: last_conv_nth)
  moreover have "max (of_nat a) (of_nat (length xs) :: u64) = of_nat (max a (length xs))"
    using assms u64_less [of a "length xs"] u64_less [of "length xs" a] by (auto simp: max_def not_le)
  ultimately show ?thesis
    using assms numbered_increasing [OF assms(1)] by (simp add: lastSent_increasing sorted_wrt_drop)
qed

lemma numbered_take: "numbered (take k xs) = take k (numbered xs)"
  by (rule nth_equalityI) (simp_all add: numbered_def)

text \<open>
  A stream that resumes after \<open>a\<close>: the snapshot is taken when \<open>k\<close> events are published, the
  subscription was made when \<open>j \<le> k\<close> were, and everything since comes through it.
\<close>

lemma resumed_events:
  assumes "newEventLedger capacity = Inr l0" "length xs < 2 ^ 64" "a < 2 ^ 64" "j \<le> k" "k \<le> length xs"
    and "s = snapshotSince (of_nat a) (fold put (take k xs) l0)"
    and "first = (if Gap s \<and> of_nat a > LatestSequence s then OldestSequence s - 1 else of_nat a)"
  shows "sentEvents first (Events s @ drop j (numbered xs)) =
    (if Gap s \<or> a = 0 then drop (k - nat capacity) (numbered xs) else drop a (numbered xs)) \<and>
    (Gap s \<longleftrightarrow> k \<noteq> 0 \<and> (k < a \<or> 0 < a \<and> a + nat capacity < k))"
proof -
  let ?c = "nat capacity" and ?ys = "take k xs"
  note new = newEventLedger_Inr [OF assms(1)]
  have ys: "length ?ys = k" "length ?ys < 2 ^ 64" using assms(2,5) by simp_all
  have held: "ledgerOk (fold put ?ys l0)" "recent (fold put ?ys l0) = drop (k - ?c) (numbered ?ys)"
    using ledger_holds [OF assms(1) refl, of ?ys] ys(1) by (simp_all add: lastN_def)
  show ?thesis
  proof (cases "k = 0")
    case True
    then have "ledgerCount (fold put ?ys l0) = 0" using held(2) length_recent [of "fold put ?ys l0"] by simp
    then have "Events s = []" "\<not> Gap s" by (simp_all add: assms(6) snapshotSince_def Let_def)
    then show ?thesis
      using True assms(3,4,7) sentEvents_numbered [OF assms(2,3), of 0] by simp
  next
    case False
    define b where "b = k - ?c"
    have b: "b < k" using False new by (simp add: b_def)
    let ?r = "drop b (numbered ?ys)"
    have ends: "Sequence (hd ?r) = of_nat (Suc b)" "Sequence (last ?r) = of_nat k" "?r \<noteq> []"
      using b ys Sequence_numbered [of b ?ys] Sequence_numbered [of "k - 1" ?ys]
      by (simp_all add: hd_drop_conv_nth last_conv_nth del: of_nat_Suc)
    have snap: "Gap s \<longleftrightarrow> k < a \<or> (a \<noteq> 0 \<and> a < b)" "LatestSequence s = of_nat k"
        "OldestSequence s - 1 = of_nat b"
        "Events s = filter (\<lambda>e. Sequence e > of_nat (if k < a then b else a)) ?r"
    proof -
      have one: "(of_nat (Suc b) :: u64) - 1 = of_nat b" by simp
      have "(of_nat k < (of_nat a :: u64)) = (k < a)" "(of_nat a < (of_nat b :: u64)) = (a < b)"
        "((of_nat a :: u64) = 0) = (a = 0)" "(1 < (of_nat (Suc b) :: u64)) = (0 < b)"
        using assms(2,3,5) b u64_less [of k a] u64_less [of a b] u64_eq_0 [of a] u64_less [of 1 "Suc b", unfolded of_nat_1]
        by (simp_all del: of_nat_Suc)
      note n = this
      have s: "s = snapshotSince (of_nat a) (fold put ?ys l0)" by (rule assms(6))
      have ne: "recent (fold put ?ys l0) \<noteq> []" using held(2) ends(3) by (simp add: b_def)
      note r = snapshotSince_recent [OF held(1) ne, of "of_nat a", folded s, unfolded held(2), folded b_def,
          unfolded Let_def ends(1,2) one n]
      show "Gap s \<longleftrightarrow> k < a \<or> (a \<noteq> 0 \<and> a < b)" by (auto simp: r)
      show "LatestSequence s = of_nat k" "OldestSequence s - 1 = of_nat b" using one by (simp_all add: r del: of_nat_Suc)
      show "Events s = filter (\<lambda>e. Sequence e > of_nat (if k < a then b else a)) ?r" by (simp add: r)
    qed
    define a' where "a' = (if k < a then b else a)"
    have a': "a' \<le> k" "a' < 2 ^ 64" using b assms(3) by (auto simp: a'_def)
    have first: "first = of_nat a'"
      using snap(1-3) u64_less [of k a] assms(2,3,5,7) by (auto simp: a'_def)
    have ev: "Events s = drop (max a' b) (numbered ?ys)"
      using filter_numbered [OF ys(2) a'(2), of b] by (simp add: snap(4) a'_def)
    have "lastSent first (Events s) = of_nat k"
    proof (cases "a' < k")
      case True
      then show ?thesis
        using lastSent_numbered [OF ys(2) a'(2), of "max a' b"] b ys(1) assms(5) by (simp add: ev first)
    next
      case False
      then show ?thesis using a'(1) ys(1) by (simp add: ev first)
    qed
    moreover have "sentEvents first (Events s) = drop (max a' b) (numbered ?ys)"
      using sentEvents_numbered [OF ys(2) a'(2), of "max a' b"] by (simp add: ev first)
    moreover have "sentEvents (of_nat k) (drop j (numbered xs)) = drop k (numbered xs)"
      using sentEvents_numbered [OF assms(2), of k j] assms(2,4,5) by (simp add: max_absorb1)
    ultimately have "sentEvents first (Events s @ drop j (numbered xs)) =
        drop (max a' b) (take k (numbered xs)) @ drop k (numbered xs)"
      by (simp add: sentEvents_append numbered_take)
    also have "\<dots> = drop (max a' b) (numbered xs)"
      using a'(1) b assms(5) drop_append [of "max a' b" "take k (numbered xs)" "drop k (numbered xs)"]
      by (simp add: min_absorb2)
    also have "max a' b = (if Gap s \<or> a = 0 then b else a)"
      using b by (auto simp: snap(1) a'_def)
    finally show ?thesis using False by (auto simp: b_def snap(1))
  qed
qed

subsection \<open>The bytes of a stream\<close>

definition sseChunk :: "bytes \<Rightarrow> bytes" where
  "sseChunk payload = formatUint 16 (length payload) @ CRLF @ payload @ CRLF"

definition sseHead :: bytes where
  "sseHead = ''HTTP/1.1 200 OK'' @ CRLF @ encodeHeaders sseHeaders"

definition openChunks :: chunkedBodyWriter where
  "openChunks = \<lparr>cwTrailers = [], cwClosed = False\<rparr>"

abbreviation noFlush :: "bytes \<Rightarrow> io_error option \<times> bytes" where
  "noFlush w \<equiv> (None, w)"

lemma writeSSEHead_buffer: "writeSSEHead bufferWriter noFlush w = (None, w @ sseHead)"
proof -
  have "validateGeneratedFields sseHeaders ''SSE headers'' = None" by code_simp
  then show ?thesis by (simp add: writeSSEHead_def thenWrite_def flushing_def sseHead_def)
qed

lemma newChunks: "newChunkedBodyWriter [] = Inr openChunks"
  by (simp add: newChunkedBodyWriter_def openChunks_def validateTrailers_def)

lemma writeSSEPayload_buffer:
  "payload \<noteq> [] \<Longrightarrow> writeSSEPayload bufferWriter noFlush openChunks w payload = (None, w @ sseChunk payload)"
  by (simp add: writeSSEPayload_def chunkedWrite_def openChunks_def thenWrite_def flushing_def sseChunk_def)

lemma writeSSEEvent_buffer:
  "writeSSEEvent bufferWriter noFlush (\<lambda>e. Inr (json e)) openChunks w e =
     (None, w @ sseChunk (eventPayload e (json e)))"
  by (simp add: writeSSEEvent_def writeSSEPayload_buffer eventPayload_def)

lemma replayLoop_buffer:
  "replayLoop bufferWriter noFlush (\<lambda>e. Inr (json e)) openChunks es lastId w =
     (None, w @ concat (map (\<lambda>e. sseChunk (eventPayload e (json e))) (sentEvents lastId es)), lastSent lastId es)"
  by (induction es arbitrary: lastId w) (simp_all add: writeSSEEvent_buffer)

text \<open>The messages of a stream that stays open: heartbeats and events.\<close>

fun streamMessages :: "(decisionEvent \<Rightarrow> bytes) \<Rightarrow> u64 \<Rightarrow> sseInput list \<Rightarrow> bytes list" where
  "streamMessages json lastId [] = []"
| "streamMessages json lastId (PickEvent e # picks) =
     (if Sequence e \<le> lastId then streamMessages json lastId picks
      else eventPayload e (json e) # streamMessages json (Sequence e) picks)"
| "streamMessages json lastId (p # picks) = heartbeat # streamMessages json lastId picks"

fun pickedEvents :: "sseInput list \<Rightarrow> decisionEvent list" where
  "pickedEvents [] = []"
| "pickedEvents (PickEvent e # picks) = e # pickedEvents picks"
| "pickedEvents (p # picks) = pickedEvents picks"

lemma streamLoop_buffer:
  "CtxDone \<notin> set picks \<Longrightarrow> SubDone \<notin> set picks \<Longrightarrow>
   streamLoop bufferWriter noFlush (\<lambda>e. Inr (json e)) openChunks picks lastId w =
     (Streaming, w @ concat (map sseChunk (streamMessages json lastId picks)))"
proof (induction picks arbitrary: lastId w)
  case (Cons p picks)
  then show ?case
    by (cases p) (simp_all add: writeSSEEvent_buffer writeSSEPayload_buffer heartbeat_def)
qed simp

text \<open>A message that carries an event begins with its identifier.\<close>

definition carriesEvent :: "bytes \<Rightarrow> bool" where
  "carriesEvent m \<longleftrightarrow> take 4 m = ''id: ''"

lemma carriesEvent_simps [simp]:
  "carriesEvent (eventPayload e d)" "\<not> carriesEvent heartbeat" "\<not> carriesEvent (gapPayload s)"
  "\<not> carriesEvent streamReady"
  by (simp_all add: carriesEvent_def eventPayload_def heartbeat_def gapPayload_def streamReady_def)

lemma payloads_nonempty [simp]: "streamReady \<noteq> []" "heartbeat \<noteq> []" "gapPayload s \<noteq> []"
  by (simp_all add: streamReady_def heartbeat_def gapPayload_def)

lemma payloads_differ [simp]:
  "gapPayload s \<noteq> heartbeat" "gapPayload s \<noteq> streamReady" "gapPayload s \<noteq> eventPayload e d"
  by (simp_all add: streamReady_def heartbeat_def gapPayload_def eventPayload_def)

lemma streamMessages_events:
  "CtxDone \<notin> set picks \<Longrightarrow> SubDone \<notin> set picks \<Longrightarrow>
   filter carriesEvent (streamMessages json lastId picks) =
     map (\<lambda>e. eventPayload e (json e)) (sentEvents lastId (pickedEvents picks))"
proof (induction picks arbitrary: lastId)
  case (Cons p picks)
  then show ?case by (cases p) simp_all
qed simp

lemma sse_stream:
  assumes "newEventLedger capacity = Inr l0" "length xs < 2 ^ 64" "j \<le> k" "k \<le> length xs"
    and "parseLastEventID (ReqHeaders request) = Inr (of_nat a)" "a < 2 ^ 64"
    and "subscribe (oHub o0) = (Inr ident, h)"
    and "oLedger (swBetween world (o0\<lparr>oHub := h\<rparr>)) = fold put (take k xs) l0"
    and "swMarshal world = (\<lambda>e. Inr (json e))"
    and "CtxDone \<notin> set (swPicks world)" "SubDone \<notin> set (swPicks world)"
    and "pickedEvents (swPicks world) = drop j (numbered xs)"
    and "gap \<longleftrightarrow> k \<noteq> 0 \<and> (k < a \<or> 0 < a \<and> a + nat capacity < k)"
  shows "\<exists>msgs o'. serveSSE bufferWriter noFlush world w request o0 =
      (Streaming, w @ sseHead @ concat (map sseChunk msgs), o') \<and>
    filter carriesEvent msgs = map (\<lambda>e. eventPayload e (json e))
      (drop (if gap \<or> a = 0 then k - nat capacity else a) (numbered xs)) \<and>
    (gap \<longleftrightarrow> (\<exists>s. gapPayload s \<in> set msgs))"
proof -
  define s where "s = snapshotSince (of_nat a) (fold put (take k xs) l0)"
  define first where "first = (if Gap s \<and> of_nat a > LatestSequence s then OldestSequence s - 1 else of_nat a)"
  note ev = resumed_events [OF assms(1,2,6,3,4) s_def first_def]
  then have gap: "Gap s \<longleftrightarrow> gap" using assms(13) by simp
  define rest where "rest = map (\<lambda>e. eventPayload e (json e)) (sentEvents first (Events s)) @
    streamMessages json (lastSent first (Events s)) (swPicks world)"
  define msgs where "msgs = streamReady # (if gap then [gapPayload s] else []) @ rest"
  have "filter carriesEvent rest = map (\<lambda>e. eventPayload e (json e)) (sentEvents first (Events s @ drop j (numbered xs)))"
    by (simp add: rest_def streamMessages_events [OF assms(10,11)] assms(12) sentEvents_append filter_map o_def)
  then have "filter carriesEvent msgs = map (\<lambda>e. eventPayload e (json e))
      (drop (if gap \<or> a = 0 then k - nat capacity else a) (numbered xs))"
    using ev gap unfolding msgs_def assms(13) [symmetric] by auto
  moreover have "gapPayload s' \<notin> set (streamMessages json lastId picks)" for s' lastId picks
    by (induction json lastId picks rule: streamMessages.induct) simp_all
  then have "gap \<longleftrightarrow> (\<exists>s. gapPayload s \<in> set msgs)"
    unfolding assms(13) [symmetric] by (auto simp: msgs_def rest_def)
  moreover have "\<exists>o'. serveSSE bufferWriter noFlush world w request o0 =
      (Streaming, w @ sseHead @ concat (map sseChunk msgs), o')"
    using assms(5,7-11) gap first_def
    by (simp add: serveSSE_def Let_def s_def [symmetric] writeSSEHead_buffer newChunks sseBody_def
        writeSSEPayload_buffer replayLoop_buffer streamLoop_buffer msgs_def rest_def
        o_def)
  ultimately show ?thesis by blast
qed

subsection \<open>Properties of the stream\<close>


definition resumeRequest :: "string \<Rightarrow> httpRequest" where
  "resumeRequest n = \<lparr>Method = ''GET'', Target = ''/api/events'', ReqVersion = httpVersion11,
     ReqHeaders = [hf ''Host'' ''a'', hf ''Last-Event-ID'' n], ReqTrailers = [], ReqBody = [],
     ReqBodyMode = bodyModeNone, ReqKeepAlive = True, RemoteAddr = []\<rparr>"

definition smallLedger :: eventLedger where
  "smallLedger = (case newEventLedger 4 of Inr l \<Rightarrow> l | Inl _ \<Rightarrow>
     \<lparr>entries = [], start = 0, ledgerCount = 0, ledgerSequence = 0\<rparr>)"

definition startObs :: observability where
  "startObs = \<lparr>startedAt = 0, oLedger = smallLedger,
     oHub = \<lparr>subscribers = [], nextSubscriber = 0, maxSubscribers = 32, queueCapacity = 64, dropped = 0,
       hubClosed = False\<rparr>,
     oMetrics = newProxyMetrics, nextDelivery = 1\<rparr>"

definition threeEvents :: "(decisionEvent \<times> duration) list" where
  "threeEvents = [(zeroEvent eventRequestStarted, 0), (zeroEvent eventBackendSelected, 1000),
     (zeroEvent eventRequestCompleted, 2000)]"

definition resumeWorld :: "nat \<Rightarrow> nat \<Rightarrow> sseWorld" where
  "resumeWorld k j = \<lparr>swMarshal = (\<lambda>e. Inr ''{}''),
     swBetween = (\<lambda>o'. o'\<lparr>oLedger := fold put (take k threeEvents) smallLedger\<rparr>), swMeanwhile = (\<lambda>o'. o'),
     swPicks = Tick # map PickEvent (drop j (numbered threeEvents))\<rparr>"

lemma resume_facts:
  "newEventLedger 4 = Inr smallLedger" "length threeEvents = 3"
  "parseLastEventID (ReqHeaders (resumeRequest ''1'')) = Inr (of_nat 1)"
  "parseLastEventID (ReqHeaders (resumeRequest ''3'')) = Inr (of_nat 3)"
  "\<exists>h. subscribe (oHub startObs) = (Inr 1, h)"
proof -
  show "newEventLedger 4 = Inr smallLedger" by (simp add: smallLedger_def newEventLedger_def maxLedgerCapacity_def)
  show "length threeEvents = 3" by (simp add: threeEvents_def)
  show "parseLastEventID (ReqHeaders (resumeRequest ''1'')) = Inr (of_nat 1)"
    "parseLastEventID (ReqHeaders (resumeRequest ''3'')) = Inr (of_nat 3)" by code_simp+
  show "\<exists>h. subscribe (oHub startObs) = (Inr 1, h)" by (simp add: startObs_def subscribe_def Let_def)
qed

lemma pickedEvents_map [simp]: "pickedEvents (map PickEvent es) = es"
  by (induction es) simp_all

lemma resume_world [simp]:
  "oLedger (swBetween (resumeWorld k j) o') = fold put (take k threeEvents) smallLedger"
  "swMarshal (resumeWorld k j) = (\<lambda>e. Inr ''{}'')"
  "CtxDone \<notin> set (swPicks (resumeWorld k j))" "SubDone \<notin> set (swPicks (resumeWorld k j))"
  "pickedEvents (swPicks (resumeWorld k j)) = drop j (numbered threeEvents)"
  by (auto simp: resumeWorld_def)


text \<open>
  C36: when the program has been restarted and no event has been published yet, a client that resumes
  with the identifier \<open>a\<close> it has from before is sent none of the next \<open>a\<close> events and is not told of a gap.
\<close>

theorem sse_restart_skips:
  assumes "newEventLedger capacity = Inr l0" "length xs \<le> a" "a < 2 ^ 64" "0 < a"
    and "parseLastEventID (ReqHeaders request) = Inr (of_nat a)"
    and "subscribe (oHub o0) = (Inr ident, h)" "oLedger (swBetween world (o0\<lparr>oHub := h\<rparr>)) = l0"
    and "swMarshal world = (\<lambda>e. Inr (json e))"
    and "CtxDone \<notin> set (swPicks world)" "SubDone \<notin> set (swPicks world)"
    and "pickedEvents (swPicks world) = numbered xs"
  shows "\<exists>msgs o'. serveSSE bufferWriter noFlush world w request o0 =
      (Streaming, w @ sseHead @ concat (map sseChunk msgs), o') \<and>
    filter carriesEvent msgs = [] \<and> (\<forall>s. gapPayload s \<notin> set msgs)"
proof -
  have "length xs < 2 ^ 64" using assms(2,3) by simp
  from sse_stream [OF assms(1) this _ _ assms(5,3,6) _ assms(8-10), of 0 0 False w] assms(2,4,7,11)
  show ?thesis by auto
qed

theorem sse_restart_skips_witness:
  "\<exists>msgs o'. serveSSE bufferWriter noFlush (resumeWorld 0 0) [] (resumeRequest ''3'') startObs =
      (Streaming, sseHead @ concat (map sseChunk msgs), o') \<and>
    filter carriesEvent msgs = [] \<and> (\<forall>s. gapPayload s \<notin> set msgs)"
proof -
  obtain h where h: "subscribe (oHub startObs) = (Inr 1, h)" using resume_facts(5) by blast
  show ?thesis
    using sse_restart_skips [where w = "[]" and xs = threeEvents and world = "resumeWorld 0 0",
        OF resume_facts(1) _ _ _ resume_facts(4) h _ resume_world(2-4)]
    by (simp add: resume_facts(2))
qed

subsection \<open>Properties of the API\<close>

lemma adminLoop_read_only:
  "\<forall>n o'. adOthers env n o' = o' \<Longrightarrow>
   snd (snd (adminLoop wr flush env c n reader w o0)) = o0 \<or>
   (\<exists>k w0 request. requestPath (Target request) = ''/api/events'' \<and> Method request = ''GET'' \<and>
      adminLoop wr flush env c n reader w o0 = serveSSE wr flush (adStream env k) w0 request o0)"
proof (induction "nat (MaxRequestsPerConnection (AdminHTTP c) + 1 - n)" arbitrary: n reader w rule: less_induct)
  case less
  show ?case
  proof (cases "n > MaxRequestsPerConnection (AdminHTTP c) \<or> cancelledBefore env n")
    case True
    then show ?thesis by (subst adminLoop.simps) auto
  next
    case False
    show ?thesis
    proof (cases "readHTTPRequest reader (Limits (AdminHTTP c))")
      case (Inl err)
      then have "snd (snd (adminLoop wr flush env c n reader w o0)) = o0"
        using False less.prems by (subst adminLoop.simps) (simp split: prod.split)
      then show ?thesis by blast
    next
      case (Inr pr)
      obtain parsed reader' where pr: "pr = (parsed, reader')" by (cases pr)
      let ?request = "parsed\<lparr>RemoteAddr := remoteAddress env\<rparr>"
      let ?r = "adminResponse (adPage env) (adMetrics env n o0) ?request"
      let ?closing = "adminClosing c n ?request ?r"
      obtain fb werr w' cs where wr: "writeBufferedHTTPResponse wr flush w
          (?r\<lparr>RespClose := ?closing, RespKeepAlive := \<not> ?closing\<rparr>) (Method ?request) = (fb, werr, w', cs)"
        by (metis prod_cases4)
      have step: "adminLoop wr flush env c n reader w o0 =
          (if requestPath (Target ?request) = ''/api/events'' \<and> Method ?request = ''GET''
           then serveSSE wr flush (adStream env n) w ?request o0
           else case werr of Some err \<Rightarrow> (Ended (Some err), w', o0)
             | None \<Rightarrow> if ?closing \<or> fb then (Ended None, w', o0)
                 else adminLoop wr flush env c (n + 1) reader' w' o0)"
        using False Inr pr less.prems wr
        by (subst adminLoop.simps) (simp add: Let_def split: option.split)
      show ?thesis
      proof (cases "requestPath (Target ?request) = ''/api/events'' \<and> Method ?request = ''GET''")
        case True
        then show ?thesis
          using step by (intro disjI2 exI [of _ n] exI [of _ w] exI [of _ ?request]) simp
      next
        case stay: False
        show ?thesis
        proof (cases "werr = None \<and> \<not> ?closing \<and> \<not> fb")
          case True
          have "nat (MaxRequestsPerConnection (AdminHTTP c) + 1 - (n + 1)) <
              nat (MaxRequestsPerConnection (AdminHTTP c) + 1 - n)" using False by simp
          note IH = less.hyps [OF this less.prems, of reader' w']
          have "adminLoop wr flush env c n reader w o0 = adminLoop wr flush env c (n + 1) reader' w' o0"
            unfolding step using stay True by auto
          then show ?thesis using IH by simp
        next
          case False
          then have "snd (snd (adminLoop wr flush env c n reader w o0)) = o0"
            unfolding step using stay by (cases werr) auto
          then show ?thesis ..
        qed
      qed
    qed
  qed
qed

text \<open>
  Whatever is sent to the admin listener, the only request that touches the ledger and the hub is
  a GET of the event stream.
\<close>

lemma admin_read_only:
  assumes "\<forall>n o'. adOthers env n o' = o'"
    and "serveAdminConnection wr flush env c reader w o0 = (e, w', o1)"
  shows "o1 = o0 \<or> (\<exists>k w0 request. requestPath (Target request) = ''/api/events'' \<and> Method request = ''GET'' \<and>
      (e, w', o1) = serveSSE wr flush (adStream env k) w0 request o0)"
  using adminLoop_read_only [OF assms(1), of wr flush c 1 reader w o0] assms(2)
  by (simp add: serveAdminConnection_def)

definition quietAdmin :: adminEnv where
  "quietAdmin = \<lparr>remoteAddress = ''127.0.0.1:9'', cancelledBefore = (\<lambda>_. False), cancelledAfter = (\<lambda>_. False),
     adPage = ''<html>'', adMetrics = (\<lambda>_ _. Inr ''{}''), adOthers = (\<lambda>_ o'. o'),
     adStream = (\<lambda>_. resumeWorld 0 0)\<rparr>"

lemma admin_read_only_instance:
  "\<exists>e w o1. serveAdminConnection bufferWriter noFlush quietAdmin defaultAdminConfig
       (''GET /healthz HTTP/1.1'' @ CRLF, IoEOF) [] startObs = (e, w, o1) \<and>
     (o1 = startObs \<or> (\<exists>k w0 request. requestPath (Target request) = ''/api/events'' \<and> Method request = ''GET'' \<and>
       (e, w, o1) = serveSSE bufferWriter noFlush (adStream quietAdmin k) w0 request startObs))"
proof -
  obtain e w o1 where run: "serveAdminConnection bufferWriter noFlush quietAdmin defaultAdminConfig
      (''GET /healthz HTTP/1.1'' @ CRLF, IoEOF) [] startObs = (e, w, o1)"
    by (metis prod_cases3)
  have "\<forall>n o'. adOthers quietAdmin n o' = o'" by (simp add: quietAdmin_def)
  from admin_read_only [OF this run] run show ?thesis by blast
qed

lemma adminResponse_cases:
  "(StatusCode (adminResponse html metrics request), RespHeaders (adminResponse html metrics request)) \<in>
     {(s, RespHeaders (hardenAdminResponse (okResponse h []))) |s h.
        (s, h) \<in> {(405, [hf ''Content-Type'' ''text/plain; charset=utf-8'', hf ''Allow'' ''GET'']),
          (200, [hf ''Content-Type'' ''text/html; charset=utf-8'', hf ''Cache-Control'' ''no-store'',
             hf ''Content-Security-Policy'' contentSecurityPolicy]),
          (200, [hf ''Content-Type'' ''application/json; charset=utf-8'', hf ''Cache-Control'' ''no-store'']),
          (500, [hf ''Content-Type'' ''text/plain; charset=utf-8'']),
          (200, [hf ''Content-Type'' ''text/plain; charset=utf-8'']),
          (404, [hf ''Content-Type'' ''text/plain; charset=utf-8''])}}"
  by (cases metrics) (auto simp: adminResponse_def okResponse_def textResponse_def hardenAdminResponse_def Let_def)

definition adminFieldsOk :: "headerFields \<Rightarrow> bool" where
  "adminFieldsOk hs \<longleftrightarrow> list_all wfField hs \<and> Values hs ''Connection'' = [] \<and> Values hs ''Upgrade'' = [] \<and>
     Values hs ''X-Content-Type-Options'' = [''nosniff''] \<and> length (encodeHeaders hs) \<le> 1024 \<and> length hs \<le> 9"

lemma adminResponse_fields: "adminFieldsOk (RespHeaders (adminResponse html metrics request))"
proof -
  have "list_all adminFieldsOk (map (\<lambda>h. RespHeaders (hardenAdminResponse (okResponse h [])))
      [[hf ''Content-Type'' ''text/plain; charset=utf-8'', hf ''Allow'' ''GET''],
       [hf ''Content-Type'' ''text/html; charset=utf-8'', hf ''Cache-Control'' ''no-store'',
        hf ''Content-Security-Policy'' contentSecurityPolicy],
       [hf ''Content-Type'' ''application/json; charset=utf-8'', hf ''Cache-Control'' ''no-store''],
       [hf ''Content-Type'' ''text/plain; charset=utf-8'']])"
    by code_simp
  then show ?thesis using adminResponse_cases [of html metrics request] by (auto simp del: Values.simps)
qed

text \<open>
  Every response of the API is written and read back by a client; only a GET gets a page, the
  metrics or the health, any other method gets 405, and no response may be sniffed.
\<close>

lemma admin_response_readable:
  assumes "r = (adminResponse html metrics request)\<lparr>RespClose := closing, RespKeepAlive := \<not> closing\<rparr>"
    and "length html \<le> 8 * 1024 * 1024" "\<forall>body. metrics = Inr body \<longrightarrow> length body \<le> 8 * 1024 * 1024"
    and "\<not> EqualFold (Method request) ''CONNECT''"
  shows "\<exists>out seen c. writeBufferedHTTPResponse bufferWriter noFlush w r (Method request) = (False, None, w @ out, c) \<and>
    readHTTPResponse (out @ rest, e) defaultHTTPLimits (Method request) = Inr (seen, (rest, e)) \<and>
    StatusCode seen = StatusCode r \<and> StatusCode seen \<in> {200, 404, 405, 500} \<and>
    (StatusCode seen = 405 \<longleftrightarrow> Method request \<noteq> ''GET'') \<and>
    Values (RespHeaders seen) ''X-Content-Type-Options'' = [''nosniff'']"
proof -
  let ?a = "adminResponse html metrics request"
  note f = adminResponse_fields [of html metrics request, unfolded adminFieldsOk_def]
  have status: "StatusCode ?a \<in> {200, 404, 405, 500}" "StatusCode ?a = 405 \<longleftrightarrow> Method request \<noteq> ''GET''"
    by (cases metrics; auto simp: adminResponse_def okResponse_def textResponse_def hardenAdminResponse_def Let_def)+
  have shape: "RespVersion ?a = httpVersion11" "Reason ?a = []" "RespTrailers ?a = []" "RespBodyMode ?a = bodyModeFixed"
    "length (RespBody ?a) \<le> 8 * 1024 * 1024"
    using assms(2,3)
    by (cases metrics; simp add: adminResponse_def okResponse_def textResponse_def hardenAdminResponse_def Let_def)+
  have pl: "plain r" using f status(1) shape by (auto simp: plain_def assms(1))
  note ex = plain_exchange [OF pl assms(4)]
  have t: "tokenNames (RespHeaders r)" using pl by (auto simp: plain_def wfField_def list_all_iff)
  have n: "ToLower ''X-Content-Type-Options'' \<notin> {''content-length'', ''transfer-encoding'', ''trailer''}"
    "\<not> EqualFold ''Connection'' ''X-Content-Type-Options''" by code_simp+
  have "Values (RespHeaders (receivedResponse r (Method request))) ''X-Content-Type-Options'' = [''nosniff'']"
    unfolding ex(3) Values_responseFields [OF t n(1)] using f n(2) by (simp add: responseBase_def assms(1))
  then show ?thesis
    using ex(1) [of w] ex(2) [of rest e] status by (auto simp: receivedResponse_def assms(1))
qed

lemma admin_response_readable_instance:
  "\<exists>out seen c. writeBufferedHTTPResponse bufferWriter noFlush []
       ((adminResponse ''<html>'' (Inr ''{}'') (resumeRequest ''1''))\<lparr>RespClose := True, RespKeepAlive := \<not> True\<rparr>) ''GET'' =
      (False, None, out, c) \<and>
    readHTTPResponse (out, IoEOF) defaultHTTPLimits ''GET'' = Inr (seen, ([], IoEOF)) \<and> StatusCode seen = 404"
proof -
  let ?q = "resumeRequest ''1''"
  let ?r = "(adminResponse ''<html>'' (Inr ''{}'') ?q)\<lparr>RespClose := True, RespKeepAlive := \<not> True\<rparr>"
  have q: "Method ?q = ''GET''" "\<not> EqualFold (Method ?q) ''CONNECT''" "StatusCode ?r = 404" by code_simp+
  obtain out seen c where "writeBufferedHTTPResponse bufferWriter noFlush [] ?r (Method ?q) = (False, None, [] @ out, c)"
      "readHTTPResponse (out @ [], IoEOF) defaultHTTPLimits (Method ?q) = Inr (seen, ([], IoEOF))"
      "StatusCode seen = StatusCode ?r"
    using admin_response_readable [where html = "''<html>''" and metrics = "Inr ''{}''" and closing = True and
        w = "[]" and rest = "[]" and e = IoEOF, OF refl _ _ q(2)] by auto
  then show ?thesis unfolding q(1,3) by auto
qed

end
