(* ===== verification/Benchmark.thy ===== *)
theory Benchmark
  imports Scenario Server_Config Proxy Snapshots
begin

text \<open>
  \<^verbatim>\<open>src/src/benchmark.go\<close>: the load generator. One request of a worker is a function of what the network
  does during it; the producer and the workers are a step relation over the shared counters, whose
  steps are the atomic operations of the code. The rate limiter only delays the producer and is
  not modelled; time is a parameter.
\<close>

subsection \<open>Configuration\<close>

record benchmarkConfig =
  BmAddress :: string
  BmAuthority :: string
  BmMethod :: string
  BmPath :: string
  BmWorkers :: int
  BmMaxRequests :: int
  BmRatePerSecond :: int
  BmDuration :: duration
  BmTimeout :: duration
  BmLimits :: httpLimits
  BmDialContext :: bool

definition benchmarkConfig_setDefaults :: "benchmarkConfig \<Rightarrow> benchmarkConfig" where
  "benchmarkConfig_setDefaults c =
     c\<lparr>BmMethod := (if BmMethod c = [] then ''GET'' else BmMethod c),
       BmPath := (if BmPath c = [] then ''/'' else BmPath c),
       BmAuthority := (if BmAuthority c = [] then BmAddress c else BmAuthority c),
       BmLimits := (if MaxStartLineBytes (BmLimits c) = 0 then defaultHTTPLimits else BmLimits c),
       BmDialContext := True\<rparr>"

definition benchmarkConfig_validate :: "benchmarkConfig \<Rightarrow> string + unit" where
  "benchmarkConfig_validate c =
     (case SplitHostPort (BmAddress c) of
        None \<Rightarrow> Inl ''benchmark address must be host:port''
      | Some (host, portText) \<Rightarrow>
          if host = [] then Inl ''benchmark address must be host:port''
          else if (case Atoi portText of None \<Rightarrow> True | Some port \<Rightarrow> port < 1 \<or> port > 65535)
            then Inl ''benchmark port must be between 1 and 65535''
          else if \<not> validHost (BmAuthority c) \<or> (BmMethod c \<noteq> ''GET'' \<and> BmMethod c \<noteq> ''HEAD'') \<or>
                  \<not> validScenarioPath (BmPath c)
            then Inl ''benchmark authority, method, or path is invalid''
          else if BmWorkers c \<le> 0 \<or> BmWorkers c > maxExperimentWorkers \<or> BmMaxRequests c \<le> 0 \<or>
                  BmMaxRequests c > maxExperimentRequests
            then Inl ''benchmark workers or request bound is invalid''
          else if BmRatePerSecond c < 0 \<or> BmRatePerSecond c > 10000 \<or> BmDuration c \<le> 0 \<or>
                  BmDuration c > maxExperimentDuration \<or> BmTimeout c \<le> 0 \<or> BmTimeout c > 60 * second
            then Inl ''benchmark rate, duration, or timeout is invalid''
          else andThen (httpLimits_validate (BmLimits c)) (\<lambda>_.
            if \<not> BmDialContext c then Inl ''benchmark dial function is required'' else Inr ()))"

subsection \<open>Counters\<close>

record benchmarkCounters =
  bmOffered :: u64
  bmCompleted :: u64
  bmRequestBytes :: u64
  bmResponseBytes :: u64
  bmNewConnections :: u64
  bmReusedRequests :: u64
  bmInFlight :: int
  bmPeakInFlight :: int
  bmLatency :: latencyHistogram
  bmStatuses :: "string \<rightharpoonup> u64"
  bmErrors :: "string \<rightharpoonup> u64"

definition newCounters :: benchmarkCounters where
  "newCounters =
     \<lparr>bmOffered = 0, bmCompleted = 0, bmRequestBytes = 0, bmResponseBytes = 0, bmNewConnections = 0,
      bmReusedRequests = 0, bmInFlight = 0, bmPeakInFlight = 0,
      bmLatency = replicate (length latencyUpperBoundsMicros + 1) 0, bmStatuses = Map.empty,
      bmErrors = Map.empty\<rparr>"

text \<open>\<^verbatim>\<open>m[k]++\<close>\<close>

definition countKey :: "string \<Rightarrow> (string \<rightharpoonup> u64) \<Rightarrow> (string \<rightharpoonup> u64)" where
  "countKey k m = m(k \<mapsto> (case m k of None \<Rightarrow> 0 | Some n \<Rightarrow> n) + 1)"

definition bmRecordStatus :: "int \<Rightarrow> duration \<Rightarrow> benchmarkCounters \<Rightarrow> benchmarkCounters" where
  "bmRecordStatus status d c =
     c\<lparr>bmCompleted := bmCompleted c + 1, bmLatency := observe d (bmLatency c),
       bmStatuses := countKey (Itoa (nat status)) (bmStatuses c)\<rparr>"

definition bmRecordError :: "string \<Rightarrow> duration \<Rightarrow> benchmarkCounters \<Rightarrow> benchmarkCounters" where
  "bmRecordError kind d c =
     c\<lparr>bmCompleted := bmCompleted c + 1, bmLatency := observe d (bmLatency c),
       bmErrors := countKey kind (bmErrors c)\<rparr>"

definition recordAtomicPeak :: "int \<Rightarrow> benchmarkCounters \<Rightarrow> benchmarkCounters" where
  "recordAtomicPeak active c =
     (if active \<le> bmPeakInFlight c then c else c\<lparr>bmPeakInFlight := active\<rparr>)"

definition bmEnter :: "benchmarkCounters \<Rightarrow> benchmarkCounters" where
  "bmEnter c = c\<lparr>bmInFlight := bmInFlight c + 1\<rparr>"

definition bmLeave :: "benchmarkCounters \<Rightarrow> benchmarkCounters" where
  "bmLeave c = c\<lparr>bmInFlight := bmInFlight c - 1\<rparr>"

definition bmConnected :: "bool \<Rightarrow> benchmarkCounters \<Rightarrow> benchmarkCounters" where
  "bmConnected reused c =
     (if reused then c\<lparr>bmReusedRequests := bmReusedRequests c + 1\<rparr>
      else c\<lparr>bmNewConnections := bmNewConnections c + 1\<rparr>)"

definition bmTransferred :: "u64 \<Rightarrow> u64 \<Rightarrow> benchmarkCounters \<Rightarrow> benchmarkCounters" where
  "bmTransferred written read c =
     c\<lparr>bmRequestBytes := bmRequestBytes c + written, bmResponseBytes := bmResponseBytes c + read\<rparr>"

definition bmOffer :: "benchmarkCounters \<Rightarrow> benchmarkCounters" where
  "bmOffer c = c\<lparr>bmOffered := bmOffered c + 1\<rparr>"

subsection \<open>Errors\<close>

fun protocolKindName :: "protocolErrorKind \<Rightarrow> string" where
  "protocolKindName protocolMalformedStartLine = ''malformed_start_line''"
| "protocolKindName protocolUnsupportedVersion = ''unsupported_version''"
| "protocolKindName protocolUnsupportedTarget = ''unsupported_target''"
| "protocolKindName protocolUnsupportedFeature = ''unsupported_feature''"
| "protocolKindName protocolMalformedHeader = ''malformed_header''"
| "protocolKindName protocolMissingHost = ''missing_host''"
| "protocolKindName protocolAmbiguousFraming = ''ambiguous_framing''"
| "protocolKindName protocolInvalidContentLength = ''invalid_content_length''"
| "protocolKindName protocolUnsupportedTransferCoding = ''unsupported_transfer_coding''"
| "protocolKindName protocolInvalidChunk = ''invalid_chunk''"
| "protocolKindName protocolLimitExceeded = ''limit_exceeded''"
| "protocolKindName protocolBodyTooLarge = ''body_too_large''"
| "protocolKindName protocolIncompleteMessage = ''incomplete_message''"
| "protocolKindName protocolTimeout = ''timeout''"
| "protocolKindName protocolInvalidGeneratedMessage = ''invalid_generated_message''"

text \<open>
  An error of a request: that of the dialler, with whether it is the context's cancellation, whether
  it is a network timeout and its text, or that of the writer or reader.
\<close>

datatype benchError = DialErr bool bool string | ExchangeErr http_error

fun ioMessage :: "io_error \<Rightarrow> string" where
  "ioMessage IoEOF = ''EOF''"
| "ioMessage IoUnexpectedEOF = ''unexpected EOF''"
| "ioMessage IoTimeout = ''i/o timeout''"
| "ioMessage IoShortWrite = ''short write''"
| "ioMessage (IoOther s) = s"

fun classifyBenchmarkError :: "string \<Rightarrow> benchError \<Rightarrow> string" where
  "classifyBenchmarkError operation (DialErr canceled timeout message) =
     (if canceled then ''canceled''
      else if timeout then operation @ ''_timeout''
      else if Contains (ToLower message) ''refused'' then ''connection_refused''
      else operation @ ''_failure'')"
| "classifyBenchmarkError operation (ExchangeErr (ProtocolErr e)) =
     (if Err e = Some IoTimeout \<or> Kind e = protocolTimeout then operation @ ''_timeout''
      else ''protocol_'' @ protocolKindName (Kind e))"
| "classifyBenchmarkError operation (ExchangeErr (RawError e)) =
     (if e = IoTimeout then operation @ ''_timeout''
      else if Contains (ToLower (ioMessage e)) ''refused'' then ''connection_refused''
      else operation @ ''_failure'')"

text \<open>\<open>k\<close> counts the informational responses still allowed.\<close>

fun readFinalBenchmarkResponse :: "nat \<Rightarrow> reader \<Rightarrow> httpLimits \<Rightarrow> string \<Rightarrow> http_error + httpResponse" where
  "readFinalBenchmarkResponse k reader limits m =
     (case readHTTPResponse reader limits m of
        Inl err \<Rightarrow> Inl err
      | Inr (response, reader') \<Rightarrow>
          if StatusCode response < 100 \<or> StatusCode response \<ge> 200 then Inr response
          else (case k of
                  0 \<Rightarrow> Inl (RawError (IoOther ''too many informational responses''))
                | Suc k' \<Rightarrow> readFinalBenchmarkResponse k' reader' limits m))"

declare readFinalBenchmarkResponse.simps [simp del]

subsection \<open>A worker\<close>

text \<open>
  What the network does during one request: the context's state before it, the dialler's answer, the
  connection's two directions, the bytes counted on the socket and the time it took.
\<close>

record 'w benchNet =
  bnDone :: bool
  bnDial :: "benchError option"
  bnWriter :: "'w writer"
  bnFlush :: "'w \<Rightarrow> io_error option \<times> 'w"
  bnState :: 'w
  bnReader :: reader
  bnWritten :: u64
  bnRead :: u64
  bnTook :: duration

definition benchmarkRequest :: "benchmarkConfig \<Rightarrow> httpRequest" where
  "benchmarkRequest c =
     \<lparr>Method = BmMethod c, Target = BmPath c, ReqVersion = httpVersion11,
      ReqHeaders = [hf ''Host'' (BmAuthority c)], ReqTrailers = [], ReqBody = [],
      ReqBodyMode = bodyModeNone, ReqKeepAlive = True, RemoteAddr = []\<rparr>"

definition benchExchange :: "'w benchNet \<Rightarrow> benchmarkConfig \<Rightarrow> string \<times> (http_error + httpResponse)" where
  "benchExchange net c =
     (case writeHTTPRequest (bnWriter net) (bnState net) (benchmarkRequest c) of
        (Some err, w) \<Rightarrow> (''write'', Inl err)
      | (None, w) \<Rightarrow>
          (case fst (bnFlush net w) of
             Some e \<Rightarrow> (''write'', Inl (RawError e))
           | None \<Rightarrow>
               (''read'', readFinalBenchmarkResponse maxInformationalResponses (bnReader net) (BmLimits c) (BmMethod c))))"

text \<open>The outcome of a request, and whether its connection is kept.\<close>

datatype benchOutcome = BenchStatus int | BenchError string

definition benchOutcome_of :: "string \<times> (http_error + httpResponse) \<Rightarrow> benchOutcome \<times> bool" where
  "benchOutcome_of x =
     (case snd x of
        Inl err \<Rightarrow> (BenchError (classifyBenchmarkError (fst x) (ExchangeErr err)), False)
      | Inr response \<Rightarrow>
          (BenchStatus (StatusCode response),
           \<not> (\<not> RespKeepAlive response \<or> RespClose response \<or> RespBodyMode response = bodyModeCloseDelimited)))"

fun bmRecord :: "benchOutcome \<Rightarrow> duration \<Rightarrow> benchmarkCounters \<Rightarrow> benchmarkCounters" where
  "bmRecord (BenchStatus status) d c = bmRecordStatus status d c"
| "bmRecord (BenchError kind) d c = bmRecordError kind d c"

text \<open>The loop over the jobs; \<open>held\<close> says whether the worker holds a connection.\<close>

fun runBenchmarkWorker ::
    "'w benchNet list \<Rightarrow> benchmarkConfig \<Rightarrow> bool \<Rightarrow> benchmarkCounters \<Rightarrow> benchmarkCounters" where
  "runBenchmarkWorker [] c held k = k"
| "runBenchmarkWorker (net # nets) c held k =
     (if bnDone net then k
      else
        (let c1 = bmEnter k;
             c2 = recordAtomicPeak (bmInFlight c1) c1 in
         case (if held then None else bnDial net) of
           Some err \<Rightarrow>
             runBenchmarkWorker nets c False
               (bmLeave (bmRecord (BenchError (classifyBenchmarkError ''dial'' err)) (bnTook net) c2))
         | None \<Rightarrow>
             (let c3 = bmConnected held c2;
                  (oc, keep) = benchOutcome_of (benchExchange net c);
                  c4 = bmTransferred (bnWritten net) (bnRead net) c3 in
              runBenchmarkWorker nets c keep (bmLeave (bmRecord oc (bnTook net) c4)))))"

record benchmarkResult =
  OfferedRequests :: u64
  BrCompleted :: u64
  StatusCounts :: "string \<rightharpoonup> u64"
  ErrorCounts :: "string \<rightharpoonup> u64"
  BrRequestBytes :: u64
  BrResponseBytes :: u64
  NewConnections :: u64
  ReusedRequests :: u64
  PeakInFlight :: int
  BrElapsedMicros :: int
  RequestsPerSec :: rat
  BrLatency :: latencySnapshot

text \<open>The quotient of two floating point numbers is a parameter.\<close>

definition benchmarkResult_of ::
    "(rat \<Rightarrow> u64 \<Rightarrow> u64) \<Rightarrow> (u64 \<Rightarrow> duration \<Rightarrow> rat) \<Rightarrow> duration \<Rightarrow> benchmarkCounters \<Rightarrow> benchmarkResult" where
  "benchmarkResult_of target rateOf elapsed c =
     \<lparr>OfferedRequests = bmOffered c, BrCompleted = bmCompleted c, StatusCounts = bmStatuses c,
      ErrorCounts = bmErrors c, BrRequestBytes = bmRequestBytes c, BrResponseBytes = bmResponseBytes c,
      NewConnections = bmNewConnections c, ReusedRequests = bmReusedRequests c,
      PeakInFlight = bmPeakInFlight c, BrElapsedMicros = max (Microseconds elapsed) 0,
      RequestsPerSec = (if elapsed > 0 then rateOf (bmCompleted c) elapsed else 0),
      BrLatency = latencySnapshot_of target (bmLatency c)\<rparr>"

subsection \<open>The producer and the workers\<close>

text \<open>
  Where the producer stands: before the next send, after a send whose offer is not yet counted, and
  with the channel closed. Where a worker stands: waiting for a job, with a job taken, counted in
  flight, with the peak recorded, connected, with the bytes counted, with the outcome recorded, and
  returned. \<open>outcomes\<close> lists what has been recorded; \<open>dropped\<close> counts the jobs that a worker took and did
  not run because the context was done.
\<close>

datatype producerPhase = Offering | Counting | ClosedJobs

datatype benchPhase = Waiting | Taken | Entered int | Peaked | Connected | Transferred | Recorded | WorkerGone

record benchSys =
  bsConfig :: benchmarkConfig
  bsCounters :: benchmarkCounters
  bsProducer :: producerPhase
  bsSent :: nat
  bsQueued :: nat
  bsDone :: bool
  bsWorkers :: "benchPhase list"
  bsOutcomes :: "benchOutcome list"
  bsDropped :: nat

definition benchStart :: "benchmarkConfig \<Rightarrow> benchSys" where
  "benchStart c = \<lparr>bsConfig = c, bsCounters = newCounters, bsProducer = Offering, bsSent = 0, bsQueued = 0,
     bsDone = False, bsWorkers = replicate (nat (BmWorkers c)) Waiting, bsOutcomes = [], bsDropped = 0\<rparr>"

inductive benchStep :: "benchSys \<Rightarrow> benchSys \<Rightarrow> bool" where
  bench_done: "\<not> bsDone s \<Longrightarrow> benchStep s (s\<lparr>bsDone := True\<rparr>)"
| bench_send: "bsProducer s = Offering \<Longrightarrow> int (bsSent s) < BmMaxRequests (bsConfig s) \<Longrightarrow>
    int (bsQueued s) < BmWorkers (bsConfig s) \<Longrightarrow>
    benchStep s (s\<lparr>bsProducer := Counting, bsSent := bsSent s + 1, bsQueued := bsQueued s + 1\<rparr>)"
| bench_offer: "bsProducer s = Counting \<Longrightarrow>
    benchStep s (s\<lparr>bsProducer := Offering, bsCounters := bmOffer (bsCounters s)\<rparr>)"
| bench_close: "bsProducer s = Offering \<Longrightarrow> bsDone s \<or> int (bsSent s) = BmMaxRequests (bsConfig s) \<Longrightarrow>
    benchStep s (s\<lparr>bsProducer := ClosedJobs\<rparr>)"
| bench_take: "bsWorkers s = xs @ Waiting # ys \<Longrightarrow> bsQueued s = Suc n \<Longrightarrow>
    benchStep s (s\<lparr>bsQueued := n, bsWorkers := xs @ Taken # ys\<rparr>)"
| bench_finished: "bsWorkers s = xs @ Waiting # ys \<Longrightarrow> bsQueued s = 0 \<Longrightarrow> bsProducer s = ClosedJobs \<Longrightarrow>
    benchStep s (s\<lparr>bsWorkers := xs @ WorkerGone # ys\<rparr>)"
| bench_drop: "bsWorkers s = xs @ Taken # ys \<Longrightarrow> bsDone s \<Longrightarrow>
    benchStep s (s\<lparr>bsDropped := bsDropped s + 1, bsWorkers := xs @ WorkerGone # ys\<rparr>)"
| bench_enter: "bsWorkers s = xs @ Taken # ys \<Longrightarrow> c = bmEnter (bsCounters s) \<Longrightarrow>
    benchStep s (s\<lparr>bsCounters := c, bsWorkers := xs @ Entered (bmInFlight c) # ys\<rparr>)"
| bench_peak: "bsWorkers s = xs @ Entered active # ys \<Longrightarrow>
    benchStep s (s\<lparr>bsCounters := recordAtomicPeak active (bsCounters s), bsWorkers := xs @ Peaked # ys\<rparr>)"
| bench_dial_failed: "bsWorkers s = xs @ Peaked # ys \<Longrightarrow> oc = BenchError kind \<Longrightarrow>
    benchStep s (s\<lparr>bsCounters := bmRecord oc took (bsCounters s), bsOutcomes := bsOutcomes s @ [oc],
      bsWorkers := xs @ Recorded # ys\<rparr>)"
| bench_connected: "bsWorkers s = xs @ Peaked # ys \<Longrightarrow>
    benchStep s (s\<lparr>bsCounters := bmConnected reused (bsCounters s), bsWorkers := xs @ Connected # ys\<rparr>)"
| bench_transferred: "bsWorkers s = xs @ Connected # ys \<Longrightarrow>
    benchStep s (s\<lparr>bsCounters := bmTransferred written read (bsCounters s), bsWorkers := xs @ Transferred # ys\<rparr>)"
| bench_recorded: "bsWorkers s = xs @ Transferred # ys \<Longrightarrow>
    benchStep s (s\<lparr>bsCounters := bmRecord oc took (bsCounters s), bsOutcomes := bsOutcomes s @ [oc],
      bsWorkers := xs @ Recorded # ys\<rparr>)"
| bench_leave: "bsWorkers s = xs @ Recorded # ys \<Longrightarrow>
    benchStep s (s\<lparr>bsCounters := bmLeave (bsCounters s), bsWorkers := xs @ Waiting # ys\<rparr>)"

inductive benchReach :: "benchmarkConfig \<Rightarrow> benchSys \<Rightarrow> bool" for c where
  bench_new: "benchmarkConfig_validate c = Inr () \<Longrightarrow> benchReach c (benchStart c)"
| bench_step: "benchReach c s \<Longrightarrow> benchStep s s' \<Longrightarrow> benchReach c s'"


subsection \<open>What the counters count\<close>

fun busy :: "benchPhase \<Rightarrow> bool" where
  "busy (Entered active) = True"
| "busy Peaked = True"
| "busy Connected = True"
| "busy Transferred = True"
| "busy Recorded = True"
| "busy _ = False"

text \<open>A worker holds a job it has neither recorded nor dropped.\<close>

fun holdsJob :: "benchPhase \<Rightarrow> bool" where
  "holdsJob Taken = True"
| "holdsJob (Entered active) = True"
| "holdsJob Peaked = True"
| "holdsJob Connected = True"
| "holdsJob Transferred = True"
| "holdsJob _ = False"

fun hasStatus :: "string \<Rightarrow> benchOutcome \<Rightarrow> bool" where
  "hasStatus k (BenchStatus status) \<longleftrightarrow> Itoa (nat status) = k"
| "hasStatus k (BenchError kind) \<longleftrightarrow> False"

fun hasError :: "string \<Rightarrow> benchOutcome \<Rightarrow> bool" where
  "hasError k (BenchStatus status) \<longleftrightarrow> False"
| "hasError k (BenchError kind) \<longleftrightarrow> kind = k"

definition occurrences :: "('a \<Rightarrow> bool) \<Rightarrow> 'a list \<Rightarrow> u64 option" where
  "occurrences p xs = (if filter p xs = [] then None else Some (of_nat (length (filter p xs))))"

lemma countKey_occurrences:
  assumes "\<And>k. m k = occurrences (p k) xs" "\<And>k. p k x \<longleftrightarrow> k = k0"
  shows "countKey k0 m k = occurrences (p k) (xs @ [x])"
  using assms by (auto simp: countKey_def occurrences_def add.commute)

lemma occurrences_other:
  assumes "\<not> p x"
  shows "occurrences p (xs @ [x]) = occurrences p xs"
  using assms by (simp add: occurrences_def)

definition tallied :: "benchOutcome list \<Rightarrow> benchmarkCounters \<Rightarrow> bool" where
  "tallied os c \<longleftrightarrow>
     bmCompleted c = of_nat (length os) \<and>
     length (bmLatency c) = length latencyUpperBoundsMicros + 1 \<and>
     sum_list (bmLatency c) = of_nat (length os) \<and>
     (\<forall>k. bmStatuses c k = occurrences (hasStatus k) os) \<and>
     (\<forall>k. bmErrors c k = occurrences (hasError k) os)"

lemma tallied_new: "tallied [] newCounters"
  by (simp add: tallied_def newCounters_def occurrences_def sum_list_replicate)

lemma tallied_record:
  assumes "tallied os c"
  shows "tallied (os @ [x]) (bmRecord x d c)"
proof -
  have h: "length (observe d (bmLatency c)) = length (bmLatency c) \<and>
      sum_list (observe d (bmLatency c)) = sum_list (bmLatency c) + 1"
    using assms observe_total [of "bmLatency c" d] by (simp add: tallied_def)
  show ?thesis
  proof (cases x)
    case (BenchStatus status)
    have "countKey (Itoa (nat status)) (bmStatuses c) k = occurrences (hasStatus k) (os @ [x])" for k
      using assms BenchStatus by (intro countKey_occurrences) (auto simp: tallied_def)
    then show ?thesis using assms h BenchStatus
      by (simp add: tallied_def bmRecord.simps bmRecordStatus_def occurrences_other)
  next
    case (BenchError kind)
    have "countKey kind (bmErrors c) k = occurrences (hasError k) (os @ [x])" for k
      using assms BenchError by (intro countKey_occurrences) (auto simp: tallied_def)
    then show ?thesis using assms h BenchError
      by (simp add: tallied_def bmRecord.simps bmRecordError_def occurrences_other)
  qed
qed

lemma tallied_same:
  assumes "tallied os c" "bmCompleted c' = bmCompleted c" "bmLatency c' = bmLatency c"
    "bmStatuses c' = bmStatuses c" "bmErrors c' = bmErrors c"
  shows "tallied os c'"
  using assms by (simp add: tallied_def)

declare bmRecord.simps [simp del]

lemma bm_frame [simp]:
  "bmOffered (bmRecord x d c) = bmOffered c"
  "bmInFlight (bmRecord x d c) = bmInFlight c"
  "bmPeakInFlight (bmRecord x d c) = bmPeakInFlight c"
  by (cases x; simp add: bmRecord.simps bmRecordStatus_def bmRecordError_def)+

subsection \<open>The invariant of a run\<close>

definition benchInv :: "benchmarkConfig \<Rightarrow> benchSys \<Rightarrow> bool" where
  "benchInv c s \<longleftrightarrow>
     bsConfig s = c \<and> length (bsWorkers s) = nat (BmWorkers c) \<and>
     tallied (bsOutcomes s) (bsCounters s) \<and>
     bmInFlight (bsCounters s) = int (length (filter busy (bsWorkers s))) \<and>
     (\<forall>p\<in>set (bsWorkers s). \<forall>a. p = Entered a \<longrightarrow> a \<le> BmWorkers c) \<and>
     bmPeakInFlight (bsCounters s) \<le> BmWorkers c"

definition offerInv :: "benchSys \<Rightarrow> bool" where
  "offerInv s \<longleftrightarrow>
     bmOffered (bsCounters s) + (if bsProducer s = Counting then 1 else 0) = of_nat (bsSent s)"

definition sentInv :: "benchSys \<Rightarrow> bool" where
  "sentInv s \<longleftrightarrow>
     int (bsSent s) \<le> BmMaxRequests (bsConfig s) \<and> int (bsQueued s) \<le> BmWorkers (bsConfig s) \<and>
     (bsProducer s = ClosedJobs \<longrightarrow> bsDone s \<or> int (bsSent s) = BmMaxRequests (bsConfig s))"

definition jobsInv :: "benchSys \<Rightarrow> bool" where
  "jobsInv s \<longleftrightarrow>
     bsSent s = bsQueued s + length (filter holdsJob (bsWorkers s)) + length (bsOutcomes s) + bsDropped s"

definition droppedInv :: "benchSys \<Rightarrow> bool" where
  "droppedInv s \<longleftrightarrow>
     bsDropped s \<le> length (filter ((=) WorkerGone) (bsWorkers s)) \<and>
     (\<not> bsDone s \<longrightarrow> bsDropped s = 0) \<and>
     (\<not> bsDone s \<longrightarrow> WorkerGone \<in> set (bsWorkers s) \<longrightarrow> bsProducer s = ClosedJobs \<and> bsQueued s = 0)"

lemma busy_below:
  assumes "bsWorkers s = xs @ Taken # ys" "length (bsWorkers s) = nat n"
  shows "int (length (filter busy xs)) + int (length (filter busy ys)) + 1 \<le> n"
proof -
  have "length (filter busy xs) \<le> length xs" "length (filter busy ys) \<le> length ys" by simp_all
  moreover have "length xs + length ys + 1 = nat n" using assms by simp
  ultimately show ?thesis by linarith
qed

lemma benchInv_step:
  assumes "benchInv c s" "benchStep s s'"
  shows "benchInv c s'"
  using assms(2,1)
proof (cases rule: benchStep.cases)
  case (bench_enter xs ys k)
  then show ?thesis using assms(1) busy_below [of s xs ys "BmWorkers c"]
    by (auto simp: benchInv_def bmEnter_def intro: tallied_same)
qed (auto simp: benchInv_def bmOffer_def recordAtomicPeak_def bmConnected_def bmTransferred_def
      bmLeave_def tallied_record intro: tallied_same)

lemma offerInv_step:
  assumes "benchStep s s'" "offerInv s"
  shows "offerInv s'"
  using assms
  by (cases rule: benchStep.cases)
    (auto simp: offerInv_def recordAtomicPeak_def bmConnected_def bmTransferred_def
      bmLeave_def bmEnter_def bmOffer_def add.commute)

lemma sentInv_step:
  assumes "benchStep s s'" "sentInv s"
  shows "sentInv s'"
  using assms by (cases rule: benchStep.cases) (auto simp: sentInv_def)

lemma jobsInv_step:
  assumes "benchStep s s'" "jobsInv s"
  shows "jobsInv s'"
  using assms(1)
  by (cases rule: benchStep.cases) (use assms(2) in \<open>simp_all add: jobsInv_def\<close>)

lemma droppedInv_step:
  assumes "benchStep s s'" "droppedInv s"
  shows "droppedInv s'"
  using assms(1)
  by (cases rule: benchStep.cases) (use assms(2) in \<open>auto simp: droppedInv_def\<close>)

lemma benchReach_inv:
  assumes "benchReach c s"
  shows "benchmarkConfig_validate c = Inr () \<and> benchInv c s \<and> offerInv s \<and> sentInv s \<and> jobsInv s \<and> droppedInv s"
  using assms
proof (induction rule: benchReach.induct)
  case bench_new
  then have "BmWorkers c > 0" "BmMaxRequests c > 0"
    by (auto simp: benchmarkConfig_validate_def split: option.splits if_splits)
  then show ?case using bench_new tallied_new
    by (simp add: benchInv_def offerInv_def sentInv_def jobsInv_def droppedInv_def benchStart_def
        newCounters_def)
next
  case (bench_step s s')
  then show ?case
    using benchInv_step offerInv_step sentInv_step jobsInv_step droppedInv_step by blast
qed

lemma validBounds:
  assumes "benchmarkConfig_validate c = Inr ()"
  shows "0 < BmWorkers c \<and> BmWorkers c \<le> 64 \<and> 0 < BmMaxRequests c \<and> BmMaxRequests c \<le> 100000"
  using assms
  by (auto simp: benchmarkConfig_validate_def maxExperimentWorkers_def maxExperimentRequests_def
      split: option.splits if_splits)

subsection \<open>Reachable states\<close>

lemma benchReach_bounds:
  assumes "benchReach c s"
  shows "length (bsOutcomes s) \<le> bsSent s \<and> int (bsSent s) \<le> BmMaxRequests c \<and> bsSent s \<le> 100000"
  using benchReach_inv [OF assms] validBounds [of c]
  by (auto simp: jobsInv_def sentInv_def benchInv_def)

lemma filter_workers:
  assumes "benchReach c s"
  shows "int (length (filter p (bsWorkers s))) \<le> BmWorkers c"
proof -
  have "int (length (bsWorkers s)) = BmWorkers c"
    using benchReach_inv [OF assms] validBounds [of c] by (auto simp: benchInv_def)
  moreover have "length (filter p (bsWorkers s)) \<le> length (bsWorkers s)" by (rule length_filter_le)
  ultimately show ?thesis by linarith
qed

lemma unat_bounded: "n \<le> 100000 \<Longrightarrow> unat (of_nat n :: u64) = n"
  by (simp add: unat_of_nat take_bit_eq_mod)

lemma offered_nat:
  assumes "benchReach c s"
  shows "unat (bmOffered (bsCounters s)) = bsSent s - (if bsProducer s = Counting then 1 else 0)"
proof -
  have "offerInv s" "bsSent s \<le> 100000" using benchReach_inv [OF assms] benchReach_bounds [OF assms] by auto
  moreover have "bsProducer s = Counting \<Longrightarrow> bsSent s > 0"
    using assms by (induction rule: benchReach.induct) (auto simp: benchStart_def elim!: benchStep.cases)
  ultimately have "bmOffered (bsCounters s) =
      of_nat (bsSent s - (if bsProducer s = Counting then 1 else 0))"
    by (auto simp: offerInv_def of_nat_diff eq_diff_eq)
  then show ?thesis using \<open>bsSent s \<le> 100000\<close> by (simp add: unat_bounded)
qed


text \<open>
  When every worker has returned, nothing is in flight and the offered requests are those
  completed, those a worker took after the context was done and those still queued, at most twice the
  number of workers; and if the context was not done, exactly the configured number of requests was
  offered and completed.
\<close>

lemma bench_drained:
  assumes "benchReach c s" "\<forall>p\<in>set (bsWorkers s). p = WorkerGone" "bsProducer s = ClosedJobs"
  shows "bmInFlight (bsCounters s) = 0 \<and>
         unat (bmOffered (bsCounters s)) =
           unat (bmCompleted (bsCounters s)) + bsDropped s + bsQueued s \<and>
         int (bsDropped s + bsQueued s) \<le> 2 * BmWorkers c \<and>
         (\<not> bsDone s \<longrightarrow> int (unat (bmCompleted (bsCounters s))) = BmMaxRequests c \<and>
            bmOffered (bsCounters s) = bmCompleted (bsCounters s))"
proof -
  note inv = benchReach_inv [OF assms(1)]
  have none: "filter busy (bsWorkers s) = []" "filter holdsJob (bsWorkers s) = []"
    using assms(2) by (auto simp: filter_empty_conv)
  have completed: "unat (bmCompleted (bsCounters s)) = length (bsOutcomes s)"
    using inv benchReach_bounds [OF assms(1)] by (simp add: benchInv_def tallied_def unat_bounded)
  have offered: "unat (bmOffered (bsCounters s)) = bsSent s"
    using offered_nat [OF assms(1)] assms(3) by simp
  have jobs: "bsSent s = bsQueued s + length (bsOutcomes s) + bsDropped s"
    using inv none by (simp add: jobsInv_def)
  have "bsDropped s \<le> length (filter ((=) WorkerGone) (bsWorkers s))" "int (bsQueued s) \<le> BmWorkers c"
    using inv by (auto simp: droppedInv_def sentInv_def benchInv_def)
  then have bound: "int (bsDropped s + bsQueued s) \<le> 2 * BmWorkers c"
    using filter_workers [OF assms(1), of "(=) WorkerGone"] by linarith
  have "bsWorkers s \<noteq> []" using inv validBounds [of c] by (auto simp: benchInv_def)
  then have "WorkerGone \<in> set (bsWorkers s)" using assms(2) by (cases "bsWorkers s") auto
  then have "\<not> bsDone s \<Longrightarrow> bsQueued s = 0 \<and> bsDropped s = 0 \<and> int (bsSent s) = BmMaxRequests c"
    using inv assms(3) by (auto simp: droppedInv_def sentInv_def benchInv_def)
  then show ?thesis using completed offered jobs bound inv none
    by (auto simp: benchInv_def word_unat_eq_iff)
qed

text \<open>A bound on the steps left.\<close>

fun phaseWork :: "benchPhase \<Rightarrow> nat" where
  "phaseWork Waiting = 1"
| "phaseWork Taken = 9"
| "phaseWork (Entered active) = 8"
| "phaseWork Peaked = 7"
| "phaseWork Connected = 6"
| "phaseWork Transferred = 5"
| "phaseWork Recorded = 4"
| "phaseWork WorkerGone = 0"

fun producerWork :: "producerPhase \<Rightarrow> nat" where
  "producerWork Offering = 1"
| "producerWork Counting = 2"
| "producerWork ClosedJobs = 0"

definition benchWork :: "benchSys \<Rightarrow> nat" where
  "benchWork s = (if bsDone s then 0 else 1) + 12 * nat (BmMaxRequests (bsConfig s) - int (bsSent s)) +
     producerWork (bsProducer s) + 10 * bsQueued s + sum_list (map phaseWork (bsWorkers s))"

lemma benchWork_step:
  assumes "benchStep s s'"
  shows "benchWork s' < benchWork s"
  using assms by (cases rule: benchStep.cases) (simp_all add: benchWork_def)

lemma benchWork_steps:
  assumes "(benchStep ^^ n) s s'"
  shows "n + benchWork s' \<le> benchWork s"
  using assms
proof (induction n arbitrary: s')
  case (Suc n)
  then obtain t where "(benchStep ^^ n) s t" "benchStep t s'" by auto
  then show ?case using Suc.IH [of t] benchWork_step [of t s'] by simp
qed simp

lemma worker_step:
  assumes "bsWorkers s = xs @ p # ys" "p \<noteq> WorkerGone"
    "p = Waiting \<longrightarrow> bsQueued s > 0 \<or> bsProducer s = ClosedJobs"
  shows "\<exists>s'. benchStep s s' \<and> bsDone s' = bsDone s"
proof (cases p)
  case Waiting
  then show ?thesis
  proof (cases "bsQueued s")
    case 0
    then show ?thesis using bench_finished [of s xs ys] assms Waiting by fastforce
  next
    case (Suc n)
    then show ?thesis using bench_take [of s xs ys n] assms Waiting by fastforce
  qed
next
  case Taken
  then show ?thesis using bench_enter [of s xs ys] assms by fastforce
next
  case (Entered active)
  then show ?thesis using bench_peak [of s xs active ys] assms by fastforce
next
  case Peaked
  then show ?thesis using bench_connected [of s xs ys] assms by fastforce
next
  case Connected
  then show ?thesis using bench_transferred [of s xs ys] assms by fastforce
next
  case Transferred
  then show ?thesis using bench_recorded [of s xs ys] assms by fastforce
next
  case Recorded
  then show ?thesis using bench_leave [of s xs ys] assms by fastforce
qed (use assms in simp)

lemma bench_progress:
  assumes "benchReach c s" "\<not> (bsProducer s = ClosedJobs \<and> (\<forall>p\<in>set (bsWorkers s). p = WorkerGone))"
  shows "\<exists>s'. benchStep s s' \<and> bsDone s' = bsDone s"
proof (cases "bsProducer s")
  case Counting
  then show ?thesis using bench_offer [of s] by fastforce
next
  case ClosedJobs
  then obtain p where "p \<in> set (bsWorkers s)" "p \<noteq> WorkerGone" using assms(2) by auto
  then show ?thesis using ClosedJobs worker_step [of s] by (metis split_list)
next
  case Offering
  note inv = benchReach_inv [OF assms(1)]
  then have cfg: "bsConfig s = c" "0 < BmWorkers c" "int (bsSent s) \<le> BmMaxRequests c"
    using validBounds [of c] by (auto simp: benchInv_def sentInv_def)
  show ?thesis
  proof (cases "bsDone s \<or> int (bsSent s) = BmMaxRequests c")
    case True
    then show ?thesis using bench_close [of s] Offering cfg by fastforce
  next
    case False
    then have sent: "int (bsSent s) < BmMaxRequests (bsConfig s)" "\<not> bsDone s" using cfg by auto
    show ?thesis
    proof (cases "int (bsQueued s) < BmWorkers (bsConfig s)")
      case True
      then show ?thesis using bench_send [of s] Offering sent by fastforce
    next
      case False
      then have queued: "bsQueued s > 0" using cfg by (cases "bsQueued s") auto
      have "bsWorkers s \<noteq> []" using inv cfg by (auto simp: benchInv_def)
      then obtain p ps where ps: "bsWorkers s = [] @ p # ps" by (cases "bsWorkers s") auto
      moreover have "p \<noteq> WorkerGone" using inv sent Offering ps by (auto simp: droppedInv_def)
      ultimately show ?thesis using worker_step [of s "[]" p ps] queued by blast
    qed
  qed
qed

lemma benchReach_steps:
  assumes "benchmarkConfig_validate c = Inr ()" "(benchStep ^^ n) (benchStart c) s"
  shows "benchReach c s"
  using assms(2)
proof (induction n arbitrary: s)
  case 0
  then show ?case using assms(1) bench_new by auto
next
  case (Suc n)
  then show ?case using bench_step by fastforce
qed

text \<open>
  C37: a run of the load generator ends: from its start no execution is longer than a bound
  given by the configured requests and workers, and in any reachable state in which the producer or a
  worker has not returned, a step is possible that does not need the context's end.
\<close>

theorem bench_terminates:
  assumes "benchmarkConfig_validate c = Inr ()" "(benchStep ^^ n) (benchStart c) s"
  shows "int n \<le> 12 * BmMaxRequests c + BmWorkers c + 2 \<and>
         (bsProducer s = ClosedJobs \<and> (\<forall>p\<in>set (bsWorkers s). p = WorkerGone) \<or>
          (\<exists>s'. benchStep s s' \<and> bsDone s' = bsDone s))"
proof -
  have "0 < BmWorkers c \<and> 0 < BmMaxRequests c" using validBounds [OF assms(1)] by simp
  then have "int (benchWork (benchStart c)) = 12 * BmMaxRequests c + BmWorkers c + 2"
    by (simp add: benchWork_def benchStart_def sum_list_replicate)
  then have "int n \<le> 12 * BmMaxRequests c + BmWorkers c + 2"
    using benchWork_steps [OF assms(2)] by linarith
  then show ?thesis using bench_progress [OF benchReach_steps [OF assms]] by blast
qed

subsection \<open>The worker's loop takes these steps\<close>

lemma taken_steps:
  assumes "bsWorkers s = xs @ Waiting # ys" "bsQueued s = Suc n"
  shows "benchStep\<^sup>*\<^sup>* s
    (s\<lparr>bsQueued := n,
       bsCounters := recordAtomicPeak (bmInFlight (bmEnter (bsCounters s))) (bmEnter (bsCounters s)),
       bsWorkers := xs @ Peaked # ys\<rparr>)"
proof -
  let ?taken = "s\<lparr>bsQueued := n, bsWorkers := xs @ Taken # ys\<rparr>"
  let ?c = "bmEnter (bsCounters s)"
  let ?entered = "?taken\<lparr>bsCounters := ?c, bsWorkers := xs @ Entered (bmInFlight ?c) # ys\<rparr>"
  have "benchStep s ?taken" using assms by (rule bench_take)
  moreover have "benchStep ?taken ?entered" by (rule bench_enter) simp_all
  moreover have "benchStep ?entered
      (?entered\<lparr>bsCounters := recordAtomicPeak (bmInFlight ?c) (bsCounters ?entered),
                bsWorkers := xs @ Peaked # ys\<rparr>)" by (rule bench_peak) simp
  ultimately show ?thesis
    by (auto intro: converse_rtranclp_into_rtranclp)
qed

lemma dial_failed_steps:
  assumes "bsWorkers s = xs @ Peaked # ys"
  shows "benchStep\<^sup>*\<^sup>* s
    (s\<lparr>bsOutcomes := bsOutcomes s @ [BenchError kind],
       bsCounters := bmLeave (bmRecord (BenchError kind) took (bsCounters s)), bsWorkers := xs @ Waiting # ys\<rparr>)"
proof -
  let ?recorded = "s\<lparr>bsCounters := bmRecord (BenchError kind) took (bsCounters s),
      bsOutcomes := bsOutcomes s @ [BenchError kind], bsWorkers := xs @ Recorded # ys\<rparr>"
  have "benchStep s ?recorded" using assms by (rule bench_dial_failed) simp
  moreover have "benchStep ?recorded
      (?recorded\<lparr>bsCounters := bmLeave (bsCounters ?recorded), bsWorkers := xs @ Waiting # ys\<rparr>)"
    by (rule bench_leave) simp
  ultimately show ?thesis by (auto intro: converse_rtranclp_into_rtranclp)
qed

lemma exchange_steps:
  assumes "bsWorkers s = xs @ Peaked # ys"
  shows "benchStep\<^sup>*\<^sup>* s
    (s\<lparr>bsOutcomes := bsOutcomes s @ [x],
       bsCounters := bmLeave (bmRecord x took (bmTransferred written read (bmConnected reused (bsCounters s)))),
       bsWorkers := xs @ Waiting # ys\<rparr>)"
proof -
  let ?s1 = "s\<lparr>bsCounters := bmConnected reused (bsCounters s), bsWorkers := xs @ Connected # ys\<rparr>"
  let ?s2 = "?s1\<lparr>bsCounters := bmTransferred written read (bsCounters ?s1), bsWorkers := xs @ Transferred # ys\<rparr>"
  let ?s3 = "?s2\<lparr>bsCounters := bmRecord x took (bsCounters ?s2), bsOutcomes := bsOutcomes ?s2 @ [x],
      bsWorkers := xs @ Recorded # ys\<rparr>"
  have "benchStep s ?s1" using assms by (rule bench_connected)
  moreover have "benchStep ?s1 ?s2" by (rule bench_transferred) simp
  moreover have "benchStep ?s2 ?s3" by (rule bench_recorded) simp
  moreover have "benchStep ?s3 (?s3\<lparr>bsCounters := bmLeave (bsCounters ?s3), bsWorkers := xs @ Waiting # ys\<rparr>)"
    by (rule bench_leave) simp
  ultimately show ?thesis by (auto intro: converse_rtranclp_into_rtranclp)
qed

lemma job_steps:
  assumes "bsWorkers s = xs @ Waiting # ys" "bsQueued s = Suc n" "\<not> bnDone net"
  shows "\<exists>s' keep. benchStep\<^sup>*\<^sup>* s s' \<and> bsWorkers s' = xs @ Waiting # ys \<and> bsQueued s' = n \<and>
    bsConfig s' = bsConfig s \<and>
    (\<forall>nets. runBenchmarkWorker (net # nets) (bsConfig s) held (bsCounters s) =
       runBenchmarkWorker nets (bsConfig s) keep (bsCounters s'))"
proof -
  let ?c = "recordAtomicPeak (bmInFlight (bmEnter (bsCounters s))) (bmEnter (bsCounters s))"
  let ?s1 = "s\<lparr>bsQueued := n, bsCounters := ?c, bsWorkers := xs @ Peaked # ys\<rparr>"
  have s1: "benchStep\<^sup>*\<^sup>* s ?s1" using assms by (intro taken_steps) simp_all
  show ?thesis
  proof (cases "if held then None else bnDial net")
    case (Some err)
    let ?x = "BenchError (classifyBenchmarkError ''dial'' err)"
    let ?s2 = "?s1\<lparr>bsOutcomes := bsOutcomes ?s1 @ [?x],
      bsCounters := bmLeave (bmRecord ?x (bnTook net) (bsCounters ?s1)), bsWorkers := xs @ Waiting # ys\<rparr>"
    have "benchStep\<^sup>*\<^sup>* ?s1 ?s2" by (rule dial_failed_steps) simp
    from rtranclp_trans [OF s1 this] show ?thesis
      using assms(3) Some by (intro exI [of _ ?s2] exI [of _ False]) (simp add: Let_def)
  next
    case None
    obtain x keep where x: "benchOutcome_of (benchExchange net (bsConfig s)) = (x, keep)" by force
    let ?s2 = "?s1\<lparr>bsOutcomes := bsOutcomes ?s1 @ [x],
      bsCounters := bmLeave (bmRecord x (bnTook net)
        (bmTransferred (bnWritten net) (bnRead net) (bmConnected held (bsCounters ?s1)))),
      bsWorkers := xs @ Waiting # ys\<rparr>"
    have "benchStep\<^sup>*\<^sup>* ?s1 ?s2" by (rule exchange_steps) simp
    from rtranclp_trans [OF s1 this] show ?thesis
      using assms(3) None x by (intro exI [of _ ?s2] exI [of _ keep]) (simp add: Let_def)
  qed
qed

text \<open>
  C38: the worker's loop refines the step relation: whatever the network does during the requests,
  the counters that the loop computes from the jobs it takes are those after some execution of the
  steps in which the other workers stand still.
\<close>

theorem worker_refines:
  assumes "bsWorkers s = xs @ Waiting # ys" "bsQueued s = length nets"
  shows "\<exists>s'. benchStep\<^sup>*\<^sup>* s s' \<and>
           bsCounters s' = runBenchmarkWorker nets (bsConfig s) held (bsCounters s) \<and>
           (\<exists>p. bsWorkers s' = xs @ p # ys)"
  using assms
proof (induction nets arbitrary: s held)
  case Nil
  then show ?case by auto
next
  case (Cons net nets)
  show ?case
  proof (cases "bnDone net")
    case True
    then show ?thesis using Cons.prems by auto
  next
    case False
    then obtain s1 keep where s1: "benchStep\<^sup>*\<^sup>* s s1" "bsWorkers s1 = xs @ Waiting # ys" "bsQueued s1 = length nets"
        "bsConfig s1 = bsConfig s" "runBenchmarkWorker (net # nets) (bsConfig s) held (bsCounters s) =
          runBenchmarkWorker nets (bsConfig s) keep (bsCounters s1)"
      using job_steps [of s xs ys "length nets" net held] Cons.prems by (metis length_Cons)
    from Cons.IH [OF s1(2,3), of keep] show ?thesis
      using s1(1,4,5) by (metis rtranclp_trans)
  qed
qed

subsection \<open>A run\<close>

definition benchSample :: benchmarkConfig where
  "benchSample = \<lparr>BmAddress = ''127.0.0.1:8080'', BmAuthority = ''127.0.0.1:8080'', BmMethod = ''GET'',
     BmPath = ''/'', BmWorkers = 1, BmMaxRequests = 1, BmRatePerSecond = 0, BmDuration = second,
     BmTimeout = second, BmLimits = defaultHTTPLimits, BmDialContext = True\<rparr>"

lemma benchSample_valid: "benchmarkConfig_validate benchSample = Inr ()"
  by code_simp

text \<open>One request is offered, taken, answered with status 200, and the worker returns.\<close>

definition benchSampleEnd :: benchSys where
  "benchSampleEnd = (benchStart benchSample)\<lparr>
     bsCounters := bmLeave (bmRecord (BenchStatus 200) 1000 (bmTransferred 52 38 (bmConnected False
       (recordAtomicPeak (bmInFlight (bmEnter (bmOffer newCounters))) (bmEnter (bmOffer newCounters)))))),
     bsProducer := ClosedJobs, bsSent := 1, bsWorkers := [WorkerGone], bsOutcomes := [BenchStatus 200]\<rparr>"

lemma benchReach_rtranclp:
  assumes "benchStep\<^sup>*\<^sup>* s s'" "benchReach c s"
  shows "benchReach c s'"
  using assms by (induction rule: rtranclp_induct) (auto intro: bench_step)

lemma benchSample_reach: "benchReach benchSample benchSampleEnd"
proof -
  let ?s0 = "benchStart benchSample"
  have b: "BmWorkers benchSample = 1" "BmMaxRequests benchSample = 1" by (simp_all add: benchSample_def)
  let ?s1 = "?s0\<lparr>bsProducer := Counting, bsSent := bsSent ?s0 + 1, bsQueued := bsQueued ?s0 + 1\<rparr>"
  let ?s2 = "?s1\<lparr>bsProducer := Offering, bsCounters := bmOffer (bsCounters ?s1)\<rparr>"
  let ?s3 = "?s2\<lparr>bsProducer := ClosedJobs\<rparr>"
  have r0: "benchReach benchSample ?s0" using benchSample_valid by (rule bench_new)
  have "benchStep ?s0 ?s1" by (rule bench_send) (simp_all add: benchStart_def b)
  with r0 have r1: "benchReach benchSample ?s1" by (rule bench_step)
  have "benchStep ?s1 ?s2" by (rule bench_offer) simp
  with r1 have r2: "benchReach benchSample ?s2" by (rule bench_step)
  have "benchStep ?s2 ?s3" by (rule bench_close) (simp_all add: benchStart_def b)
  with r2 have r3: "benchReach benchSample ?s3" by (rule bench_step)
  let ?c = "bmEnter (bsCounters ?s3)"
  let ?s4 = "?s3\<lparr>bsQueued := 0, bsCounters := recordAtomicPeak (bmInFlight ?c) ?c,
      bsWorkers := [] @ Peaked # []\<rparr>"
  have "benchStep\<^sup>*\<^sup>* ?s3 ?s4" by (rule taken_steps) (simp_all add: benchStart_def b)
  then have r4: "benchReach benchSample ?s4" using r3 by (rule benchReach_rtranclp)
  let ?s5 = "?s4\<lparr>bsOutcomes := bsOutcomes ?s4 @ [BenchStatus 200],
      bsCounters := bmLeave (bmRecord (BenchStatus 200) 1000 (bmTransferred 52 38
        (bmConnected False (bsCounters ?s4)))), bsWorkers := [] @ Waiting # []\<rparr>"
  have "benchStep\<^sup>*\<^sup>* ?s4 ?s5" by (rule exchange_steps) simp
  then have r5: "benchReach benchSample ?s5" using r4 by (rule benchReach_rtranclp)
  have "benchStep ?s5 (?s5\<lparr>bsWorkers := [] @ WorkerGone # []\<rparr>)" by (rule bench_finished) simp_all
  with r5 have "benchReach benchSample (?s5\<lparr>bsWorkers := [] @ WorkerGone # []\<rparr>)" by (rule bench_step)
  moreover have "?s5\<lparr>bsWorkers := [] @ WorkerGone # []\<rparr> = benchSampleEnd"
    by (simp add: benchSampleEnd_def benchStart_def)
  ultimately show ?thesis by (simp only:)
qed


lemma bench_drained_instance:
  "int (unat (bmCompleted (bsCounters benchSampleEnd))) = 1 \<and>
   bmOffered (bsCounters benchSampleEnd) = bmCompleted (bsCounters benchSampleEnd)"
  using bench_drained [OF benchSample_reach]
  by (simp add: benchSampleEnd_def benchStart_def benchSample_def)

theorem bench_terminates_witness:
  "\<exists>s'. benchStep (benchStart benchSample) s' \<and> \<not> bsDone s'"
  using bench_terminates [OF benchSample_valid, of 0 "benchStart benchSample"]
  by (auto simp: benchStart_def)

text \<open>A worker whose first dial is refused and whose second request is never run.\<close>

definition refusedNet :: "bool \<Rightarrow> string benchNet" where
  "refusedNet stopped = \<lparr>bnDone = stopped, bnDial = Some (DialErr False False ''connect: connection refused''),
     bnWriter = bufferWriter, bnFlush = (\<lambda>w. (None, w)), bnState = [], bnReader = ([], IoEOF),
     bnWritten = 0, bnRead = 0, bnTook = 1000\<rparr>"

theorem worker_refines_witness:
  "\<exists>s'. benchStep\<^sup>*\<^sup>* ((benchStart benchSample)\<lparr>bsQueued := 2\<rparr>) s' \<and>
     bmErrors (bsCounters s') ''connection_refused'' = Some 1"
proof -
  have "bmErrors (runBenchmarkWorker [refusedNet False, refusedNet True] benchSample False newCounters)
      ''connection_refused'' = Some 1" by code_simp
  then show ?thesis
    using worker_refines [of "(benchStart benchSample)\<lparr>bsQueued := 2\<rparr>" "[]" "[]"
        "[refusedNet False, refusedNet True]" False]
    by (force simp: benchStart_def benchSample_def)
qed

text \<open>
  The validation of the load generator accepts a path that its own writer refuses, one with a
  malformed percent escape: then every request ends in an error, whatever the network does, and no
  status is ever counted.
\<close>

lemma bench_path_unwritable:
  "benchmarkConfig_validate (benchSample\<lparr>BmPath := ''/%zz''\<rparr>) = Inr () \<and>
   benchOutcome_of (benchExchange (net :: 'w benchNet) (benchSample\<lparr>BmPath := ''/%zz''\<rparr>)) =
     (BenchError ''protocol_unsupported_target'', False) \<and>
   bmStatuses (runBenchmarkWorker (nets :: 'w benchNet list) (benchSample\<lparr>BmPath := ''/%zz''\<rparr>) held c) = bmStatuses c"
proof -
  let ?c = "benchSample\<lparr>BmPath := ''/%zz''\<rparr>"
  have valid: "benchmarkConfig_validate ?c = Inr ()" by code_simp
  have "requestHead (benchmarkRequest ?c) =
      Inl (newProtocolError protocolUnsupportedTarget ''request line''
        ''only origin-form and OPTIONS * are supported'')" by code_simp
  then have bad: "benchOutcome_of (benchExchange n ?c) = (BenchError ''protocol_unsupported_target'', False)"
    for n :: "'w benchNet"
    by (simp add: benchExchange_def benchOutcome_of_def writeHTTPRequest_def newProtocolError_def)
  have "bmStatuses (runBenchmarkWorker ns ?c held k) = bmStatuses k" for k and ns :: "'w benchNet list"
  proof (induction ns arbitrary: held k)
    case (Cons n ns)
    then show ?case
      by (simp add: bad Let_def bmLeave_def bmEnter_def bmRecord.simps bmRecordError_def bmTransferred_def
          bmConnected_def recordAtomicPeak_def split: option.split)
  qed simp
  then show ?thesis using valid bad by simp
qed

end
