(* ===== verification/Experiment.thy ===== *)
theory Experiment
  imports Composition Health Fixture Admin Benchmark Receipt
begin

text \<open>
  \<^verbatim>\<open>src/src/experiment.go\<close>: a scenario's fixtures, proxy, administration server and health checker put
  together, the schedule applied to the fixtures, and the receipt of a run. Listeners, clocks and the
  hash are parameters. The servers' own behaviour is that of the other theories; a run here is what
  \<^verbatim>\<open>run\<close> does with their results.
\<close>

subsection \<open>The configurations of a scenario\<close>

text \<open>\<^verbatim>\<open>time.Duration(ms) * time.Millisecond\<close>\<close>

definition durationMS :: "int \<Rightarrow> duration" where
  "durationMS ms = wrap64 (ms * millisecond)"

definition labBackend :: "fixtureSpec \<Rightarrow> fixtureBackend \<Rightarrow> backendConfig" where
  "labBackend spec fixture =
     \<lparr>Alias = SpecAlias spec, Address = fxAddress fixture, Authority = [], MaxInFlight = 128,
      MaxIdleConnections = 8, IdleTimeout = 5 * second, HealthPath = ''/health''\<rparr>"

definition labResilience :: "scenarioResilience \<Rightarrow> resilienceConfig" where
  "labResilience r =
     defaultResilienceConfig
       \<lparr>Selector := selectorRoundRobin, PassiveFailureThreshold := PassiveFailures r,
        PassiveInterval := durationMS (PassiveIntervalMS r), CircuitCooldown := durationMS (CircuitCooldownMS r),
        HalfOpenMaxRequests := max (ScHalfOpenSuccesses r) 1, HalfOpenSuccesses := ScHalfOpenSuccesses r,
        ActiveFailureThreshold := HealthFailures r, ActiveSuccessThreshold := HealthSuccesses r\<rparr>"

definition labProxyConfig :: "scenario \<Rightarrow> proxyConfig" where
  "labProxyConfig s =
     defaultProxyConfig
       \<lparr>ProxyRoute := ''experiment'', MaxAttempts := ScMaxAttempts (ScResilience s),
        RetryTimeout := durationMS (RetryTimeoutMS (ScResilience s)),
        ReadTimeout := durationMS (TimeoutMS (Load s)), WriteTimeout := durationMS (TimeoutMS (Load s)),
        DialTimeout := durationMS (TimeoutMS (Load s)), Observed := True, RetryStatuses := [500..599]\<rparr>"

definition labServerConfig :: "scenario \<Rightarrow> Config" where
  "labServerConfig s =
     DefaultConfig
       \<lparr>Listen := ''127.0.0.1:0'', CfgMaxConnections := max (Workers (Load s) * 4) 32,
        ReadTimeoutMS := max (TimeoutMS (Load s) * 2) 1000, WriteTimeoutMS := max (TimeoutMS (Load s) * 2) 1000\<rparr>"

definition labAdminConfig :: adminConfig where
  "labAdminConfig = defaultAdminConfig\<lparr>Heartbeat := 500 * millisecond\<rparr>"

definition labHealthConfig :: "scenarioResilience \<Rightarrow> activeHealthConfig" where
  "labHealthConfig r =
     \<lparr>Interval = durationMS (HealthIntervalMS r), HealthTimeout = durationMS (HealthTimeoutMS r)\<rparr>"

subsection \<open>The laboratory\<close>

text \<open>What listening gives: an address or an error, for every fixture, the proxy and the administration.\<close>

record labListeners =
  lnFixture :: "nat \<Rightarrow> string + string"
  lnProxy :: "string + string"
  lnAdmin :: "string + string"

record 'c experimentLab =
  labScenario :: scenario
  labHash :: string
  labFixtures :: "fixtureBackend list"
  labPool :: "'c backendPool"
  labObserver :: observability
  labRouter :: "(nat \<times> 'c proxyState) routeHandler routeTree"
  labProxyServer :: tcpServer
  labAdminServer :: tcpServer
  labHealth :: activeHealthChecker
  labProxyAddress :: string
  labAdminAddress :: string

fun newFixtures :: "(nat \<Rightarrow> string + string) \<Rightarrow> nat \<Rightarrow> fixtureSpec list \<Rightarrow> string + fixtureBackend list" where
  "newFixtures listened i [] = Inr []"
| "newFixtures listened i (spec # specs) =
     andThen (newFixtureBackend (listened i) spec) (\<lambda>(fixture, _).
     andThen (newFixtures listened (Suc i) specs) (\<lambda>fixtures. Inr (fixture # fixtures)))"

text \<open>
  The pool is made before the observer; what the pool's transitions call is the observer. The
  proxy's configuration is used twice, for the handler and for the health checker. Registering the
  two routes cannot fail, so that \<open>proxyRouter\<close> stands after the listener although the code registers
  before it. What the code opens and, on an error, closes again is in \<open>Lab_Resources\<close>.
\<close>

definition newExperimentLab ::
    "(nat \<Rightarrow> int \<Rightarrow> int) \<Rightarrow> (scenario \<Rightarrow> string + string) \<Rightarrow> labListeners \<Rightarrow> time \<Rightarrow>
     (nat \<Rightarrow> ('c, 'w) requestEnv) \<Rightarrow> scenario \<Rightarrow> string + 'c experimentLab" where
  "newExperimentLab intn canonicalHash listeners now worlds s =
     andThen (scenario_validate intn s) (\<lambda>_.
     andThen (canonicalHash s) (\<lambda>hash.
     andThen (newFixtures (lnFixture listeners) 0 (Fixtures s)) (\<lambda>fixtures.
     andThen (newBackendPoolWithConfig (map2 labBackend (Fixtures s) fixtures) (labResilience (ScResilience s))) (\<lambda>pool.
     andThen (newObservability (defaultObservabilityConfig\<lparr>LedgerCapacity := ScLedgerCapacity s\<rparr>) now) (\<lambda>observer.
     andThen (newProxyHandler (Some pool) (labProxyConfig s) ::
         string + (('c, 'w) requestEnv \<Rightarrow> httpRequest \<Rightarrow> 'c proxyState \<Rightarrow> httpResponse \<times> 'c proxyState)) (\<lambda>_.
     andThen (lnProxy listeners) (\<lambda>proxyAddress.
     andThen (proxyRouter worlds (proxyConfig_setDefaults (labProxyConfig s))
         (Config_httpServerConfig (labServerConfig s))) (\<lambda>router.
     andThen (newTCPServer True True (Config_tcpServerConfig (labServerConfig s))) (\<lambda>proxyServer.
     andThen (lnAdmin listeners) (\<lambda>adminAddress.
     andThen (newAdminServer True True labAdminConfig) (\<lambda>adminServer.
     andThen (newActiveHealthChecker (Some pool) (labProxyConfig s) (labHealthConfig (ScResilience s))) (\<lambda>checker.
     Inr \<lparr>labScenario = s, labHash = hash, labFixtures = fixtures, labPool = pool, labObserver = observer,
       labRouter = router, labProxyServer = proxyServer, labAdminServer = adminServer, labHealth = checker,
       labProxyAddress = proxyAddress, labAdminAddress = adminAddress\<rparr>))))))))))))"

text \<open>The dialler of the proxy refuses a fixture that is unavailable; \<open>None\<close> leaves it to the network.\<close>

definition labDial :: "fixtureBackend list \<Rightarrow> string \<Rightarrow> string option" where
  "labDial fixtures address =
     (if list_ex (\<lambda>f. fxAddress f = address \<and> fixtureMode_of f = fixtureUnavailable) fixtures
      then Some ''connection refused'' else None)"

definition labBenchmark :: "'c experimentLab \<Rightarrow> benchmarkConfig" where
  "labBenchmark lab =
     (let s = labScenario lab in
      \<lparr>BmAddress = labProxyAddress lab, BmAuthority = labProxyAddress lab, BmMethod = ''GET'',
       BmPath = LoadPath (Load s), BmWorkers = Workers (Load s), BmMaxRequests = LoadRequests (Load s),
       BmRatePerSecond = RatePerSecond (Load s), BmDuration = durationMS (DurationMS s),
       BmTimeout = durationMS (TimeoutMS (Load s)), BmLimits = defaultHTTPLimits, BmDialContext = False\<rparr>)"

subsection \<open>The schedule\<close>

text \<open>
  \<^verbatim>\<open>fixtureByKey\<close>, and the goroutine that applies the steps to it. What happens to the fixtures before
  the step \<open>n\<close> and whether the context ends while the goroutine waits for it are an environment; reading
  the mode, publishing and applying the profile are one step, since nothing else changes a mode. A key
  without a fixture is Go's nil pointer, \<open>None\<close>.
\<close>

record scheduleEnv =
  seMeanwhile :: "nat \<Rightarrow> (string \<rightharpoonup> fixtureBackend) \<Rightarrow> (string \<rightharpoonup> fixtureBackend)"
  seCancelled :: "nat \<Rightarrow> bool"

definition fixtureByKey :: "fixtureBackend list \<Rightarrow> (string \<rightharpoonup> fixtureBackend)" where
  "fixtureByKey fixtures = fold (\<lambda>f m. m(ToLower (fxAlias f) \<mapsto> f)) fixtures Map.empty"

definition fixtureTransition :: "scheduledStep \<Rightarrow> fixtureBackend \<Rightarrow> decisionEvent" where
  "fixtureTransition scheduled fixture =
     (zeroEvent eventFixtureTransition)
       \<lparr>BackendAlias := fxAlias fixture, PreviousState := fixtureMode_of fixture,
        NewState := FxMode (profileFromScenarioStep (Configured scheduled)),
        EventReason := ''scenario_step_'' @ Itoa (StepIndex scheduled)\<rparr>"

fun runSchedule ::
    "scheduleEnv \<Rightarrow> nat \<Rightarrow> scheduledStep list \<Rightarrow> (string \<rightharpoonup> fixtureBackend) \<Rightarrow>
     (decisionEvent list \<times> (string \<rightharpoonup> fixtureBackend)) option" where
  "runSchedule env n [] m = Some ([], m)"
| "runSchedule env n (scheduled # steps) m =
     (if seCancelled env n then Some ([], m)
      else
        (let m1 = seMeanwhile env n m; key = ToLower (StepFixture (Configured scheduled)) in
         case m1 key of
           None \<Rightarrow> None
         | Some fixture \<Rightarrow>
             map_option (\<lambda>(events, m'). (fixtureTransition scheduled fixture # events, m'))
               (runSchedule env (Suc n) steps
                  (m1(key \<mapsto> snd (fixtureApply (profileFromScenarioStep (Configured scheduled)) fixture))))))"

subsection \<open>A run\<close>

datatype serviceError = ListenerClosed | ServiceFailed string

fun waitServices :: "(string \<times> serviceError option) list \<Rightarrow> string option" where
  "waitServices [] = None"
| "waitServices ((name, err) # results) =
     (case err of
        Some (ServiceFailed e) \<Rightarrow> Some (name @ '': '' @ e)
      | _ \<Rightarrow> waitServices results)"

definition labClose :: "'c experimentLab \<Rightarrow> 'c experimentLab" where
  "labClose lab = lab\<lparr>labPool := snd (closePool (labPool lab)), labObserver := closeObservability (labObserver lab)\<rparr>"

text \<open>
  \<^verbatim>\<open>run\<close>: the checker is started, the benchmark's result and the services' results are awaited, and the
  receipt derived from what the ledger then holds. \<open>None\<close> is the zero receipt.
\<close>

definition labRun ::
    "(u64 \<Rightarrow> u64 \<Rightarrow> rat) \<Rightarrow> (nat \<Rightarrow> int \<Rightarrow> int) \<Rightarrow> string + benchmarkResult \<Rightarrow> eventLedger \<Rightarrow>
     (string \<times> serviceError option) list \<Rightarrow> 'c experimentLab \<Rightarrow>
     resilienceReceipt option \<times> string option \<times> 'c experimentLab" where
  "labRun rateOf intn benchmark ledger results lab =
     (case healthStart True (labPool lab) (labHealth lab) of
        (Some err, checker) \<Rightarrow> (None, Some err, lab\<lparr>labHealth := checker\<rparr>)
      | (None, checker) \<Rightarrow>
          (let receipt = deriveReceipt rateOf intn (labScenario lab) (labHash lab) (snapshotSince 0 ledger)
                 (case benchmark of Inl _ \<Rightarrow> 0 | Inr b \<Rightarrow> BrCompleted b) in
           (Some receipt,
            (case benchmark of Inl err \<Rightarrow> Some err | Inr _ \<Rightarrow> waitServices results),
            lab\<lparr>labHealth := healthStop checker, labPool := snd (closePool (labPool lab))\<rparr>)))"

subsection \<open>What a validated scenario gives\<close>

text \<open>An address as a listener on the loopback interface has it.\<close>

definition usableAddress :: "string \<Rightarrow> bool" where
  "usableAddress a \<longleftrightarrow>
     int (length a) \<le> maxBackendAddressBytes \<and> validHost a \<and>
     (case SplitHostPort a of
        None \<Rightarrow> False
      | Some (host, port) \<Rightarrow>
          host \<noteq> [] \<and> (case Atoi port of None \<Rightarrow> False | Some n \<Rightarrow> 1 \<le> n \<and> n \<le> 65535))"

text \<open>The bounds that the later checks have and the validation of a scenario lacks.\<close>

definition withinLaterBounds :: "scenarioResilience \<Rightarrow> bool" where
  "withinLaterBounds r \<longleftrightarrow>
     PassiveFailures r \<le> maxResilienceThreshold \<and> HealthFailures r \<le> maxResilienceThreshold \<and>
     HealthSuccesses r \<le> maxResilienceThreshold \<and> ScHalfOpenSuccesses r \<le> maxBackendInFlight \<and>
     PassiveIntervalMS r \<le> 86400000 \<and> CircuitCooldownMS r \<le> 86400000 \<and> RetryTimeoutMS r \<le> 86400000 \<and>
     HealthIntervalMS r \<le> 86400000"

lemma scenario_validate_conj:
  assumes "scenario_validate intn s = Inr ()"
  shows "(\<exists>aliases. checkFixtures [] (Fixtures s) = Inr aliases) \<and>
    2 \<le> length (Fixtures s) \<and> length (Fixtures s) \<le> 8 \<and> 100 \<le> DurationMS s \<and> DurationMS s \<le> 600000 \<and>
    0 < Workers (Load s) \<and> Workers (Load s) \<le> 64 \<and> 0 < LoadRequests (Load s) \<and> LoadRequests (Load s) \<le> 100000 \<and>
    0 \<le> RatePerSecond (Load s) \<and> RatePerSecond (Load s) \<le> 10000 \<and> validScenarioPath (LoadPath (Load s)) \<and>
    0 < TimeoutMS (Load s) \<and> TimeoutMS (Load s) \<le> 60000 \<and>
    0 < ScMaxAttempts (ScResilience s) \<and> ScMaxAttempts (ScResilience s) \<le> int (length (Fixtures s)) \<and>
    0 < RetryTimeoutMS (ScResilience s) \<and> 0 < PassiveFailures (ScResilience s) \<and>
    0 < PassiveIntervalMS (ScResilience s) \<and> 0 < CircuitCooldownMS (ScResilience s) \<and>
    0 < ScHalfOpenSuccesses (ScResilience s) \<and> 0 < HealthIntervalMS (ScResilience s) \<and>
    0 < HealthTimeoutMS (ScResilience s) \<and> HealthTimeoutMS (ScResilience s) < HealthIntervalMS (ScResilience s) \<and>
    0 < HealthFailures (ScResilience s) \<and> 0 < HealthSuccesses (ScResilience s) \<and>
    requiredLedgerCapacity s \<le> ScLedgerCapacity s \<and> ScLedgerCapacity s \<le> maxLedgerCapacity"
  using assms
  by (simp add: scenario_validate_def result_simps maxScenarioFixtures_def maxExperimentDuration_def second_def
      maxExperimentWorkers_def maxExperimentRequests_def Let_def not_less not_le split: if_splits prod.splits) auto

lemma scenario_validate_Inr:
  assumes "scenario_validate intn s = Inr ()"
  shows "\<exists>aliases. checkFixtures [] (Fixtures s) = Inr aliases"
    "2 \<le> length (Fixtures s)" "length (Fixtures s) \<le> 8" "100 \<le> DurationMS s" "DurationMS s \<le> 600000"
    "0 < Workers (Load s)" "Workers (Load s) \<le> 64" "0 < LoadRequests (Load s)" "LoadRequests (Load s) \<le> 100000"
    "0 \<le> RatePerSecond (Load s)" "RatePerSecond (Load s) \<le> 10000" "validScenarioPath (LoadPath (Load s))"
    "0 < TimeoutMS (Load s)" "TimeoutMS (Load s) \<le> 60000"
    "0 < ScMaxAttempts (ScResilience s)" "ScMaxAttempts (ScResilience s) \<le> int (length (Fixtures s))"
    "0 < RetryTimeoutMS (ScResilience s)" "0 < PassiveFailures (ScResilience s)"
    "0 < PassiveIntervalMS (ScResilience s)" "0 < CircuitCooldownMS (ScResilience s)"
    "0 < ScHalfOpenSuccesses (ScResilience s)" "0 < HealthIntervalMS (ScResilience s)"
    "0 < HealthTimeoutMS (ScResilience s)" "HealthTimeoutMS (ScResilience s) < HealthIntervalMS (ScResilience s)"
    "0 < HealthFailures (ScResilience s)" "0 < HealthSuccesses (ScResilience s)"
    "requiredLedgerCapacity s \<le> ScLedgerCapacity s" "ScLedgerCapacity s \<le> maxLedgerCapacity"
  by (insert scenario_validate_conj [OF assms]) (elim conjE, assumption)+

lemma durationMS_id:
  assumes "0 < ms" "ms \<le> 86400000"
  shows "durationMS ms = ms * millisecond" "0 < durationMS ms" "durationMS ms \<le> maxConfiguredTimeout"
proof -
  show e: "durationMS ms = ms * millisecond"
    unfolding durationMS_def using assms by (intro wrap64_id) (simp_all add: millisecond_def)
  show "0 < durationMS ms" "durationMS ms \<le> maxConfiguredTimeout"
    using assms by (simp_all add: e millisecond_def maxConfiguredTimeout_def second_def)
qed

lemma newFixtureBackend_ok:
  assumes "validToken (SpecAlias spec)" "int (length (SpecAlias spec)) \<le> maxBackendAliasBytes"
    and "validateFixtureProfile (InitialMode spec) (SpecDelayMS spec) (SpecFailureStatus spec) = Inr ()"
  shows "\<exists>rest. newFixtureBackend (Inr a) spec =
    Inr (\<lparr>fxAlias = SpecAlias spec, fxAddress = a, fxProfile = profileFromFixtureSpec spec,
      fxRequests = 0, fxResponses = 0, fxActive = 0, fxPeak = 0\<rparr>, rest)"
proof -
  have "Config_tcpServerConfig (DefaultConfig\<lparr>Listen := a, CfgMaxConnections := 128, MaxRequests := 1000\<rparr>) =
      Config_tcpServerConfig (DefaultConfig\<lparr>CfgMaxConnections := 128\<rparr>)" by (simp add: Config_tcpServerConfig_def)
  moreover have "tcpServerConfig_validate (Config_tcpServerConfig (DefaultConfig\<lparr>CfgMaxConnections := 128\<rparr>)) = Inr ()"
    by code_simp
  ultimately show ?thesis using assms by (simp add: newFixtureBackend_def newTCPServer_def Let_def)
qed

lemma labBackend_valid:
  assumes "validToken (SpecAlias spec)" "int (length (SpecAlias spec)) \<le> maxBackendAliasBytes"
    and "usableAddress (fxAddress f)"
  shows "backendConfig_validate (backendConfig_setDefaults (labBackend spec f)) = Inr ()"
    "Alias (backendConfig_setDefaults (labBackend spec f)) = SpecAlias spec"
proof -
  have nz: "fxAddress f \<noteq> []" using assms(3) by (auto simp: usableAddress_def validHost_def)
  have d: "backendConfig_setDefaults (labBackend spec f) = labBackend spec f\<lparr>Authority := fxAddress f\<rparr>"
    using nz by (simp add: backendConfig_setDefaults_def labBackend_def second_def Let_def)
  obtain host port n where p: "SplitHostPort (fxAddress f) = Some (host, port)" "host \<noteq> []" "Atoi port = Some n"
      "1 \<le> n" "n \<le> 65535"
    using assms(3) by (auto simp: usableAddress_def split: option.splits)
  have c: "\<not> (''/health'' = [] \<or> int (length ''/health'') > maxHealthPathBytes \<or> hd ''/health'' \<noteq> CHR ''/'' \<or>
      CR \<in> set ''/health'' \<or> LF \<in> set ''/health'' \<or> CHR ''#'' \<in> set ''/health'')" by code_simp
  have "\<not> ((128::int) \<le> 0 \<or> 128 > maxBackendInFlight)"
    "\<not> ((8::int) < 0 \<or> 8 > maxBackendIdleConnections \<or> 5 * second \<le> 0 \<or> 5 * second > maxConfiguredTimeout)"
    by (simp_all add: maxBackendInFlight_def maxBackendIdleConnections_def maxConfiguredTimeout_def second_def)
  then show "backendConfig_validate (backendConfig_setDefaults (labBackend spec f)) = Inr ()"
    using assms p c nz unfolding d backendConfig_validate_def Let_def
    by (simp add: labBackend_def usableAddress_def del: list.set)
  show "Alias (backendConfig_setDefaults (labBackend spec f)) = SpecAlias spec"
    unfolding d by (simp add: labBackend_def)
qed

lemma fixtures_and_pool:
  assumes "checkFixtures aliases fs = Inr r" "\<forall>i. \<exists>a. listened i = Inr a \<and> usableAddress a"
  shows "\<exists>fixtures bs. newFixtures listened i fs = Inr fixtures \<and>
    map fxAlias fixtures = map SpecAlias fs \<and> map fxProfile fixtures = map profileFromFixtureSpec fs \<and>
    addBackends res aliases (map2 labBackend fs fixtures) = Inr (bs :: 'c proxyBackend list) \<and> length bs = length fs"
  using assms(1)
proof (induction fs arbitrary: aliases i)
  case Nil
  then show ?case by simp
next
  case (Cons spec fs)
  obtain a where a: "listened i = Inr a" "usableAddress a" using assms(2) by blast
  have ok: "validToken (SpecAlias spec)" "int (length (SpecAlias spec)) \<le> maxBackendAliasBytes"
      "ToLower (SpecAlias spec) \<notin> set aliases"
      "validateFixtureProfile (InitialMode spec) (SpecDelayMS spec) (SpecFailureStatus spec) = Inr ()"
    and rest: "checkFixtures (ToLower (SpecAlias spec) # aliases) fs = Inr r"
    using Cons.prems by (auto simp: result_simps split: if_splits)
  obtain more where f: "newFixtureBackend (listened i) spec =
      Inr (\<lparr>fxAlias = SpecAlias spec, fxAddress = a, fxProfile = profileFromFixtureSpec spec,
        fxRequests = 0, fxResponses = 0, fxActive = 0, fxPeak = 0\<rparr>, more)"
    using newFixtureBackend_ok [OF ok(1,2,4), of a] a(1) by auto
  show ?case
    using Cons.IH [OF rest, of "Suc i"] labBackend_valid [OF ok(1,2), of "\<lparr>fxAlias = SpecAlias spec, fxAddress = a,
        fxProfile = profileFromFixtureSpec spec, fxRequests = 0, fxResponses = 0, fxActive = 0, fxPeak = 0\<rparr>"] a(2) ok(3)
    by (auto simp: f Let_def)
qed

lemma requiredLedgerCapacity_pos:
  assumes "scenario_validate intn s = Inr ()"
  shows "0 < requiredLedgerCapacity s"
proof -
  note v = scenario_validate_Inr [OF assms]
  let ?r = "ScResilience s"
  have "0 < LoadRequests (Load s) * (2 + ScMaxAttempts ?r * 3)" using v by (intro mult_pos_pos) simp_all
  moreover have "0 \<le> int (length (Fixtures s)) *
      (DurationMS s div HealthIntervalMS ?r + DurationMS s div CircuitCooldownMS ?r + 4)"
    using v by (intro mult_nonneg_nonneg add_nonneg_nonneg) (simp_all add: pos_imp_zdiv_nonneg_iff)
  ultimately show ?thesis using v(20,22) by (simp add: requiredLedgerCapacity_def Let_def)
qed

lemma labResilience_valid:
  assumes "scenario_validate intn s = Inr ()" "withinLaterBounds (ScResilience s)"
  shows "resilienceConfig_validate (resilienceConfig_setDefaults (labResilience (ScResilience s))) = Inr ()"
  using scenario_validate_Inr [OF assms(1)] assms(2)
    durationMS_id [of "PassiveIntervalMS (ScResilience s)"] durationMS_id [of "CircuitCooldownMS (ScResilience s)"]
  by (simp add: withinLaterBounds_def resilienceConfig_validate_def resilienceConfig_setDefaults_def labResilience_def
      defaultResilienceConfig_def selectorRoundRobin_def max_def Let_def)

lemma retryStatuses_ok: "\<not> list_ex (\<lambda>status. status < 400 \<or> status > 599) [500..599]"
  by (simp add: list_ex_iff del: upto_rec_numeral)

lemma labProxyConfig_valid:
  assumes "scenario_validate intn s = Inr ()" "withinLaterBounds (ScResilience s)"
  shows "proxyConfig_setDefaults (labProxyConfig s) = labProxyConfig s \<and>
    proxyConfig_validate (labProxyConfig s) = Inr ()"
proof -
  have names: "validToken defaultViaName \<and> int (length defaultViaName) \<le> maxBackendAliasBytes"
    "validToken ''experiment'' \<and> int (length ''experiment'') \<le> maxBackendAliasBytes"
    "httpLimits_validate defaultHTTPLimits = Inr ()"
    by code_simp+
  have fields: "ViaName (labProxyConfig s) = defaultViaName" "ProxyRoute (labProxyConfig s) = ''experiment''"
    "ProxyLimits (labProxyConfig s) = defaultHTTPLimits" "RetryStatuses (labProxyConfig s) = [500..599]"
    "MaxAttempts (labProxyConfig s) = ScMaxAttempts (ScResilience s)"
    "RetryTimeout (labProxyConfig s) = durationMS (RetryTimeoutMS (ScResilience s))"
    "ReadTimeout (labProxyConfig s) = durationMS (TimeoutMS (Load s))"
    "WriteTimeout (labProxyConfig s) = durationMS (TimeoutMS (Load s))"
    "DialTimeout (labProxyConfig s) = durationMS (TimeoutMS (Load s))"
    by (simp_all add: labProxyConfig_def defaultProxyConfig_def del: upto_rec_numeral)
  have "ScMaxAttempts (ScResilience s) \<le> maxBackendPoolSize"
    using scenario_validate_Inr [OF assms(1)] by (simp add: maxBackendPoolSize_def)
  then show ?thesis
    using scenario_validate_Inr(13-17) [OF assms(1)] assms(2) names retryStatuses_ok
      durationMS_id(2,3) [of "RetryTimeoutMS (ScResilience s)"] durationMS_id(2,3) [of "TimeoutMS (Load s)"]
    unfolding proxyConfig_validate_def proxyConfig_setDefaults_def fields withinLaterBounds_def
    by (simp del: upto_rec_numeral)
qed

lemma labServers_valid:
  assumes "scenario_validate intn s = Inr ()"
  shows "tcpServerConfig_validate (Config_tcpServerConfig (labServerConfig s)) = Inr () \<and>
    httpServerConfig_validate (Config_httpServerConfig (labServerConfig s)) = Inr ()"
proof -
  define ms where "ms = max (TimeoutMS (Load s) * 2) 1000"
  define mc where "mc = max (Workers (Load s) * 4) 32"
  have c: "0 < mc" "mc \<le> maxServerConnections" "validMilliseconds ms maxConfiguredTimeout"
    using scenario_validate_Inr [OF assms]
    by (auto simp: ms_def mc_def maxServerConnections_def validMilliseconds_def maxConfiguredTimeout_def second_def millisecond_def)
  have d: "validMilliseconds 30000 maxConfiguredTimeout" "validMilliseconds 5000 maxConfiguredTimeout"
    "validMilliseconds 1000 maxConfiguredTimeout"
    by (simp_all add: validMilliseconds_def maxConfiguredTimeout_def second_def millisecond_def)
  have "tcpServerConfig_validate (Config_tcpServerConfig (labServerConfig s)) = Inr ()"
    using c(1,2) validMilliseconds_duration [OF c(3)] d [THEN validMilliseconds_duration(1)]
      d [THEN validMilliseconds_duration(2)] d [THEN validMilliseconds_duration(3)]
    by (simp add: tcpServerConfig_validate_def Config_tcpServerConfig_def labServerConfig_def DefaultConfig_def
        flip: ms_def mc_def)
  moreover have "Config_httpServerConfig (labServerConfig s) = Config_httpServerConfig DefaultConfig"
    by (simp add: Config_httpServerConfig_def labServerConfig_def)
  moreover have "httpServerConfig_validate (Config_httpServerConfig DefaultConfig) = Inr ()" by code_simp
  ultimately show ?thesis by simp
qed

lemma labBenchmark_valid:
  assumes "scenario_validate intn s = Inr ()" "usableAddress (labProxyAddress lab)" "labScenario lab = s"
  shows "benchmarkConfig_validate (benchmarkConfig_setDefaults (labBenchmark lab)) = Inr ()"
proof -
  let ?c = "benchmarkConfig_setDefaults (labBenchmark lab)"
  obtain host port n where p: "SplitHostPort (labProxyAddress lab) = Some (host, port)" "host \<noteq> []"
      "Atoi port = Some n" "1 \<le> n" "n \<le> 65535" "validHost (labProxyAddress lab)"
    using assms(2) by (auto simp: usableAddress_def split: option.splits)
  have limits: "httpLimits_validate defaultHTTPLimits = Inr ()" by code_simp
  have nonempty: "LoadPath (Load s) \<noteq> []" "labProxyAddress lab \<noteq> []"
    using scenario_validate_Inr(12) [OF assms(1)] p(6) by (auto simp: validScenarioPath_def validHost_def)
  have fields: "BmAddress ?c = labProxyAddress lab" "BmAuthority ?c = labProxyAddress lab" "BmMethod ?c = ''GET''"
    "BmPath ?c = LoadPath (Load s)" "BmWorkers ?c = Workers (Load s)" "BmMaxRequests ?c = LoadRequests (Load s)"
    "BmRatePerSecond ?c = RatePerSecond (Load s)" "BmDuration ?c = durationMS (DurationMS s)"
    "BmTimeout ?c = durationMS (TimeoutMS (Load s))" "BmLimits ?c = defaultHTTPLimits" "BmDialContext ?c"
    using nonempty assms(3)
    by (simp_all add: benchmarkConfig_setDefaults_def labBenchmark_def defaultHTTPLimits_def)
  have times: "0 < durationMS (DurationMS s)" "durationMS (DurationMS s) \<le> maxExperimentDuration"
    "0 < durationMS (TimeoutMS (Load s))" "durationMS (TimeoutMS (Load s)) \<le> 60 * second"
    using scenario_validate_Inr(4,5,13,14) [OF assms(1)] durationMS_id(1) [of "DurationMS s"]
      durationMS_id(1) [of "TimeoutMS (Load s)"]
    by (simp_all add: maxExperimentDuration_def second_def millisecond_def)
  show ?thesis
    using scenario_validate_Inr(6-12) [OF assms(1)] p limits times
    unfolding benchmarkConfig_validate_def fields
    by (simp add: maxExperimentWorkers_def maxExperimentRequests_def fields(11))
qed

lemma lab_made:
  fixes worlds :: "nat \<Rightarrow> ('c, 'w) requestEnv"
  assumes "scenario_validate intn s = Inr ()"
    and res: "resilienceConfig_validate (resilienceConfig_setDefaults (labResilience (ScResilience s))) = Inr ()"
    and p: "proxyConfig_setDefaults (labProxyConfig s) = labProxyConfig s \<and> proxyConfig_validate (labProxyConfig s) = Inr ()"
    and h: "activeHealthConfig_validate (labHealthConfig (ScResilience s)) = Inr ()"
    and "canonicalHash s = Inr hash" "\<forall>i. \<exists>a. lnFixture listeners i = Inr a \<and> usableAddress a"
    and "lnProxy listeners = Inr a" "usableAddress a" "lnAdmin listeners = Inr b"
  shows "\<exists>lab. newExperimentLab intn canonicalHash listeners now worlds s = Inr lab \<and>
    length (backends (labPool lab)) = length (Fixtures s) \<and>
    map fxAlias (labFixtures lab) = map SpecAlias (Fixtures s) \<and>
    map fixtureMode_of (labFixtures lab) = map InitialMode (Fixtures s) \<and>
    benchmarkConfig_validate (benchmarkConfig_setDefaults (labBenchmark lab)) = Inr () \<and>
    resilience (labPool lab) = resilienceConfig_setDefaults (labResilience (ScResilience s))"
proof -
  note v = scenario_validate_Inr [OF assms(1)]
  obtain aliases where aliases: "checkFixtures [] (Fixtures s) = Inr aliases" using v(1) by blast
  let ?res = "resilienceConfig_setDefaults (labResilience (ScResilience s))"
  obtain fixtures bs where f: "newFixtures (lnFixture listeners) 0 (Fixtures s) = Inr fixtures"
      "map fxAlias fixtures = map SpecAlias (Fixtures s)"
      "map fxProfile fixtures = map profileFromFixtureSpec (Fixtures s)"
      "addBackends ?res [] (map2 labBackend (Fixtures s) fixtures) = Inr (bs :: 'c proxyBackend list)" "length bs = length (Fixtures s)"
    using fixtures_and_pool [OF aliases assms(6)] by metis
  have len: "length fixtures = length (Fixtures s)" using f(2) by (metis length_map)
  have nonempty: "Fixtures s \<noteq> []" "bs \<noteq> []" using v(2) f(5) by auto
  let ?pool = "\<lparr>backends = bs, sequence = 0, resilience = ?res\<rparr>"
  have pool: "newBackendPoolWithConfig (map2 labBackend (Fixtures s) fixtures) (labResilience (ScResilience s)) = Inr ?pool"
    using f(4) v(3) len nonempty res
    by (auto simp: newBackendPoolWithConfig_def maxBackendPoolSize_def Let_def zip_eq_Nil_iff)
  have modes: "map fixtureMode_of fixtures = map InitialMode (Fixtures s)"
    using arg_cong [OF f(3), of "map FxMode"]
    by (simp add: fixtureMode_of_def [abs_def] profileFromFixtureSpec_def comp_def)
  have "isl (newSSEHub 32 64) = False" by code_simp
  then obtain hub where "newSSEHub 32 64 = Inr hub" by (cases "newSSEHub 32 64") auto
  then obtain observer where o: "newObservability (defaultObservabilityConfig\<lparr>LedgerCapacity := ScLedgerCapacity s\<rparr>) now = Inr observer"
    using requiredLedgerCapacity_pos [OF assms(1)] v
    by (simp add: newObservability_def defaultObservabilityConfig_def newEventLedger_def)
  obtain router where router: "proxyRouter worlds (proxyConfig_setDefaults (labProxyConfig s))
      (Config_httpServerConfig (labServerConfig s)) = Inr router"
    using labServers_valid [OF assms(1)] proxyRouter_Inr by blast
  obtain proxyServer where ps: "newTCPServer True True (Config_tcpServerConfig (labServerConfig s)) = Inr proxyServer"
    using labServers_valid [OF assms(1)] by (simp add: newTCPServer_def)
  have "isl (newAdminServer True True labAdminConfig) = False" by code_simp
  then obtain adminServer where admin: "newAdminServer True True labAdminConfig = Inr adminServer"
    by (cases "newAdminServer True True labAdminConfig") auto
  define lab :: "'c experimentLab" where "lab = \<lparr>labScenario = s, labHash = hash, labFixtures = fixtures,
    labPool = ?pool, labObserver = observer, labRouter = router, labProxyServer = proxyServer,
    labAdminServer = adminServer, labHealth = \<lparr>hcProxy = labProxyConfig s,
      hcConfig = labHealthConfig (ScResilience s), running = False, probers = 0\<rparr>,
    labProxyAddress = a, labAdminAddress = b\<rparr>"
  have "newExperimentLab intn canonicalHash listeners now worlds s = Inr lab"
    using nonempty
    by (simp add: newExperimentLab_def lab_def assms f(1) pool o router [unfolded conjunct1 [OF p]] ps admin newProxyHandler_def
        newActiveHealthChecker_def p h)
  moreover have "benchmarkConfig_validate (benchmarkConfig_setDefaults (labBenchmark lab)) = Inr ()"
    by (rule labBenchmark_valid [OF assms(1)]) (simp_all add: lab_def assms(8))
  ultimately show ?thesis using f modes by (intro exI [of _ lab]) (simp add: lab_def)
qed

text \<open>
  C39: a validated scenario whose thresholds and intervals are within the bounds of the later checks
  builds a laboratory whenever its listeners open, with one backend and one fixture in its initial mode
  for every fixture of the scenario, and the benchmark of its run is valid.
\<close>

theorem lab_builds:
  fixes worlds :: "nat \<Rightarrow> ('c, 'w) requestEnv"
  assumes "scenario_validate intn s = Inr ()" "withinLaterBounds (ScResilience s)" "canonicalHash s = Inr hash"
    and "\<forall>i. \<exists>a. lnFixture listeners i = Inr a \<and> usableAddress a"
    and "lnProxy listeners = Inr a" "usableAddress a" "lnAdmin listeners = Inr b"
  shows "\<exists>lab. newExperimentLab intn canonicalHash listeners now worlds s = Inr lab \<and>
    length (backends (labPool lab)) = length (Fixtures s) \<and>
    map fxAlias (labFixtures lab) = map SpecAlias (Fixtures s) \<and>
    map fixtureMode_of (labFixtures lab) = map InitialMode (Fixtures s) \<and>
    benchmarkConfig_validate (benchmarkConfig_setDefaults (labBenchmark lab)) = Inr ()"
proof -
  have h: "activeHealthConfig_validate (labHealthConfig (ScResilience s)) = Inr ()"
    using scenario_validate_Inr [OF assms(1)] assms(2) durationMS_id [of "HealthIntervalMS (ScResilience s)"]
      durationMS_id [of "HealthTimeoutMS (ScResilience s)"]
    by (simp add: activeHealthConfig_validate_def labHealthConfig_def withinLaterBounds_def)
  from lab_made [OF assms(1) labResilience_valid [OF assms(1,2)] labProxyConfig_valid [OF assms(1,2)] h,
      of canonicalHash hash listeners a b now worlds] assms(3-7)
  show ?thesis by blast
qed

definition sampleListeners :: labListeners where
  "sampleListeners = \<lparr>lnFixture = (\<lambda>i. Inr ''127.0.0.1:9001''), lnProxy = Inr ''127.0.0.1:8080'',
     lnAdmin = Inr ''127.0.0.1:8081''\<rparr>"

lemma demoScenario_valid: "scenario_validate (\<lambda>k n. 0) defaultDemoScenario = Inr ()"
  by code_simp

lemma sampleListeners_ok:
  "usableAddress ''127.0.0.1:9001''" "usableAddress ''127.0.0.1:8080''"
  by code_simp+

theorem lab_builds_witness:
  "\<exists>lab. newExperimentLab (\<lambda>k n. 0) (\<lambda>s. Inr ''hash'') sampleListeners 0 (\<lambda>_. sampleEnv) defaultDemoScenario = Inr lab \<and>
     length (backends (labPool lab)) = 2 \<and>
     map fxAlias (labFixtures lab) = [''forge-a'', ''forge-b'']"
proof -
  have "withinLaterBounds (ScResilience defaultDemoScenario)" by code_simp
  moreover have "map SpecAlias (Fixtures defaultDemoScenario) = [''forge-a'', ''forge-b'']"
    "length (Fixtures defaultDemoScenario) = 2" by (simp_all add: defaultDemoScenario_def)
  ultimately show ?thesis
    using lab_builds [OF demoScenario_valid, of "\<lambda>s. Inr ''hash''" _ sampleListeners "''127.0.0.1:8080''" "''127.0.0.1:8081''" 0 "\<lambda>_. sampleEnv"]
      sampleListeners_ok
    by (force simp: sampleListeners_def)
qed

definition demoWith :: "int \<Rightarrow> int \<Rightarrow> scenario" where
  "demoWith failures interval =
     defaultDemoScenario\<lparr>ScResilience := ScResilience defaultDemoScenario
       \<lparr>PassiveFailures := failures, PassiveIntervalMS := interval\<rparr>\<rparr>"

text \<open>
  The validation of a scenario bounds neither the thresholds nor the intervals of its resilience:
  a scenario with a threshold above the pool's bound validates and is refused when its laboratory is
  made; one with a passive interval of 584 years validates, the conversion to nanoseconds wraps, and
  the laboratory runs with an interval of less than half a millisecond.
\<close>

lemma lab_interval_wraps:
  "scenario_validate (\<lambda>k n. 0) (demoWith (maxResilienceThreshold + 1) 5000) = Inr () \<and>
   isl (newExperimentLab (\<lambda>k n. 0) (\<lambda>s. Inr hash) sampleListeners now worlds
     (demoWith (maxResilienceThreshold + 1) 5000)) \<and>
   scenario_validate (\<lambda>k n. 0) (demoWith 1 18446744073710) = Inr () \<and>
   (\<exists>lab. newExperimentLab (\<lambda>k n. 0) (\<lambda>s. Inr hash) sampleListeners now worlds (demoWith 1 18446744073710) = Inr lab \<and>
     PassiveInterval (resilience (labPool lab)) = 448384)"
proof -
  let ?high = "demoWith (maxResilienceThreshold + 1) 5000"
  let ?long = "demoWith 1 18446744073710"
  have high: "scenario_validate (\<lambda>k n. 0) ?high = Inr ()"
    "isl (resilienceConfig_validate (resilienceConfig_setDefaults (labResilience (ScResilience ?high))))"
    by code_simp+
  have "\<nexists>lab. newExperimentLab (\<lambda>k n. 0) (\<lambda>s. Inr hash) sampleListeners now worlds ?high = Inr lab"
    using high(2) by (auto simp: newExperimentLab_def newBackendPoolWithConfig_def result_simps Let_def split: if_splits)
  then have refused: "isl (newExperimentLab (\<lambda>k n. 0) (\<lambda>s. Inr hash) sampleListeners now worlds ?high)"
    by (cases "newExperimentLab (\<lambda>k n. 0) (\<lambda>s. Inr hash) sampleListeners now worlds ?high") auto
  have long: "scenario_validate (\<lambda>k n. 0) ?long = Inr ()"
    "resilienceConfig_validate (resilienceConfig_setDefaults (labResilience (ScResilience ?long))) = Inr ()"
    "proxyConfig_setDefaults (labProxyConfig ?long) = labProxyConfig ?long \<and>
      proxyConfig_validate (labProxyConfig ?long) = Inr ()"
    "activeHealthConfig_validate (labHealthConfig (ScResilience ?long)) = Inr ()"
    by code_simp+
  have "PassiveInterval (resilienceConfig_setDefaults (labResilience (ScResilience ?long))) = 448384" by code_simp
  then show ?thesis
    using high(1) refused long(1) lab_made [OF long, of "\<lambda>s. Inr hash" hash sampleListeners "''127.0.0.1:8080''"
        "''127.0.0.1:8081''" now worlds] sampleListeners_ok
    by (force simp: sampleListeners_def)
qed

subsection \<open>What the schedule does to the fixtures\<close>

text \<open>Between the steps nothing but the schedule changes a fixture's profile.\<close>

definition keepsProfiles :: "scheduleEnv \<Rightarrow> bool" where
  "keepsProfiles env \<longleftrightarrow>
     (\<forall>n m key. map_option (\<lambda>f. (fxAlias f, fxProfile f)) (seMeanwhile env n m key) =
        map_option (\<lambda>f. (fxAlias f, fxProfile f)) (m key))"

text \<open>The fixtures of the keys are in the modes that a map from keys to modes says.\<close>

definition inModes :: "string set \<Rightarrow> (string \<Rightarrow> fixtureMode) \<Rightarrow> (string \<rightharpoonup> fixtureBackend) \<Rightarrow> bool" where
  "inModes keys modes m \<longleftrightarrow>
     (\<forall>key \<in> keys. \<exists>f. m key = Some f \<and> ToLower (fxAlias f) = key \<and> fixtureMode_of f = modes key)"

lemma inModes_meanwhile:
  assumes "keepsProfiles env" "inModes keys modes m"
  shows "inModes keys modes (seMeanwhile env n m)"
  unfolding inModes_def
proof
  fix key assume "key \<in> keys"
  then obtain f where f: "m key = Some f" "ToLower (fxAlias f) = key" "fixtureMode_of f = modes key"
    using assms(2) by (auto simp: inModes_def)
  then have "map_option (\<lambda>f. (fxAlias f, fxProfile f)) (seMeanwhile env n m key) = Some (fxAlias f, fxProfile f)"
    using assms(1) by (simp add: keepsProfiles_def)
  then show "\<exists>f. seMeanwhile env n m key = Some f \<and> ToLower (fxAlias f) = key \<and> fixtureMode_of f = modes key"
    using f by (auto simp: fixtureMode_of_def)
qed

definition stepKey :: "scheduledStep \<Rightarrow> string" where
  "stepKey x = ToLower (StepFixture (Configured x))"

lemma runSchedule_modes:
  assumes "keepsProfiles env" "inModes keys modes m" "\<forall>x \<in> set steps. stepKey x \<in> keys"
  shows "\<exists>events m'. runSchedule env n steps m = Some (events, m') \<and>
    length events \<le> length steps \<and>
    ((\<forall>k. \<not> seCancelled env k) \<longrightarrow> length events = length steps) \<and>
    (\<forall>i < length events. EventType (events ! i) = eventFixtureTransition \<and>
       ToLower (BackendAlias (events ! i)) = stepKey (steps ! i) \<and>
       PreviousState (events ! i) = modeAfter modes (take i steps) (stepKey (steps ! i)) \<and>
       NewState (events ! i) = StepMode (Configured (steps ! i))) \<and>
    inModes keys (modeAfter modes (take (length events) steps)) m'"
  using assms(2,3)
proof (induction steps arbitrary: n m modes)
  case Nil
  then show ?case by (simp add: inModes_def modeAfter_def)
next
  case (Cons x steps)
  show ?case
  proof (cases "seCancelled env n")
    case True
    then show ?thesis using Cons.prems by (auto simp: modeAfter_def)
  next
    case False
    let ?m1 = "seMeanwhile env n m"
    have m1: "inModes keys modes ?m1" by (rule inModes_meanwhile [OF assms(1) Cons.prems(1)])
    obtain f where f: "?m1 (stepKey x) = Some f" "ToLower (fxAlias f) = stepKey x" "fixtureMode_of f = modes (stepKey x)"
      using m1 Cons.prems(2) by (auto simp: inModes_def)
    let ?f' = "snd (fixtureApply (profileFromScenarioStep (Configured x)) f)"
    let ?modes' = "modes(stepKey x := StepMode (Configured x))"
    have "inModes keys ?modes' (?m1(stepKey x \<mapsto> ?f'))"
      using m1 f by (auto simp: inModes_def fixtureApply_def fixtureMode_of_def profileFromScenarioStep_def)
    moreover have "\<forall>x \<in> set steps. stepKey x \<in> keys" using Cons.prems(2) by simp
    ultimately obtain events m' where
      r: "runSchedule env (Suc n) steps (?m1(stepKey x \<mapsto> ?f')) = Some (events, m')" "length events \<le> length steps"
      "(\<forall>k. \<not> seCancelled env k) \<longrightarrow> length events = length steps"
      and each: "\<forall>i < length events. EventType (events ! i) = eventFixtureTransition \<and>
       ToLower (BackendAlias (events ! i)) = stepKey (steps ! i) \<and>
       PreviousState (events ! i) = modeAfter ?modes' (take i steps) (stepKey (steps ! i)) \<and>
       NewState (events ! i) = StepMode (Configured (steps ! i))"
      and final: "inModes keys (modeAfter ?modes' (take (length events) steps)) m'"
      using Cons.IH [of ?modes' "?m1(stepKey x \<mapsto> ?f')" "Suc n"] by blast
    have run: "runSchedule env n (x # steps) m = Some (fixtureTransition x f # events, m')"
      using False f(1) r(1) by (simp add: stepKey_def Let_def)
    have first: "EventType (fixtureTransition x f) = eventFixtureTransition \<and>
        ToLower (BackendAlias (fixtureTransition x f)) = stepKey x \<and>
        PreviousState (fixtureTransition x f) = modes (stepKey x) \<and>
        NewState (fixtureTransition x f) = StepMode (Configured x)"
      using f by (simp add: fixtureTransition_def zeroEvent_def profileFromScenarioStep_def)
    show ?thesis
      unfolding run
      using r each first final
      by (intro exI [of _ "fixtureTransition x f # events"] exI [of _ m'])
        (auto simp: less_Suc_eq_0_disj modeAfter_Cons stepKey_def modeAfter_def [of _ "[]"])
  qed
qed

lemma newFixtures_fields:
  "newFixtures listened i fs = Inr fixtures \<Longrightarrow>
   map fxAlias fixtures = map SpecAlias fs \<and> map fixtureMode_of fixtures = map InitialMode fs"
  by (induction listened i fs arbitrary: fixtures rule: newFixtures.induct)
    (auto simp: result_simps newFixtureBackend_def fixtureMode_of_def profileFromFixtureSpec_def Let_def split: if_splits)

lemma fixtures_start:
  assumes "map fxAlias fixtures = map SpecAlias fs" "map fixtureMode_of fixtures = map InitialMode fs"
  shows "inModes (set (map (\<lambda>f. ToLower (SpecAlias f)) fs)) (initialModes fs) (fixtureByKey fixtures)"
  using assms
proof (induction fs arbitrary: fixtures rule: rev_induct)
  case Nil
  then show ?case by (simp add: inModes_def)
next
  case (snoc spec fs)
  obtain fixtures' f where f: "fixtures = fixtures' @ [f]"
    using snoc.prems(1) by (cases fixtures rule: rev_cases) auto
  have "inModes (set (map (\<lambda>f. ToLower (SpecAlias f)) fs)) (initialModes fs) (fixtureByKey fixtures')"
    by (rule snoc.IH) (use snoc.prems f in auto)
  then show ?case
    using snoc.prems by (auto simp: f inModes_def initialModes_def fixtureByKey_def)
qed

lemma checkFixtures_aliases:
  "checkFixtures aliases fs = Inr r \<Longrightarrow> set r = set aliases \<union> set (map (\<lambda>f. ToLower (SpecAlias f)) fs)"
  by (induction aliases fs rule: checkFixtures.induct) (auto simp: result_simps split: if_splits)

lemma checkSteps_keys:
  "checkSteps aliases d steps = Inr () \<Longrightarrow> \<forall>x \<in> set steps. ToLower (StepFixture x) \<in> set aliases"
  by (induction aliases d steps rule: checkSteps.induct) (auto simp: result_simps split: if_splits)

lemma schedule_keys:
  assumes "scenario_validate intn s = Inr ()"
  shows "\<forall>x \<in> set (schedule intn s). stepKey x \<in> set (map (\<lambda>f. ToLower (SpecAlias f)) (Fixtures s))"
proof -
  obtain aliases where a: "checkFixtures [] (Fixtures s) = Inr aliases" "checkSteps aliases (DurationMS s) (Steps s) = Inr ()"
    using assms by (auto simp: scenario_validate_def result_simps split: if_splits prod.splits)
  have "set (map Configured (schedule intn s)) = set (Steps s)"
    using arg_cong [OF schedule_mset [of intn s], of set_mset] by simp
  then show ?thesis
    using checkSteps_keys [OF a(2)] checkFixtures_aliases [OF a(1)] by (fastforce simp: stepKey_def)
qed

text \<open>
  C22: applying the schedule of a validated scenario to its laboratory never meets an unknown fixture;
  for the steps applied, all of them unless the context ends, it publishes one transition of the
  fixture each, in the order of the schedule, from the mode that the steps before left it in to the
  mode of the step, a recovery only from a fault; and the fixtures end in the modes of their last steps.
\<close>

theorem schedule_applied:
  assumes "scenario_validate intn s = Inr ()" "newExperimentLab intn canonicalHash listeners now worlds s = Inr lab"
    and "keepsProfiles env"
  shows "\<exists>events m. runSchedule env 0 (schedule intn s) (fixtureByKey (labFixtures lab)) = Some (events, m) \<and>
    ((\<forall>k. \<not> seCancelled env k) \<longrightarrow> length events = length (Steps s)) \<and>
    (\<forall>i < length events.
       EventType (events ! i) = eventFixtureTransition \<and>
       ToLower (BackendAlias (events ! i)) = stepKey (schedule intn s ! i) \<and>
       PreviousState (events ! i) =
         modeAfter (initialModes (Fixtures s)) (take i (schedule intn s)) (stepKey (schedule intn s ! i)) \<and>
       NewState (events ! i) = StepMode (Configured (schedule intn s ! i)) \<and>
       (isRecovery (events ! i) \<longrightarrow> isFaultMode (PreviousState (events ! i)))) \<and>
    (\<forall>spec \<in> set (Fixtures s). \<exists>f. m (ToLower (SpecAlias spec)) = Some f \<and>
       fixtureMode_of f = modeAfter (initialModes (Fixtures s)) (take (length events) (schedule intn s))
         (ToLower (SpecAlias spec)))"
proof -
  let ?xs = "schedule intn s"
  have fields: "map fxAlias (labFixtures lab) = map SpecAlias (Fixtures s)"
    "map fixtureMode_of (labFixtures lab) = map InitialMode (Fixtures s)"
    using assms(2) newFixtures_fields [of "lnFixture listeners" 0 "Fixtures s" "labFixtures lab"]
    by (auto simp: newExperimentLab_def result_simps)
  let ?keys = "set (map (\<lambda>f. ToLower (SpecAlias f)) (Fixtures s))"
  obtain events m where r: "runSchedule env 0 ?xs (fixtureByKey (labFixtures lab)) = Some (events, m)"
      "length events \<le> length ?xs" "(\<forall>k. \<not> seCancelled env k) \<longrightarrow> length events = length ?xs"
    and each: "\<forall>i < length events. EventType (events ! i) = eventFixtureTransition \<and>
       ToLower (BackendAlias (events ! i)) = stepKey (?xs ! i) \<and>
       PreviousState (events ! i) = modeAfter (initialModes (Fixtures s)) (take i ?xs) (stepKey (?xs ! i)) \<and>
       NewState (events ! i) = StepMode (Configured (?xs ! i))"
    and final: "inModes ?keys (modeAfter (initialModes (Fixtures s)) (take (length events) ?xs)) m"
    using runSchedule_modes [OF assms(3) fixtures_start [OF fields] schedule_keys [OF assms(1)], of 0] by blast
  have len: "length ?xs = length (Steps s)" using arg_cong [OF schedule_mset [of intn s], of size] by simp
  obtain aliases q where q: "checkSchedule (initialModes (Fixtures s)) False False ?xs = Inr q"
    by (rule scenario_validate_steps [OF assms(1)])
  have "isFaultMode (PreviousState (events ! i))" if "i < length events" "isRecovery (events ! i)" for i
  proof -
    have "?xs = take i ?xs @ ?xs ! i # drop (Suc i) ?xs" using that(1) r(2) by (simp add: id_take_nth_drop)
    then have "isFaultMode (modeAfter (initialModes (Fixtures s)) (take i ?xs) (ToLower (StepFixture (Configured (?xs ! i)))))"
      using checkSchedule_recovers [of "initialModes (Fixtures s)" False False "take i ?xs" "?xs ! i" "drop (Suc i) ?xs" q]
        q each that by (simp add: isRecovery_def)
    then show ?thesis using each that(1) by (simp add: stepKey_def)
  qed
  then show ?thesis using r each final len by (auto simp: inModes_def)
qed

definition stillEnv :: scheduleEnv where
  "stillEnv = \<lparr>seMeanwhile = (\<lambda>n m. m), seCancelled = (\<lambda>n. False)\<rparr>"

theorem schedule_applied_witness:
  "\<exists>lab events m. newExperimentLab (\<lambda>k n. 0) (\<lambda>s. Inr ''hash'') sampleListeners 0 (\<lambda>_. sampleEnv) defaultDemoScenario = Inr lab \<and>
     runSchedule stillEnv 0 (schedule (\<lambda>k n. 0) defaultDemoScenario) (fixtureByKey (labFixtures lab)) = Some (events, m) \<and>
     length events = 2 \<and> PreviousState (events ! 1) = fixtureUnavailable \<and> NewState (events ! 1) = fixtureRecovered"
proof -
  have later: "withinLaterBounds (ScResilience defaultDemoScenario)" by code_simp
  have h: "activeHealthConfig_validate (labHealthConfig (ScResilience defaultDemoScenario)) = Inr ()" by code_simp
  obtain lab where lab: "newExperimentLab (\<lambda>k n. 0) (\<lambda>s. Inr ''hash'') sampleListeners 0 (\<lambda>_. sampleEnv) defaultDemoScenario = Inr lab"
    using lab_made [OF demoScenario_valid labResilience_valid [OF demoScenario_valid later]
        labProxyConfig_valid [OF demoScenario_valid later] h,
        of "\<lambda>s. Inr ''hash''" "''hash''" sampleListeners "''127.0.0.1:8080''" "''127.0.0.1:8081''" 0 "\<lambda>_. sampleEnv"]
      sampleListeners_ok by (force simp: sampleListeners_def)
  have env: "keepsProfiles stillEnv" "\<forall>k. \<not> seCancelled stillEnv k" by (simp_all add: keepsProfiles_def stillEnv_def)
  have steps: "length (Steps defaultDemoScenario) = 2"
    "modeAfter (initialModes (Fixtures defaultDemoScenario)) (take 1 (schedule (\<lambda>k n. 0) defaultDemoScenario))
      (stepKey (schedule (\<lambda>k n. 0) defaultDemoScenario ! 1)) = fixtureUnavailable"
    "StepMode (Configured (schedule (\<lambda>k n. 0) defaultDemoScenario ! 1)) = fixtureRecovered"
    by code_simp+
  show ?thesis
    using schedule_applied [OF demoScenario_valid lab env(1)] env(2) steps lab by force
qed

end
