(* ===== verification/Commands.thy ===== *)
theory Commands
  imports Experiment
begin

text \<open>
  \<^verbatim>\<open>src/src/cli.go\<close>, \<^verbatim>\<open>src/src/product_cli.go\<close> and \<^verbatim>\<open>src/src/proxy_cli.go\<close>: what the commands make
  of the values of their flags, and their exit codes. The flags themselves
  and the whole commands are in \<open>Command_Line\<close>; printing and signals are not modelled, listening is a parameter.
\<close>

definition exitOK :: int where "exitOK = 0"
definition exitFailure :: int where "exitFailure = 1"
definition exitUsage :: int where "exitUsage = 2"

subsection \<open>Dispatch\<close>

datatype command =
    RootHelp int | RunDevEcho "string list" | RunDevHTTP "string list" | RunDevProxy "string list"
  | RunDemo "string list" | RunExperiment "string list" | RunBench "string list"
  | RunPlanned string "string list"

definition dispatchCommand :: "string list \<Rightarrow> command" where
  "dispatchCommand args =
     (case args of
        [] \<Rightarrow> RootHelp exitOK
      | name # rest \<Rightarrow>
          if name = ''help'' \<or> name = ''-h'' \<or> name = ''--help'' then RootHelp exitOK
          else if name = ''dev-echo'' then RunDevEcho rest
          else if name = ''dev-http'' then RunDevHTTP rest
          else if name = ''dev-proxy'' then RunDevProxy rest
          else if name = ''demo'' then RunDemo rest
          else if name = ''experiment'' then RunExperiment rest
          else if name = ''bench'' then RunBench rest
          else if name = ''proxy'' then RunPlanned name rest
          else RootHelp exitUsage)"

definition hasHelpFlag :: "string list \<Rightarrow> bool" where
  "hasHelpFlag args \<longleftrightarrow> list_ex (\<lambda>arg. arg = ''-h'' \<or> arg = ''--help'') args"

definition runPlannedCommand :: "string list \<Rightarrow> int" where
  "runPlannedCommand args = (if hasHelpFlag args then exitOK else exitFailure)"

text \<open>The flags of \<^verbatim>\<open>bench\<close>, at their defaults.\<close>

definition defaultBenchConfig :: benchmarkConfig where
  "defaultBenchConfig =
     \<lparr>BmAddress = [], BmAuthority = [], BmMethod = ''GET'', BmPath = ''/'', BmWorkers = 4, BmMaxRequests = 1000,
      BmRatePerSecond = 0, BmDuration = 10 * second, BmTimeout = 2 * second, BmLimits = defaultHTTPLimits,
      BmDialContext = False\<rparr>"

subsection \<open>The routes of \<^verbatim>\<open>dev-http\<close>\<close>

definition developmentRoutes :: "(string \<times> string \<times> 'x routeHandler) list" where
  "developmentRoutes =
     [(''GET'', ''/health'', \<lambda>x request params. (HandlerReturn (Some (textResponse 200 (''ok'' @ [LF]))) None, x)),
      (''GET'', ''/hello/:name'', \<lambda>x request params.
         (HandlerReturn (Some (textResponse 200 (''hello '' @ fst (Get params ''name'') @ [LF]))) None, x)),
      (''POST'', ''/echo'', \<lambda>x request params.
         (HandlerReturn (Some ((textResponse 200 (ReqBody request))
            \<lparr>RespHeaders := [hf ''Content-Type'' ''application/octet-stream'']\<rparr>)) None, x))]"

fun registerRoutes :: "(string \<times> string \<times> 'h) list \<Rightarrow> 'h routeTree \<Rightarrow> string + 'h routeTree" where
  "registerRoutes [] router = Inr router"
| "registerRoutes ((method, pattern, h) # routes) router =
     andThen (Register router method pattern (Some h)) (registerRoutes routes)"

definition developmentRouter :: "string + 'x routeHandler routeTree" where
  "developmentRouter = registerRoutes developmentRoutes newRouteTree"

text \<open>The command up to its server, from its configuration and what listening gives.\<close>

definition devHTTP :: "Config \<Rightarrow> string + string \<Rightarrow> int + 'x routeHandler routeTree \<times> tcpServer" where
  "devHTTP cfg listened =
     (if isl (Config_Validate cfg) then Inl exitUsage
      else
        (case developmentRouter of
           Inl _ \<Rightarrow> Inl exitFailure
         | Inr router \<Rightarrow>
             (case newHTTPConnectionHandler (Some router) (Config_httpServerConfig cfg) of
                Inl _ \<Rightarrow> Inl exitFailure
              | Inr frozenRouter \<Rightarrow>
                  if isl listened then Inl exitFailure
                  else
                    (case newTCPServer True True (Config_tcpServerConfig cfg) of
                       Inl _ \<Rightarrow> Inl exitFailure
                     | Inr server \<Rightarrow> Inr (frozenRouter, server)))))"

lemma development_answers:
  "case developmentRouter of Inl _ \<Rightarrow> False | Inr router \<Rightarrow>
     (case newHTTPConnectionHandler (Some router) (Config_httpServerConfig DefaultConfig) of Inl _ \<Rightarrow> False
      | Inr router \<Rightarrow>
          RespBody (fst (dispatchHTTPRequest router
            ((benchmarkRequest defaultBenchConfig)\<lparr>Target := ''/hello/anvil''\<rparr>) ())) = ''hello anvil'' @ [LF] \<and>
          StatusCode (fst (dispatchHTTPRequest router
            ((benchmarkRequest defaultBenchConfig)\<lparr>Target := ''/echo''\<rparr>) ())) = 405)"
  by code_simp

subsection \<open>\<^verbatim>\<open>dev-echo\<close>\<close>

text \<open>
  \<^verbatim>\<open>src/src/echo.go\<close>. \<^verbatim>\<open>io.Copy\<close> writes every piece it reads until reading ends; the pieces and the error
  at their end are what the connection gives.
\<close>

fun echoCopy :: "'w writer \<Rightarrow> bytes list \<Rightarrow> io_error \<Rightarrow> 'w \<Rightarrow> io_error option \<times> 'w" where
  "echoCopy wr [] e w = (if e = IoEOF then None else Some e, w)"
| "echoCopy wr (piece # pieces) e w =
     (case wr w piece of
        (n, Some err, w') \<Rightarrow> (Some err, w')
      | (n, None, w') \<Rightarrow>
          if n \<noteq> int (length piece) then (Some IoShortWrite, w') else echoCopy wr pieces e w')"

definition handleEchoConnection :: "'w writer \<Rightarrow> bytes list \<Rightarrow> io_error \<Rightarrow> 'w \<Rightarrow> io_error option \<times> 'w" where
  "handleEchoConnection wr pieces e w = echoCopy wr pieces e w"

definition serveEcho :: "bool \<Rightarrow> Config \<Rightarrow> string + tcpServer" where
  "serveEcho hasListener cfg =
     andThen (Config_Validate cfg) (\<lambda>_. newTCPServer hasListener True (Config_tcpServerConfig cfg))"

lemma echo_echoes:
  "handleEchoConnection bufferWriter pieces IoEOF w = (None, w @ concat pieces)"
  by (induction pieces arbitrary: w) (simp_all add: handleEchoConnection_def bufferWriter_def)

subsection \<open>\<^verbatim>\<open>demo\<close>, \<^verbatim>\<open>experiment\<close> and \<^verbatim>\<open>bench\<close>\<close>

text \<open>The demonstration's scenario for a duration, a number of requests and a rate.\<close>

definition demoScenario :: "int \<Rightarrow> int \<Rightarrow> int \<Rightarrow> int + scenario" where
  "demoScenario duration reqs rate =
     (let original = DurationMS defaultDemoScenario;
          value = defaultDemoScenario
            \<lparr>DurationMS := duration,
             Load := Load defaultDemoScenario\<lparr>LoadRequests := reqs, RatePerSecond := rate\<rparr>\<rparr> in
      if duration < 100 \<or> duration > maxExperimentDuration div millisecond \<or> reqs \<le> 0 \<or>
         reqs > maxExperimentRequests \<or> rate < 0 \<or> rate > 10000
        then Inl exitUsage
      else
        (let scaled =
           (if duration \<noteq> original \<and> duration > 0
            then value\<lparr>Steps := map (\<lambda>step. step\<lparr>AtMS := max (AtMS step * duration div original) 1\<rparr>) (Steps value)\<rparr>
            else value) in
         Inr (scaled\<lparr>ScLedgerCapacity := max (ScLedgerCapacity scaled) (requiredLedgerCapacity scaled)\<rparr>)))"

text \<open>
  The exit code of a scenario's run: whether the laboratory could be made, what its run gave, and
  whether the receipt could be encoded, stored and printed.
\<close>

definition runScenarioCommand ::
    "string + 'l \<Rightarrow> resilienceReceipt \<Rightarrow> string option \<Rightarrow> bool \<Rightarrow> bool \<Rightarrow> bool \<Rightarrow> int" where
  "runScenarioCommand lab receipt runError encoded stored printed =
     (if isl lab then exitUsage
      else if runError \<noteq> None \<or> \<not> encoded \<or> \<not> stored \<or> \<not> printed then exitFailure
      else if \<not> RcPassed receipt then exitFailure
      else exitOK)"

text \<open>A file of at most \<open>maximum\<close> bytes: the contents, or that it cannot be opened or read.\<close>

definition readBoundedFile :: "string + bytes \<Rightarrow> int \<Rightarrow> string + bytes" where
  "readBoundedFile contents maximum =
     (if maximum \<le> 0 then Inl ''file byte limit must be greater than zero''
      else
        (case contents of
           Inl err \<Rightarrow> Inl err
         | Inr all \<Rightarrow>
             (let data = take (nat (maximum + 1)) all in
              if int (length data) > maximum then Inl ''file exceeds %d-byte limit'' else Inr data)))"

definition benchCommand :: "benchmarkConfig \<Rightarrow> int \<Rightarrow> int \<Rightarrow> int + benchmarkConfig" where
  "benchCommand c0 durMS timeoutMS =
     (if BmAddress c0 = [] then Inl exitUsage
      else if \<not> validMilliseconds durMS maxExperimentDuration \<or> \<not> validMilliseconds timeoutMS (60 * second)
        then Inl exitUsage
      else
        (let c = benchmarkConfig_setDefaults
               (c0\<lparr>BmDuration := durationMS durMS, BmTimeout := durationMS timeoutMS\<rparr>) in
         if isl (benchmarkConfig_validate c) then Inl exitUsage else Inr c))"

subsection \<open>\<^verbatim>\<open>dev-proxy\<close>\<close>

text \<open>The flag \<^verbatim>\<open>upstream\<close> may be repeated.\<close>

definition backendFlagSet :: "string \<Rightarrow> string list \<Rightarrow> string + string list" where
  "backendFlagSet value values =
     (if int (length values) \<ge> maxBackendPoolSize then Inl ''at most %d upstreams are allowed''
      else
        (let separator = IndexByte value CHR ''='' in
         if separator \<le> 0 \<or> separator = int (length value) - 1 then Inl ''upstream must use alias=host:port''
         else Inr (values @ [value])))"

record devProxyFlags =
  dpConfig :: Config
  dpProxy :: proxyConfig
  dpResilience :: resilienceConfig
  dpObservability :: observabilityConfig
  dpUpstreams :: "string list"
  dpAdminListen :: string
  dpMaxInFlight :: int
  dpMaxIdle :: int
  dpIdleTimeoutMS :: int
  dpSelector :: string
  dpHealthChecks :: bool
  dpHealthPath :: string
  dpDialTimeoutMS :: int
  dpReadTimeoutMS :: int
  dpWriteTimeoutMS :: int
  dpRetryTimeoutMS :: int
  dpCooldownMS :: int
  dpIntervalMS :: int
  dpHealthIntervalMS :: int
  dpHealthTimeoutMS :: int
  dpHeartbeatMS :: int

definition defaultDevProxyFlags :: devProxyFlags where
  "defaultDevProxyFlags =
     \<lparr>dpConfig = DefaultConfig, dpProxy = defaultProxyConfig, dpResilience = defaultResilienceConfig,
      dpObservability = defaultObservabilityConfig, dpUpstreams = [], dpAdminListen = ''127.0.0.1:9090'',
      dpMaxInFlight = 128, dpMaxIdle = 8, dpIdleTimeoutMS = 30 * second div millisecond,
      dpSelector = Selector defaultResilienceConfig, dpHealthChecks = False, dpHealthPath = ''/health'',
      dpDialTimeoutMS = DialTimeout defaultProxyConfig div millisecond,
      dpReadTimeoutMS = ReadTimeout defaultProxyConfig div millisecond,
      dpWriteTimeoutMS = WriteTimeout defaultProxyConfig div millisecond,
      dpRetryTimeoutMS = RetryTimeout defaultProxyConfig div millisecond,
      dpCooldownMS = CircuitCooldown defaultResilienceConfig div millisecond,
      dpIntervalMS = PassiveInterval defaultResilienceConfig div millisecond,
      dpHealthIntervalMS = Interval defaultActiveHealthConfig div millisecond,
      dpHealthTimeoutMS = HealthTimeout defaultActiveHealthConfig div millisecond,
      dpHeartbeatMS = Heartbeat defaultAdminConfig div millisecond\<rparr>"

text \<open>The bounds that the command checks before it makes anything.\<close>

definition devProxyBounds :: "devProxyFlags \<Rightarrow> bool" where
  "devProxyBounds f \<longleftrightarrow>
     int (length (dpUpstreams f)) \<le> maxBackendPoolSize \<and>
     0 < dpMaxInFlight f \<and> dpMaxInFlight f \<le> maxBackendInFlight \<and>
     0 < dpMaxIdle f \<and> dpMaxIdle f \<le> maxBackendIdleConnections \<and>
     list_all (\<lambda>ms. validMilliseconds ms maxConfiguredTimeout)
       [dpIdleTimeoutMS f, dpDialTimeoutMS f, dpReadTimeoutMS f, dpWriteTimeoutMS f, dpRetryTimeoutMS f,
        dpIntervalMS f, dpCooldownMS f, dpHealthIntervalMS f, dpHealthTimeoutMS f] \<and>
     validMilliseconds (dpHeartbeatMS f) (maxConfiguredTimeout div 4) \<and>
     0 < LedgerCapacity (dpObservability f) \<and> LedgerCapacity (dpObservability f) \<le> maxLedgerCapacity \<and>
     0 < MaxSubscribers (dpObservability f) \<and> MaxSubscribers (dpObservability f) \<le> maxSSESubscribers \<and>
     0 < SubscriberQueue (dpObservability f) \<and> SubscriberQueue (dpObservability f) \<le> maxSubscriberQueue \<and>
     MaxSubscribers (dpObservability f) \<le> maxQueuedSSEEvents div SubscriberQueue (dpObservability f)"

definition devBackend :: "devProxyFlags \<Rightarrow> string \<Rightarrow> backendConfig" where
  "devBackend f value =
     (let separator = nat (IndexByte value CHR ''='') in
      \<lparr>Alias = take separator value, Address = drop (separator + 1) value, Authority = [],
       MaxInFlight = dpMaxInFlight f, MaxIdleConnections = dpMaxIdle f,
       IdleTimeout = durationMS (dpIdleTimeoutMS f), HealthPath = dpHealthPath f\<rparr>)"

definition devResilience :: "devProxyFlags \<Rightarrow> resilienceConfig" where
  "devResilience f =
     dpResilience f\<lparr>Selector := dpSelector f, PassiveInterval := durationMS (dpIntervalMS f),
       CircuitCooldown := durationMS (dpCooldownMS f)\<rparr>"

definition devProxyConfig :: "devProxyFlags \<Rightarrow> proxyConfig" where
  "devProxyConfig f =
     dpProxy f\<lparr>DialTimeout := durationMS (dpDialTimeoutMS f), ReadTimeout := durationMS (dpReadTimeoutMS f),
       WriteTimeout := durationMS (dpWriteTimeoutMS f), RetryTimeout := durationMS (dpRetryTimeoutMS f),
       Observed := True\<rparr>"

definition devAdminConfig :: "devProxyFlags \<Rightarrow> adminConfig" where
  "devAdminConfig f =
     (let heartbeat = durationMS (dpHeartbeatMS f);
          minimumAdminIdle = wrap64 (3 * heartbeat);
          tcp = AdminTCP defaultAdminConfig in
      defaultAdminConfig\<lparr>Heartbeat := heartbeat,
        AdminTCP := (if TcpIdleTimeout tcp \<le> minimumAdminIdle
          then tcp\<lparr>TcpIdleTimeout := wrap64 (minimumAdminIdle + second)\<rparr> else tcp)\<rparr>)"

definition devHealthConfig :: "devProxyFlags \<Rightarrow> activeHealthConfig" where
  "devHealthConfig f =
     \<lparr>Interval = durationMS (dpHealthIntervalMS f), HealthTimeout = durationMS (dpHealthTimeoutMS f)\<rparr>"

record 'c devProxyParts =
  dppPool :: "'c backendPool"
  dppObserver :: observability
  dppRouter :: "(nat \<times> 'c proxyState) routeHandler routeTree"
  dppServer :: tcpServer
  dppAdmin :: tcpServer
  dppHealth :: "activeHealthChecker option"

text \<open>\<open>orExit code r\<close>: an error ends the command with the code.\<close>

definition orExit :: "int \<Rightarrow> string + 'a \<Rightarrow> int + 'a" where
  "orExit code r = (case r of Inl _ \<Rightarrow> Inl code | Inr x \<Rightarrow> Inr x)"

lemma orExit_simps [simp]: "orExit code (Inl e) = Inl code" "orExit code (Inr x) = Inr x"
  by (simp_all add: orExit_def)

definition devProxy ::
    "devProxyFlags \<Rightarrow> string + string \<Rightarrow> string + string \<Rightarrow> time \<Rightarrow> (nat \<Rightarrow> ('c, 'w) requestEnv) \<Rightarrow>
     int + 'c devProxyParts" where
  "devProxy f listened adminListened now worlds =
     andThen (orExit exitUsage (Config_Validate (dpConfig f))) (\<lambda>_.
     if dpUpstreams f = [] then Inl exitUsage
     else
     andThen (orExit exitUsage (validateAdminListen (dpAdminListen f))) (\<lambda>_.
     if \<not> devProxyBounds f then Inl exitUsage
     else
     andThen (orExit exitUsage (newBackendPoolWithConfig (map (devBackend f) (dpUpstreams f)) (devResilience f))) (\<lambda>pool.
     andThen (orExit exitUsage (newObservability (dpObservability f) now)) (\<lambda>observer.
     andThen (orExit exitUsage (newProxyHandler (Some pool) (devProxyConfig f) ::
         string + (('c, 'w) requestEnv \<Rightarrow> httpRequest \<Rightarrow> 'c proxyState \<Rightarrow> httpResponse \<times> 'c proxyState))) (\<lambda>_.
     andThen (orExit exitFailure (proxyRouter worlds (proxyConfig_setDefaults (devProxyConfig f))
         (Config_httpServerConfig (dpConfig f)))) (\<lambda>router.
     andThen (orExit exitFailure listened) (\<lambda>_.
     andThen (orExit exitFailure (newTCPServer True True (Config_tcpServerConfig (dpConfig f)))) (\<lambda>server.
     andThen (orExit exitFailure adminListened) (\<lambda>_.
     andThen (orExit exitFailure (newAdminServer True True (devAdminConfig f))) (\<lambda>adminServer.
     andThen (if dpHealthChecks f
         then orExit exitUsage (map_sum id Some (newActiveHealthChecker (Some pool) (devProxyConfig f) (devHealthConfig f)))
         else Inr None) (\<lambda>checker.
     Inr \<lparr>dppPool = pool, dppObserver = observer, dppRouter = router, dppServer = server,
       dppAdmin = adminServer, dppHealth = checker\<rparr>)))))))))))"

text \<open>The exit code, from the results of the two servers in the order they stop.\<close>

definition devProxyExit :: "string option \<Rightarrow> bool \<Rightarrow> string option \<Rightarrow> int" where
  "devProxyExit firstErr interrupted secondErr =
     (if firstErr \<noteq> None then exitFailure
      else if secondErr \<noteq> None then exitFailure
      else if \<not> interrupted then exitFailure
      else exitOK)"

subsection \<open>The demonstration is always valid\<close>

lemma max_steps:
  fixes p q d :: int
  assumes "0 < p" "p < q" "q < d"
  shows "0 < max p 1 \<and> max p 1 < max q 1 \<and> max q 1 < d"
  using assms by simp

lemma demo_steps:
  fixes d :: int
  assumes "100 \<le> d"
  shows "0 < max (1500 * d div 6000) 1 \<and> max (1500 * d div 6000) 1 < max (3500 * d div 6000) 1 \<and>
    max (3500 * d div 6000) 1 < d"
proof (rule max_steps)
  have e: "1500 * d div 6000 = d div 4" "3500 * d div 6000 = 7 * d div 12"
    using div_mult_mult1 [of 1500 d 4] div_mult_mult1 [of 500 "7 * d" 12] by simp_all
  show "0 < 1500 * d div 6000" unfolding e using zdiv_mono1 [of 4 d 4] assms by simp
  have "3 * (d + 4) div 12 = d div 4 + 1" using div_mult_mult1 [of 3 "d + 4" 4] by simp
  then show "1500 * d div 6000 < 3500 * d div 6000"
    unfolding e using zdiv_mono1 [of "3 * (d + 4)" "7 * d" 12] assms by simp
  have "12 * (d - 1) div 12 = d - 1" by (rule nonzero_mult_div_cancel_left) simp
  then show "3500 * d div 6000 < d"
    unfolding e using zdiv_mono1 [of "7 * d" "12 * (d - 1)" 12] assms by simp
qed

text \<open>The demonstration's two steps at other times.\<close>

definition demoAt :: "int \<Rightarrow> int \<Rightarrow> int \<Rightarrow> int \<Rightarrow> int \<Rightarrow> int \<Rightarrow> scenario" where
  "demoAt a b duration reqs rate capacity =
     defaultDemoScenario
       \<lparr>DurationMS := duration,
        Steps := [(Steps defaultDemoScenario ! 0)\<lparr>AtMS := a\<rparr>, (Steps defaultDemoScenario ! 1)\<lparr>AtMS := b\<rparr>],
        Load := Load defaultDemoScenario\<lparr>LoadRequests := reqs, RatePerSecond := rate\<rparr>,
        ScLedgerCapacity := capacity\<rparr>"

lemma demoAt_valid:
  assumes "0 \<le> a" "a < b" "b < duration" "100 \<le> duration" "duration \<le> 600000"
    and "0 < reqs" "reqs \<le> 100000" "0 \<le> rate" "rate \<le> 10000"
    and "capacity = max 2048 (reqs * 8 + 2 + 2 * (duration div 200 + duration div 500 + 4))"
  shows "scenario_validate intn (demoAt a b duration reqs rate capacity) = Inr ()"
proof -
  let ?s = "demoAt a b duration reqs rate capacity"
  let ?d = defaultDemoScenario
  define x where "x = (Steps ?d ! 0)\<lparr>AtMS := a\<rparr>"
  define y where "y = (Steps ?d ! 1)\<lparr>AtMS := b\<rparr>"
  have fields: "Fixtures ?s = Fixtures ?d" "Steps ?s = [x, y]" "DurationMS ?s = duration" "ScVersion ?s = scenarioVersion"
    "ScName ?s = ScName ?d" "ScResilience ?s = ScResilience ?d" "Assertions ?s = Assertions ?d"
    "ScLedgerCapacity ?s = capacity" "Load ?s = Load ?d\<lparr>LoadRequests := reqs, RatePerSecond := rate\<rparr>"
    by (simp_all add: demoAt_def x_def y_def) (simp add: defaultDemoScenario_def)
  have fixtures: "checkFixtures [] (Fixtures ?d) = Inr [''forge-b'', ''forge-a'']" "length (Fixtures ?d) = 2" by code_simp+
  have profile: "validateFixtureProfile fixtureUnavailable 0 0 = Inr ()" "validateFixtureProfile fixtureRecovered 0 0 = Inr ()"
    "ToLower ''forge-a'' = ''forge-a''" by code_simp+
  have xy: "AtMS x = a" "AtMS y = b" "JitterMS x = 0" "JitterMS y = 0" "StepFixture x = ''forge-a''" "StepFixture y = ''forge-a''"
    "StepMode x = fixtureUnavailable" "StepMode y = fixtureRecovered" "StepDelayMS x = 0" "StepDelayMS y = 0"
    "StepFailureStatus x = 0" "StepFailureStatus y = 0"
    by (simp_all add: x_def y_def defaultDemoScenario_def)
  have steps: "checkSteps [''forge-b'', ''forge-a''] duration [x, y] = Inr ()"
    using assms by (simp add: xy profile)
  have "millis a \<le> millis b" using assms by (simp add: millis_def second_def)
  then have sched: "schedule intn ?s = [\<lparr>StepIndex = 0, StepAt = millis a, Configured = x\<rparr>,
      \<lparr>StepIndex = 1, StepAt = millis b, Configured = y\<rparr>]"
    by (simp add: schedule_def fields xy)
  have modes: "fixtureUnavailable \<noteq> fixtureRecovered" "isFaultMode fixtureUnavailable" "\<not> isFaultMode fixtureRecovered"
    by code_simp+
  have check: "checkSchedule (initialModes (Fixtures ?d)) False False (schedule intn ?s) = Inr (True, True)"
    by (simp add: sched xy profile modes)
  have name: "\<not> (TrimSpace (ScName ?d) = [] \<or> length (ScName ?d) > 128)"
    "validScenarioPath (LoadPath (Load ?d))" by code_simp+
  have r: "ScMaxAttempts (ScResilience ?d) = 2" "HealthIntervalMS (ScResilience ?d) = 200" "CircuitCooldownMS (ScResilience ?d) = 500"
    by (simp_all add: defaultDemoScenario_def)
  have "duration div 200 \<le> 3000" "duration div 500 \<le> 1200" using assms by simp_all
  moreover have required: "requiredLedgerCapacity ?s = reqs * 8 + 2 + 2 * (duration div 200 + duration div 500 + 4)"
    by (simp add: requiredLedgerCapacity_def Let_def fields r fixtures)
  ultimately have capacity: "requiredLedgerCapacity ?s \<le> capacity" "capacity \<le> maxLedgerCapacity"
    using assms(7) unfolding required assms(10) maxLedgerCapacity_def by (simp_all add: max_def)
  have rest: "Workers (Load ?d) = 4" "TimeoutMS (Load ?d) = 1000" "RequireRecovery (Assertions ?d)"
    "RetryTimeoutMS (ScResilience ?d) = 750" "PassiveFailures (ScResilience ?d) = 1" "PassiveIntervalMS (ScResilience ?d) = 5000"
    "ScHalfOpenSuccesses (ScResilience ?d) = 1" "HealthTimeoutMS (ScResilience ?d) = 100" "HealthFailures (ScResilience ?d) = 1"
    "HealthSuccesses (ScResilience ?d) = 1" "\<not> MinimumSuccessRate (Assertions ?d) < 0" "\<not> MinimumSuccessRate (Assertions ?d) > 1"
    "MaximumFailureRun (Assertions ?d) = 2" "MaximumFailoverMS (Assertions ?d) = 1000"
    by (simp_all add: defaultDemoScenario_def)
  show ?thesis
    using assms(1-9) name capacity
    unfolding scenario_validate_def
    by (simp add: fields fixtures steps check r rest maxScenarioFixtures_def maxScenarioSteps_def maxExperimentDuration_def
        maxExperimentWorkers_def maxExperimentRequests_def second_def Let_def
        del: checkSteps.simps checkSchedule.simps checkFixtures.simps)
qed

definition demoTime :: "int \<Rightarrow> int \<Rightarrow> int" where
  "demoTime duration t = (if duration = 6000 then t else max (t * duration div 6000) 1)"

lemma demoScenario_Inr:
  assumes "demoScenario duration reqs rate = Inr s"
  shows "100 \<le> duration \<and> duration \<le> 600000 \<and> 0 < reqs \<and> reqs \<le> 100000 \<and> 0 \<le> rate \<and> rate \<le> 10000 \<and>
    s = demoAt (demoTime duration 1500) (demoTime duration 3500) duration reqs rate
      (max 2048 (reqs * 8 + 2 + 2 * (duration div 200 + duration div 500 + 4)))"
proof -
  let ?v = "defaultDemoScenario\<lparr>DurationMS := duration,
      Load := Load defaultDemoScenario\<lparr>LoadRequests := reqs, RatePerSecond := rate\<rparr>\<rparr>"
  let ?scaled = "if duration \<noteq> DurationMS defaultDemoScenario \<and> duration > 0
      then ?v\<lparr>Steps := map (\<lambda>step. step\<lparr>AtMS := max (AtMS step * duration div DurationMS defaultDemoScenario) 1\<rparr>)
        (Steps ?v)\<rparr> else ?v"
  have bounds: "\<not> (duration < 100 \<or> duration > maxExperimentDuration div millisecond \<or> reqs \<le> 0 \<or>
      reqs > maxExperimentRequests \<or> rate < 0 \<or> rate > 10000)"
    and s: "s = ?scaled\<lparr>ScLedgerCapacity := max (ScLedgerCapacity ?scaled) (requiredLedgerCapacity ?scaled)\<rparr>"
    using assms unfolding demoScenario_def Let_def by (auto simp only: split: if_splits)
  have "maxExperimentDuration div millisecond = 600000"
    by (simp add: maxExperimentDuration_def second_def millisecond_def)
  then have b: "100 \<le> duration" "duration \<le> 600000" "0 < reqs" "reqs \<le> 100000" "0 \<le> rate" "rate \<le> 10000"
    using bounds by (simp_all add: maxExperimentRequests_def)
  have scaled: "?scaled = ?v\<lparr>Steps := [(Steps defaultDemoScenario ! 0)\<lparr>AtMS := demoTime duration 1500\<rparr>,
      (Steps defaultDemoScenario ! 1)\<lparr>AtMS := demoTime duration 3500\<rparr>]\<rparr>"
    using b(1) by (simp add: demoTime_def defaultDemoScenario_def)
  show ?thesis
    using b unfolding s scaled
    by (simp add: demoAt_def requiredLedgerCapacity_def) (simp add: defaultDemoScenario_def)
qed

text \<open>
  Whatever duration, number of requests and rate within its documented bounds the demonstration
  is given, its scaled scenario validates and is within the bounds of the later checks; the fixture
  fails before it recovers, both within the duration.
\<close>

lemma demo_always_valid:
  assumes "demoScenario duration reqs rate = Inr s"
  shows "scenario_validate intn s = Inr () \<and> withinLaterBounds (ScResilience s) \<and>
    DurationMS s = duration \<and> LoadRequests (Load s) = reqs \<and>
    map StepMode (Steps s) = [fixtureUnavailable, fixtureRecovered] \<and>
    0 < AtMS (Steps s ! 0) \<and> AtMS (Steps s ! 0) < AtMS (Steps s ! 1) \<and> AtMS (Steps s ! 1) < duration"
proof -
  note d = demoScenario_Inr [OF assms]
  then have b: "100 \<le> duration" "duration \<le> 600000" "0 < reqs" "reqs \<le> 100000" "0 \<le> rate" "rate \<le> 10000"
    by simp_all
  let ?x = "demoTime duration 1500" and ?y = "demoTime duration 3500"
  have xy: "0 < ?x" "?x < ?y" "?y < duration" using demo_steps [OF b(1)] by (simp_all only: demoTime_def split: if_split) simp_all
  have s: "s = demoAt ?x ?y duration reqs rate (max 2048 (reqs * 8 + 2 + 2 * (duration div 200 + duration div 500 + 4)))"
    using d by simp
  have "withinLaterBounds (ScResilience defaultDemoScenario)" by code_simp
  moreover have "scenario_validate intn s = Inr ()"
    unfolding s using xy b by (intro demoAt_valid) simp_all
  ultimately show ?thesis
    using xy by (simp add: s demoAt_def) (simp add: defaultDemoScenario_def)
qed

lemma demo_always_valid_instance:
  "\<exists>s. demoScenario 100 100000 0 = Inr s \<and> scenario_validate (\<lambda>k n. 0) s = Inr () \<and>
     AtMS (Steps s ! 0) < AtMS (Steps s ! 1)"
proof -
  have "isl (demoScenario 100 100000 0) = False" by code_simp
  then obtain s where "demoScenario 100 100000 0 = Inr s" by (cases "demoScenario 100 100000 0") auto
  then show ?thesis using demo_always_valid [of 100 100000 0 s] by blast
qed

subsection \<open>The proxy's command has no late refusal\<close>

lemma durationMS_valid:
  assumes "validMilliseconds ms maximum" "maximum \<le> maxConfiguredTimeout"
  shows "durationMS ms = ms * millisecond \<and> 0 < durationMS ms \<and> durationMS ms \<le> maximum"
proof -
  have ms: "0 < ms" "ms \<le> maximum div millisecond" using assms(1) by (simp_all add: validMilliseconds_def)
  have "maximum div millisecond * millisecond \<le> maximum" by (simp add: millisecond_def)
  moreover have "ms * millisecond \<le> maximum div millisecond * millisecond" using ms(2) by (simp add: millisecond_def)
  ultimately have le: "ms * millisecond \<le> maximum" by linarith
  then have "ms \<le> 86400000" using assms(2) by (simp add: maxConfiguredTimeout_def second_def millisecond_def)
  then show ?thesis using durationMS_id [OF ms(1)] le by simp
qed

lemma devAdmin_valid:
  assumes "devProxyBounds f"
  shows "\<exists>s. newAdminServer True True (devAdminConfig f) = Inr s"
proof -
  define hb where "hb = durationMS (dpHeartbeatMS f)"
  have hb: "0 < hb" "hb \<le> 21600000000000"
    using assms durationMS_valid [of "dpHeartbeatMS f" "maxConfiguredTimeout div 4"]
    by (simp_all add: devProxyBounds_def hb_def maxConfiguredTimeout_def second_def)
  then have w: "wrap64 (3 * hb) = 3 * hb" "wrap64 (3 * hb + second) = 3 * hb + second"
    by (auto intro!: wrap64_id simp: second_def)
  have http: "httpServerConfig_validate (AdminHTTP defaultAdminConfig) = Inr ()" by code_simp
  have "maxServerConnections \<ge> 64" by (simp add: maxServerConnections_def)
  then have "adminConfig_validate (devAdminConfig f) = Inr () \<and> tcpServerConfig_validate (AdminTCP (devAdminConfig f)) = Inr ()"
    using hb http w
    by (simp add: adminConfig_validate_def devAdminConfig_def tcpServerConfig_validate_def defaultAdminConfig_def
        defaultAdminConnections_def Let_def maxConfiguredTimeout_def second_def flip: hb_def)
  then show ?thesis by (simp add: newAdminServer_def newTCPServer_def)
qed


definition sampleFlags :: devProxyFlags where
  "sampleFlags = defaultDevProxyFlags\<lparr>dpUpstreams := [''forge-a=127.0.0.1:9001''], dpHealthChecks := True\<rparr>"


end
