(* ===== verification/Context_Close.thy ===== *)
theory Context_Close
  imports Anvil_Prelude
begin

text \<open>
  \<^verbatim>\<open>src/src/context_close.go\<close>: closing a connection when a context ends, until the caller says stop.
  \<^verbatim>\<open>context.AfterFunc\<close> starts its function in a goroutine of its own once the context has ended, unless
  it was stopped before; its \<^verbatim>\<open>stop\<close> says whether it did that. The context, that goroutine and the caller
  of the returned function are steps that interleave in any order. What is closed is a state and what
  closing does to it, a function.
\<close>

datatype callbackPhase = CallbackRegistered | CallbackStopped | CallbackStarted | CallbackClosed | CallbackDone

datatype stopPhase = StopIdle | StopWaiting | StopReturned

record 'c closeWatch =
  watchEnded :: bool
  watchCallback :: callbackPhase
  watchStop :: stopPhase
  watchCloser :: 'c

definition closeOnContextDone :: "bool \<Rightarrow> 'c \<Rightarrow> 'c closeWatch" where
  "closeOnContextDone ended conn =
     \<lparr>watchEnded = ended, watchCallback = CallbackRegistered, watchStop = StopIdle, watchCloser = conn\<rparr>"

text \<open>\<^verbatim>\<open>stop\<close> of the standard library: it keeps a function from starting that has not started.\<close>

definition afterFuncStop :: "'c closeWatch \<Rightarrow> bool \<times> 'c closeWatch" where
  "afterFuncStop w =
     (if watchCallback w = CallbackRegistered then (True, w\<lparr>watchCallback := CallbackStopped\<rparr>) else (False, w))"

text \<open>The returned function, up to where it may wait for the callback.\<close>

definition stopCalled :: "'c closeWatch \<Rightarrow> 'c closeWatch" where
  "stopCalled w =
     (case afterFuncStop w of
        (True, w') \<Rightarrow> w'\<lparr>watchStop := StopReturned\<rparr>
      | (False, w') \<Rightarrow> w'\<lparr>watchStop := StopWaiting\<rparr>)"

text \<open>The context and the goroutine of the callback.\<close>

inductive callbackStep :: "('c \<Rightarrow> 'c) \<Rightarrow> 'c closeWatch \<Rightarrow> 'c closeWatch \<Rightarrow> bool" for closeConn where
  contextEnds: "\<not> watchEnded w \<Longrightarrow> callbackStep closeConn w (w\<lparr>watchEnded := True\<rparr>)"
| callbackStarts: "watchEnded w \<Longrightarrow> watchCallback w = CallbackRegistered \<Longrightarrow>
    callbackStep closeConn w (w\<lparr>watchCallback := CallbackStarted\<rparr>)"
| callbackCloses: "watchCallback w = CallbackStarted \<Longrightarrow>
    callbackStep closeConn w (w\<lparr>watchCallback := CallbackClosed, watchCloser := closeConn (watchCloser w)\<rparr>)"
| callbackSignals: "watchCallback w = CallbackClosed \<Longrightarrow>
    callbackStep closeConn w (w\<lparr>watchCallback := CallbackDone\<rparr>)"

text \<open>The caller, who may call the function again after it has returned.\<close>

inductive stopStep :: "'c closeWatch \<Rightarrow> 'c closeWatch \<Rightarrow> bool" where
  callsStop: "watchStop w \<noteq> StopWaiting \<Longrightarrow> stopStep w (stopCalled w)"
| stopWakes: "watchStop w = StopWaiting \<Longrightarrow> watchCallback w = CallbackDone \<Longrightarrow>
    stopStep w (w\<lparr>watchStop := StopReturned\<rparr>)"

inductive_cases callbackStepE: "callbackStep closeConn w w'"
inductive_cases stopStepE: "stopStep w w'"

inductive watchReach :: "('c \<Rightarrow> 'c) \<Rightarrow> 'c closeWatch \<Rightarrow> 'c closeWatch \<Rightarrow> bool" for closeConn w where
  watchStays: "watchReach closeConn w w"
| watchCallbackMoves: "watchReach closeConn w w' \<Longrightarrow> callbackStep closeConn w' w'' \<Longrightarrow> watchReach closeConn w w''"
| watchStopMoves: "watchReach closeConn w w' \<Longrightarrow> stopStep w' w'' \<Longrightarrow> watchReach closeConn w w''"

subsection \<open>What has been closed\<close>

fun closedBy :: "('c \<Rightarrow> 'c) \<Rightarrow> callbackPhase \<Rightarrow> 'c \<Rightarrow> 'c" where
  "closedBy closeConn CallbackClosed conn = closeConn conn"
| "closedBy closeConn CallbackDone conn = closeConn conn"
| "closedBy closeConn _ conn = conn"

text \<open>
  The connection is as the callback's phase says; the callback has left its registration only by the
  context's end or by the caller; a returned call has left it stopped or done.
\<close>

definition watchInv :: "('c \<Rightarrow> 'c) \<Rightarrow> 'c \<Rightarrow> 'c closeWatch \<Rightarrow> bool" where
  "watchInv closeConn conn w \<longleftrightarrow>
     watchCloser w = closedBy closeConn (watchCallback w) conn \<and>
     (watchCallback w \<in> {CallbackStarted, CallbackClosed, CallbackDone} \<longrightarrow> watchEnded w) \<and>
     (watchStop w \<noteq> StopIdle \<longrightarrow> watchCallback w \<noteq> CallbackRegistered) \<and>
     (watchStop w = StopReturned \<longrightarrow> watchCallback w \<in> {CallbackStopped, CallbackDone})"

lemma watchInv_start: "watchInv closeConn conn (closeOnContextDone ended conn)"
  by (simp add: watchInv_def closeOnContextDone_def)

lemma watchInv_callback:
  "callbackStep closeConn w w' \<Longrightarrow> watchInv closeConn conn w \<Longrightarrow> watchInv closeConn conn w'"
  by (erule callbackStepE) (auto simp: watchInv_def)

lemma watchInv_stop: "stopStep w w' \<Longrightarrow> watchInv closeConn conn w \<Longrightarrow> watchInv closeConn conn w'"
  by (erule stopStepE) (auto simp: watchInv_def stopCalled_def afterFuncStop_def)

lemma watchInv_reach:
  assumes "watchReach closeConn w w'" "watchInv closeConn conn w"
  shows "watchInv closeConn conn w'"
  using assms by (induction rule: watchReach.induct) (blast dest: watchInv_callback watchInv_stop)+

text \<open>Once the callback is stopped or done, it stays so.\<close>

lemma settled_callback:
  "callbackStep closeConn w w' \<Longrightarrow> watchCallback w \<in> {CallbackStopped, CallbackDone} \<Longrightarrow>
   watchCallback w' = watchCallback w \<and> watchCloser w' = watchCloser w"
  by (erule callbackStepE) auto

lemma settled_stop:
  "stopStep w w' \<Longrightarrow> watchCallback w \<in> {CallbackStopped, CallbackDone} \<Longrightarrow>
   watchCallback w' = watchCallback w \<and> watchCloser w' = watchCloser w"
  by (erule stopStepE) (auto simp: stopCalled_def afterFuncStop_def)

lemma settled_reach:
  assumes "watchReach closeConn w w'" "watchCallback w \<in> {CallbackStopped, CallbackDone}"
  shows "watchCallback w' = watchCallback w \<and> watchCloser w' = watchCloser w"
  using assms
  by (induction rule: watchReach.induct) (metis settled_callback settled_stop)+

text \<open>A call that waits for a callback which has started is woken: until it returns, a step is left.\<close>

lemma waiting_moves:
  assumes "watchInv closeConn conn w" "watchStop w = StopWaiting" "watchCallback w \<noteq> CallbackStopped"
  shows "(\<exists>w'. callbackStep closeConn w w') \<or> (\<exists>w'. stopStep w w')"
  using assms
  by (cases "watchCallback w") (auto simp: watchInv_def intro: callbackStep.intros stopStep.intros)

text \<open>The steps before the function's return, as a number that each of them lowers.\<close>

definition watchRank :: "'c closeWatch \<Rightarrow> nat" where
  "watchRank w =
     (if watchEnded w then 0 else 1) +
     (case watchCallback w of CallbackRegistered \<Rightarrow> 3 | CallbackStarted \<Rightarrow> 2 | CallbackClosed \<Rightarrow> 1 | _ \<Rightarrow> 0) +
     (case watchStop w of StopIdle \<Rightarrow> 2 | StopWaiting \<Rightarrow> 1 | StopReturned \<Rightarrow> 0)"

lemma watchRank_callback: "callbackStep closeConn w w' \<Longrightarrow> watchRank w' < watchRank w"
  by (erule callbackStepE) (auto simp: watchRank_def)

lemma watchRank_stop: "stopStep w w' \<Longrightarrow> watchStop w \<noteq> StopReturned \<Longrightarrow> watchRank w' < watchRank w"
  by (erule stopStepE)
    (auto simp: watchRank_def stopCalled_def afterFuncStop_def split: callbackPhase.splits stopPhase.splits)

text \<open>
  Once the returned function has returned, the context can no longer close the connection, whatever
  happens afterwards; it has been closed at most once, and not at all unless the context had ended.
\<close>

lemma stop_ends_watch:
  assumes "watchReach closeConn (closeOnContextDone ended conn) w" "watchStop w = StopReturned"
    and "watchReach closeConn w later"
  shows "watchCloser later = watchCloser w \<and> watchCloser later \<in> {conn, closeConn conn} \<and>
    (\<not> watchEnded w \<longrightarrow> watchCloser later = conn)"
proof -
  have i: "watchInv closeConn conn w" using watchInv_reach [OF assms(1) watchInv_start] .
  then have "watchCallback w \<in> {CallbackStopped, CallbackDone}" using assms(2) by (simp add: watchInv_def)
  then show ?thesis using i settled_reach [OF assms(3)] by (auto simp: watchInv_def)
qed

end
