(* ===== verification/Watched_Exchange.thy ===== *)
theory Watched_Exchange
  imports Context_Close Upstream_Pool
begin

text \<open>
  The connections of a backend as the attempts that use them see them: \<^verbatim>\<open>executeProxyAttempt\<close>
  (\<^verbatim>\<open>src/src/proxy.go\<close>) takes a connection, has it watched by its context, gives it back or not, and
  its deferred functions stop the watch and then close what is not given back. Any number of attempts
  interleave, each with its context and its callback. A connection is the number it was dialled with;
  \<open>exClosed\<close> lists the connections that have been closed.
\<close>

datatype exchangePhase =
    NotStarted | NoConnection | Exchanging nat | Recycled nat | NotRecycled nat | Reused nat | Dropped nat

record exchangeSys =
  exBackend :: "nat proxyBackend"
  exDialled :: nat
  exClosed :: "nat list"
  exPhase :: "nat \<Rightarrow> exchangePhase"
  exWatch :: "nat \<Rightarrow> nat list closeWatch"

definition exchangeStart :: "nat proxyBackend \<Rightarrow> exchangeSys" where
  "exchangeStart b =
     \<lparr>exBackend = b, exDialled = 0, exClosed = [], exPhase = (\<lambda>_. NotStarted),
      exWatch = (\<lambda>_. closeOnContextDone False [])\<rparr>"

fun connectionOf :: "exchangePhase \<Rightarrow> nat option" where
  "connectionOf (Exchanging c) = Some c"
| "connectionOf (Recycled c) = Some c"
| "connectionOf (NotRecycled c) = Some c"
| "connectionOf (Reused c) = Some c"
| "connectionOf (Dropped c) = Some c"
| "connectionOf _ = None"

text \<open>The attempt \<open>i\<close> acquires: the context it comes with may have ended already.\<close>

definition exAcquire :: "nat \<Rightarrow> time \<Rightarrow> bool \<Rightarrow> bool \<Rightarrow> exchangeSys \<Rightarrow> exchangeSys" where
  "exAcquire i now refused ended s =
     (case acquireConnection now (if refused then Inl () else Inr (exDialled s)) (exBackend s) of
        (Inl _, closed, b) \<Rightarrow>
          s\<lparr>exBackend := b, exClosed := closed @ exClosed s, exPhase := (exPhase s)(i := NoConnection)\<rparr>
      | (Inr (c, reused), closed, b) \<Rightarrow>
          s\<lparr>exBackend := b, exDialled := (if reused then exDialled s else exDialled s + 1),
            exClosed := closed @ exClosed s, exPhase := (exPhase s)(i := Exchanging c),
            exWatch := (exWatch s)(i := closeOnContextDone ended [])\<rparr>)"

definition exRecycle :: "nat \<Rightarrow> nat \<Rightarrow> time \<Rightarrow> exchangeSys \<Rightarrow> exchangeSys" where
  "exRecycle i c now s =
     (case recycleConnection (Some c) now (exBackend s) of
        (kept, closed, b) \<Rightarrow>
          s\<lparr>exBackend := b, exClosed := closed @ exClosed s,
            exPhase := (exPhase s)(i := if kept then Recycled c else NotRecycled c)\<rparr>)"

definition exSetWatch :: "nat \<Rightarrow> nat list closeWatch \<Rightarrow> exchangeSys \<Rightarrow> exchangeSys" where
  "exSetWatch i w s = s\<lparr>exWatch := (exWatch s)(i := w), exClosed := watchCloser w\<rparr>"

definition exWatchOf :: "nat \<Rightarrow> exchangeSys \<Rightarrow> nat list closeWatch" where
  "exWatchOf i s = (exWatch s i)\<lparr>watchCloser := exClosed s\<rparr>"

definition exLeave :: "nat \<Rightarrow> exchangeSys \<Rightarrow> exchangeSys" where
  "exLeave i s =
     (case exPhase s i of
        Recycled c \<Rightarrow> s\<lparr>exPhase := (exPhase s)(i := Reused c)\<rparr>
      | NotRecycled c \<Rightarrow> s\<lparr>exPhase := (exPhase s)(i := Dropped c), exClosed := c # exClosed s\<rparr>
      | _ \<Rightarrow> s)"

inductive exchangeStep :: "exchangeSys \<Rightarrow> exchangeSys \<Rightarrow> bool" where
  exAcquires: "exPhase s i = NotStarted \<Longrightarrow> exchangeStep s (exAcquire i now refused ended s)"
| exRecycles: "exPhase s i = Exchanging c \<Longrightarrow> exchangeStep s (exRecycle i c now s)"
| exGivesUp: "exPhase s i = Exchanging c \<Longrightarrow> exchangeStep s (s\<lparr>exPhase := (exPhase s)(i := NotRecycled c)\<rparr>)"
| exStops: "exPhase s i \<in> {Recycled c, NotRecycled c} \<Longrightarrow> watchStop (exWatch s i) \<noteq> StopReturned \<Longrightarrow>
    stopStep (exWatchOf i s) w \<Longrightarrow> exchangeStep s (exSetWatch i w s)"
| exLeaves: "watchStop (exWatch s i) = StopReturned \<Longrightarrow> exchangeStep s (exLeave i s)"
| exWatches: "connectionOf (exPhase s i) = Some c \<Longrightarrow> callbackStep (Cons c) (exWatchOf i s) w \<Longrightarrow>
    exchangeStep s (exSetWatch i w s)"

inductive_cases exchangeStepE: "exchangeStep s s'"

inductive exchangeReach :: "nat proxyBackend \<Rightarrow> exchangeSys \<Rightarrow> bool" for b where
  exStart: "idle b = [] \<Longrightarrow> exchangeReach b (exchangeStart b)"
| exMoves: "exchangeReach b s \<Longrightarrow> exchangeStep s s' \<Longrightarrow> exchangeReach b s'"

subsection \<open>Who may use a connection\<close>

text \<open>The attempts that still own their connection, and those whose callback may have closed it.\<close>

fun ownedBy :: "exchangePhase \<Rightarrow> nat option" where
  "ownedBy (Exchanging c) = Some c"
| "ownedBy (NotRecycled c) = Some c"
| "ownedBy _ = None"

definition idleConns :: "exchangeSys \<Rightarrow> nat list" where
  "idleConns s = map connection (idle (exBackend s))"

definition exOwners :: "exchangeSys \<Rightarrow> bool" where
  "exOwners s \<longleftrightarrow>
     distinct (idleConns s) \<and> (\<forall>c \<in> set (idleConns s). c < exDialled s) \<and>
     (\<forall>i c. connectionOf (exPhase s i) = Some c \<longrightarrow> c < exDialled s) \<and>
     (\<forall>i c. ownedBy (exPhase s i) = Some c \<longrightarrow> c \<notin> set (idleConns s)) \<and>
     (\<forall>i j c. ownedBy (exPhase s i) = Some c \<longrightarrow> ownedBy (exPhase s j) = Some c \<longrightarrow> i = j)"

definition firedOn :: "nat \<Rightarrow> exchangeSys \<Rightarrow> nat \<Rightarrow> bool" where
  "firedOn c s j \<longleftrightarrow>
     connectionOf (exPhase s j) = Some c \<and> watchCallback (exWatch s j) \<in> {CallbackClosed, CallbackDone}"

definition exOpen :: "exchangeSys \<Rightarrow> bool" where
  "exOpen s \<longleftrightarrow>
     (\<forall>c \<in> set (exClosed s). c < exDialled s \<and>
       (c \<in> set (idleConns s) \<or> (\<exists>i. exPhase s i = Exchanging c) \<longrightarrow> (\<exists>j. firedOn c s j)))"

lemma exOwners_start: "idle b = [] \<Longrightarrow> exOwners (exchangeStart b)"
  by (simp add: exOwners_def exchangeStart_def idleConns_def)

text \<open>What acquiring does with the idle connections.\<close>

lemma acquire_idle:
  assumes "acquireConnection now dial b = (r, closed, b')" "distinct (map connection (idle b))"
  shows "distinct (map connection (idle b'))" "set (map connection (idle b')) \<subseteq> set (map connection (idle b))"
    "set closed \<subseteq> set (map connection (idle b))" "set closed \<inter> set (map connection (idle b')) = {}"
    "r = Inr (c, True) \<Longrightarrow> c \<in> set (map connection (idle b)) \<and> c \<notin> set (map connection (idle b')) \<and> c \<notin> set closed"
    "r = Inr (c, False) \<Longrightarrow> dial = Inr c"
proof -
  let ?M = "\<lambda>b. mset (map connection (idle b))"
  have eq: "?M b = ?M b' + mset closed + (case r of Inr (c, True) \<Rightarrow> {#c#} | _ \<Rightarrow> {#})"
    and "\<forall>c. r = Inr (c, False) \<longrightarrow> dial = Inr c" using acquire_accounts [OF assms(1)] by blast+
  then show "r = Inr (c, False) \<Longrightarrow> dial = Inr c" by blast
  have once: "count (?M b) x \<le> 1" for x using assms(2) by (simp add: distinct_count_atmost_1)
  have "count (?M b') x \<le> 1" for x using once [of x] unfolding eq by simp
  then show "distinct (map connection (idle b'))"
    by (metis count_eq_zero_iff distinct_count_atmost_1 less_one linorder_not_le nat_less_le set_mset_mset)
  show "set (map connection (idle b')) \<subseteq> set (map connection (idle b))"
    "set closed \<subseteq> set (map connection (idle b))"
    using arg_cong [OF eq, of set_mset] by auto
  show "set closed \<inter> set (map connection (idle b')) = {}"
  proof (rule ccontr)
    assume "set closed \<inter> set (map connection (idle b')) \<noteq> {}"
    then obtain x where "x \<in># ?M b'" "x \<in># mset closed" by auto
    then have "count (?M b') x \<ge> 1" "count (mset closed) x \<ge> 1" by (simp_all only: Suc_le_eq count_greater_zero_iff One_nat_def)
    then show False using once [of x] unfolding eq count_union by linarith
  qed
  assume r: "r = Inr (c, True)"
  then have "c \<in># ?M b" unfolding eq by simp
  moreover have "count (?M b') c + count (mset closed) c = 0"
    using once [of c] unfolding eq r by simp
  ultimately show "c \<in> set (map connection (idle b)) \<and> c \<notin> set (map connection (idle b')) \<and> c \<notin> set closed"
    by (simp add: count_eq_zero_iff)
qed

subsection \<open>Ownership is kept by every step\<close>

lemma ownedBy_connection: "ownedBy p = Some c \<Longrightarrow> connectionOf p = Some c"
  by (cases p) auto

lemma exOwnersD:
  assumes "exOwners s"
  shows "distinct (idleConns s)" "c \<in> set (idleConns s) \<Longrightarrow> c < exDialled s"
    "connectionOf (exPhase s i) = Some c \<Longrightarrow> c < exDialled s"
    "ownedBy (exPhase s i) = Some c \<Longrightarrow> c \<notin> set (idleConns s)"
    "ownedBy (exPhase s i) = Some c \<Longrightarrow> ownedBy (exPhase s j) = Some c \<Longrightarrow> i = j"
  using assms unfolding exOwners_def by blast+

text \<open>A step of the attempt \<open>i\<close>: what is to be shown of its new phase and of the idle connections.\<close>

lemma exOwners_update:
  assumes "exOwners s" "exPhase s' = (exPhase s)(i := p)" "exDialled s \<le> exDialled s'" "distinct (idleConns s')"
    and "\<And>c. c \<in> set (idleConns s') \<Longrightarrow> c < exDialled s'"
    and "\<And>j c. j \<noteq> i \<Longrightarrow> ownedBy (exPhase s j) = Some c \<Longrightarrow> c \<notin> set (idleConns s')"
    and "\<And>c. connectionOf p = Some c \<Longrightarrow> c < exDialled s'"
    and "\<And>c. ownedBy p = Some c \<Longrightarrow> c \<notin> set (idleConns s') \<and> (\<forall>j. j \<noteq> i \<longrightarrow> ownedBy (exPhase s j) \<noteq> Some c)"
  shows "exOwners s'"
  unfolding exOwners_def
proof (intro conjI allI impI ballI)
  show "distinct (idleConns s')" by fact
  show "c < exDialled s'" if "c \<in> set (idleConns s')" for c using assms(5) that .
  show "c < exDialled s'" if "connectionOf (exPhase s' j) = Some c" for j c
    using that assms(2,3,7) exOwnersD(3) [OF assms(1), of j c] by (auto split: if_splits)
  show "c \<notin> set (idleConns s')" if "ownedBy (exPhase s' j) = Some c" for j c
    using that assms(2,6,8) by (cases "j = i") auto
  show "j = k" if "ownedBy (exPhase s' j) = Some c" "ownedBy (exPhase s' k) = Some c" for j k c
    using that assms(2,8) exOwnersD(5) [OF assms(1), of j c k] by (cases "j = i"; cases "k = i") auto
qed

lemma exOwners_acquire:
  assumes "exOwners s" "exPhase s i = NotStarted"
  shows "exOwners (exAcquire i now refused ended s)"
proof -
  obtain r closed b where a: "acquireConnection now (if refused then Inl () else Inr (exDialled s)) (exBackend s) = (r, closed, b)"
    by (metis prod_cases3)
  note own = exOwnersD [OF assms(1)]
  note idle = acquire_idle [OF a own(1) [unfolded idleConns_def]]
  have sub: "c \<in> set (idleConns s)" if "c \<in> set (map connection (idle b))" for c
    using idle(2) that unfolding idleConns_def by blast
  have kept: "ownedBy (exPhase s j) \<noteq> Some (connection x)" if "x \<in> set (idle b)" for j x
    using own(4) sub [of "connection x"] that by auto
  show ?thesis
  proof (cases r)
    case (Inl e)
    have "exAcquire i now refused ended s =
        s\<lparr>exBackend := b, exClosed := closed @ exClosed s, exPhase := (exPhase s)(i := NoConnection)\<rparr>"
      by (simp add: exAcquire_def a Inl)
    then show ?thesis
      by (intro exOwners_update [OF assms(1)]) (use idle(1) sub own(2) kept in \<open>auto simp: idleConns_def\<close>)
  next
    case (Inr x)
    obtain c reused where x: "x = (c, reused)" by (cases x)
    have fresh: "\<not> reused \<Longrightarrow> c = exDialled s" using idle(6) [of c] Inr x by (auto split: if_splits)
    have stale: "reused \<Longrightarrow> c \<in> set (idleConns s) \<and> c \<notin> set (map connection (idle b))"
      using idle(5) [of c] Inr x by (auto simp: idleConns_def)
    have s': "exAcquire i now refused ended s =
        s\<lparr>exBackend := b, exDialled := (if reused then exDialled s else exDialled s + 1),
          exClosed := closed @ exClosed s, exPhase := (exPhase s)(i := Exchanging c),
          exWatch := (exWatch s)(i := closeOnContextDone ended [])\<rparr>"
      by (simp add: exAcquire_def a Inr x)
    have lt: "c < (if reused then exDialled s else exDialled s + 1)"
      using fresh own(2) stale by auto
    have free: "ownedBy (exPhase s j) \<noteq> Some c" for j
    proof (cases reused)
      case True
      then show ?thesis using stale own(4) by blast
    next
      case False
      then show ?thesis using fresh own(3) [of j c] ownedBy_connection by force
    qed
    have "c \<notin> set (map connection (idle b))"
    proof (cases reused)
      case False
      then show ?thesis using fresh own(2) [of c] sub by blast
    qed (use stale in blast)
    then show ?thesis
      unfolding s' by (intro exOwners_update [OF assms(1), of _ i "Exchanging c"])
        (use idle(1) sub own(2) lt free kept in \<open>auto simp: idleConns_def less_SucI\<close>)
  qed
qed

lemma exOwners_recycle:
  assumes "exOwners s" "exPhase s i = Exchanging c"
  shows "exOwners (exRecycle i c now s)"
proof -
  note own = exOwnersD [OF assms(1)]
  have c: "c < exDialled s" "c \<notin> set (idleConns s)" "j \<noteq> i \<Longrightarrow> ownedBy (exPhase s j) \<noteq> Some c" for j
    using own(3) [of i c] own(4) [of i c] own(5) [of i c j] assms(2) by auto
  let ?b = "exBackend s"
  show ?thesis
  proof (cases "poolClosed ?b \<or> int (length (idle ?b)) \<ge> MaxIdleConnections (config ?b)")
    case True
    then have "exRecycle i c now s = s\<lparr>exClosed := c # exClosed s, exPhase := (exPhase s)(i := NotRecycled c)\<rparr>"
      by (simp add: exRecycle_def recycleConnection_def)
    then show ?thesis
      by (intro exOwners_update [OF assms(1), of _ i "NotRecycled c"])
        (use own(1,2,4) c in \<open>auto simp: idleConns_def\<close>)
  next
    case False
    then have "exRecycle i c now s =
        s\<lparr>exBackend := ?b\<lparr>idle := idle ?b @ [\<lparr>connection = c, idleSince = now\<rparr>]\<rparr>,
          exPhase := (exPhase s)(i := Recycled c)\<rparr>"
      by (simp add: exRecycle_def recycleConnection_def)
    then show ?thesis
      by (intro exOwners_update [OF assms(1), of _ i "Recycled c"])
        (use own(1,2,4) c in \<open>auto simp: idleConns_def\<close>)
  qed
qed

lemma exOwners_phase:
  assumes "exOwners s" "connectionOf p = connectionOf (exPhase s i)" "ownedBy p \<in> {None, ownedBy (exPhase s i)}"
  shows "exOwners (s\<lparr>exPhase := (exPhase s)(i := p), exClosed := closed\<rparr>)"
proof -
  note own = exOwnersD [OF assms(1)]
  have "ownedBy p = Some c \<Longrightarrow> ownedBy (exPhase s i) = Some c" for c using assms(3) by auto
  then have p: "c \<notin> set (idleConns s) \<and> (\<forall>j. j \<noteq> i \<longrightarrow> ownedBy (exPhase s j) \<noteq> Some c)" if "ownedBy p = Some c" for c
    using own(4,5) that by blast
  show ?thesis
    by (rule exOwners_update [OF assms(1), of _ i p])
      (use own(1-4) assms(2) p in \<open>simp_all add: idleConns_def\<close>)
qed

lemma exOwners_step:
  assumes "exchangeStep s s'" "exOwners s"
  shows "exOwners s'"
  using assms
proof (induction rule: exchangeStep.induct)
  case (exGivesUp s i c)
  then show ?case using exOwners_phase [of s "NotRecycled c" i "exClosed s"] by simp
next
  case (exLeaves s i)
  then show ?case
    using exOwners_phase [of s "Reused c" i "exClosed s" for c] exOwners_phase [of s "Dropped c" i "c # exClosed s" for c]
    by (cases "exPhase s i") (simp_all add: exLeave_def)
qed (simp_all add: exOwners_acquire exOwners_recycle, simp_all add: exOwners_def idleConns_def exSetWatch_def)

lemma exOwners_reach: "exchangeReach b s \<Longrightarrow> exOwners s"
  by (induction rule: exchangeReach.induct) (auto intro: exOwners_start exOwners_step)

subsection \<open>Which connections in use are closed\<close>

text \<open>A step that neither closes a connection nor makes one idle or exchanged on keeps the others as they are.\<close>

lemma exOpen_update:
  assumes "exOpen s" "exDialled s \<le> exDialled s'"
    and "\<And>c. c \<in> set (exClosed s') \<Longrightarrow> c < exDialled s'"
    and "\<And>c. c \<in> set (exClosed s') \<Longrightarrow> c \<in> set (idleConns s') \<or> (\<exists>i. exPhase s' i = Exchanging c) \<Longrightarrow>
      (c \<in> set (exClosed s) \<and> (c \<in> set (idleConns s) \<or> (\<exists>i. exPhase s i = Exchanging c))) \<or> (\<exists>j. firedOn c s' j)"
    and "\<And>c j. firedOn c s j \<Longrightarrow> firedOn c s' j"
  shows "exOpen s'"
  using assms unfolding exOpen_def by blast

lemma exOpen_acquire:
  assumes "exOpen s" "exOwners s" "exPhase s i = NotStarted"
  shows "exOpen (exAcquire i now refused ended s)"
proof -
  obtain r closed b where a: "acquireConnection now (if refused then Inl () else Inr (exDialled s)) (exBackend s) = (r, closed, b)"
    by (metis prod_cases3)
  note own = exOwnersD [OF assms(2)]
  note idle = acquire_idle [OF a own(1) [unfolded idleConns_def]]
  have closed: "c < exDialled s \<and> c \<in> set (idleConns s) \<and> c \<notin> set (map connection (idle b)) \<and>
      ownedBy (exPhase s j) \<noteq> Some c" if "c \<in> set closed" for c j
    using that idle(3,4) own(2) [of c] own(4) [of j c] unfolding idleConns_def by blast
  have sub: "c \<in> set (idleConns s)" if "c \<in> set (map connection (idle b))" for c
    using idle(2) that unfolding idleConns_def by blast
  have before: "c < exDialled s" if "c \<in> set (exClosed s)" for c using assms(1) that by (simp add: exOpen_def)
  have exch: "exPhase s j \<noteq> Exchanging c" if "c \<in> set closed" for c j using closed [OF that, of j] by auto
  show ?thesis
  proof (cases r)
    case (Inl e)
    have s': "exAcquire i now refused ended s =
        s\<lparr>exBackend := b, exClosed := closed @ exClosed s, exPhase := (exPhase s)(i := NoConnection)\<rparr>"
      by (simp add: exAcquire_def a Inl)
    show ?thesis
      unfolding s' using assms(3) closed before sub exch
      by (intro exOpen_update [OF assms(1)]) (auto simp: idleConns_def firedOn_def split: if_splits)
  next
    case (Inr x)
    obtain c reused where x: "x = (c, reused)" by (cases x)
    have fresh: "\<not> reused \<Longrightarrow> c = exDialled s" using idle(6) [of c] Inr x by (auto split: if_splits)
    have stale: "reused \<Longrightarrow> c \<in> set (idleConns s) \<and> c \<notin> set closed"
      using idle(5) [of c] Inr x by (auto simp: idleConns_def)
    have s': "exAcquire i now refused ended s =
        s\<lparr>exBackend := b, exDialled := (if reused then exDialled s else exDialled s + 1),
          exClosed := closed @ exClosed s, exPhase := (exPhase s)(i := Exchanging c),
          exWatch := (exWatch s)(i := closeOnContextDone ended [])\<rparr>"
      by (simp add: exAcquire_def a Inr x)
    have new: "c \<notin> set closed" "c \<in> set (exClosed s) \<Longrightarrow> c \<in> set (idleConns s)"
      using fresh stale closed [of c] before [of c] by (cases reused; force)+
    show ?thesis
      unfolding s' using assms(3) closed before sub exch new
      by (intro exOpen_update [OF assms(1)]) (auto simp: idleConns_def firedOn_def less_SucI split: if_splits)
  qed
qed

lemma exOpen_recycle:
  assumes "exOpen s" "exOwners s" "exPhase s i = Exchanging c"
  shows "exOpen (exRecycle i c now s)"
proof -
  note own = exOwnersD [OF assms(2)]
  have c: "c < exDialled s" "c \<notin> set (idleConns s)" using own(3,4) [of i c] assms(3) by auto
  have sole: "exPhase s j \<noteq> Exchanging c" if "j \<noteq> i" for j using own(5) [of i c j] assms(3) that by auto
  have before: "c < exDialled s" if "c \<in> set (exClosed s)" for c using assms(1) that by (simp add: exOpen_def)
  let ?b = "exBackend s"
  show ?thesis
  proof (cases "poolClosed ?b \<or> int (length (idle ?b)) \<ge> MaxIdleConnections (config ?b)")
    case True
    then have s': "exRecycle i c now s = s\<lparr>exClosed := c # exClosed s, exPhase := (exPhase s)(i := NotRecycled c)\<rparr>"
      by (simp add: exRecycle_def recycleConnection_def)
    show ?thesis
      unfolding s' using assms(3) c sole before
      by (intro exOpen_update [OF assms(1)]) (auto simp: idleConns_def firedOn_def split: if_splits)
  next
    case False
    then have s': "exRecycle i c now s =
        s\<lparr>exBackend := ?b\<lparr>idle := idle ?b @ [\<lparr>connection = c, idleSince = now\<rparr>]\<rparr>,
          exPhase := (exPhase s)(i := Recycled c)\<rparr>"
      by (simp add: exRecycle_def recycleConnection_def)
    show ?thesis
      unfolding s' using assms(3) before
      by (intro exOpen_update [OF assms(1)]) (auto simp: idleConns_def firedOn_def split: if_splits)
  qed
qed

lemma exOpen_leave:
  assumes "exOpen s" "exOwners s"
  shows "exOpen (exLeave i s)"
proof (cases "\<exists>c. exPhase s i = NotRecycled c")
  case True
  then obtain c where p: "exPhase s i = NotRecycled c" by blast
  note own = exOwnersD [OF assms(2)]
  have c: "c < exDialled s" "c \<notin> set (idleConns s)" using own(3,4) [of i c] p by auto
  have sole: "exPhase s j \<noteq> Exchanging c" for j using own(5) [of i c j] p by auto
  have before: "c < exDialled s" if "c \<in> set (exClosed s)" for c using assms(1) that by (simp add: exOpen_def)
  show ?thesis
    using p c sole before
    by (intro exOpen_update [OF assms(1)]) (auto simp: exLeave_def idleConns_def firedOn_def split: if_splits)
next
  case False
  then show ?thesis
    using assms(1)
    by (intro exOpen_update [OF assms(1)])
      (auto simp: exLeave_def idleConns_def firedOn_def exOpen_def split: exchangePhase.splits if_splits)
qed

lemma exOpen_stops:
  assumes "exOpen s" "stopStep (exWatchOf i s) w"
  shows "exOpen (exSetWatch i w s)"
proof -
  have "watchCloser w = exClosed s"
    "watchCallback (exWatch s i) \<in> {CallbackClosed, CallbackDone} \<Longrightarrow> watchCallback w = watchCallback (exWatch s i)"
    using assms(2) by (auto elim!: stopStepE simp: exWatchOf_def stopCalled_def afterFuncStop_def)
  then show ?thesis
    using assms(1)
    by (intro exOpen_update [OF assms(1)])
      (auto simp: exSetWatch_def idleConns_def firedOn_def exOpen_def split: if_splits)
qed

lemma exOpen_watches:
  assumes "exOpen s" "exOwners s" "connectionOf (exPhase s i) = Some c" "callbackStep (Cons c) (exWatchOf i s) w"
  shows "exOpen (exSetWatch i w s)"
proof -
  have lt: "c < exDialled s" using exOwnersD(3) [OF assms(2,3)] .
  have fired: "watchCallback (exWatch s i) \<in> {CallbackClosed, CallbackDone} \<Longrightarrow>
      watchCallback w \<in> {CallbackClosed, CallbackDone}"
    using assms(4) by (auto elim!: callbackStepE simp: exWatchOf_def)
  have "watchCloser w = exClosed s \<or> watchCloser w = c # exClosed s \<and> watchCallback w = CallbackClosed"
    using assms(4) by (auto elim!: callbackStepE simp: exWatchOf_def)
  then show ?thesis
    using assms(1,3) lt fired
    by (intro exOpen_update [OF assms(1)])
      (auto simp: exSetWatch_def idleConns_def firedOn_def exOpen_def split: if_splits)
qed

lemma exOpen_step:
  assumes "exchangeStep s s'" "exOpen s" "exOwners s"
  shows "exOpen s'"
  using assms
proof (induction rule: exchangeStep.induct)
  case (exGivesUp s i c)
  have "c < exDialled s" if "c \<in> set (exClosed s)" for c using exGivesUp(2) that by (simp add: exOpen_def)
  then show ?case
    using exGivesUp(1)
    by (intro exOpen_update [OF exGivesUp(2)]) (auto simp: idleConns_def firedOn_def split: if_splits)
qed (simp_all add: exOpen_acquire exOpen_recycle exOpen_stops exOpen_leave exOpen_watches)

text \<open>A callback has started only because its context had ended.\<close>

definition exEnded :: "exchangeSys \<Rightarrow> bool" where
  "exEnded s \<longleftrightarrow> (\<forall>i. watchCallback (exWatch s i) \<in> {CallbackStarted, CallbackClosed, CallbackDone} \<longrightarrow>
     watchEnded (exWatch s i))"

lemma exEnded_step: "exchangeStep s s' \<Longrightarrow> exEnded s \<Longrightarrow> exEnded s'"
proof (induction rule: exchangeStep.induct)
  case (exAcquires s i refused ended now)
  then show ?case by (auto simp: exEnded_def exAcquire_def closeOnContextDone_def split: prod.splits sum.splits)
next
  case (exRecycles s i c now)
  then show ?case by (simp add: exEnded_def exRecycle_def split: prod.splits)
next
  case (exLeaves s i)
  then show ?case by (simp add: exEnded_def exLeave_def split: exchangePhase.splits)
next
  case (exStops s i c w)
  then show ?case
    by (auto simp: exEnded_def exSetWatch_def exWatchOf_def stopCalled_def afterFuncStop_def elim!: stopStepE
        split: if_splits)
next
  case (exWatches s i c w)
  then show ?case by (auto simp: exEnded_def exSetWatch_def exWatchOf_def elim!: callbackStepE)
qed (simp add: exEnded_def)

lemma exchange_inv: "exchangeReach b s \<Longrightarrow> exOwners s \<and> exOpen s \<and> exEnded s"
proof (induction rule: exchangeReach.induct)
  case exStart
  then show ?case
    by (simp add: exOwners_start) (simp add: exchangeStart_def exOpen_def exEnded_def closeOnContextDone_def)
qed (blast dest: exOwners_step exOpen_step exEnded_step)

text \<open>
  C13: however the attempts, their contexts and their callbacks interleave, a connection is used by at
  most one attempt, which nobody finds among the idle ones; and a connection that is exchanged on, or
  idle, is still open unless the context has ended of an attempt that has or had it.
\<close>

theorem exchange_exclusive:
  assumes "exchangeReach b s" "exPhase s i = Exchanging c"
  shows "c \<notin> set (idleConns s) \<and> (\<forall>j. exPhase s j = Exchanging c \<longrightarrow> j = i) \<and>
    (c \<in> set (exClosed s) \<longrightarrow> (\<exists>j. connectionOf (exPhase s j) = Some c \<and> watchEnded (exWatch s j)))"
proof -
  have inv: "exOwners s" "exOpen s" "exEnded s" using exchange_inv [OF assms(1)] by blast+
  have "\<exists>j. connectionOf (exPhase s j) = Some c \<and> watchEnded (exWatch s j)" if "c \<in> set (exClosed s)"
  proof -
    have "\<exists>j. firedOn c s j" using inv(2) that assms(2) by (auto simp: exOpen_def)
    then show ?thesis using inv(3) by (auto simp: firedOn_def exEnded_def)
  qed
  moreover have "j = i" if "exPhase s j = Exchanging c" for j
    using exOwnersD(5) [OF inv(1), of i c j] assms(2) that by simp
  moreover have "c \<notin> set (idleConns s)" using exOwnersD(4) [OF inv(1), of i c] assms(2) by simp
  ultimately show ?thesis by blast
qed

text \<open>
  A run in which the attempt 0 gives its connection back, its context ends before its deferred functions
  have stopped the watch, and the attempt 1 has taken the connection when the callback closes it.
\<close>

definition endedWatch :: "nat \<Rightarrow> exchangeSys \<Rightarrow> exchangeSys" where
  "endedWatch i s = exSetWatch i ((exWatchOf i s)\<lparr>watchEnded := True\<rparr>) s"

definition startedWatch :: "nat \<Rightarrow> exchangeSys \<Rightarrow> exchangeSys" where
  "startedWatch i s = exSetWatch i ((exWatchOf i s)\<lparr>watchCallback := CallbackStarted\<rparr>) s"

definition firedWatch :: "nat \<Rightarrow> nat \<Rightarrow> exchangeSys \<Rightarrow> exchangeSys" where
  "firedWatch i c s =
     exSetWatch i ((exWatchOf i s)\<lparr>watchCallback := CallbackClosed, watchCloser := c # exClosed s\<rparr>) s"

lemma endedWatch_step:
  assumes "connectionOf (exPhase s i) = Some c" "\<not> watchEnded (exWatch s i)"
  shows "exchangeStep s (endedWatch i s)"
  unfolding endedWatch_def
  using assms by (intro exWatches) (auto intro!: contextEnds simp: exWatchOf_def)

lemma startedWatch_step:
  assumes "connectionOf (exPhase s i) = Some c" "watchEnded (exWatch s i)"
    and "watchCallback (exWatch s i) = CallbackRegistered"
  shows "exchangeStep s (startedWatch i s)"
  unfolding startedWatch_def
  using assms by (intro exWatches) (auto intro!: callbackStarts simp: exWatchOf_def)

lemma firedWatch_step:
  assumes "connectionOf (exPhase s i) = Some c" "watchCallback (exWatch s i) = CallbackStarted"
  shows "exchangeStep s (firedWatch i c s)"
proof -
  have "callbackStep (Cons c) (exWatchOf i s) ((exWatchOf i s)\<lparr>watchCallback := CallbackClosed, watchCloser := c # watchCloser (exWatchOf i s)\<rparr>)"
    using assms(2) by (intro callbackCloses) (simp add: exWatchOf_def)
  then show ?thesis
    unfolding firedWatch_def using assms(1) by (intro exWatches) (simp_all add: exWatchOf_def)
qed

text \<open>
  C14: \<^verbatim>\<open>executeProxyAttempt\<close> recycles a connection before its deferred \<^verbatim>\<open>stopCancellation\<close> runs. On every
  backend that keeps an idle connection there is a run where the context of an attempt that has its
  response closes the connection under the next attempt, whose own context has not ended.
\<close>

theorem stale_context_closes:
  assumes "idle b = []" "\<not> poolClosed b" "0 < MaxIdleConnections (config b)" "0 < IdleTimeout (config b)"
  shows "\<exists>s. exchangeReach b s \<and> exPhase s 0 = Recycled 0 \<and> exPhase s 1 = Exchanging 0 \<and>
    \<not> watchEnded (exWatch s 1) \<and> 0 \<in> set (exClosed s)"
proof -
  define s1 where "s1 = exAcquire 0 0 False False (exchangeStart b)"
  define s2 where "s2 = exRecycle 0 0 0 s1"
  define s3 where "s3 = startedWatch 0 (endedWatch 0 s2)"
  define s4 where "s4 = exAcquire 1 0 False False s3"
  have s1: "exBackend s1 = b" "exPhase s1 = (\<lambda>_. NotStarted)(0 := Exchanging 0)"
      "exWatch s1 = (\<lambda>_. closeOnContextDone False [])(0 := closeOnContextDone False [])" "exClosed s1 = []" "exDialled s1 = 1"
    using acquire_dial [OF assms(2,1), of 0 "Inr 0 :: unit + nat"]
    by (simp_all add: s1_def exAcquire_def exchangeStart_def)
  have s2: "exBackend s2 = b\<lparr>idle := [\<lparr>connection = 0, idleSince = 0\<rparr>]\<rparr>"
      "exPhase s2 = (\<lambda>_. NotStarted)(0 := Recycled 0)" "exWatch s2 = exWatch s1" "exClosed s2 = []" "exDialled s2 = 1"
    using assms by (simp_all add: s2_def exRecycle_def recycleConnection_def s1)
  have s3: "exBackend s3 = exBackend s2" "exPhase s3 = exPhase s2" "exClosed s3 = []" "exDialled s3 = 1"
      "watchCallback (exWatch s3 0) = CallbackStarted"
    by (simp_all add: s3_def startedWatch_def endedWatch_def exSetWatch_def exWatchOf_def s2)
  have "acquireConnection 0 (Inr 1 :: unit + nat) (exBackend s3) = (Inr (0, True), [], b\<lparr>idle := []\<rparr>)"
    by (subst acquire_pop [where xs = "[]" and x = "\<lparr>connection = 0, idleSince = 0\<rparr>"])
      (use assms(2,4) in \<open>simp_all add: s3 s2 Sub_def minInt64_def maxInt64_def\<close>)
  then have s4: "exPhase s4 = (\<lambda>_. NotStarted)(0 := Recycled 0, 1 := Exchanging 0)"
      "exWatch s4 = (exWatch s3)(1 := closeOnContextDone False [])" "exClosed s4 = []"
    by (simp_all add: s4_def exAcquire_def s3 s2)
  have "exchangeReach b (exchangeStart b)" using assms(1) by (rule exStart)
  then have "exchangeReach b s1"
    unfolding s1_def by (rule exMoves) (simp add: exchangeStart_def exAcquires)
  then have "exchangeReach b s2"
    unfolding s2_def by (rule exMoves) (simp add: s1 exRecycles)
  then have "exchangeReach b (endedWatch 0 s2)"
    by (rule exMoves) (rule endedWatch_step [of _ _ 0], simp_all add: s2 s1 closeOnContextDone_def)
  then have "exchangeReach b s3"
    unfolding s3_def
    by (rule exMoves) (rule startedWatch_step [of _ _ 0],
      simp_all add: endedWatch_def exSetWatch_def exWatchOf_def s2 s1 closeOnContextDone_def)
  then have "exchangeReach b s4"
    unfolding s4_def by (rule exMoves) (simp add: s3 s2 exAcquires)
  then have "exchangeReach b (firedWatch 0 0 s4)"
    by (rule exMoves) (rule firedWatch_step, simp_all add: s4 s3)
  then show ?thesis
    by (rule exI [of _ "firedWatch 0 0 s4", OF conjI])
      (simp add: firedWatch_def exSetWatch_def exWatchOf_def s4 closeOnContextDone_def)
qed

theorem stale_context_closes_witness:
  "\<exists>s. exchangeReach (warmBackend\<lparr>idle := []\<rparr>) s \<and> 0 \<in> set (exClosed s) \<and> \<not> watchEnded (exWatch s 1)"
proof -
  have "idle (warmBackend\<lparr>idle := []\<rparr>) = []" "\<not> poolClosed (warmBackend\<lparr>idle := []\<rparr>)"
    "0 < MaxIdleConnections (config (warmBackend\<lparr>idle := []\<rparr>))" "0 < IdleTimeout (config (warmBackend\<lparr>idle := []\<rparr>))"
    by code_simp+
  from stale_context_closes [OF this] show ?thesis by blast
qed

theorem exchange_exclusive_witness:
  "exPhase (exAcquire 0 0 False False (exchangeStart (warmBackend\<lparr>idle := []\<rparr>))) 0 = Exchanging 0 \<and>
   0 \<notin> set (idleConns (exAcquire 0 0 False False (exchangeStart (warmBackend\<lparr>idle := []\<rparr>))))"
proof -
  let ?b = "warmBackend\<lparr>idle := []\<rparr>"
  let ?s = "exAcquire 0 0 False False (exchangeStart ?b)"
  have "exchangeReach ?b ?s"
    by (rule exMoves [OF exStart]) (simp, simp add: exchangeStart_def exAcquires)
  moreover have "exPhase ?s 0 = Exchanging 0" by code_simp
  ultimately show ?thesis using exchange_exclusive [of ?b ?s 0 0] by blast
qed

end
