(* ===== verification/Lab_Resources.thy ===== *)
theory Lab_Resources
  imports Experiment
begin

text \<open>
  \<^verbatim>\<open>src/src/experiment.go\<close> and \<^verbatim>\<open>src/src/fixture.go\<close>: the listeners, the pool and the observer that the
  construction of a laboratory acquires, and what its deferred \<^verbatim>\<open>closeUnstarted\<close> releases when it fails.
  The construction is that of \<^verbatim>\<open>Experiment\<close>, with a trace of what is acquired and released and with the
  fields of the laboratory that are set so far; it is shown to give the same result.
\<close>

subsection \<open>Traces\<close>

datatype labResource = FixtureListener nat | ProxyListener | AdminListener | LabPool | LabObserver

datatype labEvent = Acquired labResource | Released labResource

text \<open>What is held after a trace; \<open>None\<close> when something is released that is not held, or acquired twice.\<close>

fun heldAfter :: "labEvent list \<Rightarrow> labResource list \<Rightarrow> labResource list option" where
  "heldAfter [] rs = Some rs"
| "heldAfter (Acquired r # events) rs = (if r \<in> set rs then None else heldAfter events (rs @ [r]))"
| "heldAfter (Released r # events) rs = (if r \<in> set rs then heldAfter events (remove1 r rs) else None)"

text \<open>The fields of the laboratory that \<^verbatim>\<open>closeUnstarted\<close> looks at.\<close>

record labFields =
  lfFixtures :: nat
  lfProxyServer :: bool
  lfAdminServer :: bool
  lfPool :: bool
  lfObserver :: bool

definition emptyLab :: labFields where
  "emptyLab = \<lparr>lfFixtures = 0, lfProxyServer = False, lfAdminServer = False, lfPool = False, lfObserver = False\<rparr>"

definition closeUnstarted :: "labFields \<Rightarrow> labEvent list" where
  "closeUnstarted l =
     map (\<lambda>i. Released (FixtureListener i)) [0..<lfFixtures l] @
     (if lfProxyServer l then [Released ProxyListener] else []) @
     (if lfAdminServer l then [Released AdminListener] else []) @
     (if lfPool l then [Released LabPool] else []) @
     (if lfObserver l then [Released LabObserver] else [])"

text \<open>A step of the construction: its trace, the fields it leaves and its error or result.\<close>

type_synonym 'a labStep = "labFields \<Rightarrow> labEvent list \<times> labFields \<times> (string + 'a)"

definition labThen :: "'a labStep \<Rightarrow> ('a \<Rightarrow> 'b labStep) \<Rightarrow> 'b labStep" where
  "labThen m f l =
     (case m l of
        (t, l', Inl err) \<Rightarrow> (t, l', Inl err)
      | (t, l', Inr x) \<Rightarrow> (case f x l' of (t', l'', r) \<Rightarrow> (t @ t', l'', r)))"

definition labPure :: "string + 'a \<Rightarrow> 'a labStep" where
  "labPure r l = ([], l, r)"

definition labListen :: "labResource \<Rightarrow> string + string \<Rightarrow> string labStep" where
  "labListen resource listened l = ((if isl listened then [] else [Acquired resource]), l, listened)"

text \<open>\<^verbatim>\<open>_ = listener.Close()\<close> before an error is returned.\<close>

definition labCloseOn :: "labResource \<Rightarrow> string + 'a \<Rightarrow> 'a labStep" where
  "labCloseOn resource r l = ((if isl r then [Released resource] else []), l, r)"

definition labSet :: "(labFields \<Rightarrow> labFields) \<Rightarrow> unit labStep" where
  "labSet f l = ([], f l, Inr ())"

definition labMade :: "labResource \<Rightarrow> (labFields \<Rightarrow> labFields) \<Rightarrow> string + 'a \<Rightarrow> 'a labStep" where
  "labMade resource f r l = ((if isl r then [] else [Acquired resource]), (if isl r then l else f l), r)"

subsection \<open>The construction\<close>

definition fixtureTraced :: "nat \<Rightarrow> string + string \<Rightarrow> fixtureSpec \<Rightarrow> fixtureBackend labStep" where
  "fixtureTraced i listened spec =
     (if \<not> validToken (SpecAlias spec) \<or> int (length (SpecAlias spec)) > maxBackendAliasBytes
        then labPure (Inl ''fixture alias must be an HTTP token'')
      else
        labThen (labPure (validateFixtureProfile (InitialMode spec) (SpecDelayMS spec) (SpecFailureStatus spec))) (\<lambda>_.
        labThen (labListen (FixtureListener i) listened) (\<lambda>address.
        (let fixture = \<lparr>fxAlias = SpecAlias spec, fxAddress = address, fxProfile = profileFromFixtureSpec spec,
               fxRequests = 0, fxResponses = 0, fxActive = 0, fxPeak = 0\<rparr>;
             c = DefaultConfig\<lparr>Listen := address, CfgMaxConnections := 128, MaxRequests := 1000\<rparr> in
         labThen (labCloseOn (FixtureListener i) (newTCPServer True True (Config_tcpServerConfig c))) (\<lambda>server.
         labPure (Inr fixture))))))"

fun fixturesTraced :: "(nat \<Rightarrow> string + string) \<Rightarrow> nat \<Rightarrow> fixtureSpec list \<Rightarrow> fixtureBackend list labStep" where
  "fixturesTraced listened i [] = labPure (Inr [])"
| "fixturesTraced listened i (spec # specs) =
     labThen (fixtureTraced i (listened i) spec) (\<lambda>fixture.
     labThen (labSet (\<lambda>l. l\<lparr>lfFixtures := lfFixtures l + 1\<rparr>)) (\<lambda>_.
     labThen (fixturesTraced listened (Suc i) specs) (\<lambda>fixtures. labPure (Inr (fixture # fixtures)))))"

definition labTraced ::
    "string \<Rightarrow> labListeners \<Rightarrow> time \<Rightarrow> (nat \<Rightarrow> ('c, 'w) requestEnv) \<Rightarrow> scenario \<Rightarrow> 'c experimentLab labStep" where
  "labTraced hash listeners now worlds s =
     labThen (fixturesTraced (lnFixture listeners) 0 (Fixtures s)) (\<lambda>fixtures.
     labThen (labMade LabPool (\<lambda>l. l\<lparr>lfPool := True\<rparr>)
       (newBackendPoolWithConfig (map2 labBackend (Fixtures s) fixtures) (labResilience (ScResilience s)))) (\<lambda>pool.
     labThen (labMade LabObserver (\<lambda>l. l\<lparr>lfObserver := True\<rparr>)
       (newObservability (defaultObservabilityConfig\<lparr>LedgerCapacity := ScLedgerCapacity s\<rparr>) now)) (\<lambda>observer.
     labThen (labPure (newProxyHandler (Some pool) (labProxyConfig s) ::
         string + (('c, 'w) requestEnv \<Rightarrow> httpRequest \<Rightarrow> 'c proxyState \<Rightarrow> httpResponse \<times> 'c proxyState))) (\<lambda>_.
     labThen (labListen ProxyListener (lnProxy listeners)) (\<lambda>proxyAddress.
     labThen (labCloseOn ProxyListener (proxyRouter worlds (proxyConfig_setDefaults (labProxyConfig s))
         (Config_httpServerConfig (labServerConfig s)))) (\<lambda>router.
     labThen (labCloseOn ProxyListener (newTCPServer True True (Config_tcpServerConfig (labServerConfig s)))) (\<lambda>proxyServer.
     labThen (labSet (\<lambda>l. l\<lparr>lfProxyServer := True\<rparr>)) (\<lambda>_.
     labThen (labListen AdminListener (lnAdmin listeners)) (\<lambda>adminAddress.
     labThen (labCloseOn AdminListener (newAdminServer True True labAdminConfig)) (\<lambda>adminServer.
     labThen (labSet (\<lambda>l. l\<lparr>lfAdminServer := True\<rparr>)) (\<lambda>_.
     labThen (labPure (newActiveHealthChecker (Some pool) (labProxyConfig s) (labHealthConfig (ScResilience s)))) (\<lambda>checker.
     labPure (Inr \<lparr>labScenario = s, labHash = hash, labFixtures = fixtures, labPool = pool, labObserver = observer,
       labRouter = router, labProxyServer = proxyServer, labAdminServer = adminServer, labHealth = checker,
       labProxyAddress = proxyAddress, labAdminAddress = adminAddress\<rparr>)))))))))))))"

text \<open>\<^verbatim>\<open>newExperimentLab\<close> with its deferred function, which is set after the scenario has been checked and hashed.\<close>

definition newExperimentLabTraced ::
    "(nat \<Rightarrow> int \<Rightarrow> int) \<Rightarrow> (scenario \<Rightarrow> string + string) \<Rightarrow> labListeners \<Rightarrow> time \<Rightarrow>
     (nat \<Rightarrow> ('c, 'w) requestEnv) \<Rightarrow> scenario \<Rightarrow> labEvent list \<times> (string + 'c experimentLab)" where
  "newExperimentLabTraced intn canonicalHash listeners now worlds s =
     (case scenario_validate intn s of
        Inl err \<Rightarrow> ([], Inl err)
      | Inr _ \<Rightarrow>
          (case canonicalHash s of
             Inl err \<Rightarrow> ([], Inl err)
           | Inr hash \<Rightarrow>
               (case labTraced hash listeners now worlds s emptyLab of
                  (t, l, Inl err) \<Rightarrow> (t @ closeUnstarted l, Inl err)
                | (t, l, Inr lab) \<Rightarrow> (t, Inr lab))))"

subsection \<open>The same laboratory\<close>

lemmas labSteps = labThen_def labPure_def labListen_def labCloseOn_def labSet_def labMade_def

lemma fixtureTraced_result:
  "snd (snd (fixtureTraced i listened spec l)) = map_sum id fst (newFixtureBackend listened spec)"
  by (auto simp: fixtureTraced_def newFixtureBackend_def labSteps andThen_def Let_def split: sum.splits)

lemma fixturesTraced_result:
  "snd (snd (fixturesTraced listened i specs l)) = newFixtures listened i specs"
proof (induction specs arbitrary: i l)
  case Nil
  then show ?case by (simp add: labPure_def)
next
  case (Cons spec specs)
  obtain t l' r where f: "fixtureTraced i (listened i) spec l = (t, l', r)" by (metis prod_cases3)
  then have r: "r = map_sum id fst (newFixtureBackend (listened i) spec)"
    using fixtureTraced_result [of i "listened i" spec l] by simp
  obtain t' l'' r' where fs: "fixturesTraced listened (Suc i) specs (l'\<lparr>lfFixtures := lfFixtures l' + 1\<rparr>) = (t', l'', r')"
    by (metis prod_cases3)
  then have "r' = newFixtures listened (Suc i) specs"
    using Cons [of "Suc i" "l'\<lparr>lfFixtures := lfFixtures l' + 1\<rparr>"] by simp
  then show ?case
    using f r fs
    by (cases "newFixtureBackend (listened i) spec"; cases r') (auto simp: labThen_def labPure_def labSet_def andThen_def
        split: sum.splits)
qed

subsection \<open>What a failed construction leaves\<close>

lemma heldAfter_append:
  "heldAfter (t @ t') rs = (case heldAfter t rs of None \<Rightarrow> None | Some rs' \<Rightarrow> heldAfter t' rs')"
  by (induction t rs rule: heldAfter.induct) (simp_all)

definition heldFixtures :: "nat \<Rightarrow> labResource list" where
  "heldFixtures n = map FixtureListener [0..<n]"

lemma heldFixtures_Suc: "heldFixtures (Suc n) = heldFixtures n @ [FixtureListener n]"
  by (simp add: heldFixtures_def)

lemma heldFixtures_mem [simp]:
  "r \<in> set (heldFixtures n) \<longleftrightarrow> (\<exists>i < n. r = FixtureListener i)"
  by (auto simp: heldFixtures_def)

lemma closes_fixtures:
  "k \<le> n \<Longrightarrow> heldAfter (map (\<lambda>i. Released (FixtureListener i)) [k..<n] @ t) (map FixtureListener [k..<n] @ rs) =
     heldAfter t rs"
proof (induction "n - k" arbitrary: k)
  case (Suc m)
  then show ?case by (simp add: upt_conv_Cons)
qed simp

text \<open>
  A step that starts with the fields and resources given, and ends with those given, or fails where
  \<open>closeUnstarted\<close> releases exactly what is held.
\<close>

definition releases :: "labFields \<Rightarrow> labResource list \<Rightarrow> bool" where
  "releases l rs \<longleftrightarrow> heldAfter (closeUnstarted l) rs = Some []"

definition labRuns :: "'a labStep \<Rightarrow> labFields \<Rightarrow> labResource list \<Rightarrow> labFields \<Rightarrow> labResource list \<Rightarrow> bool" where
  "labRuns m l rs l' rs' \<longleftrightarrow>
     (case m l of (t, l1, r) \<Rightarrow>
       (\<exists>rs1. heldAfter t rs = Some rs1 \<and> (if isl r then releases l1 rs1 else l1 = l' \<and> rs1 = rs')))"

lemma labRuns_then:
  assumes "labRuns m l rs l1 rs1" "\<And>x. labRuns (f x) l1 rs1 l2 rs2"
  shows "labRuns (labThen m f) l rs l2 rs2"
proof -
  obtain t l' r where m: "m l = (t, l', r)" by (metis prod_cases3)
  show ?thesis
  proof (cases r)
    case (Inl e)
    then show ?thesis using assms(1) m by (auto simp: labRuns_def labThen_def)
  next
    case (Inr x)
    obtain t' l'' r' where f: "f x l1 = (t', l'', r')" by (metis prod_cases3)
    then show ?thesis
      using assms(1) assms(2) [of x] m Inr by (auto simp: labRuns_def labThen_def heldAfter_append)
  qed
qed

lemma labRuns_steps:
  shows labRuns_pure: "releases l rs \<Longrightarrow> labRuns (labPure r) l rs l rs"
    and labRuns_result: "labRuns (labPure (Inr x)) l rs l rs"
    and labRuns_error: "releases l rs \<Longrightarrow> labRuns (labPure (Inl err)) l rs l' rs'"
    and labRuns_listen: "releases l rs \<Longrightarrow> res \<notin> set rs \<Longrightarrow> labRuns (labListen res listened) l rs l (rs @ [res])"
    and labRuns_closeOn: "releases l rs \<Longrightarrow> res \<notin> set rs \<Longrightarrow> labRuns (labCloseOn res r) l (rs @ [res]) l (rs @ [res])"
    and labRuns_set: "labRuns (labSet f) l rs (f l) rs"
    and labRuns_made: "releases l rs \<Longrightarrow> res \<notin> set rs \<Longrightarrow> labRuns (labMade res f made) l rs (f l) (rs @ [res])"
  by (auto simp: labRuns_def labPure_def labListen_def labCloseOn_def labSet_def labMade_def remove1_append)

lemma releases_fixtures:
  "releases l (heldFixtures n @ rs) \<longleftrightarrow>
     n = lfFixtures l \<and> heldAfter (closeUnstarted (l\<lparr>lfFixtures := 0\<rparr>)) rs = Some []" if "n = lfFixtures l"
  using closes_fixtures [of 0 n] that by (simp add: releases_def closeUnstarted_def heldFixtures_def)

text \<open>The fixtures; nothing else is held when they are made.\<close>

lemma fixture_runs:
  assumes "l = emptyLab\<lparr>lfFixtures := i\<rparr>"
  shows "labRuns (fixtureTraced i listened spec) l (heldFixtures i) l (heldFixtures (Suc i))"
proof -
  have "releases l (heldFixtures i)"
    using releases_fixtures [of i l "[]"] by (simp add: assms closeUnstarted_def emptyLab_def)
  then show ?thesis
    unfolding fixtureTraced_def heldFixtures_Suc Let_def
    by (cases "\<not> validToken (SpecAlias spec) \<or> int (length (SpecAlias spec)) > maxBackendAliasBytes")
      (simp_all only: if_True if_False, rule labRuns_error, assumption,
        rule labRuns_then [OF labRuns_pure], assumption, rule labRuns_then [OF labRuns_listen], assumption, simp,
        rule labRuns_then [OF labRuns_closeOn], assumption, simp, rule labRuns_result)
qed

lemma fixtures_run:
  "labRuns (fixturesTraced listened i specs) (emptyLab\<lparr>lfFixtures := i\<rparr>) (heldFixtures i)
     (emptyLab\<lparr>lfFixtures := i + length specs\<rparr>) (heldFixtures (i + length specs))"
proof (induction specs arbitrary: i)
  case Nil
  then show ?case by (simp add: labRuns_def labPure_def)
next
  case (Cons spec specs)
  have "labRuns (labSet (\<lambda>l. l\<lparr>lfFixtures := lfFixtures l + 1\<rparr>)) (emptyLab\<lparr>lfFixtures := i\<rparr>) (heldFixtures (Suc i))
      (emptyLab\<lparr>lfFixtures := Suc i\<rparr>) (heldFixtures (Suc i))"
    by (simp add: labRuns_def labSet_def)
  then show ?case
    using Cons [of "Suc i"] by (auto intro!: labRuns_then fixture_runs labRuns_result)
qed

lemma lab_runs:
  "labRuns (labTraced hash listeners now worlds s) emptyLab []
     (emptyLab\<lparr>lfFixtures := length (Fixtures s), lfProxyServer := True, lfAdminServer := True, lfPool := True, lfObserver := True\<rparr>)
     (heldFixtures (length (Fixtures s)) @ [LabPool, LabObserver, ProxyListener, AdminListener])"
proof -
  let ?n = "length (Fixtures s)"
  let ?l0 = "emptyLab\<lparr>lfFixtures := ?n\<rparr>" and ?h0 = "heldFixtures ?n"
  let ?l1 = "?l0\<lparr>lfPool := True\<rparr>" and ?h1 = "?h0 @ [LabPool]"
  let ?l2 = "?l1\<lparr>lfObserver := True\<rparr>" and ?h2 = "?h1 @ [LabObserver]"
  let ?h3 = "?h2 @ [ProxyListener]" and ?l3 = "?l2\<lparr>lfProxyServer := True\<rparr>"
  let ?h4 = "?h3 @ [AdminListener]" and ?l4 = "?l3\<lparr>lfAdminServer := True\<rparr>"
  have fixtures: "labRuns (fixturesTraced (lnFixture listeners) 0 (Fixtures s)) emptyLab [] ?l0 ?h0"
    using fixtures_run [of "lnFixture listeners" 0 "Fixtures s"] by (simp add: heldFixtures_def emptyLab_def)
  have rel: "releases ?l0 ?h0" "releases ?l1 ?h1" "releases ?l2 ?h2" "releases ?l3 ?h3" "releases ?l4 ?h4"
    using releases_fixtures [of ?n ?l0 "[]"] releases_fixtures [of ?n ?l1 "[LabPool]"]
      releases_fixtures [of ?n ?l2 "[LabPool, LabObserver]"] releases_fixtures [of ?n ?l3 "[LabPool, LabObserver, ProxyListener]"]
      releases_fixtures [of ?n ?l4 "[LabPool, LabObserver, ProxyListener, AdminListener]"]
    by (simp_all add: closeUnstarted_def emptyLab_def)
  have sets: "labRuns (labSet (\<lambda>l. l\<lparr>lfProxyServer := True\<rparr>)) ?l2 ?h3 ?l3 ?h3"
    "labRuns (labSet (\<lambda>l. l\<lparr>lfAdminServer := True\<rparr>)) ?l3 ?h4 ?l4 ?h4"
    by (simp_all add: labRuns_def labSet_def)
  have mades: "labRuns (labMade LabPool (\<lambda>l. l\<lparr>lfPool := True\<rparr>) pool) ?l0 ?h0 ?l1 ?h1"
    "labRuns (labMade LabObserver (\<lambda>l. l\<lparr>lfObserver := True\<rparr>) observer) ?l1 ?h1 ?l2 ?h2"
    for pool :: "string + 'a backendPool" and observer :: "string + observability"
    using rel(1,2) by (auto simp: labRuns_def labMade_def)
  show ?thesis
    unfolding labTraced_def
    apply (rule labRuns_then [OF fixtures])
    apply (rule labRuns_then [OF mades(1)])
    apply (rule labRuns_then [OF mades(2)])
    apply (rule labRuns_then [OF labRuns_pure [OF rel(3)]])
    apply (rule labRuns_then [OF labRuns_listen [OF rel(3)]], simp)
    apply (rule labRuns_then [OF labRuns_closeOn [OF rel(3)]], simp)
    apply (rule labRuns_then [OF labRuns_closeOn [OF rel(3)]], simp)
    apply (rule labRuns_then [OF sets(1)])
    apply (rule labRuns_then [OF labRuns_listen [OF rel(4)]], simp)
    apply (rule labRuns_then [OF labRuns_closeOn [OF rel(4)]], simp)
    apply (rule labRuns_then [OF sets(2)])
    apply (rule labRuns_then [OF labRuns_pure [OF rel(5)]])
    apply (simp add: labRuns_result emptyLab_def)
    done
qed

lemma labTraced_result:
  fixes worlds :: "nat \<Rightarrow> ('c, 'w) requestEnv"
  shows "snd (snd (labTraced hash listeners now worlds s l)) =
     andThen (newFixtures (lnFixture listeners) 0 (Fixtures s)) (\<lambda>fixtures.
     andThen (newBackendPoolWithConfig (map2 labBackend (Fixtures s) fixtures) (labResilience (ScResilience s))) (\<lambda>pool.
     andThen (newObservability (defaultObservabilityConfig\<lparr>LedgerCapacity := ScLedgerCapacity s\<rparr>) now) (\<lambda>observer.
     andThen (newProxyHandler (Some pool) (labProxyConfig s) ::
         string + (('c, 'w) requestEnv \<Rightarrow> httpRequest \<Rightarrow> 'c proxyState \<Rightarrow> httpResponse \<times> 'c proxyState)) (\<lambda>_.
     andThen (lnProxy listeners) (\<lambda>proxyAddress.
     andThen (proxyRouter worlds (proxyConfig_setDefaults (labProxyConfig s))
         (Config_httpServerConfig (labServerConfig s))) (\<lambda>router.
     andThen (newTCPServer True True (Config_tcpServerConfig (labServerConfig s))) (\<lambda>proxyServer.
     andThen (lnAdmin listeners) (\<lambda>adminAddress.
     andThen (newAdminServer True True labAdminConfig) (\<lambda>adminServer.
     andThen (newActiveHealthChecker (Some pool) (labProxyConfig s) (labHealthConfig (ScResilience s))) (\<lambda>checker.
     Inr \<lparr>labScenario = s, labHash = hash, labFixtures = fixtures, labPool = pool, labObserver = observer,
       labRouter = router, labProxyServer = proxyServer, labAdminServer = adminServer, labHealth = checker,
       labProxyAddress = proxyAddress, labAdminAddress = adminAddress\<rparr>))))))))))"
proof -
  have bind: "snd (snd (labThen m f l)) = andThen r g"
    if "snd (snd (m l)) = r" "\<And>x l'. snd (snd (f x l')) = g x" for m :: "'x labStep" and f :: "'x \<Rightarrow> 'y labStep" and r g l
    using that by (simp add: labThen_def andThen_def split_def split: sum.splits)
  have skip: "snd (snd (labThen (labSet h) f l)) = r" if "\<And>l'. snd (snd (f () l')) = r"
    for h and f :: "unit \<Rightarrow> 'y labStep" and r l
    using that by (simp add: labThen_def labSet_def split_def)
  show ?thesis
    unfolding labTraced_def
    by (intro bind skip fixturesTraced_result) (simp_all add: labPure_def labListen_def labCloseOn_def labMade_def)
qed

text \<open>
  C23: a laboratory that could not be made keeps nothing: every listener it has opened, its pool and its
  observer are released, each once. One that is made holds its fixtures' listeners, its pool, its observer
  and the proxy's and the administration's listeners, and its construction is that of \<open>newExperimentLab\<close>.
\<close>

theorem lab_releases:
  fixes worlds :: "nat \<Rightarrow> ('c, 'w) requestEnv"
  shows "snd (newExperimentLabTraced intn canonicalHash listeners now worlds s) =
      newExperimentLab intn canonicalHash listeners now worlds s \<and>
    heldAfter (fst (newExperimentLabTraced intn canonicalHash listeners now worlds s)) [] =
      Some (case newExperimentLab intn canonicalHash listeners now worlds s of
          Inl _ \<Rightarrow> []
        | Inr _ \<Rightarrow> map FixtureListener [0..<length (Fixtures s)] @ [LabPool, LabObserver, ProxyListener, AdminListener])"
proof (cases "\<exists>u hash. scenario_validate intn s = Inr u \<and> canonicalHash s = Inr hash")
  case False
  then show ?thesis
    by (auto simp: newExperimentLabTraced_def newExperimentLab_def andThen_def split: sum.splits)
next
  case True
  then obtain u hash where v: "scenario_validate intn s = Inr u" "canonicalHash s = Inr hash" by blast
  obtain t l r where run: "labTraced hash listeners now worlds s emptyLab = (t, l, r)" by (metis prod_cases3)
  have r: "r = newExperimentLab intn canonicalHash listeners now worlds s"
    using labTraced_result [of hash listeners now worlds s emptyLab] run
    by (simp add: newExperimentLab_def v)
  have "labRuns (labTraced hash listeners now worlds s) emptyLab []
     (emptyLab\<lparr>lfFixtures := length (Fixtures s), lfProxyServer := True, lfAdminServer := True, lfPool := True, lfObserver := True\<rparr>)
     (heldFixtures (length (Fixtures s)) @ [LabPool, LabObserver, ProxyListener, AdminListener])"
    by (rule lab_runs)
  then show ?thesis
    using run v r [symmetric]
    by (cases r) (auto simp: labRuns_def newExperimentLabTraced_def heldAfter_append releases_def heldFixtures_def)
qed

subsection \<open>Waiting for the observer\<close>

text \<open>
  \<^verbatim>\<open>waitForObserverIdle\<close>: each pass reads the clock and then the number of active requests, and sleeps for
  a millisecond. The passes are a list of these readings; \<open>None\<close> is a loop that is not done after them,
  and the result says whether the proxy was seen idle.
\<close>

fun waitForObserverIdle :: "time \<Rightarrow> (time \<times> int) list \<Rightarrow> bool option" where
  "waitForObserverIdle deadline [] = None"
| "waitForObserverIdle deadline ((now, active) # passes) =
     (if \<not> now < deadline then Some False
      else if active = 0 then Some True
      else waitForObserverIdle deadline passes)"

text \<open>
  Since every pass but the last takes a millisecond at least, as many passes as the limit has
  milliseconds, and one more, end the wait.
\<close>

lemma waitForObserverIdle_ends:
  assumes "\<forall>i < length passes. began + int i * millisecond \<le> fst (passes ! i)"
    and "limit \<le> int (length passes - 1) * millisecond" "passes \<noteq> []"
  shows "\<exists>idle. waitForObserverIdle (began + limit) passes = Some idle"
proof -
  have last: "began + limit \<le> fst (last passes)"
    using assms(1) [rule_format, of "length passes - 1"] assms(2,3) by (simp add: last_conv_nth)
  have "passes \<noteq> [] \<Longrightarrow> d \<le> fst (last passes) \<Longrightarrow> \<exists>idle. waitForObserverIdle d passes = Some idle" for d
    by (induction d passes rule: waitForObserverIdle.induct) (auto split: if_splits)
  then show ?thesis using last assms(3) by blast
qed

end
