(* ===== verification/Go_Format.thy ===== *)
theory Go_Format
  imports Go_Net
begin

text \<open>What the program uses of \<^verbatim>\<open>fmt\<close> and \<^verbatim>\<open>strconv\<close> to print integers (\<^verbatim>\<open>%d\<close>) and booleans (\<^verbatim>\<open>%t\<close>).\<close>

definition formatInt :: "int \<Rightarrow> string" where
  "formatInt n = (if n < 0 then CHR ''-'' # Itoa (nat (- n)) else Itoa (nat n))"

definition formatBool :: "bool \<Rightarrow> string" where
  "formatBool b = (if b then ''true'' else ''false'')"

lemma Itoa_head: "hd (Itoa n) \<noteq> CHR ''-''" "hd (Itoa n) \<noteq> CHR ''+''"
  using Itoa_decimal [of n] Itoa_nonempty [of n] by (cases "Itoa n"; force simp: isDecimal_def less_eq_char_def)+

lemma Atoi_formatInt:
  assumes "minInt64 \<le> n" "n \<le> maxInt64"
  shows "Atoi (formatInt n) = Some n"
proof (cases "n < 0")
  case True
  have "nat (- n) < 2 ^ 64" "int (nat (- n)) \<le> 2 ^ 63" using assms(1) True by (simp_all add: minInt64_def)
  then show ?thesis using True by (simp add: formatInt_def Atoi_def)
next
  case False
  have "nat n < 2 ^ 64" using assms(2) False by (simp add: maxInt64_def)
  then have "ParseUint 64 (Itoa (nat n)) = Some (nat n)" by simp
  then show ?thesis
    using False assms(2) Itoa_head [of "nat n"] Itoa_nonempty [of "nat n"]
    by (cases "Itoa (nat n)") (auto simp: formatInt_def Atoi_def)
qed

end
