(* ===== verification/Receipt_Text.thy ===== *)
theory Receipt_Text
  imports Go_Format Admin Receipt
begin

text \<open>
  \<^verbatim>\<open>src/src/receipt.go\<close>: the expectations and results as texts, and the receipt as it is printed. Printing a
  \<^verbatim>\<open>float64\<close> with a number of decimals is a parameter (\<open>fixed\<close>). \<^verbatim>\<open>fmt.Fprintf\<close> writes its text with one
  call of the writer and returns that call's error.
\<close>

subsection \<open>Texts\<close>

text \<open>The \<^verbatim>\<open>Expected\<close> and \<^verbatim>\<open>Actual\<close> of the assertions, in the order of \<open>evaluateAssertions\<close>.\<close>

definition assertionTexts ::
    "(nat \<Rightarrow> rat \<Rightarrow> string) \<Rightarrow> scenarioAssertions \<Rightarrow> resilienceReceipt \<Rightarrow> (string \<times> string) list" where
  "assertionTexts fixed expected receipt =
     [(''>= '' @ fixed 4 (MinimumSuccessRate expected), fixed 4 (RcSuccessRate receipt)),
      (''<= '' @ formatInt (MaximumFailureRun expected), Itoa (unat (RcFailureRun receipt))),
      (''observed and <= '' @ formatInt (MaximumFailoverMS expected) @ ''ms'',
       ''observed='' @ formatBool (RcFailovers receipt \<noteq> [] \<and> list_all FoObserved (RcFailovers receipt)) @
         '' duration='' @ fixed 3 (of_int (maxFailover (RcFailovers receipt)) / 1000) @ ''ms'')] @
     (if RequireRecovery expected
      then [(''every recovery observed'',
             ''observed='' @ formatBool (RcRecoveries receipt \<noteq> [] \<and> list_all ReObserved (RcRecoveries receipt)))]
      else []) @
     [(''benchmark completed equals ledger completions'',
       ''benchmark='' @ Itoa (unat (RcBenchmark receipt)) @ '' ledger='' @ Itoa (unat (RcRequests receipt)))]"

definition passText :: "bool \<Rightarrow> string" where
  "passText passed = (if passed then ''PASS'' else ''FAIL'')"

definition receiptHead :: "(nat \<Rightarrow> rat \<Rightarrow> string) \<Rightarrow> resilienceReceipt \<Rightarrow> string" where
  "receiptHead fixed r =
     ''Anvil resilience receipt: '' @ passText (RcPassed r) @ [LF] @
     ''Scenario: '' @ RcScenario r @ [LF] @
     ''Seed: '' @ formatInt (RcSeed r) @ [LF] @
     ''Configuration SHA-256: '' @ RcHash r @ [LF] @
     ''Requests: '' @ Itoa (unat (RcRequests r)) @ '' (success='' @ Itoa (unat (RcSuccesses r)) @ '' failure='' @
       Itoa (unat (RcFailures r)) @ '' rate='' @ fixed 2 (RcSuccessRate r * 100) @ ''%)'' @ [LF] @
     ''Maximum failure streak: '' @ Itoa (unat (RcFailureRun r)) @ [LF]"

definition measurementLine :: "(nat \<Rightarrow> rat \<Rightarrow> string) \<Rightarrow> string \<Rightarrow> string \<Rightarrow> bool \<Rightarrow> int \<Rightarrow> string" where
  "measurementLine fixed what fixture observed us =
     what @ '' '' @ fixture @ '': observed='' @ formatBool observed @ '' duration='' @
     fixed 3 (of_int us / 1000) @ ''ms'' @ [LF]"

text \<open>The dash is three bytes of UTF-8.\<close>

definition assertionLine :: "assertionResult \<Rightarrow> string \<times> string \<Rightarrow> string" where
  "assertionLine a texts =
     ''['' @ passText (AssertionPassed a) @ ''] '' @ AssertionName a @ '' '' @ [CHR 0xE2, CHR 0x80, CHR 0x94] @
     '' expected '' @ fst texts @ ''; actual '' @ snd texts @ [LF]"

text \<open>The keys of \<^verbatim>\<open>EventCounts\<close>, sorted: the types of which there was an event.\<close>

definition eventTypes :: "eventType list" where
  "eventTypes =
     [eventRequestStarted, eventBackendSelected, eventAttemptFailed, eventRetryScheduled,
      eventRequestCompleted, eventCircuitTransition, eventHealthTransition, eventFixtureTransition]"

definition eventLines :: "resilienceReceipt \<Rightarrow> string list" where
  "eventLines r =
     map (\<lambda>t. ''event.'' @ eventTypeName t @ ''='' @ Itoa (unat (RcEventCounts r t)) @ [LF])
       (sort_key eventTypeName (filter (\<lambda>t. RcEventCounts r t \<noteq> 0) eventTypes))"

definition receiptLines ::
    "(nat \<Rightarrow> rat \<Rightarrow> string) \<Rightarrow> (string \<times> string) list \<Rightarrow> resilienceReceipt \<Rightarrow> string list" where
  "receiptLines fixed texts r =
     map (\<lambda>f. measurementLine fixed ''Failover'' (FoFixture f) (FoObserved f) (FoMicros f)) (RcFailovers r) @
     map (\<lambda>f. measurementLine fixed ''Recovery'' (ReFixture f) (ReObserved f) (ReMicros f)) (RcRecoveries r) @
     map2 assertionLine (RcAssertions r) texts @ eventLines r"

subsection \<open>Printing\<close>

definition Fprintf :: "'w writer \<Rightarrow> string \<Rightarrow> 'w \<Rightarrow> io_error option \<times> 'w" where
  "Fprintf wr s w = (case wr w s of (n, err, w') \<Rightarrow> (err, w'))"

text \<open>Only the first call's error is looked at.\<close>

definition writeHumanReceipt ::
    "'w writer \<Rightarrow> (nat \<Rightarrow> rat \<Rightarrow> string) \<Rightarrow> (string \<times> string) list \<Rightarrow> resilienceReceipt \<Rightarrow> 'w \<Rightarrow> io_error option \<times> 'w" where
  "writeHumanReceipt wr fixed texts r w =
     (case Fprintf wr (receiptHead fixed r) w of
        (Some err, w') \<Rightarrow> (Some err, w')
      | (None, w') \<Rightarrow> (None, fold (\<lambda>line w. snd (Fprintf wr line w)) (receiptLines fixed texts r) w'))"

definition receiptText :: "(nat \<Rightarrow> rat \<Rightarrow> string) \<Rightarrow> (string \<times> string) list \<Rightarrow> resilienceReceipt \<Rightarrow> string" where
  "receiptText fixed texts r = receiptHead fixed r @ concat (receiptLines fixed texts r)"

text \<open>\<^verbatim>\<open>runScenarioCommand\<close> from the receipt on, printing to a writer.\<close>

definition printReceipt ::
    "'w writer \<Rightarrow> (nat \<Rightarrow> rat \<Rightarrow> string) \<Rightarrow> scenarioAssertions \<Rightarrow> resilienceReceipt \<Rightarrow> 'w \<Rightarrow> io_error option \<times> 'w" where
  "printReceipt wr fixed expected r w = writeHumanReceipt wr fixed (assertionTexts fixed expected r) r w"

lemma assertionTexts_length: "length (assertionTexts fixed e r) = length (evaluateAssertions e r)"
  by (simp add: assertionTexts_def evaluateAssertions_def)

text \<open>A file on a disk with room for some bytes: what does not fit is dropped, with an error.\<close>

definition diskWriter :: "nat \<Rightarrow> io_error \<Rightarrow> bytes writer" where
  "diskWriter space full w data =
     (let n = min (length data) (space - length w) in
      (int n, if n < length data then Some full else None, w @ take n data))"

lemma diskWriter_lines:
  assumes "length w \<le> space"
  shows "fold (\<lambda>line w. snd (Fprintf (diskWriter space full) line w)) lines w = take space (w @ concat lines)"
  using assms
proof (induction lines arbitrary: w)
  case Nil
  then show ?case by simp
next
  case (Cons line lines)
  let ?w = "snd (Fprintf (diskWriter space full) line w)"
  have w: "?w = take space (w @ line)"
    using Cons.prems by (simp add: Fprintf_def diskWriter_def Let_def min_def)
  then have "length ?w \<le> space" by simp
  then have "fold (\<lambda>line w. snd (Fprintf (diskWriter space full) line w)) (line # lines) w = take space (?w @ concat lines)"
    using Cons.IH by simp
  also have "\<dots> = take space (w @ concat (line # lines))"
    unfolding w using Cons.prems by (cases "length (w @ line) \<le> space") (simp_all add: min_def)
  finally show ?case .
qed

text \<open>
  C28: on a disk that has room for the first part of the receipt and for no more than some of the rest, the
  receipt is cut off where the room ends and \<^verbatim>\<open>writeHumanReceipt\<close> reports no error; with less room
  it reports one, and with enough the whole receipt is there.
\<close>

theorem receipt_cut_unreported:
  "printReceipt (diskWriter space full) fixed expected r [] =
     (if space < length (receiptHead fixed r) then Some full else None,
      take space (receiptText fixed (assertionTexts fixed expected r) r))"
proof (cases "space < length (receiptHead fixed r)")
  case True
  then show ?thesis
    by (simp add: printReceipt_def writeHumanReceipt_def receiptText_def Fprintf_def diskWriter_def Let_def)
next
  case False
  then have "Fprintf (diskWriter space full) (receiptHead fixed r) [] = (None, receiptHead fixed r)"
    by (simp add: Fprintf_def diskWriter_def Let_def)
  then show ?thesis
    using False diskWriter_lines [of "receiptHead fixed r" space full]
    by (simp add: printReceipt_def writeHumanReceipt_def receiptText_def)
qed

end
