(* ===== verification/Scenario_Json.thy ===== *)
theory Scenario_Json
  imports Go_Format Scenario
begin

text \<open>
  \<^verbatim>\<open>src/src/scenario.go\<close>: reading a scenario from JSON and its canonical JSON and hash. The struct tags are
  the tables of fields; decoding with \<^verbatim>\<open>DisallowUnknownFields\<close> and encoding with \<^verbatim>\<open>omitempty\<close> are those of
  \<^verbatim>\<open>encoding/json\<close> on JSON values. Reading a value from bytes, writing one, numbers with a fraction and
  SHA-256 are parameters.
\<close>

subsection \<open>JSON values\<close>

text \<open>A number is its literal. A string is what its literal denotes.\<close>

datatype json =
    JNull | JBool bool | JNumber string | JString string | JArray "json list" | JObject "(string \<times> json) list"

text \<open>What \<^verbatim>\<open>Decoder.Decode\<close> finds at the start of its input: a value and what is left, the end, or an error.\<close>

datatype jsonInput = JsonValue json bytes | JsonEOF | JsonError string

definition mismatch :: string where "mismatch = ''json: cannot unmarshal value into Go value''"

text \<open>Decoding into a variable: \<^verbatim>\<open>null\<close> leaves it as it is.\<close>

definition jsonInt :: "json \<Rightarrow> int \<Rightarrow> string + int" where
  "jsonInt j old =
     (case j of
        JNull \<Rightarrow> Inr old
      | JNumber literal \<Rightarrow> (case Atoi literal of None \<Rightarrow> Inl mismatch | Some n \<Rightarrow> Inr n)
      | _ \<Rightarrow> Inl mismatch)"

definition jsonFloat :: "(string \<Rightarrow> rat option) \<Rightarrow> json \<Rightarrow> rat \<Rightarrow> string + rat" where
  "jsonFloat parseFloat j old =
     (case j of
        JNull \<Rightarrow> Inr old
      | JNumber literal \<Rightarrow> (case parseFloat literal of None \<Rightarrow> Inl mismatch | Some x \<Rightarrow> Inr x)
      | _ \<Rightarrow> Inl mismatch)"

definition jsonString :: "json \<Rightarrow> string \<Rightarrow> string + string" where
  "jsonString j old = (case j of JNull \<Rightarrow> Inr old | JString s \<Rightarrow> Inr s | _ \<Rightarrow> Inl mismatch)"

definition jsonBool :: "json \<Rightarrow> bool \<Rightarrow> string + bool" where
  "jsonBool j old = (case j of JNull \<Rightarrow> Inr old | JBool b \<Rightarrow> Inr b | _ \<Rightarrow> Inl mismatch)"

text \<open>An array replaces a slice; its elements are decoded into zero values.\<close>

fun jsonElements :: "(json \<Rightarrow> 'a \<Rightarrow> string + 'a) \<Rightarrow> 'a \<Rightarrow> json list \<Rightarrow> string + 'a list" where
  "jsonElements decode zero [] = Inr []"
| "jsonElements decode zero (j # js) =
     andThen (decode j zero) (\<lambda>x. andThen (jsonElements decode zero js) (\<lambda>xs. Inr (x # xs)))"

definition jsonSlice :: "(json \<Rightarrow> 'a \<Rightarrow> string + 'a) \<Rightarrow> 'a \<Rightarrow> json \<Rightarrow> 'a list \<Rightarrow> string + 'a list" where
  "jsonSlice decode zero j old =
     (case j of JNull \<Rightarrow> Inr [] | JArray js \<Rightarrow> jsonElements decode zero js | _ \<Rightarrow> Inl mismatch)"

text \<open>
  A struct: the field of a key is the one with that name, or else one whose name differs only in case;
  a key without a field is an error. A later key decodes into what an earlier one has left.
\<close>

type_synonym 'a jsonField = "string \<times> (json \<Rightarrow> 'a \<Rightarrow> string + 'a)"

definition jsonField :: "string \<Rightarrow> (json \<Rightarrow> 'b \<Rightarrow> string + 'b) \<Rightarrow> ('a \<Rightarrow> 'b) \<Rightarrow> (('b \<Rightarrow> 'b) \<Rightarrow> 'a \<Rightarrow> 'a) \<Rightarrow> 'a jsonField" where
  "jsonField name decode get update = (name, \<lambda>j v. andThen (decode j (get v)) (\<lambda>x. Inr (update (\<lambda>_. x) v)))"

definition fieldNamed :: "'a jsonField list \<Rightarrow> string \<Rightarrow> (json \<Rightarrow> 'a \<Rightarrow> string + 'a) option" where
  "fieldNamed fs key =
     (case map_of fs key of
        Some decode \<Rightarrow> Some decode
      | None \<Rightarrow> map_option snd (List.find (\<lambda>(name, decode). EqualFold key name) fs))"

fun jsonFields :: "'a jsonField list \<Rightarrow> (string \<times> json) list \<Rightarrow> 'a \<Rightarrow> string + 'a" where
  "jsonFields fs [] v = Inr v"
| "jsonFields fs ((key, j) # kvs) v =
     (case fieldNamed fs key of
        None \<Rightarrow> Inl ''json: unknown field %q''
      | Some decode \<Rightarrow> andThen (decode j v) (jsonFields fs kvs))"

definition jsonStruct :: "'a jsonField list \<Rightarrow> json \<Rightarrow> 'a \<Rightarrow> string + 'a" where
  "jsonStruct fs j v =
     (case j of JNull \<Rightarrow> Inr v | JObject kvs \<Rightarrow> jsonFields fs kvs v | _ \<Rightarrow> Inl mismatch)"

subsection \<open>The fields of a scenario\<close>

definition fixtureSpecFields :: "fixtureSpec jsonField list" where
  "fixtureSpecFields =
     [jsonField ''alias'' jsonString SpecAlias SpecAlias_update,
      jsonField ''initial_mode'' jsonString InitialMode InitialMode_update,
      jsonField ''delay_ms'' jsonInt SpecDelayMS SpecDelayMS_update,
      jsonField ''failure_status'' jsonInt SpecFailureStatus SpecFailureStatus_update]"

definition scenarioStepFields :: "scenarioStep jsonField list" where
  "scenarioStepFields =
     [jsonField ''at_ms'' jsonInt AtMS AtMS_update,
      jsonField ''jitter_ms'' jsonInt JitterMS JitterMS_update,
      jsonField ''fixture'' jsonString StepFixture StepFixture_update,
      jsonField ''mode'' jsonString StepMode StepMode_update,
      jsonField ''delay_ms'' jsonInt StepDelayMS StepDelayMS_update,
      jsonField ''failure_status'' jsonInt StepFailureStatus StepFailureStatus_update]"

definition scenarioLoadFields :: "scenarioLoad jsonField list" where
  "scenarioLoadFields =
     [jsonField ''workers'' jsonInt Workers Workers_update,
      jsonField ''requests'' jsonInt LoadRequests LoadRequests_update,
      jsonField ''rate_per_second'' jsonInt RatePerSecond RatePerSecond_update,
      jsonField ''path'' jsonString LoadPath LoadPath_update,
      jsonField ''timeout_ms'' jsonInt TimeoutMS TimeoutMS_update]"

definition scenarioResilienceFields :: "scenarioResilience jsonField list" where
  "scenarioResilienceFields =
     [jsonField ''max_attempts'' jsonInt ScMaxAttempts ScMaxAttempts_update,
      jsonField ''retry_timeout_ms'' jsonInt RetryTimeoutMS RetryTimeoutMS_update,
      jsonField ''passive_failures'' jsonInt PassiveFailures PassiveFailures_update,
      jsonField ''passive_interval_ms'' jsonInt PassiveIntervalMS PassiveIntervalMS_update,
      jsonField ''circuit_cooldown_ms'' jsonInt CircuitCooldownMS CircuitCooldownMS_update,
      jsonField ''half_open_successes'' jsonInt ScHalfOpenSuccesses ScHalfOpenSuccesses_update,
      jsonField ''health_interval_ms'' jsonInt HealthIntervalMS HealthIntervalMS_update,
      jsonField ''health_timeout_ms'' jsonInt HealthTimeoutMS HealthTimeoutMS_update,
      jsonField ''health_failures'' jsonInt HealthFailures HealthFailures_update,
      jsonField ''health_successes'' jsonInt HealthSuccesses HealthSuccesses_update]"

definition scenarioAssertionFields :: "(string \<Rightarrow> rat option) \<Rightarrow> scenarioAssertions jsonField list" where
  "scenarioAssertionFields parseFloat =
     [jsonField ''minimum_success_rate'' (jsonFloat parseFloat) MinimumSuccessRate MinimumSuccessRate_update,
      jsonField ''maximum_failure_streak'' jsonInt MaximumFailureRun MaximumFailureRun_update,
      jsonField ''maximum_failover_ms'' jsonInt MaximumFailoverMS MaximumFailoverMS_update,
      jsonField ''require_recovery'' jsonBool RequireRecovery RequireRecovery_update]"

definition zeroFixtureSpec :: fixtureSpec where
  "zeroFixtureSpec = \<lparr>SpecAlias = [], InitialMode = [], SpecDelayMS = 0, SpecFailureStatus = 0\<rparr>"

definition zeroScenarioStep :: scenarioStep where
  "zeroScenarioStep =
     \<lparr>AtMS = 0, JitterMS = 0, StepFixture = [], StepMode = [], StepDelayMS = 0, StepFailureStatus = 0\<rparr>"

definition zeroScenario :: scenario where
  "zeroScenario =
     \<lparr>ScVersion = 0, ScName = [], Seed = 0, DurationMS = 0, Fixtures = [], Steps = [],
      Load = \<lparr>Workers = 0, LoadRequests = 0, RatePerSecond = 0, LoadPath = [], TimeoutMS = 0\<rparr>,
      ScResilience = \<lparr>ScMaxAttempts = 0, RetryTimeoutMS = 0, PassiveFailures = 0, PassiveIntervalMS = 0,
        CircuitCooldownMS = 0, ScHalfOpenSuccesses = 0, HealthIntervalMS = 0, HealthTimeoutMS = 0,
        HealthFailures = 0, HealthSuccesses = 0\<rparr>,
      Assertions = \<lparr>MinimumSuccessRate = 0, MaximumFailureRun = 0, MaximumFailoverMS = 0, RequireRecovery = False\<rparr>,
      ScLedgerCapacity = 0\<rparr>"

definition scenarioFields :: "(string \<Rightarrow> rat option) \<Rightarrow> scenario jsonField list" where
  "scenarioFields parseFloat =
     [jsonField ''version'' jsonInt ScVersion ScVersion_update,
      jsonField ''name'' jsonString ScName ScName_update,
      jsonField ''seed'' jsonInt Seed Seed_update,
      jsonField ''duration_ms'' jsonInt DurationMS DurationMS_update,
      jsonField ''fixtures'' (jsonSlice (jsonStruct fixtureSpecFields) zeroFixtureSpec) Fixtures Fixtures_update,
      jsonField ''steps'' (jsonSlice (jsonStruct scenarioStepFields) zeroScenarioStep) Steps Steps_update,
      jsonField ''load'' (jsonStruct scenarioLoadFields) Load Load_update,
      jsonField ''resilience'' (jsonStruct scenarioResilienceFields) ScResilience ScResilience_update,
      jsonField ''assertions'' (jsonStruct (scenarioAssertionFields parseFloat)) Assertions Assertions_update,
      jsonField ''ledger_capacity'' jsonInt ScLedgerCapacity ScLedgerCapacity_update]"

definition decodeScenario :: "(string \<Rightarrow> rat option) \<Rightarrow> json \<Rightarrow> string + scenario" where
  "decodeScenario parseFloat j = jsonStruct (scenarioFields parseFloat) j zeroScenario"

definition maxScenarioBytes :: int where "maxScenarioBytes = 2 ^ 20"

text \<open>\<^verbatim>\<open>parseScenario\<close>: one value of the permitted size with known fields, nothing after it, and valid.\<close>

definition parseScenario ::
    "(bytes \<Rightarrow> jsonInput) \<Rightarrow> (string \<Rightarrow> rat option) \<Rightarrow> (nat \<Rightarrow> int \<Rightarrow> int) \<Rightarrow> bytes \<Rightarrow> string + scenario" where
  "parseScenario readJSON parseFloat intn data =
     (if int (length data) > maxScenarioBytes then Inl ''scenario exceeds %d-byte limit''
      else
        (case readJSON data of
           JsonEOF \<Rightarrow> Inl ''decode scenario: EOF''
         | JsonError err \<Rightarrow> Inl (''decode scenario: '' @ err)
         | JsonValue j rest \<Rightarrow>
             (case decodeScenario parseFloat j of
                Inl err \<Rightarrow> Inl (''decode scenario: '' @ err)
              | Inr s \<Rightarrow>
                  (case readJSON rest of
                     JsonValue _ _ \<Rightarrow> Inl ''decode scenario: multiple JSON values are not allowed''
                   | JsonError err \<Rightarrow> Inl (''decode scenario trailing data: '' @ err)
                   | JsonEOF \<Rightarrow> andThen (scenario_validate intn s) (\<lambda>_. Inr s)))))"

subsection \<open>Canonical JSON\<close>

definition intJSON :: "int \<Rightarrow> json" where "intJSON n = JNumber (formatInt n)"

text \<open>A field with \<^verbatim>\<open>omitempty\<close>.\<close>

definition omitZero :: "string \<Rightarrow> int \<Rightarrow> (string \<times> json) list" where
  "omitZero name n = (if n = 0 then [] else [(name, intJSON n)])"

definition encodeFixtureSpec :: "fixtureSpec \<Rightarrow> json" where
  "encodeFixtureSpec f =
     JObject ([(''alias'', JString (SpecAlias f)), (''initial_mode'', JString (InitialMode f))] @
       omitZero ''delay_ms'' (SpecDelayMS f) @ omitZero ''failure_status'' (SpecFailureStatus f))"

definition encodeScenarioStep :: "scenarioStep \<Rightarrow> json" where
  "encodeScenarioStep step =
     JObject ([(''at_ms'', intJSON (AtMS step))] @ omitZero ''jitter_ms'' (JitterMS step) @
       [(''fixture'', JString (StepFixture step)), (''mode'', JString (StepMode step))] @
       omitZero ''delay_ms'' (StepDelayMS step) @ omitZero ''failure_status'' (StepFailureStatus step))"

definition encodeScenarioLoad :: "scenarioLoad \<Rightarrow> json" where
  "encodeScenarioLoad l =
     JObject ([(''workers'', intJSON (Workers l)), (''requests'', intJSON (LoadRequests l))] @
       omitZero ''rate_per_second'' (RatePerSecond l) @
       [(''path'', JString (LoadPath l)), (''timeout_ms'', intJSON (TimeoutMS l))])"

definition encodeScenarioResilience :: "scenarioResilience \<Rightarrow> json" where
  "encodeScenarioResilience r =
     JObject [(''max_attempts'', intJSON (ScMaxAttempts r)), (''retry_timeout_ms'', intJSON (RetryTimeoutMS r)),
       (''passive_failures'', intJSON (PassiveFailures r)), (''passive_interval_ms'', intJSON (PassiveIntervalMS r)),
       (''circuit_cooldown_ms'', intJSON (CircuitCooldownMS r)),
       (''half_open_successes'', intJSON (ScHalfOpenSuccesses r)),
       (''health_interval_ms'', intJSON (HealthIntervalMS r)), (''health_timeout_ms'', intJSON (HealthTimeoutMS r)),
       (''health_failures'', intJSON (HealthFailures r)), (''health_successes'', intJSON (HealthSuccesses r))]"

definition encodeScenarioAssertions :: "(rat \<Rightarrow> string) \<Rightarrow> scenarioAssertions \<Rightarrow> json" where
  "encodeScenarioAssertions formatFloat a =
     JObject [(''minimum_success_rate'', JNumber (formatFloat (MinimumSuccessRate a))),
       (''maximum_failure_streak'', intJSON (MaximumFailureRun a)),
       (''maximum_failover_ms'', intJSON (MaximumFailoverMS a)), (''require_recovery'', JBool (RequireRecovery a))]"

definition encodeScenario :: "(rat \<Rightarrow> string) \<Rightarrow> scenario \<Rightarrow> json" where
  "encodeScenario formatFloat s =
     JObject [(''version'', intJSON (ScVersion s)), (''name'', JString (ScName s)), (''seed'', intJSON (Seed s)),
       (''duration_ms'', intJSON (DurationMS s)), (''fixtures'', JArray (map encodeFixtureSpec (Fixtures s))),
       (''steps'', JArray (map encodeScenarioStep (Steps s))), (''load'', encodeScenarioLoad (Load s)),
       (''resilience'', encodeScenarioResilience (ScResilience s)),
       (''assertions'', encodeScenarioAssertions formatFloat (Assertions s)),
       (''ledger_capacity'', intJSON (ScLedgerCapacity s))]"

definition canonicalJSON ::
    "(json \<Rightarrow> bytes) \<Rightarrow> (rat \<Rightarrow> string) \<Rightarrow> (nat \<Rightarrow> int \<Rightarrow> int) \<Rightarrow> scenario \<Rightarrow> string + bytes" where
  "canonicalJSON writeJSON formatFloat intn s =
     andThen (scenario_validate intn s) (\<lambda>_. Inr (writeJSON (encodeScenario formatFloat s)))"

definition canonicalHash ::
    "(bytes \<Rightarrow> bytes) \<Rightarrow> (json \<Rightarrow> bytes) \<Rightarrow> (rat \<Rightarrow> string) \<Rightarrow> (nat \<Rightarrow> int \<Rightarrow> int) \<Rightarrow> scenario \<Rightarrow> string + string" where
  "canonicalHash sha256 writeJSON formatFloat intn s =
     andThen (canonicalJSON writeJSON formatFloat intn s) (\<lambda>canonical.
       Inr (concat (map (\<lambda>c. [digitChar (of_char c div 16), digitChar (of_char c mod 16)]) (sha256 canonical))))"

subsection \<open>Decoding inverts encoding\<close>

text \<open>The numbers of a scenario fit into 64 bits, as Go's \<^verbatim>\<open>int\<close> and \<^verbatim>\<open>int64\<close> do.\<close>

definition int64 :: "int \<Rightarrow> bool" where "int64 n \<longleftrightarrow> minInt64 \<le> n \<and> n \<le> maxInt64"

definition scenarioInts :: "scenario \<Rightarrow> int list" where
  "scenarioInts s =
     [ScVersion s, Seed s, DurationMS s, ScLedgerCapacity s] @
     concat (map (\<lambda>f. [SpecDelayMS f, SpecFailureStatus f]) (Fixtures s)) @
     concat (map (\<lambda>t. [AtMS t, JitterMS t, StepDelayMS t, StepFailureStatus t]) (Steps s)) @
     (let l = Load s in [Workers l, LoadRequests l, RatePerSecond l, TimeoutMS l]) @
     (let r = ScResilience s in
        [ScMaxAttempts r, RetryTimeoutMS r, PassiveFailures r, PassiveIntervalMS r, CircuitCooldownMS r,
         ScHalfOpenSuccesses r, HealthIntervalMS r, HealthTimeoutMS r, HealthFailures r, HealthSuccesses r]) @
     (let a = Assertions s in [MaximumFailureRun a, MaximumFailoverMS a])"

lemma jsonInt_intJSON: "int64 n \<Longrightarrow> jsonInt (intJSON n) old = Inr n"
  by (simp add: jsonInt_def intJSON_def int64_def Atoi_formatInt)

lemma jsonString_JString: "jsonString (JString s) old = Inr s"
  by (simp add: jsonString_def)

lemmas json_simps = jsonInt_intJSON jsonString_JString jsonBool_def fieldNamed_def jsonField_def jsonStruct_def omitZero_def

lemma decode_fixtureSpec:
  assumes "int64 (SpecDelayMS f)" "int64 (SpecFailureStatus f)"
  shows "jsonStruct fixtureSpecFields (encodeFixtureSpec f) zeroFixtureSpec = Inr f"
  using assms by (cases f) (simp add: encodeFixtureSpec_def fixtureSpecFields_def zeroFixtureSpec_def json_simps)

lemma decode_scenarioStep:
  assumes "int64 (AtMS t)" "int64 (JitterMS t)" "int64 (StepDelayMS t)" "int64 (StepFailureStatus t)"
  shows "jsonStruct scenarioStepFields (encodeScenarioStep t) zeroScenarioStep = Inr t"
  using assms by (cases t) (simp add: encodeScenarioStep_def scenarioStepFields_def zeroScenarioStep_def json_simps)

lemma decode_elements:
  "(\<And>x. x \<in> set xs \<Longrightarrow> decode (encode x) zero = Inr x) \<Longrightarrow> jsonElements decode zero (map encode xs) = Inr xs"
  by (induction xs) simp_all

lemma decode_scenarioLoad:
  assumes "int64 (Workers l)" "int64 (LoadRequests l)" "int64 (RatePerSecond l)" "int64 (TimeoutMS l)"
  shows "jsonStruct scenarioLoadFields (encodeScenarioLoad l) (Load zeroScenario) = Inr l"
  using assms by (cases l) (simp add: encodeScenarioLoad_def scenarioLoadFields_def zeroScenario_def json_simps)

lemma decode_scenarioResilience:
  assumes "int64 (ScMaxAttempts r)" "int64 (RetryTimeoutMS r)" "int64 (PassiveFailures r)" "int64 (PassiveIntervalMS r)"
    "int64 (CircuitCooldownMS r)" "int64 (ScHalfOpenSuccesses r)" "int64 (HealthIntervalMS r)"
    "int64 (HealthTimeoutMS r)" "int64 (HealthFailures r)" "int64 (HealthSuccesses r)"
  shows "jsonStruct scenarioResilienceFields (encodeScenarioResilience r) (ScResilience zeroScenario) = Inr r"
  using assms
  by (cases r) (simp add: encodeScenarioResilience_def scenarioResilienceFields_def zeroScenario_def json_simps)

lemma decode_scenarioAssertions:
  assumes "int64 (MaximumFailureRun a)" "int64 (MaximumFailoverMS a)"
    and "parseFloat (formatFloat (MinimumSuccessRate a)) = Some (MinimumSuccessRate a)"
  shows "jsonStruct (scenarioAssertionFields parseFloat) (encodeScenarioAssertions formatFloat a) (Assertions zeroScenario) = Inr a"
  using assms
  by (cases a) (simp add: encodeScenarioAssertions_def scenarioAssertionFields_def zeroScenario_def json_simps jsonFloat_def)

lemma decode_encode:
  assumes "list_all int64 (scenarioInts s)"
    and "parseFloat (formatFloat (MinimumSuccessRate (Assertions s))) = Some (MinimumSuccessRate (Assertions s))"
  shows "decodeScenario parseFloat (encodeScenario formatFloat s) = Inr s"
proof -
  note ints = assms(1) [unfolded scenarioInts_def Let_def, simplified]
  have "jsonSlice (jsonStruct fixtureSpecFields) zeroFixtureSpec (JArray (map encodeFixtureSpec (Fixtures s))) old = Inr (Fixtures s)"
    for old using ints by (auto simp: jsonSlice_def list_all_iff intro!: decode_elements decode_fixtureSpec)
  moreover have "jsonSlice (jsonStruct scenarioStepFields) zeroScenarioStep (JArray (map encodeScenarioStep (Steps s))) old = Inr (Steps s)"
    for old using ints by (auto simp: jsonSlice_def list_all_iff intro!: decode_elements decode_scenarioStep)
  moreover note decode_scenarioLoad [of "Load s"] decode_scenarioResilience [of "ScResilience s"]
    decode_scenarioAssertions [of "Assertions s" parseFloat formatFloat]
  ultimately have parts:
    "\<And>old. jsonSlice (jsonStruct fixtureSpecFields) zeroFixtureSpec (JArray (map encodeFixtureSpec (Fixtures s))) old = Inr (Fixtures s)"
    "\<And>old. jsonSlice (jsonStruct scenarioStepFields) zeroScenarioStep (JArray (map encodeScenarioStep (Steps s))) old = Inr (Steps s)"
    "jsonStruct scenarioLoadFields (encodeScenarioLoad (Load s)) (Load zeroScenario) = Inr (Load s)"
    "jsonStruct scenarioResilienceFields (encodeScenarioResilience (ScResilience s)) (ScResilience zeroScenario) = Inr (ScResilience s)"
    "jsonStruct (scenarioAssertionFields parseFloat) (encodeScenarioAssertions formatFloat (Assertions s)) (Assertions zeroScenario) = Inr (Assertions s)"
    using ints assms(2) by simp_all
  have "int64 (ScVersion s)" "int64 (Seed s)" "int64 (DurationMS s)" "int64 (ScLedgerCapacity s)" using ints by simp_all
  then show ?thesis
    using parts(3-5)
    by (simp add: decodeScenario_def encodeScenario_def scenarioFields_def jsonStruct_def [of "_ # _"]
        fieldNamed_def jsonField_def jsonInt_intJSON jsonString_JString parts(1,2) zeroScenario_def)
qed

lemma jsonFields_known:
  "jsonFields fs kvs v = Inr v' \<Longrightarrow> \<forall>key \<in> fst ` set kvs. \<exists>name \<in> fst ` set fs. EqualFold key name"
proof (induction fs kvs v rule: jsonFields.induct)
  case (2 fs key j kvs v)
  obtain decode where d: "fieldNamed fs key = Some decode" using 2(2) by (cases "fieldNamed fs key") auto
  then obtain w where "decode j v = Inr w" "jsonFields fs kvs w = Inr v'" using 2(2) by (auto simp: result_simps)
  from 2(1) [OF d this] have "\<forall>key \<in> fst ` set kvs. \<exists>name \<in> fst ` set fs. EqualFold key name" .
  moreover have "\<exists>name \<in> fst ` set fs. EqualFold key name"
  proof (cases "map_of fs key")
    case (Some x)
    then show ?thesis using map_of_SomeD [OF Some] by (force intro: bexI [of _ key])
  next
    case None
    then obtain name where "(name, decode) \<in> set fs" "EqualFold key name"
      using d by (auto simp: fieldNamed_def find_Some_iff split: prod.splits) (metis fst_conv nth_mem snd_conv surj_pair)
    then show ?thesis by force
  qed
  ultimately show ?case by simp
qed simp

definition scenarioKeys :: "string list" where
  "scenarioKeys = [''version'', ''name'', ''seed'', ''duration_ms'', ''fixtures'', ''steps'', ''load'', ''resilience'',
     ''assertions'', ''ledger_capacity'']"

lemma scenarioFields_keys: "map fst (scenarioFields parseFloat) = scenarioKeys"
  by (simp add: scenarioFields_def scenarioKeys_def jsonField_def)

lemma zeroScenario_invalid: "scenario_validate intn zeroScenario \<noteq> Inr ()"
  by (simp add: scenario_validate_def zeroScenario_def scenarioVersion_def)

text \<open>
  C25: a scenario is read only from an input of at most a mebibyte that is one JSON object, with nothing
  but the fields of a scenario at its top level and nothing after it, and only when it is valid.
\<close>

theorem parse_strict:
  assumes "parseScenario readJSON parseFloat intn data = Inr s"
  shows "length data \<le> 1048576 \<and> scenario_validate intn s = Inr () \<and>
    (\<exists>kvs rest. readJSON data = JsonValue (JObject kvs) rest \<and> readJSON rest = JsonEOF \<and>
       decodeScenario parseFloat (JObject kvs) = Inr s \<and>
       (\<forall>key \<in> fst ` set kvs. \<exists>name \<in> set scenarioKeys. EqualFold key name))"
proof -
  obtain j rest where read: "readJSON data = JsonValue j rest" "readJSON rest = JsonEOF"
      "decodeScenario parseFloat j = Inr s" and valid: "scenario_validate intn s = Inr ()"
      and len: "int (length data) \<le> maxScenarioBytes"
    using assms by (auto simp: parseScenario_def result_simps split: if_splits jsonInput.splits sum.splits)
  have "\<exists>kvs. j = JObject kvs"
    using read(3) valid zeroScenario_invalid
    by (cases j) (auto simp: decodeScenario_def jsonStruct_def)
  then obtain kvs where kvs: "j = JObject kvs" by blast
  then have "jsonFields (scenarioFields parseFloat) kvs zeroScenario = Inr s"
    using read(3) by (simp add: decodeScenario_def jsonStruct_def)
  from jsonFields_known [OF this] have "\<forall>key \<in> fst ` set kvs. \<exists>name \<in> set scenarioKeys. EqualFold key name"
    using scenarioFields_keys [of parseFloat] by (metis list.set_map)
  then show ?thesis using read valid len kvs by (auto simp: maxScenarioBytes_def)
qed

text \<open>What is asked of the numbers and the JSON of a scenario: what is written is read back.\<close>

definition readBack ::
    "(bytes \<Rightarrow> jsonInput) \<Rightarrow> (json \<Rightarrow> bytes) \<Rightarrow> (string \<Rightarrow> rat option) \<Rightarrow> (rat \<Rightarrow> string) \<Rightarrow> scenario \<Rightarrow> bool" where
  "readBack readJSON writeJSON parseFloat formatFloat s \<longleftrightarrow>
     list_all int64 (scenarioInts s) \<and>
     parseFloat (formatFloat (MinimumSuccessRate (Assertions s))) = Some (MinimumSuccessRate (Assertions s)) \<and>
     readJSON (writeJSON (encodeScenario formatFloat s)) = JsonValue (encodeScenario formatFloat s) []"

text \<open>
  C24: the canonical JSON of a valid scenario, when JSON values and numbers are read back as they were
  written, is read back as that scenario; so that two valid scenarios have the same canonical JSON, which
  is what is hashed, only if they are the same.
\<close>

theorem canonical_roundtrip:
  assumes "scenario_validate intn s = Inr ()" "readBack readJSON writeJSON parseFloat formatFloat s"
    and "readJSON [] = JsonEOF" "length (writeJSON (encodeScenario formatFloat s)) \<le> 1048576"
  shows "andThen (canonicalJSON writeJSON formatFloat intn s) (parseScenario readJSON parseFloat intn) = Inr s \<and>
    (\<forall>t. readBack readJSON writeJSON parseFloat formatFloat t \<and>
       canonicalJSON writeJSON formatFloat intn t = canonicalJSON writeJSON formatFloat intn s \<longrightarrow> t = s)"
proof -
  have decode: "decodeScenario parseFloat (encodeScenario formatFloat t) = Inr t"
    if "readBack readJSON writeJSON parseFloat formatFloat t" for t
    using decode_encode that unfolding readBack_def by blast
  have "t = s" if t: "readBack readJSON writeJSON parseFloat formatFloat t"
    "canonicalJSON writeJSON formatFloat intn t = canonicalJSON writeJSON formatFloat intn s" for t
  proof -
    have "writeJSON (encodeScenario formatFloat t) = writeJSON (encodeScenario formatFloat s)"
      using t(2) assms(1) by (auto simp: canonicalJSON_def andThen_def split: sum.splits)
    then have "encodeScenario formatFloat t = encodeScenario formatFloat s"
      using t(1) assms(2) unfolding readBack_def by (metis jsonInput.inject(1))
    then show ?thesis using decode [OF t(1)] decode [OF assms(2)] by (metis sum.inject(2))
  qed
  moreover have "andThen (canonicalJSON writeJSON formatFloat intn s) (parseScenario readJSON parseFloat intn) = Inr s"
    using assms decode [OF assms(2)]
    by (simp add: canonicalJSON_def parseScenario_def maxScenarioBytes_def readBack_def)
  ultimately show ?thesis by blast
qed

definition sampleRead :: "bytes \<Rightarrow> jsonInput" where
  "sampleRead data =
     (if data = [] then JsonEOF else JsonValue (encodeScenario (\<lambda>_. ''0.95'') defaultDemoScenario) [])"

definition sampleRate :: "string \<Rightarrow> rat option" where
  "sampleRate literal = Some (MinimumSuccessRate (Assertions defaultDemoScenario))"

lemma sampleScenario_valid: "scenario_validate (\<lambda>k n. 0) defaultDemoScenario = Inr ()"
  by code_simp

lemma sampleReadBack:
  "readBack sampleRead (\<lambda>_. ''{}'') sampleRate (\<lambda>_. ''0.95'') defaultDemoScenario"
proof -
  have "list_all int64 (scenarioInts defaultDemoScenario)" by code_simp
  then show ?thesis by (simp add: readBack_def sampleRead_def sampleRate_def)
qed

theorem canonical_roundtrip_witness:
  "andThen (canonicalJSON (\<lambda>_. ''{}'') (\<lambda>_. ''0.95'') (\<lambda>k n. 0) defaultDemoScenario)
     (parseScenario sampleRead sampleRate (\<lambda>k n. 0)) = Inr defaultDemoScenario"
  using canonical_roundtrip [OF sampleScenario_valid sampleReadBack] by (simp add: sampleRead_def)

theorem parse_strict_witness:
  "parseScenario sampleRead sampleRate (\<lambda>k n. 0) ''{}'' = Inr defaultDemoScenario \<and>
   (\<exists>kvs rest. sampleRead ''{}'' = JsonValue (JObject kvs) rest \<and>
      (\<forall>key \<in> fst ` set kvs. \<exists>name \<in> set scenarioKeys. EqualFold key name))"
proof -
  have "decodeScenario sampleRate (encodeScenario (\<lambda>_. ''0.95'') defaultDemoScenario) = Inr defaultDemoScenario"
    using sampleReadBack by (intro decode_encode) (simp_all add: readBack_def)
  then have parsed: "parseScenario sampleRead sampleRate (\<lambda>k n. 0) ''{}'' = Inr defaultDemoScenario"
    by (simp add: parseScenario_def maxScenarioBytes_def sampleRead_def sampleScenario_valid)
  from parse_strict [OF parsed] parsed show ?thesis by blast
qed

end
