(* ===== verification/Flags.thy ===== *)
theory Flags
  imports Go_Format
begin

text \<open>
  What the commands use of Go's \<^verbatim>\<open>flag\<close> package: a set of flags with \<^verbatim>\<open>ContinueOnError\<close>, and \<^verbatim>\<open>Parse\<close>, which
  takes flags from the arguments up to the first that is none. An integer is read with base 0: a prefix
  chooses the base, and digits may be separated by underscores.
\<close>

subsection \<open>\<^verbatim>\<open>strconv.ParseInt(s, 0, 64)\<close> and \<^verbatim>\<open>strconv.ParseBool\<close>\<close>

definition lowerByte :: "byte \<Rightarrow> byte" where "lowerByte c = toLowerByte c"

text \<open>The value of a digit or letter; the digits of a base are those below it.\<close>

definition digitOf :: "byte \<Rightarrow> int option" where
  "digitOf c =
     (if CHR ''0'' \<le> c \<and> c \<le> CHR ''9'' then Some (of_char c - 48)
      else if CHR ''a'' \<le> lowerByte c \<and> lowerByte c \<le> CHR ''z'' then Some (of_char (lowerByte c) - 87)
      else None)"

text \<open>The base of a number without sign, and what follows its prefix.\<close>

definition basePrefix :: "string \<Rightarrow> int \<times> string" where
  "basePrefix s =
     (if s \<noteq> [] \<and> hd s = CHR ''0'' then
        (if length s \<ge> 3 \<and> lowerByte (s ! 1) = CHR ''b'' then (2, drop 2 s)
         else if length s \<ge> 3 \<and> lowerByte (s ! 1) = CHR ''o'' then (8, drop 2 s)
         else if length s \<ge> 3 \<and> lowerByte (s ! 1) = CHR ''x'' then (16, drop 2 s)
         else (8, drop 1 s))
      else (10, s))"

fun digitsValue :: "int \<Rightarrow> int \<Rightarrow> string \<Rightarrow> int option" where
  "digitsValue base n [] = Some n"
| "digitsValue base n (c # cs) =
     (if c = CHR ''_'' then digitsValue base n cs
      else
        (case digitOf c of
           None \<Rightarrow> None
         | Some d \<Rightarrow> if d \<ge> base then None else digitsValue base (n * base + d) cs))"

text \<open>Underscores stand between digits, or after a prefix; the state is what was seen last.\<close>

datatype lastSeen = SeenStart | SeenDigit | SeenUnderscore | SeenOther

fun underscores :: "bool \<Rightarrow> lastSeen \<Rightarrow> string \<Rightarrow> bool" where
  "underscores hex seen [] \<longleftrightarrow> seen \<noteq> SeenUnderscore"
| "underscores hex seen (c # cs) \<longleftrightarrow>
     (if (CHR ''0'' \<le> c \<and> c \<le> CHR ''9'') \<or> (hex \<and> CHR ''a'' \<le> lowerByte c \<and> lowerByte c \<le> CHR ''f'')
        then underscores hex SeenDigit cs
      else if c = CHR ''_'' then seen = SeenDigit \<and> underscores hex SeenUnderscore cs
      else seen \<noteq> SeenUnderscore \<and> underscores hex SeenOther cs)"

definition underscoreOK :: "string \<Rightarrow> bool" where
  "underscoreOK s =
     (if length s \<ge> 2 \<and> hd s = CHR ''0'' \<and> lowerByte (s ! 1) \<in> {CHR ''b'', CHR ''o'', CHR ''x''}
      then underscores (lowerByte (s ! 1) = CHR ''x'') SeenDigit (drop 2 s)
      else underscores False SeenStart s)"

definition parseUint0 :: "string \<Rightarrow> int option" where
  "parseUint0 s =
     (if s = [] then None
      else
        (case basePrefix s of (base, digits) \<Rightarrow>
          (case digitsValue base 0 digits of
             None \<Rightarrow> None
           | Some n \<Rightarrow>
               if n \<ge> 2 ^ 64 \<or> CHR ''_'' \<in> set digits \<and> \<not> underscoreOK s then None else Some n)))"

definition parseInt0 :: "string \<Rightarrow> int option" where
  "parseInt0 s =
     (case s of
        [] \<Rightarrow> None
      | c # cs \<Rightarrow>
          (case parseUint0 (if c = CHR ''+'' \<or> c = CHR ''-'' then cs else s) of
             None \<Rightarrow> None
           | Some n \<Rightarrow>
               if c = CHR ''-'' then (if n > 2 ^ 63 then None else Some (- n))
               else (if n \<ge> 2 ^ 63 then None else Some n)))"

definition parseBool :: "string \<Rightarrow> bool option" where
  "parseBool s =
     (if s \<in> {''1'', ''t'', ''T'', ''true'', ''TRUE'', ''True''} then Some True
      else if s \<in> {''0'', ''f'', ''F'', ''false'', ''FALSE'', ''False''} then Some False
      else None)"

subsection \<open>Flag sets\<close>

text \<open>A flag changes what the command's variables hold; \<open>ValueFlag\<close> is a \<^verbatim>\<open>flag.Value\<close> with its own \<^verbatim>\<open>Set\<close>.\<close>

datatype 'a flag =
    IntFlag "int \<Rightarrow> 'a \<Rightarrow> 'a" | StringFlag "string \<Rightarrow> 'a \<Rightarrow> 'a" | BoolFlag "bool \<Rightarrow> 'a \<Rightarrow> 'a"
  | ValueFlag "string \<Rightarrow> 'a \<Rightarrow> string + 'a"

datatype 'a flagResult = FlagsParsed 'a "string list" | FlagsHelp | FlagsError string

fun setFlag :: "'a flag \<Rightarrow> string \<Rightarrow> 'a \<Rightarrow> string + 'a" where
  "setFlag (IntFlag f) text v =
     (case parseInt0 text of None \<Rightarrow> Inl ''parse error'' | Some n \<Rightarrow> Inr (f n v))"
| "setFlag (StringFlag f) text v = Inr (f text v)"
| "setFlag (BoolFlag f) text v =
     (case parseBool text of None \<Rightarrow> Inl ''parse error'' | Some b \<Rightarrow> Inr (f b v))"
| "setFlag (ValueFlag f) text v = f text v"

fun isBoolFlag :: "'a flag \<Rightarrow> bool" where
  "isBoolFlag (BoolFlag f) = True"
| "isBoolFlag _ = False"

text \<open>The name of a flag and the value after its first \<^verbatim>\<open>=\<close>, which is not its first byte.\<close>

definition splitFlag :: "string \<Rightarrow> string \<times> string option" where
  "splitFlag name =
     (case dropWhile (\<lambda>c. c \<noteq> CHR ''='') (tl name) of
        [] \<Rightarrow> (name, None)
      | _ # text \<Rightarrow> (take 1 name @ takeWhile (\<lambda>c. c \<noteq> CHR ''='') (tl name), Some text))"

text \<open>\<^verbatim>\<open>parseOne\<close> on the first argument: no flag, the end of the flags, bad syntax, or a name.\<close>

datatype flagArg = NoFlag | EndOfFlags | BadSyntax | FlagNamed string "string option"

definition flagArg_of :: "string \<Rightarrow> flagArg" where
  "flagArg_of s =
     (if length s < 2 \<or> hd s \<noteq> CHR ''-'' then NoFlag
      else if s = ''--'' then EndOfFlags
      else
        (let name = drop (if s ! 1 = CHR ''-'' then 2 else 1) s in
         if name = [] \<or> hd name = CHR ''-'' \<or> hd name = CHR ''='' then BadSyntax
         else (case splitFlag name of (n, v) \<Rightarrow> FlagNamed n v)))"

definition flagValue :: "string + 'a \<Rightarrow> ('a \<Rightarrow> 'a flagResult) \<Rightarrow> 'a flagResult" where
  "flagValue r continue = (case r of Inl err \<Rightarrow> FlagsError err | Inr v \<Rightarrow> continue v)"

lemma flagValue_cong [fundef_cong]:
  "r = r' \<Longrightarrow> (\<And>v. r' = Inr v \<Longrightarrow> f v = g v) \<Longrightarrow> flagValue r f = flagValue r' g"
  by (cases r') (simp_all add: flagValue_def)

fun parseFlags :: "(string \<times> 'a flag) list \<Rightarrow> string list \<Rightarrow> 'a \<Rightarrow> 'a flagResult" where
  "parseFlags flags [] v = FlagsParsed v []"
| "parseFlags flags (s # args) v =
     (case flagArg_of s of
        NoFlag \<Rightarrow> FlagsParsed v (s # args)
      | EndOfFlags \<Rightarrow> FlagsParsed v args
      | BadSyntax \<Rightarrow> FlagsError ''bad flag syntax: %s''
      | FlagNamed name text \<Rightarrow>
          (case map_of flags name of
             None \<Rightarrow>
               if name = ''help'' \<or> name = ''h'' then FlagsHelp
               else FlagsError ''flag provided but not defined: -%s''
           | Some fl \<Rightarrow>
               (case text of
                  Some t \<Rightarrow> flagValue (setFlag fl t v) (parseFlags flags args)
                | None \<Rightarrow>
                    if isBoolFlag fl then flagValue (setFlag fl ''true'' v) (parseFlags flags args)
                    else
                      (case args of
                         [] \<Rightarrow> FlagsError ''flag needs an argument: -%s''
                       | t # args' \<Rightarrow> flagValue (setFlag fl t v) (parseFlags flags args')))))"

subsection \<open>A flag written out is read back\<close>

lemma underscore_above: "CHR ''9'' < CHR ''_''"
  by (simp add: less_char_def)

lemma decimal_zero: "decimalValue CHR ''0'' = 0"
  by (simp add: decimalValue_def)

lemma digitOf_decimal:
  assumes "isDecimal c"
  shows "digitOf c = Some (int (decimalValue c))" "decimalValue c < 10" "c \<noteq> CHR ''_''"
proof -
  have d: "CHR ''0'' \<le> c \<and> c \<le> CHR ''9''" using assms by (simp add: isDecimal_def)
  then have "(of_char CHR ''0'' :: nat) \<le> of_char c" "(of_char c :: nat) \<le> of_char CHR ''9''"
    unfolding less_eq_char_def by blast+
  then have n: "(48 :: nat) \<le> of_char c" "(of_char c :: nat) \<le> 57" by simp_all
  then show "decimalValue c < 10" unfolding decimalValue_def by simp
  have "int (decimalValue c) = of_char c - 48" using n by (simp add: decimalValue_def of_nat_diff of_nat_of_char)
  then show "digitOf c = Some (int (decimalValue c))" using d unfolding digitOf_def by (metis if_P)
  show "c \<noteq> CHR ''_''" using d by (metis (no_types) assms isDecimal_def linorder_not_le order_less_le_trans underscore_above)
qed

lemma digitsValue_decimal:
  "list_all isDecimal s \<Longrightarrow> digitsValue 10 (int n) s = Some (int (foldl (\<lambda>a c. a * 10 + decimalValue c) n s))"
proof (induction s arbitrary: n)
  case (Cons c s)
  have p: "isDecimal c" "list_all isDecimal s" using Cons.prems by simp_all
  note c = digitOf_decimal [OF p(1)]
  have small: "\<not> 10 \<le> int (decimalValue c)" using c(2) by simp
  have "int n * 10 + int (decimalValue c) = int (n * 10 + decimalValue c)" by simp
  then show ?case
    using Cons.IH [OF p(2), of "n * 10 + decimalValue c"]
    by (simp only: digitsValue.simps c(1,3) small if_False option.case foldl_Cons)
qed simp

lemma digitChar_zero: "0 < n \<Longrightarrow> n < 10 \<Longrightarrow> digitChar n \<noteq> CHR ''0''"
proof
  assume "0 < n" "n < 10" and zero: "digitChar n = CHR ''0''"
  have "n = 0" using decimalValue_digitChar [OF \<open>n < 10\<close>] unfolding zero decimal_zero by (rule sym)
  then show False using \<open>0 < n\<close> by blast
qed

lemma Itoa_first: "0 < n \<Longrightarrow> hd (Itoa n) \<noteq> CHR ''0''"
proof -
  have "0 < n \<Longrightarrow> hd (formatUint 10 n) \<noteq> CHR ''0''"
  proof (induction n rule: less_induct)
    case (less n)
    show ?case
    proof (cases "n < 10")
      case True
      then show ?thesis using less.prems by (subst formatUint.simps) (simp add: digitChar_zero)
    next
      case False
      then have "hd (formatUint 10 (n div 10)) \<noteq> CHR ''0''" by (intro less) simp_all
      then show ?thesis using False by (subst formatUint.simps) (simp add: hd_append)
    qed
  qed
  then show "0 < n \<Longrightarrow> hd (Itoa n) \<noteq> CHR ''0''" by (simp add: Itoa_def)
qed

lemma parseUint0_Itoa: "n < 2 ^ 64 \<Longrightarrow> parseUint0 (Itoa n) = Some (int n)"
proof (cases "n = 0")
  case True
  have "parseUint0 (Itoa 0) = Some 0" by code_simp
  then show ?thesis using True by simp
next
  case False
  assume n: "n < 2 ^ 64"
  then have "\<not> int n \<ge> 2 ^ 64" by (metis linorder_not_le of_nat_less_iff of_nat_numeral of_nat_power)
  moreover have "basePrefix (Itoa n) = (10, Itoa n)" using Itoa_first [of n] False by (simp add: basePrefix_def)
  moreover have "digitsValue 10 0 (Itoa n) = Some (int n)"
    using digitsValue_decimal [OF Itoa_decimal, of 0 n] foldl_formatUint_10 [of n] by (simp add: Itoa_def)
  moreover have "CHR ''_'' \<notin> set (Itoa n)"
    using Itoa_decimal [of n] digitOf_decimal(3) by (auto simp: list_all_iff)
  ultimately show ?thesis by (simp only: parseUint0_def Itoa_nonempty if_False prod.case option.case simp_thms)
qed

lemma parseInt0_formatInt:
  assumes "minInt64 \<le> n" "n \<le> maxInt64"
  shows "parseInt0 (formatInt n) = Some n"
proof (cases "n < 0")
  case True
  have "nat (- n) < 2 ^ 64" using assms(1) True by (simp add: minInt64_def)
  then have "parseUint0 (Itoa (nat (- n))) = Some (- n)" "\<not> - n > 2 ^ 63"
    using True assms(1) by (simp_all add: parseUint0_Itoa minInt64_def)
  then show ?thesis using True by (simp add: formatInt_def parseInt0_def)
next
  case False
  have "nat n < 2 ^ 64" using assms(2) False by (simp add: maxInt64_def)
  then have "parseUint0 (Itoa (nat n)) = Some n" "\<not> n \<ge> 2 ^ 63"
    using False assms(2) by (simp_all add: parseUint0_Itoa maxInt64_def)
  then show ?thesis
    using False Itoa_head [of "nat n"] Itoa_nonempty [of "nat n"]
    by (cases "Itoa (nat n)") (auto simp: formatInt_def parseInt0_def)
qed

text \<open>A flag as an argument: two dashes, its name and its value after \<^verbatim>\<open>=\<close>.\<close>

definition flagText :: "string \<Rightarrow> string \<Rightarrow> string" where
  "flagText name text = ''--'' @ name @ ''='' @ text"

definition flagName :: "string \<Rightarrow> bool" where
  "flagName name \<longleftrightarrow> name \<noteq> [] \<and> hd name \<noteq> CHR ''-'' \<and> CHR ''='' \<notin> set name"

lemma flagArg_flagText: "flagName name \<Longrightarrow> flagArg_of (flagText name text) = FlagNamed name (Some text)"
proof -
  assume n: "flagName name"
  then obtain c cs where name: "name = c # cs" by (cases name) (auto simp: flagName_def)
  have "dropWhile (\<lambda>c. c \<noteq> CHR ''='') (cs @ CHR ''='' # text) = CHR ''='' # text"
    "takeWhile (\<lambda>c. c \<noteq> CHR ''='') (cs @ CHR ''='' # text) = cs"
    using n name by (auto simp: flagName_def dropWhile_append takeWhile_append)
  then show ?thesis using n name by (auto simp: flagArg_of_def flagText_def splitFlag_def flagName_def)
qed

lemma parseFlags_text:
  assumes "flagName name" "map_of flags name = Some fl" "setFlag fl text v = Inr v'"
  shows "parseFlags flags (flagText name text # args) v = parseFlags flags args v'"
  using assms by (simp add: flagArg_flagText flagValue_def)

end
