(* ===== verification/Command_Line.thy ===== *)
theory Command_Line
  imports Flags Receipt_Text Scenario_Json Commands
begin

text \<open>
  \<^verbatim>\<open>src/src/cli.go\<close>, \<^verbatim>\<open>src/src/product_cli.go\<close>, \<^verbatim>\<open>src/src/proxy_cli.go\<close> and \<^verbatim>\<open>src/src/main.go\<close>: the flags of every
  command and its exit code, from its arguments and a world: what listening, serving, files, scenarios and
  benchmarks give. What the commands print is not modelled.
\<close>

subsection \<open>The world\<close>

text \<open>A scenario's run: whether its laboratory could be made, its receipt and error, and what became of the receipt.\<close>

record scenarioRun =
  srLab :: "string + unit"
  srReceipt :: resilienceReceipt
  srError :: "string option"
  srEncoded :: bool
  srStored :: bool
  srPrinted :: bool

text \<open>The results of listening are those of the first and of the second call.\<close>

record commandWorld =
  cwListen :: "string \<Rightarrow> string + string"
  cwListenAdmin :: "string \<Rightarrow> string + string"
  cwServed :: "string option"
  cwServedSecond :: "string option"
  cwInterrupted :: bool
  cwNow :: time
  cwFile :: "string \<Rightarrow> string + bytes"
  cwReadJSON :: "bytes \<Rightarrow> jsonInput"
  cwFloat :: "string \<Rightarrow> rat option"
  cwIntn :: "nat \<Rightarrow> int \<Rightarrow> int"
  cwScenario :: "scenario \<Rightarrow> scenarioRun"
  cwBenchmark :: "benchmarkConfig \<Rightarrow> string + benchmarkResult"

definition servedExit :: "commandWorld \<Rightarrow> int" where
  "servedExit w = (if cwServed w \<noteq> None then exitFailure else exitOK)"

text \<open>The start of every command: its flags, and no arguments after them.\<close>

definition withFlags :: "(string \<times> 'a flag) list \<Rightarrow> string list \<Rightarrow> 'a \<Rightarrow> ('a \<Rightarrow> int) \<Rightarrow> int" where
  "withFlags flags args defaults command =
     (case parseFlags flags args defaults of
        FlagsHelp \<Rightarrow> exitOK
      | FlagsError _ \<Rightarrow> exitUsage
      | FlagsParsed v rest \<Rightarrow> if rest \<noteq> [] then exitUsage else command v)"

subsection \<open>\<^verbatim>\<open>dev-http\<close> and \<^verbatim>\<open>dev-echo\<close>\<close>

text \<open>The flags of a server's configuration, which is a part of what the command holds.\<close>

definition serverFlags :: "((Config \<Rightarrow> Config) \<Rightarrow> 'a \<Rightarrow> 'a) \<Rightarrow> (string \<times> 'a flag) list" where
  "serverFlags part =
     [(''listen'', StringFlag (\<lambda>s. part (Listen_update (\<lambda>_. s)))),
      (''max-connections'', IntFlag (\<lambda>n. part (CfgMaxConnections_update (\<lambda>_. n)))),
      (''max-requests-per-connection'', IntFlag (\<lambda>n. part (MaxRequests_update (\<lambda>_. n)))),
      (''read-timeout-ms'', IntFlag (\<lambda>n. part (ReadTimeoutMS_update (\<lambda>_. n)))),
      (''write-timeout-ms'', IntFlag (\<lambda>n. part (WriteTimeoutMS_update (\<lambda>_. n)))),
      (''idle-timeout-ms'', IntFlag (\<lambda>n. part (IdleTimeoutMS_update (\<lambda>_. n)))),
      (''shutdown-timeout-ms'', IntFlag (\<lambda>n. part (ShutdownMS_update (\<lambda>_. n)))),
      (''force-close-timeout-ms'', IntFlag (\<lambda>n. part (ForceCloseMS_update (\<lambda>_. n))))]"

definition configFlags :: "(string \<times> Config flag) list" where
  "configFlags = serverFlags (\<lambda>f. f)"

definition runDevHTTP :: "string list \<Rightarrow> commandWorld \<Rightarrow> int" where
  "runDevHTTP args w =
     withFlags configFlags args DefaultConfig (\<lambda>cfg.
       case (devHTTP cfg (cwListen w (Listen cfg)) :: int + unit routeHandler routeTree \<times> tcpServer) of
         Inl code \<Rightarrow> code
       | Inr _ \<Rightarrow> servedExit w)"

definition runDevEcho :: "string list \<Rightarrow> commandWorld \<Rightarrow> int" where
  "runDevEcho args w =
     withFlags configFlags args DefaultConfig (\<lambda>cfg.
       if isl (Config_Validate cfg) then exitUsage
       else if isl (cwListen w (Listen cfg)) then exitFailure
       else if isl (serveEcho True cfg) then exitFailure
       else servedExit w)"

subsection \<open>\<^verbatim>\<open>dev-proxy\<close>\<close>

definition proxyFlags :: "(string \<times> devProxyFlags flag) list" where
  "proxyFlags =
     serverFlags dpConfig_update @
     [(''upstream'', ValueFlag (\<lambda>s f. map_sum id (\<lambda>values. f\<lparr>dpUpstreams := values\<rparr>) (backendFlagSet s (dpUpstreams f)))),
      (''selector'', StringFlag (\<lambda>s. dpSelector_update (\<lambda>_. s))),
      (''backend-max-in-flight'', IntFlag (\<lambda>n. dpMaxInFlight_update (\<lambda>_. n))),
      (''backend-max-idle'', IntFlag (\<lambda>n. dpMaxIdle_update (\<lambda>_. n))),
      (''backend-idle-timeout-ms'', IntFlag (\<lambda>n. dpIdleTimeoutMS_update (\<lambda>_. n))),
      (''dial-timeout-ms'', IntFlag (\<lambda>n. dpDialTimeoutMS_update (\<lambda>_. n))),
      (''upstream-read-timeout-ms'', IntFlag (\<lambda>n. dpReadTimeoutMS_update (\<lambda>_. n))),
      (''upstream-write-timeout-ms'', IntFlag (\<lambda>n. dpWriteTimeoutMS_update (\<lambda>_. n))),
      (''max-attempts'', IntFlag (\<lambda>n. dpProxy_update (MaxAttempts_update (\<lambda>_. n)))),
      (''retry-timeout-ms'', IntFlag (\<lambda>n. dpRetryTimeoutMS_update (\<lambda>_. n))),
      (''circuit-failures'', IntFlag (\<lambda>n. dpResilience_update (PassiveFailureThreshold_update (\<lambda>_. n)))),
      (''circuit-interval-ms'', IntFlag (\<lambda>n. dpIntervalMS_update (\<lambda>_. n))),
      (''circuit-cooldown-ms'', IntFlag (\<lambda>n. dpCooldownMS_update (\<lambda>_. n))),
      (''half-open-max'', IntFlag (\<lambda>n. dpResilience_update (HalfOpenMaxRequests_update (\<lambda>_. n)))),
      (''half-open-successes'', IntFlag (\<lambda>n. dpResilience_update (HalfOpenSuccesses_update (\<lambda>_. n)))),
      (''health-checks'', BoolFlag (\<lambda>b. dpHealthChecks_update (\<lambda>_. b))),
      (''health-path'', StringFlag (\<lambda>s. dpHealthPath_update (\<lambda>_. s))),
      (''health-interval-ms'', IntFlag (\<lambda>n. dpHealthIntervalMS_update (\<lambda>_. n))),
      (''health-timeout-ms'', IntFlag (\<lambda>n. dpHealthTimeoutMS_update (\<lambda>_. n))),
      (''health-failures'', IntFlag (\<lambda>n. dpResilience_update (ActiveFailureThreshold_update (\<lambda>_. n)))),
      (''health-successes'', IntFlag (\<lambda>n. dpResilience_update (ActiveSuccessThreshold_update (\<lambda>_. n)))),
      (''admin-listen'', StringFlag (\<lambda>s. dpAdminListen_update (\<lambda>_. s))),
      (''ledger-capacity'', IntFlag (\<lambda>n. dpObservability_update (LedgerCapacity_update (\<lambda>_. n)))),
      (''max-subscribers'', IntFlag (\<lambda>n. dpObservability_update (MaxSubscribers_update (\<lambda>_. n)))),
      (''subscriber-queue'', IntFlag (\<lambda>n. dpObservability_update (SubscriberQueue_update (\<lambda>_. n)))),
      (''sse-heartbeat-ms'', IntFlag (\<lambda>n. dpHeartbeatMS_update (\<lambda>_. n))),
      (''forwarded'', BoolFlag (\<lambda>b. dpProxy_update (AddForwarded_update (\<lambda>_. b)))),
      (''x-forwarded'', BoolFlag (\<lambda>b. dpProxy_update (AddXForwarded_update (\<lambda>_. b))))]"

definition runDevProxy :: "(nat \<Rightarrow> (nat, bytes) requestEnv) \<Rightarrow> string list \<Rightarrow> commandWorld \<Rightarrow> int" where
  "runDevProxy worlds args w =
     withFlags proxyFlags args defaultDevProxyFlags (\<lambda>f.
       case devProxy f (cwListen w (Listen (dpConfig f))) (cwListenAdmin w (dpAdminListen f)) (cwNow w) worlds of
         Inl code \<Rightarrow> code
       | Inr parts \<Rightarrow>
           (case dppHealth parts of
              Some checker \<Rightarrow>
                (if fst (healthStart True (dppPool parts) checker) \<noteq> None then exitFailure
                 else devProxyExit (cwServed w) (cwInterrupted w) (cwServedSecond w))
            | None \<Rightarrow> devProxyExit (cwServed w) (cwInterrupted w) (cwServedSecond w)))"

subsection \<open>\<^verbatim>\<open>demo\<close>, \<^verbatim>\<open>experiment\<close> and \<^verbatim>\<open>bench\<close>\<close>

definition scenarioExit :: "commandWorld \<Rightarrow> bool \<Rightarrow> string \<Rightarrow> scenario \<Rightarrow> int" where
  "scenarioExit w jsonOnly jsonOutput s =
     (let r = cwScenario w s in
      runScenarioCommand (srLab r) (srReceipt r) (srError r) (srEncoded r)
        (jsonOutput = [] \<or> srStored r) (jsonOnly \<or> srPrinted r))"

record demoFlags =
  dfDurationMS :: int
  dfRequests :: int
  dfRate :: int
  dfJson :: bool
  dfJsonOut :: string

definition demoFlagSet :: "(string \<times> demoFlags flag) list" where
  "demoFlagSet =
     [(''duration-ms'', IntFlag (\<lambda>n. dfDurationMS_update (\<lambda>_. n))),
      (''requests'', IntFlag (\<lambda>n. dfRequests_update (\<lambda>_. n))),
      (''rate-per-second'', IntFlag (\<lambda>n. dfRate_update (\<lambda>_. n))),
      (''json'', BoolFlag (\<lambda>b. dfJson_update (\<lambda>_. b))),
      (''json-out'', StringFlag (\<lambda>s. dfJsonOut_update (\<lambda>_. s)))]"

definition defaultDemoFlags :: demoFlags where
  "defaultDemoFlags =
     \<lparr>dfDurationMS = DurationMS defaultDemoScenario, dfRequests = LoadRequests (Load defaultDemoScenario),
      dfRate = RatePerSecond (Load defaultDemoScenario), dfJson = False, dfJsonOut = []\<rparr>"

definition runDemo :: "string list \<Rightarrow> commandWorld \<Rightarrow> int" where
  "runDemo args w =
     withFlags demoFlagSet args defaultDemoFlags (\<lambda>f.
       case demoScenario (dfDurationMS f) (dfRequests f) (dfRate f) of
         Inl code \<Rightarrow> code
       | Inr s \<Rightarrow> scenarioExit w (dfJson f) (dfJsonOut f) s)"

record experimentFlags =
  efScenario :: string
  efJson :: bool
  efJsonOut :: string

definition experimentFlagSet :: "(string \<times> experimentFlags flag) list" where
  "experimentFlagSet =
     [(''scenario'', StringFlag (\<lambda>s. efScenario_update (\<lambda>_. s))),
      (''json'', BoolFlag (\<lambda>b. efJson_update (\<lambda>_. b))),
      (''json-out'', StringFlag (\<lambda>s. efJsonOut_update (\<lambda>_. s)))]"

definition runExperimentCommand :: "string list \<Rightarrow> commandWorld \<Rightarrow> int" where
  "runExperimentCommand args w =
     withFlags experimentFlagSet args \<lparr>efScenario = [], efJson = False, efJsonOut = []\<rparr> (\<lambda>f.
       if efScenario f = [] then exitUsage
       else
         (case readBoundedFile (cwFile w (efScenario f)) maxScenarioBytes of
            Inl _ \<Rightarrow> exitFailure
          | Inr data \<Rightarrow>
              (case parseScenario (cwReadJSON w) (cwFloat w) (cwIntn w) data of
                 Inl _ \<Rightarrow> exitUsage
               | Inr s \<Rightarrow> scenarioExit w (efJson f) (efJsonOut f) s)))"

record benchFlags =
  bfConfig :: benchmarkConfig
  bfDurationMS :: int
  bfTimeoutMS :: int
  bfJson :: bool

definition benchFlagSet :: "(string \<times> benchFlags flag) list" where
  "benchFlagSet =
     [(''target'', StringFlag (\<lambda>s. bfConfig_update (BmAddress_update (\<lambda>_. s)))),
      (''authority'', StringFlag (\<lambda>s. bfConfig_update (BmAuthority_update (\<lambda>_. s)))),
      (''path'', StringFlag (\<lambda>s. bfConfig_update (BmPath_update (\<lambda>_. s)))),
      (''concurrency'', IntFlag (\<lambda>n. bfConfig_update (BmWorkers_update (\<lambda>_. n)))),
      (''requests'', IntFlag (\<lambda>n. bfConfig_update (BmMaxRequests_update (\<lambda>_. n)))),
      (''rate-per-second'', IntFlag (\<lambda>n. bfConfig_update (BmRatePerSecond_update (\<lambda>_. n)))),
      (''duration-ms'', IntFlag (\<lambda>n. bfDurationMS_update (\<lambda>_. n))),
      (''timeout-ms'', IntFlag (\<lambda>n. bfTimeoutMS_update (\<lambda>_. n))),
      (''json'', BoolFlag (\<lambda>b. bfJson_update (\<lambda>_. b)))]"

definition defaultBenchFlags :: benchFlags where
  "defaultBenchFlags =
     \<lparr>bfConfig = defaultBenchConfig, bfDurationMS = BmDuration defaultBenchConfig div millisecond,
      bfTimeoutMS = BmTimeout defaultBenchConfig div millisecond, bfJson = False\<rparr>"

definition runBenchCommand :: "string list \<Rightarrow> commandWorld \<Rightarrow> int" where
  "runBenchCommand args w =
     withFlags benchFlagSet args defaultBenchFlags (\<lambda>f.
       case benchCommand (bfConfig f) (bfDurationMS f) (bfTimeoutMS f) of
         Inl code \<Rightarrow> code
       | Inr c \<Rightarrow> if isl (cwBenchmark w c) then exitFailure else exitOK)"

subsection \<open>The program\<close>

text \<open>\<^verbatim>\<open>run\<close>, whose value is the process's exit status.\<close>

definition runAnvil :: "(nat \<Rightarrow> (nat, bytes) requestEnv) \<Rightarrow> string list \<Rightarrow> commandWorld \<Rightarrow> int" where
  "runAnvil worlds args w =
     (case dispatchCommand args of
        RootHelp code \<Rightarrow> code
      | RunDevEcho rest \<Rightarrow> runDevEcho rest w
      | RunDevHTTP rest \<Rightarrow> runDevHTTP rest w
      | RunDevProxy rest \<Rightarrow> runDevProxy worlds rest w
      | RunDemo rest \<Rightarrow> runDemo rest w
      | RunExperiment rest \<Rightarrow> runExperimentCommand rest w
      | RunBench rest \<Rightarrow> runBenchCommand rest w
      | RunPlanned name rest \<Rightarrow> runPlannedCommand rest)"

subsection \<open>Flags and configurations\<close>

text \<open>A configuration as arguments.\<close>

definition configArgs :: "Config \<Rightarrow> string list" where
  "configArgs c =
     [flagText ''listen'' (Listen c),
      flagText ''max-connections'' (formatInt (CfgMaxConnections c)),
      flagText ''max-requests-per-connection'' (formatInt (MaxRequests c)),
      flagText ''read-timeout-ms'' (formatInt (ReadTimeoutMS c)),
      flagText ''write-timeout-ms'' (formatInt (WriteTimeoutMS c)),
      flagText ''idle-timeout-ms'' (formatInt (IdleTimeoutMS c)),
      flagText ''shutdown-timeout-ms'' (formatInt (ShutdownMS c)),
      flagText ''force-close-timeout-ms'' (formatInt (ForceCloseMS c))]"

lemma setFlag_formatInt: "int64 n \<Longrightarrow> setFlag (IntFlag f) (formatInt n) v = Inr (f n v)"
  by (simp add: int64_def parseInt0_formatInt)

text \<open>
  C26: every configuration whose numbers are 64-bit integers can be given by flags: parsing them sets
  exactly its fields, whatever the configuration was before, and leaves no arguments.
\<close>

theorem config_flags_roundtrip:
  assumes "list_all int64 [CfgMaxConnections c, MaxRequests c, ReadTimeoutMS c, WriteTimeoutMS c, IdleTimeoutMS c,
    ShutdownMS c, ForceCloseMS c]"
  shows "parseFlags configFlags (configArgs c) before = FlagsParsed c []"
proof -
  have names: "flagName ''listen''" "flagName ''max-connections''" "flagName ''max-requests-per-connection''"
    "flagName ''read-timeout-ms''" "flagName ''write-timeout-ms''" "flagName ''idle-timeout-ms''"
    "flagName ''shutdown-timeout-ms''" "flagName ''force-close-timeout-ms''"
    by code_simp+
  show ?thesis
    using assms
    by (simp add: configArgs_def parseFlags_text [OF names(1)] parseFlags_text [OF names(2)] parseFlags_text [OF names(3)]
        parseFlags_text [OF names(4)] parseFlags_text [OF names(5)] parseFlags_text [OF names(6)]
        parseFlags_text [OF names(7)] parseFlags_text [OF names(8)] configFlags_def serverFlags_def setFlag_formatInt
        del: parseFlags.simps(2) setFlag.simps(1))
qed

theorem config_flags_roundtrip_witness:
  "parseFlags configFlags (configArgs (DefaultConfig\<lparr>Listen := ''127.0.0.1:0'', CfgMaxConnections := 7\<rparr>)) DefaultConfig =
     FlagsParsed (DefaultConfig\<lparr>Listen := ''127.0.0.1:0'', CfgMaxConnections := 7\<rparr>) []"
  by (rule config_flags_roundtrip) code_simp

subsection \<open>Exit codes\<close>

lemma exit_distinct [simp]: "exitOK \<noteq> exitUsage" "exitFailure \<noteq> exitUsage" "exitOK \<noteq> exitFailure"
  by (simp_all add: exitOK_def exitFailure_def exitUsage_def)

lemma withFlags_usage:
  assumes "withFlags flags args v c = exitUsage" "\<And>x. c x = exitUsage \<Longrightarrow> c' x = exitUsage"
  shows "withFlags flags args v c' = exitUsage"
proof (cases "parseFlags flags args v")
  case (FlagsParsed x rest)
  show ?thesis
  proof (cases "rest = []")
    case True
    then have "c x = exitUsage" using assms(1) by (simp only: withFlags_def FlagsParsed flagResult.case simp_thms if_False)
    then show ?thesis using True assms(2) by (simp only: withFlags_def FlagsParsed flagResult.case simp_thms if_False)
  qed (simp only: withFlags_def FlagsParsed flagResult.case simp_thms if_True)
next
  case FlagsHelp
  then show ?thesis using assms(1) by (simp only: withFlags_def flagResult.case)
next
  case (FlagsError e)
  then show ?thesis by (simp only: withFlags_def flagResult.case)
qed

lemma devHTTP_usage: "devHTTP cfg listened = Inl exitUsage \<longleftrightarrow> isl (Config_Validate cfg)"
  by (auto simp: devHTTP_def split: sum.splits)

lemma devProxyExit_usage: "devProxyExit a i b \<noteq> exitUsage"
  by (simp add: devProxyExit_def)

lemma not_isl_Inr: "\<not> isl r \<Longrightarrow> \<exists>x. r = Inr x"
  by (cases r) simp_all

text \<open>What of the flags makes the proxy's command refuse them, whatever the listeners give.\<close>

definition devProxyRefused :: "devProxyFlags \<Rightarrow> bool" where
  "devProxyRefused f \<longleftrightarrow>
     isl (Config_Validate (dpConfig f)) \<or> dpUpstreams f = [] \<or> isl (validateAdminListen (dpAdminListen f)) \<or>
     \<not> devProxyBounds f \<or>
     isl (newBackendPoolWithConfig (map (devBackend f) (dpUpstreams f)) (devResilience f) :: string + nat backendPool) \<or>
     isl (proxyConfig_validate (proxyConfig_setDefaults (devProxyConfig f)))"

lemma devProxy_usage:
  fixes worlds :: "nat \<Rightarrow> (nat, bytes) requestEnv"
  shows "devProxy f listened adminListened now worlds = Inl exitUsage \<longleftrightarrow> devProxyRefused f"
proof (cases "isl (Config_Validate (dpConfig f)) \<or> dpUpstreams f = [] \<or> isl (validateAdminListen (dpAdminListen f)) \<or>
    \<not> devProxyBounds f \<or>
    isl (newBackendPoolWithConfig (map (devBackend f) (dpUpstreams f)) (devResilience f) :: string + nat backendPool)")
  case True
  then have refused: "devProxyRefused f" by (auto simp: devProxyRefused_def)
  show ?thesis
  proof (cases "Config_Validate (dpConfig f)")
    case (Inl e)
    then show ?thesis using refused by (simp add: devProxy_def)
  next
    case config: (Inr u)
    show ?thesis
    proof (cases "dpUpstreams f = []")
      case False
      show ?thesis
      proof (cases "validateAdminListen (dpAdminListen f)")
        case (Inl e)
        then show ?thesis using refused config False by (simp add: devProxy_def)
      next
        case (Inr u')
        then show ?thesis
          using refused config False True
          by (cases "newBackendPoolWithConfig (map (devBackend f) (dpUpstreams f)) (devResilience f) :: string + nat backendPool")
            (auto simp: devProxy_def)
      qed
    qed (use config refused in \<open>simp add: devProxy_def\<close>)
  qed
next
  case False
  then obtain pool :: "nat backendPool" where ok: "Config_Validate (dpConfig f) = Inr ()" "dpUpstreams f \<noteq> []"
      "validateAdminListen (dpAdminListen f) = Inr ()" "devProxyBounds f"
      "newBackendPoolWithConfig (map (devBackend f) (dpUpstreams f)) (devResilience f) = Inr pool"
    by (auto dest!: not_isl_Inr)
  obtain observer where o: "newObservability (dpObservability f) now = Inr observer"
    using ok(4) by (auto simp: newObservability_def newEventLedger_def newSSEHub_def devProxyBounds_def)
  have pool: "backends pool \<noteq> []"
    using ok(2,5) by (cases "dpUpstreams f") (auto simp: newBackendPoolWithConfig_def result_simps Let_def split: if_splits)
  show ?thesis
  proof (cases "proxyConfig_validate (proxyConfig_setDefaults (devProxyConfig f))")
    case (Inl e)
    then show ?thesis using ok o pool
      by (simp add: devProxy_def devProxyRefused_def newProxyHandler_def Let_def)
  next
    case (Inr u)
    have "activeHealthConfig_validate (devHealthConfig f) = Inr ()"
      using ok(4) durationMS_valid [of "dpHealthIntervalMS f" maxConfiguredTimeout]
        durationMS_valid [of "dpHealthTimeoutMS f" maxConfiguredTimeout]
      by (simp add: activeHealthConfig_validate_def devHealthConfig_def devProxyBounds_def)
    then obtain checker where c: "newActiveHealthChecker (Some pool) (devProxyConfig f) (devHealthConfig f) = Inr checker"
      using Inr pool by (simp add: newActiveHealthChecker_def Let_def)
    show ?thesis
      using ok o pool Inr c
      by (auto simp: devProxy_def devProxyRefused_def newProxyHandler_def Let_def andThen_def orExit_def
          split: sum.splits if_splits)
  qed
qed

lemmas devHTTP_refused = devHTTP_usage [THEN iffD2]
lemmas devProxy_refused = devProxy_usage [THEN iffD2]


definition refusingWorld :: commandWorld where
  "refusingWorld =
     \<lparr>cwListen = (\<lambda>_. Inl ''refused''), cwListenAdmin = (\<lambda>_. Inl ''refused''), cwServed = Some ''failed'',
      cwServedSecond = None, cwInterrupted = False, cwNow = 0, cwFile = (\<lambda>_. Inl ''missing''),
      cwReadJSON = (\<lambda>_. JsonEOF), cwFloat = (\<lambda>_. None), cwIntn = (\<lambda>k n. 0),
      cwScenario = (\<lambda>s. \<lparr>srLab = Inl ''listen'', srReceipt = deriveReceipt (\<lambda>a b. 0) (\<lambda>k n. 0) s [] sampleLedger 0,
        srError = None, srEncoded = True, srStored = True, srPrinted = True\<rparr>),
      cwBenchmark = (\<lambda>_. Inl ''refused'')\<rparr>"


text \<open>
  The commands that run a scenario end with the usage code, too, when their laboratory could not be made:
  a listener that does not open looks like a wrong argument.
\<close>

lemma demo_listen_usage: "runAnvil worlds [''demo''] refusingWorld = exitUsage"
proof -
  have "isl (demoScenario 6000 120 20) = False" by code_simp
  then obtain s where "demoScenario 6000 120 20 = Inr s" by (cases "demoScenario 6000 120 20") auto
  then show ?thesis
    by (simp add: runAnvil_def dispatchCommand_def runDemo_def withFlags_def defaultDemoFlags_def defaultDemoScenario_def
        scenarioExit_def runScenarioCommand_def refusingWorld_def)
qed

end
