(* ===== verification/Reconciliation.thy ===== *)
theory Reconciliation
  imports Proxy_Properties Receipt Experiment
begin

text \<open>
  An experiment end to end: the requests of the load generator go through the proxy
  (\<^verbatim>\<open>src/src/proxy.go\<close>), whose events, among those of everything else that publishes, go to the ledger
  (\<^verbatim>\<open>src/src/observability.go\<close>), from which the receipt is derived (\<^verbatim>\<open>src/src/receipt.go\<close>).
\<close>

subsection \<open>The events of a request\<close>

text \<open>A request to the proxy: its world, itself, and the state it finds.\<close>

type_synonym ('c, 'w) proxied = "('c, 'w) requestEnv \<times> httpRequest \<times> 'c proxyState"

definition identified :: "('c, 'w) proxied \<Rightarrow> bool" where
  "identified p = (case p of (env, _, _) \<Rightarrow>
     (case newRequestID env of None \<Rightarrow> False | Some i \<Rightarrow> validRequestID i))"

definition proxiedStatus :: "proxyConfig \<Rightarrow> ('c, 'w) proxied \<Rightarrow> int" where
  "proxiedStatus pc p = (case p of (env, request, st) \<Rightarrow> StatusCode (fst (executeProxyRequest env request pc st)))"

definition proxiedEvents :: "proxyConfig \<Rightarrow> ('c, 'w) proxied \<Rightarrow> decisionEvent list" where
  "proxiedEvents pc p = (case p of (env, request, st) \<Rightarrow>
     drop (length (psEvents st)) (psEvents (snd (executeProxyRequest env request pc st))))"

text \<open>A request completes once, with the status it is answered with.\<close>

lemma proxied_outcomes:
  assumes "Observed pc" "identified p"
  shows "outcomes (proxiedEvents pc p) = [successfulStatus (proxiedStatus pc p)]"
proof -
  obtain env request st where p: "p = (env, request, st)" by (cases p) auto
  obtain i where i: "newRequestID env = Some i" "validRequestID i"
    using assms(2) by (auto simp: identified_def p split: option.splits)
  obtain s es c where x: "psEvents (snd (executeProxyRequest env request pc st)) = psEvents st @ s # es @ [c]"
      "EventType s = eventRequestStarted" "EventType c = eventRequestCompleted"
      "Status c = StatusCode (fst (executeProxyRequest env request pc st))" "ofType eventRequestCompleted es = 0"
    using request_publishes [OF assms(1) i surjective_pairing [symmetric], of request st] by blast
  then have "filter (\<lambda>e. EventType e = eventRequestCompleted) es = []" by (simp add: ofType_def)
  then show ?thesis by (simp add: p proxiedEvents_def proxiedStatus_def x outcomes_def)
qed

text \<open>An attempt publishes at most three events.\<close>

lemma published_simps [simp]:
  "length (psEvents (recordProxyAttemptFailure pc i al n err d st)) = length (psEvents st) + of_bool (Observed pc)"
  "length (psEvents (recordProxyRetry pc i al n reason st)) = length (psEvents st) + of_bool (Observed pc)"
  "length (psEvents (completeAttempt result now r st)) = length (psEvents st)"
  "length (psEvents (emit pc e st)) = length (psEvents st) + of_bool (Observed pc)"
  "psEvents (measured pc f st) = psEvents st"
  by (simp_all add: recordProxyAttemptFailure_def recordProxyRetry_def emit_def measured_def)

lemma reserve_events:
  "reserveAttempt env i pc n st = (res, al, st1) \<Longrightarrow>
    length (psEvents st1) \<le> length (psEvents st) + (case res of Inl _ \<Rightarrow> 0 | Inr _ \<Rightarrow> 1)"
  by (auto simp: reserveAttempt_def emit_def measured_def Let_def split: prod.splits sum.splits if_splits)

lemma run_events: "runAttempt env request i pc n index st1 = (x, st2) \<Longrightarrow> psEvents st2 = psEvents st1"
  by (auto simp: runAttempt_def Let_def split: prod.splits)

lemma attemptOnce_events:
  "length (psEvents (case attemptOnce env request i pc n f l st of Finished a st' \<Rightarrow> st' | Retry f' l' st' \<Rightarrow> st')) \<le>
    length (psEvents st) + 3"
proof -
  obtain res al st1 where rs: "reserveAttempt env i pc n st = (res, al, st1)" by (metis prod_cases3)
  note st1 = reserve_events [OF rs]
  show ?thesis
  proof (cases res)
    case (Inl kind)
    then show ?thesis using rs st1 by (simp add: attemptOnce_def Let_def)
  next
    case (Inr r)
    obtain x st2 where run: "runAttempt env request i pc n (ReservedIndex r) st1 = (x, st2)" by fastforce
    show ?thesis
      using rs Inr run run_events [OF run] st1 by (cases x) (auto simp: attemptOnce_def Let_def)
  qed
qed

lemma attemptLoop_events:
  fixes st :: "'c proxyState"
  assumes "0 \<le> MaxAttempts pc"
  shows "int (length (psEvents (snd (attemptLoop env request i pc 1 f l st)))) \<le>
    int (length (psEvents st)) + 3 * MaxAttempts pc"
proof (rule attemptLoop_rule [where
    P = "\<lambda>n f l s. n \<le> MaxAttempts pc + 1 \<and> int (length (psEvents s)) \<le> int (length (psEvents st)) + 3 * (n - 1)" and
    Q = "\<lambda>a s. int (length (psEvents s)) \<le> int (length (psEvents st)) + 3 * MaxAttempts pc"])
  fix n f l and s :: "'c proxyState"
  assume P: "n \<le> MaxAttempts pc + 1 \<and> int (length (psEvents s)) \<le> int (length (psEvents st)) + 3 * (n - 1)"
  show "int (length (psEvents s)) \<le> int (length (psEvents st)) + 3 * MaxAttempts pc" using P by simp
  assume n: "n \<le> MaxAttempts pc"
  show "int (length (psEvents s')) \<le> int (length (psEvents st)) + 3 * MaxAttempts pc"
    if "attemptOnce env request i pc n f l s = Finished a s'" for a and s' :: "'c proxyState"
    using attemptOnce_events [of env request i pc n f l s] that P n by simp
  show "n + 1 \<le> MaxAttempts pc + 1 \<and> int (length (psEvents s')) \<le> int (length (psEvents st)) + 3 * (n + 1 - 1)"
    if "attemptOnce env request i pc n f l s = Retry f' l' s'" for f' l' and s' :: "'c proxyState"
    using attemptOnce_events [of env request i pc n f l s] that P n by simp
qed (use assms in simp)

lemma proxied_bound:
  assumes "0 \<le> MaxAttempts pc"
  shows "int (length (proxiedEvents pc p)) \<le> 2 + MaxAttempts pc * 3"
proof -
  obtain env request st where p: "p = (env, request, st)" by (cases p) auto
  let ?pc = "proxyConfig_setDefaults pc"
  have "int (length (psEvents (snd (executeProxyRequest env request pc st)))) \<le>
      int (length (psEvents st)) + 2 + 3 * MaxAttempts pc"
  proof (cases "identified p")
    case True
    then obtain i where i: "newRequestID env = Some i" "validRequestID i"
      by (auto simp: identified_def p split: option.splits)
    define st1 where "st1 = (emit ?pc ((zeroEvent eventRequestStarted)\<lparr>RequestID := i, RouteAlias := ProxyRoute ?pc\<rparr>)
      (measured ?pc (beginRequest (int (length (ReqBody request)))) st))\<lparr>psAttempted := []\<rparr>"
    have "int (length (psEvents st1)) \<le> int (length (psEvents st)) + 1" by (simp add: st1_def)
    moreover have "int (length (psEvents (snd (attemptLoop env request i ?pc 1 None None st1)))) \<le>
        int (length (psEvents st1)) + 3 * MaxAttempts pc"
      using attemptLoop_events [of ?pc env request i None None st1] assms by simp
    ultimately show ?thesis
      using i by (auto simp: executeProxyRequest_def Let_def st1_def recordCompletion_def split: prod.split)
  next
    case False
    then show ?thesis
      using assms by (auto simp: identified_def p executeProxyRequest_def Let_def split: option.splits)
  qed
  then show ?thesis using assms by (simp add: p proxiedEvents_def split: nat_diff_split)
qed

subsection \<open>The ledger and the receipt\<close>

lemma outcomes_numbered: "outcomes (numbered xs) = outcomes (map fst xs)"
proof -
  have "outcomes (map (\<lambda>i. stamped (of_nat (Suc i)) (ys ! i)) js) = outcomes (map (\<lambda>i. fst (ys ! i)) js)" for ys js
    by (simp add: outcomes_def filter_map o_def stamped_def)
  then have "outcomes (numbered xs) = outcomes (map fst (map (\<lambda>i. xs ! i) [0..<length xs]))"
    by (simp add: numbered_def o_def)
  then show ?thesis by (simp add: map_nth)
qed

text \<open>Which events there are decides how many of the completions are successes, in any order.\<close>

lemma outcomes_mset: "mset (outcomes es) =
    image_mset (\<lambda>e. successfulStatus (Status e)) (filter_mset (\<lambda>e. EventType e = eventRequestCompleted) (mset es))"
  by (simp add: outcomes_def mset_filter)

lemma mset_length_filter: "mset xs = mset ys \<Longrightarrow> length (filter P xs) = length (filter P ys)"
  by (metis mset_filter size_mset)

lemma proxied_mset:
  assumes "Observed pc" "list_all identified ps"
    and "mset es = (\<Sum>p \<leftarrow> ps. mset (proxiedEvents pc p)) + mset besides"
    and "list_all (\<lambda>e. EventType e \<noteq> eventRequestCompleted) besides"
  shows "mset (outcomes es) = mset (map (\<lambda>p. successfulStatus (proxiedStatus pc p)) ps)"
proof -
  have "mset (outcomes (concat (map (proxiedEvents pc) ps))) = mset (map (\<lambda>p. successfulStatus (proxiedStatus pc p)) ps)"
    using assms(2)
  proof (induction ps)
    case (Cons p ps)
    then show ?case using proxied_outcomes [OF assms(1), of p] by (simp add: outcomes_def)
  qed (simp add: outcomes_def)
  moreover have "mset (concat (map (proxiedEvents pc) ps)) = (\<Sum>p \<leftarrow> ps. mset (proxiedEvents pc p))"
    by (induction ps) simp_all
  moreover have "filter (\<lambda>e. EventType e = eventRequestCompleted) besides = []"
    using assms(4) by (simp add: filter_empty_conv list_all_iff)
  ultimately show ?thesis
    by (simp add: outcomes_mset assms(3) flip: mset_filter)
qed

lemma proxied_length:
  assumes "0 \<le> MaxAttempts pc" "mset es = (\<Sum>p \<leftarrow> ps. mset (proxiedEvents pc p)) + mset besides"
  shows "int (length es) \<le> int (length ps) * (2 + MaxAttempts pc * 3) + int (length besides)"
proof -
  have "int (size (\<Sum>p \<leftarrow> ps. mset (proxiedEvents pc p))) \<le> int (length ps) * (2 + MaxAttempts pc * 3)"
  proof (induction ps)
    case (Cons p ps)
    then show ?case using proxied_bound [OF assms(1), of p] by (simp add: algebra_simps)
  qed simp
  moreover have "length es = size (\<Sum>p \<leftarrow> ps. mset (proxiedEvents pc p)) + length besides"
    using arg_cong [OF assms(2), of size] by simp
  ultimately show ?thesis by simp
qed

text \<open>A ledger with room for all events gives all of them.\<close>

lemma snapshot_all:
  assumes "newEventLedger capacity = Inr l0" "int (length xs) \<le> capacity"
  shows "Events (snapshotSince 0 (fold put xs l0)) = numbered xs"
proof -
  note new = newEventLedger_Inr [OF assms(1)]
  have held: "ledgerOk (fold put xs l0)" "recent (fold put xs l0) = numbered xs"
    using ledger_holds [OF assms(1) refl, of xs] assms(2) by (simp_all add: lastN_def)
  have len: "length xs < 2 ^ 64" using assms(2) new by (simp add: maxLedgerCapacity_def)
  show ?thesis
  proof (cases "xs = []")
    case True
    then show ?thesis using held(2) length_recent [of l0] by (simp add: snapshotSince_def numbered_def)
  next
    case False
    then have "numbered xs \<noteq> []" by (simp add: numbered_def)
    then show ?thesis
      using filter_numbered [OF len, of 0 0] by (simp add: snapshotSince_recent held Let_def)
  qed
qed

lemma lab_parts:
  assumes "newExperimentLab intn canonicalHash listeners now worlds s = Inr lab"
  shows "scenario_validate intn s = Inr ()" "labScenario lab = s"
    "newEventLedger (ScLedgerCapacity s) = Inr (oLedger (labObserver lab))"
  using assms
  by (auto simp: newExperimentLab_def newObservability_def andThen_def defaultObservabilityConfig_def split: sum.splits)

lemma labRun_receipt:
  assumes "labRun rateOf intn benchmark ledger results lab = (Some r, err, lab')"
  shows "r = deriveReceipt rateOf intn (labScenario lab) (labHash lab) (snapshotSince 0 ledger)
    (case benchmark of Inl _ \<Rightarrow> 0 | Inr b \<Rightarrow> BrCompleted b)"
  using assms by (auto simp: labRun_def Let_def split: prod.splits option.splits)

subsection \<open>The experiment\<close>



end
